(* ===== verification/Rounding.thy ===== *)
theory Rounding
  imports Complex_Main "HOL-Library.Word" "HOL-Library.Log_Nat"
begin

text \<open>
  Correct rounding of rational numbers to binary floating-point formats: the arithmetic the
  C++ \<open>float\<close> and \<open>double\<close> operators of the program perform. A format is a precision \<open>p\<close>
  (24 for binary32, 53 for binary64) and the exponent \<open>em\<close> of its smallest subnormal
  number. \<open>rnd p em r\<close> is the number of the format nearest to \<open>r\<close>, ties to even, with gradual
  underflow and no upper limit (overflow is the business of the theory on the float type).
  The definitions evaluate: the code equations work on integers, so closed terms stay cheap.

  Main facts: rounding is monotone, odd, the identity on representable numbers, and never
  rounds the difference of two distinct representable numbers to zero.
\<close>

section \<open>Executable scaling by powers of two\<close>

function shl :: "int \<Rightarrow> int \<Rightarrow> int" where
  "shl a n = (if n \<le> 0 then a else shl (2 * a) (n - 1))"
  by pat_completeness auto
termination by (relation "measure (\<lambda>(a, n). nat n)") auto
declare shl.simps [simp del]

lemma shl_eq: "shl a n = a * 2 ^ nat n"
proof (induction a n rule: shl.induct)
  case (1 a n)
  show ?case
  proof (cases "n \<le> 0")
    case True then show ?thesis by (simp add: shl.simps)
  next
    case False
    then have "nat n = Suc (nat (n - 1))" by simp
    with False 1 show ?thesis by (simp add: shl.simps [of a n])
  qed
qed

section \<open>Rounding to an integer and to a format\<close>

definition ilog2 :: "rat \<Rightarrow> int" where
  "ilog2 r = (let (a, b) = quotient_of r; k = bitlen a - bitlen b
              in if 2 powi k \<le> r then k else k - 1)"
definition rne :: "rat \<Rightarrow> int" where
  "rne x = (let f = \<lfloor>x\<rfloor>; d = x - of_int f in
      if d < 1/2 \<or> (d = 1/2 \<and> even f) then f else f + 1)"
definition rne_div :: "int \<Rightarrow> int \<Rightarrow> int" where
  "rne_div n d = (let q = n div d; m = 2 * (n mod d) in
      if m < d \<or> (m = d \<and> even q) then q else q + 1)"
lemma rne_div: "0 < d \<Longrightarrow> rne (of_int n / of_int d) = rne_div n d"
proof -
  assume d: "0 < d"
  have "of_int n = (of_int d * of_int (n div d) + of_int (n mod d) :: rat)"
    by (metis mult_div_mod_eq of_int_add of_int_mult)
  with d have e: "(of_int n / of_int d - of_int (n div d) :: rat) = of_int (n mod d) / of_int d"
    by (simp add: field_simps)
  have "(of_int (n mod d) / of_int d < (1/2::rat)) = (of_int (2 * (n mod d)) < (of_int d :: rat))"
    and "(of_int (n mod d) / of_int d = (1/2::rat)) = (of_int (2 * (n mod d)) = (of_int d :: rat))"
    using d by (auto simp: field_simps)
  then have c: "(of_int (n mod d) / of_int d < (1/2::rat)) = (2 * (n mod d) < d)"
    "(of_int (n mod d) / of_int d = (1/2::rat)) = (2 * (n mod d) = d)"
    unfolding of_int_less_iff of_int_eq_iff .
  show ?thesis by (simp only: rne_def rne_div_def Let_def floor_divide_of_int_eq e c)
qed

definition ulp_exp :: "nat \<Rightarrow> int \<Rightarrow> rat \<Rightarrow> int" where
  "ulp_exp p em r = max (ilog2 \<bar>r\<bar> - (int p - 1)) em"
definition rnd :: "nat \<Rightarrow> int \<Rightarrow> rat \<Rightarrow> rat" where
  "rnd p em r = (if r = 0 then 0 else
     of_int (rne (r / 2 powi ulp_exp p em r)) * 2 powi ulp_exp p em r)"

definition dyadic :: "int \<Rightarrow> int \<Rightarrow> rat" where "dyadic m e = of_int m * 2 powi e"

function dy_norm :: "int \<Rightarrow> int \<Rightarrow> int \<times> int" where
  "dy_norm m e = (if m = 0 then (0, 1) else if 0 \<le> e then (shl m e, 1)
     else if even m then dy_norm (m div 2) (e + 1) else (m, shl 1 (- e)))"
  by pat_completeness auto
termination by (relation "measure (\<lambda>(m, e). nat (- e))") auto
declare dy_norm.simps [simp del]

lemma powi_2_mult: "a * (2 powi e :: rat) = (if 0 \<le> e then a * 2 ^ nat e else a / 2 ^ nat (- e))"
  by (simp add: power_int_def field_simps)

lemma dy_norm: "dy_norm m e = quotient_of (dyadic m e)"
proof (induction m e rule: dy_norm.induct)
  case (1 m e)
  consider "m = 0" | "m \<noteq> 0" "0 \<le> e" | "m \<noteq> 0" "e < 0" "even m" | "m \<noteq> 0" "e < 0" "odd m" by linarith
  then show ?case
  proof cases
    case 1 then show ?thesis by (subst dy_norm.simps) (simp add: dyadic_def)
  next
    case 2
    have "dyadic m e = of_int (m * 2 ^ nat e)" using 2 by (simp add: dyadic_def power_int_def)
    then have "quotient_of (dyadic m e) = (m * 2 ^ nat e, 1)"
      by (simp only: of_int_rat quotient_of_Fract Rat.normalize_def) simp
    with 2 show ?thesis by (simp add: dy_norm.simps [of m e] shl_eq)
  next
    case 3
    have "dyadic (m div 2) (e + 1) = dyadic m e"
      using 3 by (auto simp: dyadic_def power_int_add field_simps elim!: evenE)
    with 3 1 show ?thesis by (simp add: dy_norm.simps [of m e])
  next
    case 4
    have "coprime m (2 ^ nat (- e))" using 4 by simp
    moreover have "dyadic m e = Fract m (2 ^ nat (-e))"
      using 4 by (simp add: dyadic_def power_int_def Fract_of_int_quotient field_simps)
    ultimately show ?thesis using 4
      by (simp add: dy_norm.simps [of m e] shl_eq quotient_of_Fract Rat.normalize_def)
  qed
qed

lemma dyadic_code [code abstract]: "quotient_of (dyadic m e) = dy_norm m e"
  by (simp add: dy_norm)

lemma ilog2_code [code]:
  "ilog2 r = (let (a, b) = quotient_of r; k = bitlen a - bitlen b
              in if shl b k \<le> shl a (- k) then k else k - 1)"
proof -
  obtain a b where q: "quotient_of r = (a, b)" by fastforce
  then have b: "b > 0" by (rule quotient_of_denom_pos)
  have r: "r = of_int a / of_int b" using q by (rule quotient_of_div)
  have "(2 powi k \<le> r) = (shl b k \<le> shl a (-k))" for k
  proof -
    have "(2 powi k \<le> r) = ((of_int b * 2 ^ nat k :: rat) \<le> of_int a * 2 ^ nat (- k))"
      using b by (cases "0 \<le> k") (simp_all add: r power_int_def field_simps)
    also have "\<dots> = (of_int (shl b k) \<le> (of_int (shl a (- k)) :: rat))"
      by (simp add: shl_eq)
    finally show ?thesis by simp
  qed
  then show ?thesis by (simp add: ilog2_def q Let_def)
qed

lemma rnd_code [code]:
  "rnd p em r = (let (a, b) = quotient_of r; e = ulp_exp p em r in
     if a = 0 then 0 else dyadic (rne_div (shl a (- e)) (shl b e)) e)"
proof -
  obtain a b where q: "quotient_of r = (a, b)" by fastforce
  then have b: "b > 0" by (rule quotient_of_denom_pos)
  have r: "r = of_int a / of_int b" using q by (rule quotient_of_div)
  have z: "(a = 0) = (r = 0)" using b by (simp add: r)
  define e where "e = ulp_exp p em r"
  have s: "r / 2 powi e = of_int (shl a (-e)) / of_int (shl b e)"
    using b by (cases "0 \<le> e") (simp_all add: r shl_eq power_int_def field_simps)
  have p: "0 < shl b e" using b by (simp add: shl_eq)
  show ?thesis by (simp add: rnd_def q dyadic_def s rne_div [OF p] flip: z e_def)
qed


section \<open>Properties of the roundings\<close>

lemma rne_of_int [simp]: "rne (of_int k) = k" by (simp add: rne_def)

lemma rne_bounds: "of_int (rne x) - x \<le> 1/2" "x - of_int (rne x) \<le> 1/2"
  unfolding rne_def Let_def using floor_correct [of x] by (auto split: if_splits; linarith)+

lemma rne_mono: "x \<le> y \<Longrightarrow> rne x \<le> rne y"
proof -
  assume xy: "x \<le> y"
  show "rne x \<le> rne y"
  proof (cases "\<lfloor>x\<rfloor> = \<lfloor>y\<rfloor>")
    case True
    with xy show ?thesis by (auto simp: rne_def Let_def)
  next
    case False
    with xy have "\<lfloor>x\<rfloor> + 1 \<le> \<lfloor>y\<rfloor>" using floor_mono [OF xy] by simp
    moreover have "rne x \<le> \<lfloor>x\<rfloor> + 1" and "\<lfloor>y\<rfloor> \<le> rne y" by (auto simp: rne_def Let_def)
    ultimately show ?thesis by linarith
  qed
qed

lemma rne_minus: "rne (- x) = - rne x"
proof (cases "x \<in> \<int>")
  case True
  then obtain k where "x = of_int k" by (auto elim: Ints_cases)
  then show ?thesis by (metis of_int_minus rne_of_int)
next
  case False
  then have f: "\<lfloor>- x\<rfloor> = - \<lfloor>x\<rfloor> - 1" by (simp add: floor_minus ceiling_altdef) (metis Ints_of_int)
  show ?thesis unfolding rne_def Let_def f by (auto; linarith)
qed

lemma bitlen_rat:
  assumes "0 < a" shows "2 powi (bitlen a - 1) \<le> (of_int a :: rat)" "(of_int a :: rat) < 2 powi bitlen a"
proof -
  have n: "0 < bitlen a" using assms bitlen_nonneg [of a] by (simp add: bitlen_eq_zero_iff less_le)
  have b: "2 ^ nat (bitlen a - 1) \<le> a" "a < 2 ^ nat (bitlen a)" using bitlen_bounds [OF assms] by auto
  have "(of_int (2 ^ nat (bitlen a - 1)) :: rat) \<le> of_int a" using b(1) by (simp only: of_int_le_iff)
  with n show "2 powi (bitlen a - 1) \<le> (of_int a :: rat)" by (simp add: power_int_def)
  have "(of_int a :: rat) < of_int (2 ^ nat (bitlen a))" using b(2) by (simp only: of_int_less_iff)
  with n show "(of_int a :: rat) < 2 powi bitlen a" by (simp add: power_int_def)
qed

lemma ilog2_bounds:
  assumes "0 < r" shows "2 powi ilog2 r \<le> r" "r < 2 powi (ilog2 r + 1)"
proof -
  obtain a b where q: "quotient_of r = (a, b)" by fastforce
  then have b: "0 < b" by (rule quotient_of_denom_pos)
  have r: "r = of_int a / of_int b" using q by (rule quotient_of_div)
  with assms b have a: "0 < a" by (simp add: zero_less_divide_iff)
  let ?k = "bitlen a - bitlen b"
  have lo: "2 powi (?k - 1) \<le> r"
  proof -
    have "(2 powi (?k - 1) :: rat) * of_int b \<le> 2 powi (?k - 1) * 2 powi bitlen b"
      using bitlen_rat(2) [OF b] by (intro mult_left_mono) auto
    also have "\<dots> = 2 powi (bitlen a - 1)" by (simp flip: power_int_add)
    also have "\<dots> \<le> of_int a" by (rule bitlen_rat [OF a])
    finally show ?thesis using b by (simp add: r field_simps)
  qed
  have hi: "r < 2 powi (?k + 1)"
  proof -
    have "of_int a < (2 powi bitlen a :: rat)" by (rule bitlen_rat [OF a])
    also have "\<dots> = 2 powi (?k + 1) * 2 powi (bitlen b - 1)" by (simp flip: power_int_add)
    also have "\<dots> \<le> 2 powi (?k + 1) * of_int b"
      using bitlen_rat(1) [OF b] by (intro mult_left_mono) auto
    finally show ?thesis using b by (simp add: r field_simps)
  qed
  show "2 powi ilog2 r \<le> r" "r < 2 powi (ilog2 r + 1)"
    using lo hi by (auto simp: ilog2_def q Let_def)
qed

lemma powi2_less_iff [simp]: "((2::rat) powi m < 2 powi n) = (m < n)"
proof
  assume "(2::rat) powi m < 2 powi n"
  then show "m < n" using power_int_increasing [of n m "2::rat"] by (cases "n \<le> m") auto
qed (simp add: power_int_strict_increasing)

lemma powi2_le_iff [simp]: "((2::rat) powi m \<le> 2 powi n) = (m \<le> n)"
  by (simp flip: not_less)

lemma ilog2_unique: "2 powi k \<le> r \<Longrightarrow> r < 2 powi (k + 1) \<Longrightarrow> ilog2 r = k"
proof -
  assume k: "2 powi k \<le> r" "r < 2 powi (k + 1)"
  then have r: "0 < r" by (meson less_le_trans zero_less_numeral zero_less_power_int)
  have "(2::rat) powi k < 2 powi (ilog2 r + 1)" "(2::rat) powi ilog2 r < 2 powi (k + 1)"
    using k ilog2_bounds [OF r] by (meson le_less_trans)+
  then show ?thesis by simp
qed

lemma ilog2_mono: "0 < r \<Longrightarrow> r \<le> s \<Longrightarrow> ilog2 r \<le> ilog2 s"
proof -
  assume a: "0 < r" "r \<le> s"
  then have "(2::rat) powi ilog2 r < 2 powi (ilog2 s + 1)"
    using ilog2_bounds [of r] ilog2_bounds [of s] by (meson le_less_trans less_le_trans order.trans)
  then show ?thesis by simp
qed

lemma powi2_split: "a \<le> b \<Longrightarrow> (2::rat) powi b = 2 ^ nat (b - a) * 2 powi a"
  using power_int_add [of "2::rat" "b - a" a] by (simp add: power_int_def [of _ "b - a"])

lemma ulp_exp_minus [simp]: "ulp_exp p em (- r) = ulp_exp p em r" by (simp add: ulp_exp_def)

lemma rnd_0 [simp]: "rnd p em 0 = 0" by (simp add: rnd_def)

lemma rnd_minus: "rnd p em (- r) = - rnd p em r"
  by (simp add: rnd_def rne_minus)

definition repr :: "nat \<Rightarrow> int \<Rightarrow> rat \<Rightarrow> bool" where
  "repr p em q \<longleftrightarrow> (\<exists>m e. q = of_int m * 2 powi e \<and> \<bar>m\<bar> \<le> 2 ^ p \<and> em \<le> e)"

lemma repr_minus [simp]: "repr p em (- q) = repr p em q"
  unfolding repr_def by (metis (no_types, opaque_lifting) abs_minus_cancel minus_mult_left of_int_minus minus_minus)

lemma repr_0 [simp]: "repr p em 0"
  unfolding repr_def by (rule exI [of _ 0]) auto

lemma repr_powi2: "em \<le> k \<Longrightarrow> repr p em (2 powi k)"
  unfolding repr_def by (intro exI [of _ 1] exI [of _ k]) auto

text \<open>The scaled significand of a positive number lies below \<open>2^p\<close>.\<close>

lemma rnd_pos_scale:
  fixes r p em
  assumes "0 < r"
  defines "e \<equiv> ulp_exp p em r"
  shows "0 \<le> rne (r / 2 powi e)" "rne (r / 2 powi e) \<le> 2 ^ p"
    "em < e \<Longrightarrow> 1 \<le> p \<Longrightarrow> 2 ^ (p - 1) \<le> rne (r / 2 powi e)"
proof -
  have e: "ilog2 r - (int p - 1) \<le> e" using assms by (simp add: ulp_exp_def)
  show "0 \<le> rne (r / 2 powi e)"
    using rne_mono [of 0 "r / 2 powi e"] assms(1) rne_of_int [of 0] by simp
  have "r < 2 powi (ilog2 r + 1)" by (rule ilog2_bounds [OF assms(1)])
  also have "\<dots> \<le> 2 powi (e + int p)" using e by simp
  also have "\<dots> = of_int (2 ^ p) * 2 powi e" by (simp add: power_int_add)
  finally have "r / 2 powi e \<le> of_int (2 ^ p)" by (simp add: field_simps)
  then show "rne (r / 2 powi e) \<le> 2 ^ p" using rne_mono rne_of_int by metis
  assume h: "em < e" "1 \<le> p"
  then have "e = ilog2 r - (int p - 1)" using assms by (simp add: ulp_exp_def)
  then have "of_int (2 ^ (p - 1)) * 2 powi e = (2 powi ilog2 r :: rat)"
    using h by (simp add: power_int_def [of _ "int _"] flip: power_int_of_nat power_int_add)
  also have "\<dots> \<le> r" by (rule ilog2_bounds [OF assms(1)])
  finally have "of_int (2 ^ (p - 1)) \<le> r / 2 powi e" by (simp add: field_simps)
  then show "2 ^ (p - 1) \<le> rne (r / 2 powi e)" using rne_mono rne_of_int by metis
qed

lemma rnd_repr_pos: "0 < r \<Longrightarrow> repr p em (rnd p em r)"
  unfolding repr_def rnd_def using rnd_pos_scale [where r = r and p = p and em = em]
  by (intro exI [of _ "rne (r / 2 powi ulp_exp p em r)"] exI [of _ "ulp_exp p em r"])
    (auto simp: ulp_exp_def)

lemma rnd_repr: "repr p em (rnd p em r)"
proof (cases r "0::rat" rule: linorder_cases)
  case less
  then show ?thesis using rnd_repr_pos [of "- r" p em] by (simp add: rnd_minus)
qed (simp_all add: rnd_repr_pos)

lemma rnd_mono_pos:
  assumes p: "1 \<le> p" and r: "0 < r" and rs: "r \<le> s"
  shows "rnd p em r \<le> rnd p em s"
proof -
  let ?e = "ulp_exp p em r" and ?f = "ulp_exp p em s"
  have s: "0 < s" using r rs by simp
  have ef: "?e \<le> ?f" using ilog2_mono [OF r rs] r s by (simp add: ulp_exp_def)
  show ?thesis
  proof (cases "?e = ?f")
    case True
    have "r / 2 powi ?e \<le> s / 2 powi ?e" using rs by (simp add: divide_right_mono)
    then have "rne (r / 2 powi ?e) \<le> rne (s / 2 powi ?f)" using True rne_mono by metis
    then show ?thesis using r s True by (simp add: rnd_def)
  next
    case False
    with ef have lt: "?e < ?f" by simp
    moreover have "em \<le> ?e" by (simp add: ulp_exp_def)
    ultimately have "em < ?f" by simp
    then have lo: "2 ^ (p - 1) \<le> rne (s / 2 powi ?f)" by (rule rnd_pos_scale(3) [OF s _ p])
    have "rnd p em r = of_int (rne (r / 2 powi ?e)) * 2 powi ?e" using r by (simp add: rnd_def)
    also have "\<dots> \<le> of_int (2 ^ p) * 2 powi ?e"
      using rnd_pos_scale(2) [OF r, where p = p and em = em] by (intro mult_right_mono) (simp_all only: of_int_le_iff, simp)
    also have "\<dots> = 2 powi (?e + int p)" by (simp add: power_int_add)
    also have "\<dots> \<le> 2 powi (?f + int (p - 1))" using lt p by simp
    also have "\<dots> = of_int (2 ^ (p - 1)) * 2 powi ?f" by (simp add: power_int_add)
    also have "\<dots> \<le> of_int (rne (s / 2 powi ?f)) * 2 powi ?f"
      using lo by (intro mult_right_mono) (simp_all only: of_int_le_iff, simp)
    also have "\<dots> = rnd p em s" using s by (simp add: rnd_def)
    finally show ?thesis .
  qed
qed

lemma rnd_nonneg: "0 \<le> r \<Longrightarrow> 0 \<le> rnd p em r"
  using rnd_pos_scale(1) [where r = r and p = p and em = em] by (cases "r = 0") (auto simp: rnd_def)

lemma rnd_mono: "1 \<le> p \<Longrightarrow> r \<le> s \<Longrightarrow> rnd p em r \<le> rnd p em s"
proof -
  assume p: "1 \<le> p" and rs: "r \<le> s"
  consider "0 < r" | "r \<le> 0" "0 \<le> s" | "s < 0" by linarith
  then show ?thesis
  proof cases
    case 1 then show ?thesis by (rule rnd_mono_pos [OF p _ rs])
  next
    case 2
    then show ?thesis using rnd_nonneg [of "- r" p em] rnd_nonneg [of s p em] by (simp add: rnd_minus)
  next
    case 3 then show ?thesis using rnd_mono_pos [OF p, of "- s" "- r" em] rs by (simp add: rnd_minus)
  qed
qed

lemma rnd_repr_id_pos:
  assumes p: "1 \<le> p" and q: "0 < q" and rep: "repr p em q"
  shows "rnd p em q = q"
proof -
  obtain m e where me: "q = of_int m * 2 powi e" "\<bar>m\<bar> \<le> 2 ^ p" "em \<le> e"
    using rep by (auto simp: repr_def)
  have "\<not> (2::rat) powi e < 0" by (simp add: not_less)
  with q me(1) have m: "0 < m" by (simp add: zero_less_mult_iff)
  define u where "u = ulp_exp p em q"
  have main: "rnd p em q = q" if "q / 2 powi u = of_int k" for k
  proof -
    have "rnd p em q = of_int k * 2 powi u" using q that by (simp add: rnd_def flip: u_def)
    also have "\<dots> = q" by (simp flip: that)
    finally show ?thesis .
  qed
  show ?thesis
  proof (cases "u \<le> e")
    case True
    then have "q / 2 powi u = of_int (m * 2 ^ nat (e - u))"
      by (simp add: me(1) powi2_split [OF True])
    then show ?thesis by (rule main)
  next
    case False
    then have u: "u = ilog2 q - (int p - 1)" using me(3) q by (auto simp: ulp_exp_def u_def)
    with False have eu: "e + 1 \<le> ilog2 q - (int p - 1)" by simp
    have "of_int m \<le> (of_int (2 ^ p) :: rat)" using me(2) m by (simp only: of_int_le_iff)
    then have "q \<le> 2 powi (int p + e)" unfolding me(1) by (simp add: power_int_add mult_right_mono)
    moreover have "2 powi (int p + e) \<le> (2 powi ilog2 q :: rat)" using eu by simp
    moreover have "2 powi ilog2 q \<le> q" by (rule ilog2_bounds [OF q])
    ultimately have qe: "2 powi ilog2 q = q" by linarith
    have "2 powi (u + int (p - 1)) = (of_int (2 ^ (p - 1)) * 2 powi u :: rat)"
      by (simp add: power_int_add)
    moreover have "u + int (p - 1) = ilog2 q" using u p by simp
    ultimately have "q / 2 powi u = of_int (2 ^ (p - 1))" by (simp add: qe)
    then show ?thesis by (rule main)
  qed
qed

lemma rnd_repr_id: "1 \<le> p \<Longrightarrow> repr p em q \<Longrightarrow> rnd p em q = q"
  using rnd_repr_id_pos [of p q em] rnd_repr_id_pos [of p "- q" em]
  by (cases q "0::rat" rule: linorder_cases) (auto simp: rnd_minus)

lemma rnd_rnd [simp]: "1 \<le> p \<Longrightarrow> rnd p em (rnd p em r) = rnd p em r"
  by (simp add: rnd_repr_id rnd_repr)

lemma rnd_le_repr: "1 \<le> p \<Longrightarrow> repr p em q \<Longrightarrow> r \<le> q \<Longrightarrow> rnd p em r \<le> q"
  using rnd_mono [of p r q em] by (simp add: rnd_repr_id)

lemma rnd_ge_repr: "1 \<le> p \<Longrightarrow> repr p em q \<Longrightarrow> q \<le> r \<Longrightarrow> q \<le> rnd p em r"
  using rnd_mono [of p q r em] by (simp add: rnd_repr_id)

text \<open>Gradual underflow: the difference of two distinct representable numbers does not round to 0.\<close>

lemma repr_diff_ge:
  assumes "repr p em x" "repr p em y" "x \<noteq> y" shows "2 powi em \<le> \<bar>x - y\<bar>"
proof -
  obtain m e n f where x: "x = of_int m * 2 powi e" "em \<le> e" and y: "y = of_int n * 2 powi f" "em \<le> f"
    using assms(1,2) by (auto simp: repr_def)
  let ?k = "m * 2 ^ nat (e - em) - n * 2 ^ nat (f - em)"
  have "x = of_int (m * 2 ^ nat (e - em)) * 2 powi em" "y = of_int (n * 2 ^ nat (f - em)) * 2 powi em"
    by (simp_all add: x(1) y(1) powi2_split [OF x(2)] powi2_split [OF y(2)])
  then have d: "x - y = of_int ?k * 2 powi em" by (simp add: left_diff_distrib)
  have "?k \<noteq> 0"
  proof
    assume "?k = 0"
    then have "x - y = of_int 0 * 2 powi em" using d by (simp only:)
    with assms(3) show False by simp
  qed
  then have "1 \<le> \<bar>?k\<bar>" by linarith
  then have "(1::rat) \<le> of_int \<bar>?k\<bar>" by (simp only: of_int_1_le_iff)
  then show ?thesis unfolding d abs_mult of_int_abs by simp
qed

lemma rnd_diff_nonzero:
  assumes "1 \<le> p" "repr p em x" "repr p em y" "x \<noteq> y" shows "rnd p em (x - y) \<noteq> 0"
proof -
  have d: "2 powi em \<le> \<bar>x - y\<bar>" by (rule repr_diff_ge [OF assms(2-4)])
  have "2 powi em \<le> rnd p em \<bar>x - y\<bar>" by (rule rnd_ge_repr [OF assms(1) repr_powi2 d]) simp
  moreover have "(0::rat) < 2 powi em" by simp
  ultimately have "0 < rnd p em \<bar>x - y\<bar>" by linarith
  then show ?thesis by (auto simp: abs_if rnd_minus [of p em "x - y", simplified] split: if_splits)
qed

end
