(* ===== verification/Ieee_Float.thy ===== *)
theory Ieee_Float
  imports Rounding
begin

text \<open>
  The IEEE 754 values and operators behind C++ \<open>float\<close> (\<open>f32\<close>) and \<open>double\<close> (\<open>f64\<close>): NaN,
  signed infinities, signed zeros and nonzero rationals of the format. Every operator computes
  the exact rational result and rounds it once (round to nearest, ties to even), as the
  default environment of the targets does; expressions are evaluated operator by operator in
  the type the C++ rules give them, with no extended intermediate precision and no
  contraction into fused operations. Comparisons are false on NaN, so a guard such as
  \<open>!(x > 0)\<close> is modelled with its NaN branch. NaN payloads are not kept.

  \<open>std::hypot\<close> and \<open>std::sqrt\<close> are the correctly rounded functions. \<open>fl_ok\<close> says that a value
  is one the format has; every operator returns such a value.
\<close>

section \<open>Values and operators\<close>

datatype (dead 'e, dead 'p) fl = FNaN | FInf bool | FZero bool | FNum rat

definition fl_emin :: "('e::len, 'p::len) fl itself \<Rightarrow> int" where
  "fl_emin _ = 3 - 2 ^ (LENGTH('e) - 1) - int LENGTH('p)"

definition fl_emax :: "('e::len, 'p::len) fl itself \<Rightarrow> int" where
  "fl_emax _ = 2 ^ (LENGTH('e) - 1)"

definition fround :: "bool \<Rightarrow> rat \<Rightarrow> ('e::len, 'p::len) fl" where
  "fround z r =
    (let v = rnd LENGTH('p) (fl_emin TYPE(('e, 'p) fl)) r
     in if r = 0 then FZero z
        else if v = 0 then FZero (r < 0)
        else if fl_emax TYPE(('e, 'p) fl) \<le> ilog2 \<bar>v\<bar> then FInf (v < 0)
        else FNum v)"

definition lit :: "rat \<Rightarrow> ('e::len, 'p::len) fl" where
  "lit r = fround False r"

fun fsgn :: "('e, 'p) fl \<Rightarrow> bool" where
  "fsgn FNaN = False"
| "fsgn (FInf s) = s"
| "fsgn (FZero s) = s"
| "fsgn (FNum q) = (q < 0)"

fun fval :: "('e, 'p) fl \<Rightarrow> rat" where
  "fval (FNum q) = q"
| "fval _ = 0"

fun is_fin :: "('e, 'p) fl \<Rightarrow> bool" where
  "is_fin FNaN = False"
| "is_fin (FInf _) = False"
| "is_fin _ = True"

instantiation fl :: (len, len) "{zero, one, uminus, plus, minus, times, inverse, ord}"
begin

definition zero_fl :: "('a, 'b) fl" where "zero_fl = FZero False"

definition one_fl :: "('a, 'b) fl" where "one_fl = FNum 1"

fun uminus_fl :: "('a, 'b) fl \<Rightarrow> ('a, 'b) fl" where
  "uminus_fl FNaN = FNaN"
| "uminus_fl (FInf s) = FInf (\<not> s)"
| "uminus_fl (FZero s) = FZero (\<not> s)"
| "uminus_fl (FNum q) = FNum (- q)"

fun plus_fl :: "('a, 'b) fl \<Rightarrow> ('a, 'b) fl \<Rightarrow> ('a, 'b) fl" where
  "plus_fl FNaN y = FNaN"
| "plus_fl x FNaN = FNaN"
| "plus_fl (FInf s) (FInf t) = (if s = t then FInf s else FNaN)"
| "plus_fl (FInf s) y = FInf s"
| "plus_fl x (FInf t) = FInf t"
| "plus_fl x y = fround (fsgn x \<and> fsgn y) (fval x + fval y)"

definition minus_fl :: "('a, 'b) fl \<Rightarrow> ('a, 'b) fl \<Rightarrow> ('a, 'b) fl" where
  "minus_fl x y = x + (- y)"

fun times_fl :: "('a, 'b) fl \<Rightarrow> ('a, 'b) fl \<Rightarrow> ('a, 'b) fl" where
  "times_fl FNaN y = FNaN"
| "times_fl x FNaN = FNaN"
| "times_fl (FInf s) (FZero t) = FNaN"
| "times_fl (FZero s) (FInf t) = FNaN"
| "times_fl (FInf s) y = FInf (s \<noteq> fsgn y)"
| "times_fl x (FInf t) = FInf (fsgn x \<noteq> t)"
| "times_fl x y = fround (fsgn x \<noteq> fsgn y) (fval x * fval y)"

fun divide_fl :: "('a, 'b) fl \<Rightarrow> ('a, 'b) fl \<Rightarrow> ('a, 'b) fl" where
  "divide_fl FNaN y = FNaN"
| "divide_fl x FNaN = FNaN"
| "divide_fl (FInf s) (FInf t) = FNaN"
| "divide_fl (FInf s) y = FInf (s \<noteq> fsgn y)"
| "divide_fl x (FInf t) = FZero (fsgn x \<noteq> t)"
| "divide_fl (FZero s) (FZero t) = FNaN"
| "divide_fl x (FZero t) = FInf (fsgn x \<noteq> t)"
| "divide_fl x y = fround (fsgn x \<noteq> fsgn y) (fval x / fval y)"

definition inverse_fl :: "('a, 'b) fl \<Rightarrow> ('a, 'b) fl" where
  "inverse_fl x = divide 1 x"

fun less_eq_fl :: "('a, 'b) fl \<Rightarrow> ('a, 'b) fl \<Rightarrow> bool" where
  "less_eq_fl FNaN y = False"
| "less_eq_fl x FNaN = False"
| "less_eq_fl (FInf True) y = True"
| "less_eq_fl x (FInf False) = True"
| "less_eq_fl (FInf False) y = False"
| "less_eq_fl x (FInf True) = False"
| "less_eq_fl x y = (fval x \<le> fval y)"

fun less_fl :: "('a, 'b) fl \<Rightarrow> ('a, 'b) fl \<Rightarrow> bool" where
  "less_fl FNaN y = False"
| "less_fl x FNaN = False"
| "less_fl x (FInf True) = False"
| "less_fl (FInf False) y = False"
| "less_fl (FInf True) y = True"
| "less_fl x (FInf False) = True"
| "less_fl x y = (fval x < fval y)"

instance ..

end

definition feq :: "('e::len, 'p::len) fl \<Rightarrow> ('e, 'p) fl \<Rightarrow> bool" where
  "feq x y \<longleftrightarrow> x \<le> y \<and> y \<le> x"

definition std_max :: "('e::len, 'p::len) fl \<Rightarrow> ('e, 'p) fl \<Rightarrow> ('e, 'p) fl" where
  "std_max a b = (if a < b then b else a)"

definition std_min :: "('e::len, 'p::len) fl \<Rightarrow> ('e, 'p) fl \<Rightarrow> ('e, 'p) fl" where
  "std_min a b = (if b < a then b else a)"

fun ffabs :: "('e, 'p) fl \<Rightarrow> ('e, 'p) fl" where
  "ffabs FNaN = FNaN"
| "ffabs (FInf s) = FInf False"
| "ffabs (FZero s) = FZero False"
| "ffabs (FNum q) = FNum \<bar>q\<bar>"

fun fconv :: "('e::len, 'p::len) fl \<Rightarrow> ('f::len, 'q::len) fl" where
  "fconv FNaN = FNaN"
| "fconv (FInf s) = FInf s"
| "fconv (FZero s) = FZero s"
| "fconv (FNum q) = fround (q < 0) q"

definition fl_of_int :: "int \<Rightarrow> ('e::len, 'p::len) fl" where
  "fl_of_int k = fround False (of_int k)"

fun fl_trunc :: "('e, 'p) fl \<Rightarrow> int option" where
  "fl_trunc FNaN = None"
| "fl_trunc (FInf _) = None"
| "fl_trunc (FZero _) = Some 0"
| "fl_trunc (FNum q) = Some (if q < 0 then - \<lfloor>- q\<rfloor> else \<lfloor>q\<rfloor>)"

fun ffloor :: "('e::len, 'p::len) fl \<Rightarrow> ('e, 'p) fl" where
  "ffloor (FNum q) = fround (q < 0) (of_int \<lfloor>q\<rfloor>)"
| "ffloor x = x"

fun ffmod :: "('e::len, 'p::len) fl \<Rightarrow> ('e, 'p) fl \<Rightarrow> ('e, 'p) fl" where
  "ffmod FNaN y = FNaN"
| "ffmod x FNaN = FNaN"
| "ffmod (FInf s) y = FNaN"
| "ffmod x (FZero t) = FNaN"
| "ffmod x (FInf t) = x"
| "ffmod (FZero s) y = FZero s"
| "ffmod (FNum q) (FNum d) =
    fround (q < 0) (q - d * of_int (if q / d < 0 then - \<lfloor>- (q / d)\<rfloor> else \<lfloor>q / d\<rfloor>))"

function isqrt :: "int \<Rightarrow> int" where
  "isqrt n = (if n \<le> 0 then 0 else
     let r = 2 * isqrt (n div 4) in if (r + 1) * (r + 1) \<le> n then r + 1 else r)"
  by pat_completeness auto
termination by (relation "measure nat") auto
declare isqrt.simps [simp del]

lemma isqrt_correct:
  "0 \<le> n \<Longrightarrow> 0 \<le> isqrt n \<and> isqrt n * isqrt n \<le> n \<and> n < (isqrt n + 1) * (isqrt n + 1)"
proof (induction n rule: isqrt.induct)
  case (1 n)
  show ?case
  proof (cases "n \<le> 0")
    case True
    with 1 show ?thesis by (simp add: isqrt.simps)
  next
    case False
    define s where "s = isqrt (n div 4)"
    have ih: "0 \<le> s" "s * s \<le> n div 4" "n div 4 < (s + 1) * (s + 1)"
      using 1 False by (auto simp: s_def)
    then have "4 * (s * s) \<le> n" "n < 4 * ((s + 1) * (s + 1))" by linarith+
    with False ih(1) show ?thesis
      by (auto simp: isqrt.simps [of n] Let_def algebra_simps simp flip: s_def)
  qed
qed

definition rne_sqrt :: "rat \<Rightarrow> int" where
  "rne_sqrt x =
    (let m = isqrt \<lfloor>x\<rfloor>; h = (of_int m + 1/2) * (of_int m + 1/2)
     in if x < h \<or> (x = h \<and> even m) then m else m + 1)"

definition sqrt_rnd :: "nat \<Rightarrow> int \<Rightarrow> rat \<Rightarrow> rat" where
  "sqrt_rnd p em q =
    (let u = max (ilog2 q div 2 - (int p - 1)) em
     in of_int (rne_sqrt (q / 2 powi (2 * u))) * 2 powi u)"

definition fsqrt_rat :: "rat \<Rightarrow> ('e::len, 'p::len) fl" where
  "fsqrt_rat q = (if q = 0 then FZero False
     else fround False (sqrt_rnd LENGTH('p) (fl_emin TYPE(('e, 'p) fl)) q))"

fun fsqrt :: "('e::len, 'p::len) fl \<Rightarrow> ('e, 'p) fl" where
  "fsqrt FNaN = FNaN"
| "fsqrt (FInf s) = (if s then FNaN else FInf False)"
| "fsqrt (FZero s) = FZero s"
| "fsqrt (FNum q) = (if q < 0 then FNaN else fsqrt_rat q)"

fun fhypot :: "('e::len, 'p::len) fl \<Rightarrow> ('e, 'p) fl \<Rightarrow> ('e, 'p) fl" where
  "fhypot (FInf _) y = FInf False"
| "fhypot x (FInf _) = FInf False"
| "fhypot FNaN y = FNaN"
| "fhypot x FNaN = FNaN"
| "fhypot x y = fsqrt_rat (fval x * fval x + fval y * fval y)"

type_synonym f32 = "(8, 24) fl"
type_synonym f64 = "(11, 53) fl"

section \<open>Well-formed values\<close>

definition fl_ok :: "('e::len, 'p::len) fl \<Rightarrow> bool" where
  "fl_ok x = (case x of
     FNum q \<Rightarrow> q \<noteq> 0 \<and> repr LENGTH('p) (fl_emin TYPE(('e, 'p) fl)) q
       \<and> ilog2 \<bar>q\<bar> < fl_emax TYPE(('e, 'p) fl)
   | _ \<Rightarrow> True)"

section \<open>Classification and comparison\<close>

fun is_nan :: "('e, 'p) fl \<Rightarrow> bool" where
  "is_nan FNaN = True"
| "is_nan _ = False"

fun is_zero :: "('e, 'p) fl \<Rightarrow> bool" where
  "is_zero (FZero _) = True"
| "is_zero _ = False"

lemma fin_not_nan [simp]: "is_fin x \<Longrightarrow> \<not> is_nan x"
  by (cases x) auto

lemma less_fin: "is_fin x \<Longrightarrow> is_fin y \<Longrightarrow> (x < y) = (fval x < fval y)"
  by (cases x; cases y) auto

lemma le_fin: "is_fin x \<Longrightarrow> is_fin y \<Longrightarrow> (x \<le> y) = (fval x \<le> fval y)"
  by (cases x; cases y) auto

lemma inf_less_fin [simp]: "is_fin x \<Longrightarrow> (FInf s < x) = s" "is_fin x \<Longrightarrow> (x < FInf s) = (\<not> s)"
  by (cases x; cases s; simp)+

text \<open>Comparisons see a finite value only through \<open>fval\<close>: the sign of a zero is invisible.\<close>

lemma less_fval_cong:
  "is_fin a \<Longrightarrow> is_fin b \<Longrightarrow> fval a = fval b \<Longrightarrow> (x < a) = (x < b)"
  "is_fin a \<Longrightarrow> is_fin b \<Longrightarrow> fval a = fval b \<Longrightarrow> (a < x) = (b < x)"
  by (cases x; simp add: less_fin; cases a; cases b; simp)+

lemma fl_less_irrefl [simp]: "\<not> x < (x :: ('e::len, 'p::len) fl)"
  by (cases x) (auto elim: less_fl.elims)

lemma fl_less_trans: "x < y \<Longrightarrow> y < z \<Longrightarrow> x < (z :: ('e::len, 'p::len) fl)"
  by (cases x; cases y; cases z) (auto elim!: less_fl.elims)

lemma fl_less_asym: "x < y \<Longrightarrow> \<not> y < (x :: ('e::len, 'p::len) fl)"
  using fl_less_irrefl fl_less_trans by blast

lemma fl_not_less: "\<not> is_nan x \<Longrightarrow> \<not> is_nan y \<Longrightarrow> (\<not> x < y) = (y \<le> (x :: ('e::len, 'p::len) fl))"
  by (cases x; cases y) (auto split: bool.splits elim!: less_fl.elims less_eq_fl.elims)

lemma fl_less_imp_le: "x < y \<Longrightarrow> x \<le> (y :: ('e::len, 'p::len) fl)"
  by (cases x; cases y) (auto elim!: less_fl.elims)

lemma fl_less_not_nan: "x < y \<Longrightarrow> \<not> is_nan x \<and> \<not> is_nan (y :: ('e::len, 'p::len) fl)"
  by (cases x; cases y) auto

lemma fl_le_not_nan: "x \<le> y \<Longrightarrow> \<not> is_nan x \<and> \<not> is_nan (y :: ('e::len, 'p::len) fl)"
  by (cases x; cases y) auto

section \<open>Results of the operators\<close>

lemma len_ge_1 [simp]: "1 \<le> LENGTH('p::len)" "Suc 0 \<le> LENGTH('p::len)"
  using len_gt_0 [where 'a = 'p] by linarith+

lemma fl_ok_simps [simp]:
  "fl_ok FNaN" "fl_ok (FInf s)" "fl_ok (FZero s)"
  by (simp_all add: fl_ok_def)

lemma fl_ok_fround [simp]: "fl_ok (fround z r)"
  by (auto simp: fround_def Let_def fl_ok_def rnd_repr)

lemma fl_ok_uminus [simp]: "fl_ok x \<Longrightarrow> fl_ok (- x)"
  by (cases x) (auto simp: fl_ok_def)

lemma fl_ok_plus [simp]: "fl_ok (x + y)"
  by (cases x; cases y) auto

lemma fl_ok_minus [simp]: "fl_ok (x - y)"
  by (simp add: minus_fl_def)

lemma fl_ok_times [simp]: "fl_ok (x * y)"
  by (cases x; cases y) auto

lemma fl_ok_divide [simp]: "fl_ok (divide x y)"
  by (cases x; cases y) auto

lemma fl_ok_fsqrt_rat [simp]: "fl_ok (fsqrt_rat q)"
  by (simp add: fsqrt_rat_def)

lemma fl_ok_fhypot [simp]: "fl_ok (fhypot x y)"
  by (cases x; cases y) auto

lemma fl_ok_fconv [simp]: "fl_ok (fconv x)"
  by (cases x) auto

lemma fl_ok_lit [simp]: "fl_ok (lit r)"
  by (simp add: lit_def)

lemma fl_ok_std_max [simp]: "fl_ok a \<Longrightarrow> fl_ok b \<Longrightarrow> fl_ok (std_max a b)"
  by (simp add: std_max_def)

lemma fl_ok_std_min [simp]: "fl_ok a \<Longrightarrow> fl_ok b \<Longrightarrow> fl_ok (std_min a b)"
  by (simp add: std_min_def)

lemma fl_ok_repr: "fl_ok (x :: ('e::len, 'p::len) fl) \<Longrightarrow>
    repr LENGTH('p) (fl_emin TYPE(('e, 'p) fl)) (fval x)"
  by (cases x) (auto simp: fl_ok_def)

lemma fl_ok_rnd: "fl_ok (x :: ('e::len, 'p::len) fl) \<Longrightarrow>
    rnd LENGTH('p) (fl_emin TYPE(('e, 'p) fl)) (fval x) = fval x"
  by (simp add: rnd_repr_id fl_ok_repr)

lemma abs_rnd: "\<bar>rnd p em r\<bar> = rnd p em \<bar>r\<bar>"
  using rnd_nonneg [of r p em] rnd_nonneg [of "- r" p em] by (auto simp: abs_if rnd_minus)

text \<open>A result below the overflow threshold is finite and is the rounded value.\<close>

lemma fround_fin:
  assumes r: "\<bar>r\<bar> \<le> 2 powi k" and k: "fl_emin TYPE(('e::len, 'p::len) fl) \<le> k"
    "k < fl_emax TYPE(('e, 'p) fl)"
  shows "is_fin (fround z r :: ('e, 'p) fl)"
    and "fval (fround z r :: ('e, 'p) fl) = rnd LENGTH('p) (fl_emin TYPE(('e, 'p) fl)) r"
proof -
  let ?v = "rnd LENGTH('p) (fl_emin TYPE(('e, 'p) fl)) r"
  have le: "\<bar>?v\<bar> \<le> 2 powi k"
    unfolding abs_rnd by (rule rnd_le_repr [OF _ repr_powi2 [OF k(1)] r]) simp
  have "ilog2 \<bar>?v\<bar> < fl_emax TYPE(('e, 'p) fl)" if "?v \<noteq> 0"
  proof -
    have "2 powi ilog2 \<bar>?v\<bar> \<le> \<bar>?v\<bar>" using that by (intro ilog2_bounds) simp
    with le have "(2::rat) powi ilog2 \<bar>?v\<bar> \<le> 2 powi k" by linarith
    with k(2) show ?thesis by simp
  qed
  then show "is_fin (fround z r :: ('e, 'p) fl)"
    "fval (fround z r :: ('e, 'p) fl) = ?v"
    by (auto simp: fround_def Let_def)
qed

lemma plus_fin: "is_fin x \<Longrightarrow> is_fin y \<Longrightarrow> x + y = fround (fsgn x \<and> fsgn y) (fval x + fval y)"
  by (cases x; cases y) auto

lemma minus_fin: "is_fin x \<Longrightarrow> is_fin y \<Longrightarrow> x - y = fround (fsgn x \<and> fsgn (- y)) (fval x - fval y)"
  by (cases x; cases y) (auto simp: minus_fl_def)

lemma times_fin: "is_fin x \<Longrightarrow> is_fin y \<Longrightarrow> x * y = fround (fsgn x \<noteq> fsgn y) (fval x * fval y)"
  by (cases x; cases y) auto

lemma plus_commute_fl: "x + y = y + (x :: ('e::len, 'p::len) fl)"
  by (cases x; cases y) (auto simp: add.commute conj_commute)

lemma times_commute_fl: "x * y = y * (x :: ('e::len, 'p::len) fl)"
  by (cases x; cases y) (auto simp: mult.commute intro!: arg_cong2 [where f = fround])

text \<open>Gradual underflow at the level of the type: distinct numbers have a nonzero difference.\<close>

lemma minus_not_zero:
  assumes "fl_ok x" "fl_ok y" "fval x \<noteq> fval y" "is_fin x" "is_fin y"
  shows "\<not> is_zero (x - (y :: ('e::len, 'p::len) fl))"
proof -
  have "rnd LENGTH('p) (fl_emin TYPE(('e, 'p) fl)) (fval x - fval y) \<noteq> 0"
    using assms by (intro rnd_diff_nonzero fl_ok_repr) auto
  with assms show ?thesis by (auto simp: minus_fin fround_def Let_def)
qed

lemma is_fin_zero_one [simp]: "is_fin 0" "is_fin 1" "fval 0 = 0" "fval 1 = 1" "fl_ok 0"
  by (simp_all add: zero_fl_def one_fl_def)

lemma ilog2_1 [simp]: "ilog2 1 = 0"
  by (rule ilog2_unique) simp_all

lemma fl_ok_one: "(0::int) < fl_emax TYPE(('e::len, 'p::len) fl) \<Longrightarrow> fl_emin TYPE(('e, 'p) fl) \<le> 0 \<Longrightarrow>
   fl_ok (1 :: ('e, 'p) fl)"
  using repr_powi2 [of "fl_emin TYPE(('e, 'p) fl)" 0 "LENGTH('p)"]
  by (simp add: one_fl_def fl_ok_def)

lemma fl_consts [simp]: "fl_emin TYPE((8, 24) fl) = - 149" "fl_emax TYPE((8, 24) fl) = 128"
  "fl_emin TYPE((11, 53) fl) = - 1074" "fl_emax TYPE((11, 53) fl) = 1024"
  by (simp_all add: fl_emin_def fl_emax_def)

lemma fl_ok_one32 [simp]: "fl_ok (1 :: f32)" and fl_ok_one64 [simp]: "fl_ok (1 :: f64)"
  by (simp_all add: fl_ok_one)

text \<open>\<open>std::max\<close> and \<open>std::min\<close> with a bound as first argument clamp, and absorb NaN.\<close>

lemma std_max_bound: "\<not> is_nan a \<Longrightarrow> a \<le> std_max a b"
  using fl_not_less [of a a] by (auto simp: std_max_def fl_less_imp_le)

lemma std_min_bound: "\<not> is_nan a \<Longrightarrow> std_min a b \<le> a"
  using fl_not_less [of a a] by (auto simp: std_min_def fl_less_imp_le)

lemma std_max_not_nan: "\<not> is_nan a \<Longrightarrow> \<not> is_nan (std_max a b)"
  by (auto simp: std_max_def dest: fl_less_not_nan)

lemma std_min_not_nan: "\<not> is_nan a \<Longrightarrow> \<not> is_nan (std_min a b)"
  by (auto simp: std_min_def dest: fl_less_not_nan)

section \<open>Monotonicity and exactness\<close>

lemma fl_le_trans: "x \<le> y \<Longrightarrow> y \<le> z \<Longrightarrow> x \<le> (z :: ('e::len, 'p::len) fl)"
  by (cases x; cases y; cases z) (auto elim!: less_eq_fl.elims)

lemma fl_less_le_trans: "x < y \<Longrightarrow> y \<le> z \<Longrightarrow> x < (z :: ('e::len, 'p::len) fl)"
  by (cases x; cases y; cases z) (auto elim!: less_eq_fl.elims less_fl.elims)

lemma fl_le_less_trans: "x \<le> y \<Longrightarrow> y < z \<Longrightarrow> x < (z :: ('e::len, 'p::len) fl)"
  by (cases x; cases y; cases z) (auto elim!: less_eq_fl.elims less_fl.elims)

lemma fl_le_refl: "\<not> is_nan x \<Longrightarrow> x \<le> (x :: ('e::len, 'p::len) fl)"
  using fl_not_less [of x x] by simp

lemma fround_not_nan [simp]: "\<not> is_nan (fround z r)"
  by (simp add: fround_def Let_def)

lemma fround_0 [simp]: "fround z 0 = FZero z"
  by (simp add: fround_def)

lemma fround_mono:
  assumes "r \<le> s" shows "fround z r \<le> (fround z' s :: ('e::len, 'p::len) fl)"
proof -
  let ?p = "LENGTH('p)" and ?em = "fl_emin TYPE(('e, 'p) fl)" and ?E = "fl_emax TYPE(('e, 'p) fl)"
  define v w where "v = rnd ?p ?em r" and "w = rnd ?p ?em s"
  have vw: "v \<le> w" unfolding v_def w_def by (rule rnd_mono [OF _ assms]) simp
  have val: "fround z0 q = (let u = rnd ?p ?em q in
      if u = 0 then FZero (if q = 0 then z0 else q < 0)
      else if ?E \<le> ilog2 \<bar>u\<bar> then FInf (u < 0) else (FNum u :: ('e, 'p) fl))" for z0 q
    by (auto simp: fround_def Let_def)
  have pos: "?E \<le> ilog2 w" if "?E \<le> ilog2 v" "0 < v"
    using ilog2_mono [OF that(2) vw] that(1) by simp
  have neg: "?E \<le> ilog2 (- v)" if "?E \<le> ilog2 (- w)" "w < 0"
    using ilog2_mono [of "- w" "- v"] that vw by simp
  show ?thesis using vw pos neg
    by (cases v "0::rat" rule: linorder_cases; cases w "0::rat" rule: linorder_cases)
      (auto simp: val Let_def simp flip: v_def w_def)
qed

lemma minus_right_mono:
  assumes "t \<le> u" "is_fin t" "is_fin u" "is_fin w"
  shows "t - w \<le> u - (w :: ('e::len, 'p::len) fl)"
  using assms by (simp add: minus_fin le_fin fround_mono)

lemma minus_left_anti:
  assumes "t \<le> u" "is_fin u" "is_fin w"
  shows "w - u \<le> w - (t :: ('e::len, 'p::len) fl)"
proof (cases "is_fin t")
  case True
  with assms show ?thesis by (simp add: minus_fin le_fin fround_mono)
next
  case False
  with assms(1,2) have "t = FInf True" by (cases t; cases u) (auto elim: less_eq_fl.elims)
  with assms(3) have "w - t = FInf False" by (cases w) (auto simp: minus_fl_def)
  moreover have "w - u \<noteq> FNaN" using fround_not_nan assms(2,3) by (metis minus_fin is_nan.simps(1))
  ultimately show ?thesis by (cases "w - u") (auto split: bool.split intro: fl_le_refl, metis (full_types) less_eq_fl.simps)
qed

lemma fround_exact:
  assumes "repr LENGTH('p) (fl_emin TYPE(('e::len, 'p::len) fl)) r" "\<bar>r\<bar> \<le> 2 powi k"
    "fl_emin TYPE(('e, 'p) fl) \<le> k" "k < fl_emax TYPE(('e, 'p) fl)"
  shows "fround z r = (if r = 0 then FZero z else (FNum r :: ('e, 'p) fl))"
  using fround_fin [OF assms(2-4), of z] assms(1)
  by (cases "fround z r :: ('e, 'p) fl") (auto simp: rnd_repr_id fround_def Let_def split: if_splits)

text \<open>Whole multiples of \<open>1/1024\<close> up to \<open>2^24\<close> of them are exact in single precision, and so
  are their sums and differences.\<close>

definition milli :: "int \<Rightarrow> f32" where "milli k = lit (of_int k / 1024)"

lemma milli_exact:
  assumes "\<bar>k\<bar> \<le> 2 ^ 24"
  shows "fround z (of_int k / 1024) = (if k = 0 then FZero z else (FNum (of_int k / 1024) :: f32))"
proof -
  have "repr 24 (- 149) (of_int k / 1024)" unfolding repr_def
    by (intro exI [of _ k] exI [of _ "- 10"]) (use assms in simp)
  moreover have "\<bar>of_int k / 1024 :: rat\<bar> \<le> 2 powi 24"
  proof -
    have "\<bar>of_int k :: rat\<bar> \<le> of_int (2 ^ 24)" using assms by (metis of_int_abs of_int_le_iff)
    then show ?thesis by simp
  qed
  ultimately show ?thesis by (subst fround_exact [where k = 24]) auto
qed

lemma milli_plus:
  assumes "0 \<le> a" "0 \<le> b" "a + b \<le> 2 ^ 24" shows "milli a + milli b = milli (a + b)"
proof -
  have "fround False (of_int (a + b) / 1024) = milli (a + b)" by (simp add: milli_def lit_def)
  with assms show ?thesis
    by (simp add: milli_def lit_def milli_exact plus_fin add_divide_distrib)
qed

lemma milli_minus:
  assumes "0 \<le> b" "b \<le> a" "a \<le> 2 ^ 24" shows "milli a - milli b = milli (a - b)"
proof -
  have "fround False (of_int (a - b) / 1024) = milli (a - b)" by (simp add: milli_def lit_def)
  with assms show ?thesis
    by (simp add: milli_def lit_def milli_exact minus_fin diff_divide_distrib)
qed

lemma milli_0: "milli 0 = 0"
  by (simp add: milli_def lit_def fround_def zero_fl_def)

end
