(* ===== verification/Prelude.thy ===== *)
theory Prelude
  imports Ieee_Float
begin

text \<open>
  Shared vocabulary: the machine integer types of the code, the results of fallible
  operations, stable sorting with a comparator, and the generic list facts the components use.
\<close>

section \<open>Types\<close>

type_synonym u8 = "8 word"
type_synonym u16 = "16 word"
type_synonym u32 = "32 word"
type_synonym u64 = "64 word"

end
