(* ===== verification/Std_Containers.thy ===== *)
theory Std_Containers
  imports Prelude "HOL-Library.Multiset"
begin

text \<open>
  The standard containers and algorithms the program uses. A \<open>std::map\<close> is an association
  list with strictly increasing keys (its iteration order); the locale \<open>std_map\<close> is the
  interface its clients rely on, interpreted below on these lists. \<open>std::stable_sort\<close> is
  insertion sort with the comparator; \<open>std::sort\<close>, whose order of equivalent elements the
  standard leaves open, is a parameter of the definitions that call it, and
  \<open>sort_spec\<close> is the documented behaviour they rely on.
\<close>

section \<open>The interface of an ordered map\<close>

locale std_map =
  fixes find :: "'k::linorder \<Rightarrow> 'm \<Rightarrow> 'v option"
    and put :: "'k \<Rightarrow> 'v \<Rightarrow> 'm \<Rightarrow> 'm"
    and del :: "'k \<Rightarrow> 'm \<Rightarrow> 'm"
    and keys :: "'m \<Rightarrow> 'k list"
    and ok :: "'m \<Rightarrow> bool"
  assumes find_put: "ok m \<Longrightarrow> find k (put j v m) = (if k = j then Some v else find k m)"
    and find_del: "ok m \<Longrightarrow> find k (del j m) = (if k = j then None else find k m)"
    and ok_put: "ok m \<Longrightarrow> ok (put k v m)"
    and ok_del: "ok m \<Longrightarrow> ok (del k m)"
    and keys_ordered: "ok m \<Longrightarrow> sorted_wrt (<) (keys m)"
    and keys_find: "ok m \<Longrightarrow> (k \<in> set (keys m)) = (find k m \<noteq> None)"
begin

lemma set_keys_put: "ok m \<Longrightarrow> set (keys (put k v m)) = insert k (set (keys m))"
  by (auto simp: keys_find ok_put find_put split: if_splits)

lemma set_keys_del: "ok m \<Longrightarrow> set (keys (del k m)) = set (keys m) - {k}"
  by (auto simp: keys_find ok_del find_del split: if_splits)

lemma keys_distinct: "ok m \<Longrightarrow> distinct (keys m)"
  using keys_ordered strict_sorted_iff by blast

lemma ok_dels: "ok m \<Longrightarrow> ok (foldl (\<lambda>m k. del k m) m ks)"
  by (induction ks arbitrary: m) (auto simp: ok_del)

lemma set_keys_dels: "ok m \<Longrightarrow> set (keys (foldl (\<lambda>m k. del k m) m ks)) = set (keys m) - set ks"
  by (induction ks arbitrary: m) (auto simp: ok_del set_keys_del)

lemma length_keys_put:
  "ok m \<Longrightarrow> find k m = None \<Longrightarrow> length (keys (put k v m)) = Suc (length (keys m))"
proof -
  assume m: "ok m" "find k m = None"
  have "length (keys (put k v m)) = card (set (keys (put k v m)))"
    using m by (simp add: distinct_card keys_distinct ok_put)
  also have "\<dots> = Suc (card (set (keys m)))"
    using m keys_find [of m k] by (simp add: set_keys_put)
  also have "card (set (keys m)) = length (keys m)"
    using m by (simp add: distinct_card keys_distinct)
  finally show ?thesis .
qed

end

section \<open>Association lists with increasing keys\<close>

type_synonym ('k, 'v) omap = "('k \<times> 'v) list"

fun om_find :: "'k::linorder \<Rightarrow> ('k, 'v) omap \<Rightarrow> 'v option" where
  "om_find k [] = None"
| "om_find k ((j, v) # m) = (if k = j then Some v else om_find k m)"

fun om_put :: "'k::linorder \<Rightarrow> 'v \<Rightarrow> ('k, 'v) omap \<Rightarrow> ('k, 'v) omap" where
  "om_put k v [] = [(k, v)]"
| "om_put k v ((j, w) # m) =
    (if k < j then (k, v) # (j, w) # m
     else if k = j then (k, v) # m
     else (j, w) # om_put k v m)"

fun om_del :: "'k::linorder \<Rightarrow> ('k, 'v) omap \<Rightarrow> ('k, 'v) omap" where
  "om_del k [] = []"
| "om_del k ((j, w) # m) = (if k = j then m else (j, w) # om_del k m)"

definition om_keys :: "('k::linorder, 'v) omap \<Rightarrow> 'k list" where
  "om_keys m = map fst m"

definition om_ok :: "('k::linorder, 'v) omap \<Rightarrow> bool" where
  "om_ok m = sorted_wrt (<) (map fst m)"

lemma om_ok_Nil [simp]: "om_ok []" by (simp add: om_ok_def)

lemma om_ok_Cons: "om_ok ((k, v) # m) \<longleftrightarrow> (\<forall>j \<in> set (map fst m). k < j) \<and> om_ok m"
  by (auto simp: om_ok_def)

lemma om_find_None: "k \<notin> fst ` set m \<Longrightarrow> om_find k m = None"
  by (induction m) auto

lemma om_find_iff: "k \<in> fst ` set m \<longleftrightarrow> om_find k m \<noteq> None"
  by (induction m) (auto split: if_splits)

lemma om_find_in: "om_find k m = Some v \<Longrightarrow> (k, v) \<in> set m"
  by (induction m) (auto split: if_splits)

lemma om_find_mem: "om_ok m \<Longrightarrow> (k, v) \<in> set m \<Longrightarrow> om_find k m = Some v"
  by (induction m) (fastforce simp: om_ok_Cons)+

lemma fst_om_put: "fst ` set (om_put k v m) = insert k (fst ` set m)"
  by (induction k v m rule: om_put.induct) (simp_all add: insert_commute)

lemma om_ok_put: "om_ok m \<Longrightarrow> om_ok (om_put k v m)"
proof (induction m)
  case (Cons a m)
  obtain j w where a: "a = (j, w)" by force
  with Cons have IH: "om_ok (om_put k v m)" and lt: "\<forall>i \<in> fst ` set m. j < i" by (auto simp: om_ok_Cons)
  show ?case
  proof (cases "k < j")
    case True
    with Cons.prems a show ?thesis by (fastforce simp: om_ok_Cons)
  next
    case False
    show ?thesis
    proof (cases "k = j")
      case True
      with Cons.prems a show ?thesis by (auto simp: om_ok_Cons)
    next
      case ne: False
      with False have "j < k" by simp
      with IH lt False ne a show ?thesis
        by (simp add: om_ok_Cons fst_om_put del: ball_simps) auto
    qed
  qed
qed (simp add: om_ok_def)

lemma set_om_del: "om_ok m \<Longrightarrow> set (om_del k m) = {p \<in> set m. fst p \<noteq> k}"
  by (induction k m rule: om_del.induct) (auto simp: om_ok_Cons)

lemma om_ok_del: "om_ok m \<Longrightarrow> om_ok (om_del k m)"
  by (induction k m rule: om_del.induct) (auto simp: om_ok_Cons set_om_del)

lemma om_find_put [simp]: "om_find k (om_put j v m) = (if k = j then Some v else om_find k m)"
  by (induction m) auto

lemma om_find_del: "om_ok m \<Longrightarrow> om_find k (om_del j m) = (if k = j then None else om_find k m)"
proof (induction m)
  case (Cons a m)
  then show ?case by (cases a) (auto simp: om_ok_Cons set_om_del intro!: om_find_None)
qed simp

interpretation om: std_map om_find om_put om_del om_keys om_ok
  by unfold_locales
    (auto simp: om_find_del om_ok_put om_ok_del om_ok_def om_keys_def om_find_iff
      simp flip: om_ok_def)

section \<open>Sorting with a comparator\<close>

fun insert_by :: "('a \<Rightarrow> 'a \<Rightarrow> bool) \<Rightarrow> 'a \<Rightarrow> 'a list \<Rightarrow> 'a list" where
  "insert_by c x [] = [x]"
| "insert_by c x (y # ys) = (if c y x then y # insert_by c x ys else x # y # ys)"

definition stable_sort :: "('a \<Rightarrow> 'a \<Rightarrow> bool) \<Rightarrow> 'a list \<Rightarrow> 'a list" where
  "stable_sort c xs = foldr (insert_by c) xs []"

text \<open>What the standard asks of a comparator, on the elements that are sorted.\<close>

definition weak_order_on :: "'a set \<Rightarrow> ('a \<Rightarrow> 'a \<Rightarrow> bool) \<Rightarrow> bool" where
  "weak_order_on A c \<longleftrightarrow>
     (\<forall>x \<in> A. \<forall>y \<in> A. c x y \<longrightarrow> \<not> c y x) \<and>
     (\<forall>x \<in> A. \<forall>y \<in> A. \<forall>z \<in> A. c x z \<longrightarrow> c x y \<or> c y z)"

definition sort_spec :: "(('a \<Rightarrow> 'a \<Rightarrow> bool) \<Rightarrow> 'a list \<Rightarrow> 'a list) \<Rightarrow> bool" where
  "sort_spec srt \<longleftrightarrow> (\<forall>c xs. weak_order_on (set xs) c \<longrightarrow>
     mset (srt c xs) = mset xs \<and> sorted_wrt (\<lambda>a b. \<not> c b a) (srt c xs))"

lemma mset_insert_by [simp]: "mset (insert_by c x xs) = add_mset x (mset xs)"
  by (induction xs) auto

lemma mset_stable_sort [simp]: "mset (stable_sort c xs) = mset xs"
  by (induction xs) (auto simp: stable_sort_def)

lemma set_stable_sort [simp]: "set (stable_sort c xs) = set xs"
  by (metis mset_stable_sort set_mset_mset)

lemma sorted_insert_by:
  "weak_order_on (insert x (set xs)) c \<Longrightarrow> sorted_wrt (\<lambda>a b. \<not> c b a) xs \<Longrightarrow>
   sorted_wrt (\<lambda>a b. \<not> c b a) (insert_by c x xs)"
proof (induction xs)
  case (Cons y ys)
  have m: "set (insert_by c x ys) = insert x (set ys)"
    by (metis mset_insert_by set_mset_add_mset_insert set_mset_mset)
  have "weak_order_on (insert x (set ys)) c" using Cons.prems(1) by (auto simp: weak_order_on_def)
  with Cons have IH: "sorted_wrt (\<lambda>a b. \<not> c b a) (insert_by c x ys)" by simp
  show ?case
  proof (cases "c y x")
    case True
    with IH m Cons.prems show ?thesis by (auto simp: weak_order_on_def)
  next
    case False
    have "\<not> c z x" if z: "z \<in> set ys" for z
    proof
      assume "c z x"
      with Cons.prems(1) z have "c z y \<or> c y x" unfolding weak_order_on_def by auto
      with False Cons.prems(2) z show False by auto
    qed
    with False Cons.prems(2) show ?thesis by auto
  qed
qed simp

lemma weak_order_on_subset: "weak_order_on A c \<Longrightarrow> B \<subseteq> A \<Longrightarrow> weak_order_on B c"
  unfolding weak_order_on_def by blast

lemma sorted_stable_sort:
  "weak_order_on (set xs) c \<Longrightarrow> sorted_wrt (\<lambda>a b. \<not> c b a) (stable_sort c xs)"
proof (induction xs)
  case (Cons x xs)
  have "weak_order_on (set xs) c" by (rule weak_order_on_subset [OF Cons.prems]) auto
  with Cons have "sorted_wrt (\<lambda>a b. \<not> c b a) (insert_by c x (stable_sort c xs))"
    by (intro sorted_insert_by) auto
  then show ?case by (simp add: stable_sort_def)
qed (simp add: stable_sort_def)

lemma stable_sort_spec: "sort_spec stable_sort"
  by (simp add: sort_spec_def sorted_stable_sort)

lemma sort_spec_set: "sort_spec srt \<Longrightarrow> weak_order_on (set xs) c \<Longrightarrow>
   set (srt c xs) = set xs \<and> length (srt c xs) = length xs \<and> (distinct (srt c xs) = distinct xs)"
  unfolding sort_spec_def by (metis mset_eq_setD size_mset mset_eq_imp_distinct_iff)

lemma weak_order_key: "weak_order_on A (\<lambda>a b. (f b :: 'b::linorder) < f a)"
  by (auto simp: weak_order_on_def)

section \<open>Best-candidate scans and greedy assignment\<close>

text \<open>
  The loop \<open>for d: if (skip d) continue; v = val d; if (v better than best) {best = v; idx = d;}\<close>
  of both trackers; the index starts at -1, here \<open>None\<close>.
\<close>

fun scan_best :: "('f \<Rightarrow> 'f \<Rightarrow> bool) \<Rightarrow> (nat \<Rightarrow> 'f) \<Rightarrow> (nat \<Rightarrow> bool) \<Rightarrow> nat list \<Rightarrow>
    'f \<times> nat option \<Rightarrow> 'f \<times> nat option" where
  "scan_best better val skip [] acc = acc"
| "scan_best better val skip (d # ds) (best, idx) =
    (if skip d then scan_best better val skip ds (best, idx)
     else let v = val d in
       if better v best then scan_best better val skip ds (v, Some d)
       else scan_best better val skip ds (best, idx))"

lemma scan_best_sound:
  "snd (scan_best better val skip ds (b, i)) = Some d \<Longrightarrow> i = Some d \<or> d \<in> set ds \<and> \<not> skip d"
  by (induction ds arbitrary: b i) (auto simp: Let_def split: if_splits)

text \<open>
  One pass over the tracks: each takes the detection its picker returns, if any, and the
  others are left over. The state is the list of used flags.
\<close>

fun greedy_pass :: "('t \<Rightarrow> bool list \<Rightarrow> nat option) \<Rightarrow> 't list \<Rightarrow> bool list \<Rightarrow>
    ('t \<times> nat) list \<times> 't list \<times> bool list" where
  "greedy_pass pick [] used = ([], [], used)"
| "greedy_pass pick (t # ts) used =
    (case pick t used of
       Some d \<Rightarrow> (case greedy_pass pick ts (used[d := True]) of (ms, un, u) \<Rightarrow> ((t, d) # ms, un, u))
     | None \<Rightarrow> (case greedy_pass pick ts used of (ms, un, u) \<Rightarrow> (ms, t # un, u)))"

locale picker =
  fixes pick :: "'t \<Rightarrow> bool list \<Rightarrow> nat option" and n :: nat
  assumes pick_free: "pick t used = Some d \<Longrightarrow> length used = n \<Longrightarrow> d < n \<and> \<not> used ! d"
begin

lemma pass_used:
  assumes "greedy_pass pick ts used = (ms, un, u)" "length used = n"
  shows "length u = n" and "\<And>d. d < n \<Longrightarrow> u ! d \<longleftrightarrow> used ! d \<or> d \<in> snd ` set ms"
  using assms
proof (induction ts arbitrary: used ms un)
  case (Cons t ts)
  {
    case 1
    with Cons.IH(1) show ?case by (auto split: option.splits prod.splits)
  next
    case 2
    show ?case
    proof (cases "pick t used")
      case None
      with 2 Cons.IH(2) show ?thesis by (auto split: prod.splits)
    next
      case (Some e)
      with 2 obtain ms' where p: "greedy_pass pick ts (used[e := True]) = (ms', un, u)"
        "ms = (t, e) # ms'" by (auto split: prod.splits)
      from pick_free [OF Some 2(3)] have "e < n" by simp
      with Cons.IH(2) [OF 2(1) p(1)] 2 p(2) show ?thesis by (auto simp: nth_list_update split: if_splits)
    qed
  }
qed auto

lemma pass_assignment:
  assumes "greedy_pass pick ts used = (ms, un, u)" "length used = n"
  shows "\<forall>(t, d) \<in> set ms. d < n \<and> \<not> used ! d" and "distinct (map snd ms)"
    and "mset (map fst ms) + mset un = mset ts"
  using assms
proof (induction ts arbitrary: used ms un)
  case (Cons t ts)
  {
    fix P used ms un assume "greedy_pass pick (t # ts) used = (ms, un, u)" "length used = n"
      and none: "\<And>un'. pick t used = None \<Longrightarrow> greedy_pass pick ts used = (ms, un', u) \<Longrightarrow> un = t # un' \<Longrightarrow> P"
      and some: "\<And>e ms'. pick t used = Some e \<Longrightarrow> e < n \<Longrightarrow> \<not> used ! e \<Longrightarrow>
        greedy_pass pick ts (used[e := True]) = (ms', un, u) \<Longrightarrow> ms = (t, e) # ms' \<Longrightarrow> P"
    then have P using pick_free [of t used] by (auto split: option.splits prod.splits)
  } note split = this
  {
    case 1
    then show ?case
    proof (rule split)
      fix un' assume "greedy_pass pick ts used = (ms, un', u)"
      then show ?thesis by (rule Cons.IH(1) [OF _ 1(2)])
    next
      fix e ms' assume e: "e < n" "\<not> used ! e" and p: "greedy_pass pick ts (used[e := True]) = (ms', un, u)"
        and ms: "ms = (t, e) # ms'"
      have "\<forall>(t, d) \<in> set ms'. d < n \<and> \<not> used[e := True] ! d" using Cons.IH(1) [OF p] 1(2) by simp
      with e 1(2) ms show ?thesis by (auto simp: nth_list_update split: if_splits)
    qed
  next
    case 2
    then show ?case
    proof (rule split)
      fix un' assume "greedy_pass pick ts used = (ms, un', u)"
      then show ?thesis by (rule Cons.IH(2) [OF _ 2(2)])
    next
      fix e ms' assume e: "e < n" and p: "greedy_pass pick ts (used[e := True]) = (ms', un, u)"
        and ms: "ms = (t, e) # ms'"
      have "\<forall>(t, d) \<in> set ms'. d < n \<and> \<not> used[e := True] ! d" "distinct (map snd ms')"
        using Cons.IH(1,2) [OF p] 2(2) by simp_all
      with e 2(2) ms show ?thesis by auto
    qed
  next
    case 3
    then show ?case
    proof (rule split)
      fix un' assume "greedy_pass pick ts used = (ms, un', u)" "un = t # un'"
      with Cons.IH(3) 3(2) show ?thesis by fastforce
    next
      fix e ms' assume "greedy_pass pick ts (used[e := True]) = (ms', un, u)" "ms = (t, e) # ms'"
      with Cons.IH(3) 3(2) show ?thesis by fastforce
    qed
  }
qed auto

end

end
