(* ===== verification/Geometry.thy ===== *)
theory Geometry
  imports Prelude
begin

text \<open>
  Two-dimensional geometry on single-precision points: \<open>core-cpp/geometry.h\<close> (counting zone
  and entry line of the person tracker) and \<open>core-cpp/vb/src/geom2d.cpp\<close> (zones of the
  analyzers). The ray-casting loop \<open>for (i = 0, j = n - 1; i < n; j = i++)\<close> carries the
  previous vertex and the parity flag.
\<close>

section \<open>Point in polygon\<close>

type_synonym point = "f32 \<times> f32"

definition edge_straddles :: "f32 \<Rightarrow> point \<Rightarrow> point \<Rightarrow> bool" where
  "edge_straddles py pj pc = ((snd pc > py) \<noteq> (snd pj > py))"

definition edge_crosses :: "f32 \<Rightarrow> f32 \<Rightarrow> point \<Rightarrow> point \<Rightarrow> bool" where
  "edge_crosses px py pj pc =
     (case (pc, pj) of ((xi, yi), (xj, yj)) \<Rightarrow>
       edge_straddles py pj pc \<and> px < (xj - xi) * (py - yi) / (yj - yi) + xi)"

fun pip_loop :: "f32 \<Rightarrow> f32 \<Rightarrow> point \<Rightarrow> point list \<Rightarrow> bool \<Rightarrow> bool" where
  "pip_loop px py pj [] inside = inside"
| "pip_loop px py pj (pc # rest) inside =
     pip_loop px py pc rest (if edge_crosses px py pj pc then \<not> inside else inside)"

text \<open>\<open>geom::point_in_polygon\<close> rejects fewer than three vertices; the one of \<open>vb\<close> does not.\<close>

definition geom_point_in_polygon :: "f32 \<Rightarrow> f32 \<Rightarrow> point list \<Rightarrow> bool" where
  "geom_point_in_polygon px py poly =
     (if length poly < 3 then False else pip_loop px py (last poly) poly False)"

definition vb_point_in_polygon :: "f32 \<Rightarrow> f32 \<Rightarrow> point list \<Rightarrow> bool" where
  "vb_point_in_polygon x y poly = (if poly = [] then False else pip_loop x y (last poly) poly False)"

fun edges_from :: "point \<Rightarrow> point list \<Rightarrow> (point \<times> point) list" where
  "edges_from pj [] = []"
| "edges_from pj (pc # rest) = (pj, pc) # edges_from pc rest"

definition crossings :: "f32 \<Rightarrow> f32 \<Rightarrow> (point \<times> point) list \<Rightarrow> nat" where
  "crossings px py es = length (filter (\<lambda>(pj, pc). edge_crosses px py pj pc) es)"

lemma pip_loop_parity:
  "pip_loop px py pj ps inside = (inside \<noteq> odd (crossings px py (edges_from pj ps)))"
  by (induction px py pj ps inside rule: pip_loop.induct) (auto simp: crossings_def)

lemma edges_from_append:
  "edges_from p (xs @ [y]) = edges_from p xs @ [(last (p # xs), y)]"
  by (induction p xs rule: edges_from.induct) auto

lemma crossings_append [simp]: "crossings px py (a @ b) = crossings px py a + crossings px py b"
  by (simp add: crossings_def)

lemma crossings_rotate1:
  "crossings px py (edges_from (last (rotate1 ps)) (rotate1 ps)) =
   crossings px py (edges_from (last ps) ps)"
  by (cases ps) (auto simp: edges_from_append crossings_def)

lemma crossings_none:
  "(\<And>pj pc. pj \<in> insert p (set ps) \<Longrightarrow> pc \<in> set ps \<Longrightarrow> \<not> edge_straddles py pj pc) \<Longrightarrow>
   crossings px py (edges_from p ps) = 0"
proof (induction p ps rule: edges_from.induct)
  case (2 pj pc rest)
  then have "crossings px py (edges_from pc rest) = 0" by auto
  moreover have "\<not> edge_straddles py pj pc" using 2 by auto
  ultimately show ?case by (simp add: crossings_def edge_crosses_def split: prod.splits)
qed (simp add: crossings_def)

section \<open>Directed line and segment crossing\<close>

definition line_side :: "f32 \<Rightarrow> f32 \<Rightarrow> f32 \<Rightarrow> f32 \<Rightarrow> f32 \<Rightarrow> f32 \<Rightarrow> f32" where
  "line_side ax ay bx1 by1 px py = (bx1 - ax) * (py - ay) - (by1 - ay) * (px - ax)"

definition segment_crossing ::
  "f32 \<Rightarrow> f32 \<Rightarrow> f32 \<Rightarrow> f32 \<Rightarrow> f32 \<Rightarrow> f32 \<Rightarrow> f32 \<Rightarrow> f32 \<Rightarrow> int" where
  "segment_crossing ax ay bx1 by1 p0x p0y p1x p1y =
    (let side0 = line_side ax ay bx1 by1 p0x p0y;
         side1 = line_side ax ay bx1 by1 p1x p1y
     in if feq side0 0 \<or> feq side1 0 \<or> (side0 > 0) = (side1 > 0) then 0
        else
          let sa = line_side p0x p0y p1x p1y ax ay;
              sb = line_side p0x p0y p1x p1y bx1 by1
          in if feq sa 0 \<or> feq sb 0 \<or> (sa > 0) = (sb > 0) then 0
             else if side0 > 0 then 1 else - 1)"

lemma feq_0: "\<not> is_nan x \<Longrightarrow> \<not> feq x 0 \<Longrightarrow> \<not> 0 < x \<Longrightarrow> x < (0 :: f32)"
  using fl_not_less [of 0 x] fl_not_less [of x 0] by (auto simp: feq_def)

lemma feq_irrefl_less: "x < y \<Longrightarrow> \<not> feq x y" "x < y \<Longrightarrow> \<not> feq y x"
  for x y :: "('e::len, 'p::len) fl"
  using fl_not_less [of x y] fl_less_not_nan [of x y] by (auto simp: feq_def)

section \<open>Properties\<close>

text \<open>The division of the ray-casting test never divides by zero: whenever the test that
  guards it holds, the computed difference of the two ordinates is not a zero.\<close>

theorem edge_denominator_nonzero:
  assumes "edge_straddles py (xj, yj) (xi, yi)" "fl_ok yi" "fl_ok yj"
  shows "\<not> is_zero (yj - yi)"
proof (cases "is_fin yi \<and> is_fin yj")
  case True
  have "fval yj \<noteq> fval yi"
  proof
    assume e: "fval yj = fval yi"
    have "(py < yi) = (py < yj)" using True e by (intro less_fval_cong) auto
    with assms(1) show False by (simp add: edge_straddles_def)
  qed
  with assms True show ?thesis by (intro minus_not_zero) auto
next
  case False
  then show ?thesis by (cases yi; cases yj) (auto simp: minus_fl_def)
qed

text \<open>Membership of a zone does not depend on which vertex the polygon starts with.\<close>

theorem pip_rotate:
  "vb_point_in_polygon x y (rotate n poly) = vb_point_in_polygon x y poly"
proof (induction n)
  case (Suc n)
  have "vb_point_in_polygon x y (rotate1 ps) = vb_point_in_polygon x y ps" for ps
    by (simp add: vb_point_in_polygon_def pip_loop_parity crossings_rotate1)
  with Suc show ?case by simp
qed simp

lemma pip_equivalence:
  "geom_point_in_polygon x y poly = (3 \<le> length poly \<and> vb_point_in_polygon x y poly)"
  by (auto simp: geom_point_in_polygon_def vb_point_in_polygon_def)

lemma pip_outside_band:
  assumes "(\<forall>p \<in> set poly. y < snd p) \<or> (\<forall>p \<in> set poly. \<not> y < snd p)"
  shows "\<not> vb_point_in_polygon x y poly"
proof (cases "poly = []")
  case False
  then have "last poly \<in> set poly" by simp
  with assms have "crossings x y (edges_from (last poly) poly) = 0"
    by (intro crossings_none) (auto simp: edge_straddles_def)
  then show ?thesis by (simp add: vb_point_in_polygon_def pip_loop_parity)
qed (simp add: vb_point_in_polygon_def)

text \<open>On side values that are numbers, a crossing is reported exactly when the two segments
  properly intersect, as \<open>1\<close> from the left to the right of the directed line and \<open>-1\<close> the other
  way; touching an end point or moving along the line is no crossing.\<close>

theorem segment_crossing_iff:
  fixes ax ay bx1 by1 p0x p0y p1x p1y :: f32
  defines "s0 \<equiv> line_side ax ay bx1 by1 p0x p0y" and "s1 \<equiv> line_side ax ay bx1 by1 p1x p1y"
    and "sa \<equiv> line_side p0x p0y p1x p1y ax ay" and "sb \<equiv> line_side p0x p0y p1x p1y bx1 by1"
  assumes nn: "\<not> is_nan s0" "\<not> is_nan s1" "\<not> is_nan sa" "\<not> is_nan sb"
  shows "segment_crossing ax ay bx1 by1 p0x p0y p1x p1y =
    (if (sa < 0 \<and> 0 < sb) \<or> (0 < sa \<and> sb < 0)
     then if 0 < s0 \<and> s1 < 0 then 1 else if s0 < 0 \<and> 0 < s1 then - 1 else 0
     else 0)"
  unfolding segment_crossing_def Let_def s0_def [symmetric] s1_def [symmetric]
    sa_def [symmetric] sb_def [symmetric]
  using nn by (auto dest: feq_0 feq_irrefl_less fl_less_asym)

theorem edge_denominator_nonzero_witness:
  "edge_straddles (lit (1/2)) (0, 0) (0, 1) \<and> \<not> is_zero (0 - (1 :: f32))"
proof -
  have "edge_straddles (lit (1/2)) (0, 0) (0, 1)" by code_simp
  with edge_denominator_nonzero [of "lit (1/2)" 0 0 0 1] show ?thesis by simp
qed

theorem segment_crossing_iff_witness: "segment_crossing 0 0 0 1 (- 1) (lit (1/2)) 1 (lit (1/2)) = 1"
proof -
  have "\<not> is_nan (line_side 0 0 0 1 (- 1) (lit (1/2)))" "\<not> is_nan (line_side 0 0 0 1 1 (lit (1/2)))"
    "\<not> is_nan (line_side (- 1) (lit (1/2)) 1 (lit (1/2)) 0 0)"
    "\<not> is_nan (line_side (- 1) (lit (1/2)) 1 (lit (1/2)) 0 1)" by code_simp+
  moreover have "line_side (- 1) (lit (1/2)) 1 (lit (1/2)) 0 0 < 0"
    "0 < line_side (- 1) (lit (1/2)) 1 (lit (1/2)) 0 1"
    "0 < line_side 0 0 0 1 (- 1) (lit (1/2))" "line_side 0 0 0 1 1 (lit (1/2)) < 0" by code_simp+
  ultimately show ?thesis by (simp add: segment_crossing_iff)
qed

end
