(* ===== verification/Person_Tracker.thy ===== *)
theory Person_Tracker
  imports Std_Containers Geometry
begin

text \<open>
  \<open>core-cpp/person_tracker.{h,cpp}\<close> with \<open>detection_box.h\<close>: the retail tracker. The tracks
  are a \<open>std::map\<close> from id to person; one \<open>update\<close> matches the person detections of a frame
  to the tracks (overlap first, then centre distance), advances velocity, dwell state and
  entry-line counts of the matched tracks, ages and removes the others, and opens tracks for
  the detections left over. The track-removed callback is the list of records \<open>update\<close>
  returns; the order \<open>std::sort\<close> gives to equally old tracks is the parameter \<open>srt\<close>.
  Signed counters are \<open>int\<close> (their overflow is undefined in C++ and out of scope).
\<close>

section \<open>Data\<close>

record detection_box =
  db_x :: f32
  db_y :: f32
  db_w :: f32
  db_h :: f32
  db_score :: f32
  db_target :: int

datatype dwell_state = TRANSIENT | DWELLING | ENGAGED | ASSISTANCE

fun dwell_rank :: "dwell_state \<Rightarrow> nat" where
  "dwell_rank TRANSIENT = 0"
| "dwell_rank DWELLING = 1"
| "dwell_rank ENGAGED = 2"
| "dwell_rank ASSISTANCE = 3"

lemma dwell_rank_inj: "dwell_rank a = dwell_rank b \<Longrightarrow> a = b"
  by (cases a; cases b) auto

instantiation dwell_state :: linorder
begin

definition less_eq_dwell_state :: "dwell_state \<Rightarrow> dwell_state \<Rightarrow> bool" where
  "less_eq_dwell_state a b = (dwell_rank a \<le> dwell_rank b)"

definition less_dwell_state :: "dwell_state \<Rightarrow> dwell_state \<Rightarrow> bool" where
  "less_dwell_state a b = (dwell_rank a < dwell_rank b)"

instance
  by intro_classes
    (auto simp: less_eq_dwell_state_def less_dwell_state_def intro: dwell_rank_inj)

end

fun get_dwell_state_name :: "dwell_state \<Rightarrow> string" where
  "get_dwell_state_name TRANSIENT = ''transient''"
| "get_dwell_state_name DWELLING = ''dwelling''"
| "get_dwell_state_name ENGAGED = ''engaged''"
| "get_dwell_state_name ASSISTANCE = ''assistance''"

record track_record =
  tr_track_id :: int
  tr_dwell_time :: f32
  tr_engagement_time :: f32
  tr_avg_speed :: f32
  tr_removal_time :: f32
  tr_exited_at_edge :: bool

record tracked_person =
  tp_track_id :: int
  tp_detection :: detection_box
  tp_velocity_x :: f32
  tp_velocity_y :: f32
  tp_speed_px_s :: f32
  tp_speed_m_s :: f32
  tp_dwell_state :: dwell_state
  tp_dwell_duration_sec :: f32
  tp_first_seen_time :: f32
  tp_last_seen_time :: f32
  tp_dwell_start_time :: f32
  tp_engagement_start_time :: f32
  tp_frames_tracked :: int
  tp_stationary_frames :: int
  tp_lost_frames :: int
  tp_speed_sum :: f32
  tp_speed_samples :: int
  tp_last_near_edge :: bool

record tracker_config =
  tc_iou_threshold :: f32
  tc_dist_threshold :: f32
  tc_max_lost_frames_center :: int
  tc_max_lost_frames_edge :: int
  tc_vel_alpha :: f32
  tc_vel_alpha_sudden :: f32
  tc_velocity_zero_threshold :: f32
  tc_dwell_speed_threshold :: f32
  tc_dwell_min_duration :: f32
  tc_dwell_assistance_threshold :: f32
  tc_dwell_min_frames :: int
  tc_frame_width :: int
  tc_frame_height :: int
  tc_edge_margin :: f32
  tc_min_frames_for_count :: int
  tc_stationary_stable_threshold :: int
  tc_stationary_decay_slow :: int
  tc_stationary_decay_fast :: int
  tc_avg_person_height_m :: f32

definition default_tracker_config :: tracker_config where
  "default_tracker_config =
    \<lparr>tc_iou_threshold = lit (2/10), tc_dist_threshold = lit (15/100),
     tc_max_lost_frames_center = 90, tc_max_lost_frames_edge = 15,
     tc_vel_alpha = lit (8/100), tc_vel_alpha_sudden = lit (6/10),
     tc_velocity_zero_threshold = lit 3, tc_dwell_speed_threshold = lit 10,
     tc_dwell_min_duration = lit (3/2), tc_dwell_assistance_threshold = lit 20,
     tc_dwell_min_frames = 5, tc_frame_width = 640, tc_frame_height = 640,
     tc_edge_margin = lit (15/100), tc_min_frames_for_count = 10,
     tc_stationary_stable_threshold = 30, tc_stationary_decay_slow = 2,
     tc_stationary_decay_fast = 5, tc_avg_person_height_m = lit (17/10)\<rparr>"

record state_count =
  sc_total :: int
  sc_browsing :: int
  sc_engaged :: int
  sc_assistance :: int

record person_tracker =
  pt_config :: tracker_config
  pt_tracks :: "(int, tracked_person) omap"
  pt_next_track_id :: int
  pt_last_update_time :: f32
  pt_entry_count :: int
  pt_exit_count :: int
  pt_on_track_removed :: bool
  pt_count_zone :: "point list"
  pt_line_enabled :: bool
  pt_line_a :: point
  pt_line_b :: point
  pt_line_ab_in :: bool

definition new_person_tracker :: person_tracker where
  "new_person_tracker =
    \<lparr>pt_config = default_tracker_config, pt_tracks = [], pt_next_track_id = 0,
     pt_last_update_time = 0, pt_entry_count = 0, pt_exit_count = 0,
     pt_on_track_removed = False, pt_count_zone = [], pt_line_enabled = False,
     pt_line_a = (0, 0), pt_line_b = (0, 0), pt_line_ab_in = True\<rparr>"

definition set_config :: "tracker_config \<Rightarrow> person_tracker \<Rightarrow> person_tracker" where
  "set_config c t = t\<lparr>pt_config := c\<rparr>"

definition set_track_removed_callback :: "bool \<Rightarrow> person_tracker \<Rightarrow> person_tracker" where
  "set_track_removed_callback cb t = t\<lparr>pt_on_track_removed := cb\<rparr>"

definition set_count_zone :: "point list \<Rightarrow> person_tracker \<Rightarrow> person_tracker" where
  "set_count_zone polygon t =
     t\<lparr>pt_count_zone := (if length polygon \<ge> 3 then polygon else [])\<rparr>"

definition set_entry_line :: "point \<Rightarrow> point \<Rightarrow> bool \<Rightarrow> person_tracker \<Rightarrow> person_tracker" where
  "set_entry_line a b ab_in t =
     t\<lparr>pt_line_a := a, pt_line_b := b, pt_line_ab_in := ab_in, pt_line_enabled := True\<rparr>"

section \<open>Edge classification and overlap\<close>

definition foot_point :: "detection_box \<Rightarrow> point" where
  "foot_point d = (db_x d, db_y d + db_h d * lit (1/2))"

definition is_near_edge :: "tracker_config \<Rightarrow> detection_box \<Rightarrow> bool" where
  "is_near_edge c det =
    (let margin = tc_edge_margin c; cx = db_x det; cy = db_y det
     in cx < margin \<or> cx > 1 - margin \<or> cy < margin \<or> cy > 1 - margin)"

definition is_moving_toward_edge :: "tracked_person \<Rightarrow> bool" where
  "is_moving_toward_edge track =
    (let cx = db_x (tp_detection track); cy = db_y (tp_detection track);
         vx = tp_velocity_x track; vy = tp_velocity_y track; margin_frac = lit (3/10)
     in if vx < lit (- 20) \<and> cx < margin_frac then True
        else if vx > lit 20 \<and> cx > 1 - margin_frac then True
        else if vy < lit (- 40) \<and> cy < margin_frac then True
        else if vy > lit 40 \<and> cy > 1 - margin_frac then True
        else False)"

definition classify_as_edge_loss :: "tracker_config \<Rightarrow> tracked_person \<Rightarrow> bool" where
  "classify_as_edge_loss c track =
    (if \<not> is_near_edge c (tp_detection track) then False else is_moving_toward_edge track)"

definition compute_iou :: "detection_box \<Rightarrow> detection_box \<Rightarrow> f32" where
  "compute_iou a b =
    (let ax1 = db_x a - db_w a / lit 2; ay1 = db_y a - db_h a / lit 2;
         ax2 = db_x a + db_w a / lit 2; ay2 = db_y a + db_h a / lit 2;
         bx1 = db_x b - db_w b / lit 2; by1 = db_y b - db_h b / lit 2;
         bx2 = db_x b + db_w b / lit 2; by2 = db_y b + db_h b / lit 2;
         inter_x1 = std_max ax1 bx1; inter_y1 = std_max ay1 by1;
         inter_x2 = std_min ax2 bx2; inter_y2 = std_min ay2 by2;
         inter_w = std_max 0 (inter_x2 - inter_x1);
         inter_h = std_max 0 (inter_y2 - inter_y1);
         inter_area = inter_w * inter_h;
         a_area = db_w a * db_h a; b_area = db_w b * db_h b;
         union_area = a_area + b_area - inter_area
     in if union_area > 0 then inter_area / union_area else 0)"

section \<open>Matching\<close>

definition predict_box :: "tracker_config \<Rightarrow> tracked_person \<Rightarrow> detection_box" where
  "predict_box c track =
    (let pred = tp_detection track
     in if tp_lost_frames track > 0 \<and> tp_speed_px_s track > 1 then
          let dt = fl_of_int (tp_lost_frames track) / lit 15
          in pred\<lparr>db_x := db_x pred + tp_velocity_x track / fl_of_int (tc_frame_width c) * dt,
                  db_y := db_y pred + tp_velocity_y track / fl_of_int (tc_frame_height c) * dt\<rparr>
        else pred)"

text \<open>The two inner loops: the free detection with the largest overlap above the threshold,
  and, for tracks lost at most five frames, the nearest one within the distance threshold.\<close>

definition pick_iou ::
  "tracker_config \<Rightarrow> (int, tracked_person) omap \<Rightarrow> detection_box list \<Rightarrow> int \<Rightarrow> bool list \<Rightarrow> nat option" where
  "pick_iou c tracks dets tid used =
    (case om_find tid tracks of None \<Rightarrow> None
     | Some track \<Rightarrow>
        snd (scan_best (\<lambda>v best. v > best) (\<lambda>d. compute_iou (predict_box c track) (dets ! d))
              (\<lambda>d. used ! d) [0..<length dets] (tc_iou_threshold c, None)))"

definition pick_dist ::
  "tracker_config \<Rightarrow> (int, tracked_person) omap \<Rightarrow> detection_box list \<Rightarrow> int \<Rightarrow> bool list \<Rightarrow> nat option" where
  "pick_dist c tracks dets tid used =
    (case om_find tid tracks of None \<Rightarrow> None
     | Some track \<Rightarrow>
        if tp_lost_frames track > 5 then None
        else let pred = predict_box c track in
        snd (scan_best (\<lambda>v best. v < best)
              (\<lambda>d. fhypot (db_x (dets ! d) - db_x pred) (db_y (dets ! d) - db_y pred))
              (\<lambda>d. used ! d) [0..<length dets] (tc_dist_threshold c, None)))"

definition frames_of :: "(int, tracked_person) omap \<Rightarrow> int \<Rightarrow> int" where
  "frames_of tracks tid = (case om_find tid tracks of None \<Rightarrow> 0 | Some t \<Rightarrow> tp_frames_tracked t)"

type_synonym id_sort = "(int \<Rightarrow> int \<Rightarrow> bool) \<Rightarrow> int list \<Rightarrow> int list"

definition match_detections :: "id_sort \<Rightarrow> tracker_config \<Rightarrow> (int, tracked_person) omap \<Rightarrow>
    detection_box list \<Rightarrow> (int \<times> nat) list" where
  "match_detections srt c tracks dets =
    (if tracks = [] \<or> dets = [] then []
     else
       let track_ids = srt (\<lambda>a b. frames_of tracks a > frames_of tracks b) (om_keys tracks);
           (matches1, unmatched, det_used) =
             greedy_pass (pick_iou c tracks dets) track_ids (replicate (length dets) False);
           (matches2, _, _) = greedy_pass (pick_dist c tracks dets) unmatched det_used
       in matches1 @ matches2)"

section \<open>Velocity and dwell state of one track\<close>

definition update_velocity ::
  "tracker_config \<Rightarrow> tracked_person \<Rightarrow> detection_box \<Rightarrow> f32 \<Rightarrow> tracked_person" where
  "update_velocity c track new_det dt =
    (if dt \<le> lit (1/1000) then track
     else
       let dx = (db_x new_det - db_x (tp_detection track)) * fl_of_int (tc_frame_width c);
           dy = (db_y new_det - db_y (tp_detection track)) * fl_of_int (tc_frame_height c);
           ivx = dx / dt; ivy = dy / dt;
           instant_speed = fhypot ivx ivy;
           prev_speed = tp_speed_px_s track;
           sudden_stop = (prev_speed > lit 10 \<and> (prev_speed - instant_speed) / prev_speed > lit (1/2));
           sudden_start = (prev_speed < lit 5 \<and> instant_speed > lit 50);
           track1 =
             (if instant_speed < tc_velocity_zero_threshold c
              then track\<lparr>tp_velocity_x := 0, tp_velocity_y := 0, tp_speed_px_s := 0\<rparr>
              else
                let alpha = (if sudden_stop \<or> sudden_start then tc_vel_alpha_sudden c else tc_vel_alpha c);
                    vx = (1 - alpha) * tp_velocity_x track + alpha * ivx;
                    vy = (1 - alpha) * tp_velocity_y track + alpha * ivy
                in track\<lparr>tp_velocity_x := vx, tp_velocity_y := vy, tp_speed_px_s := fhypot vx vy\<rparr>);
           bbox_h_px = db_h new_det * fl_of_int (tc_frame_height c);
           speed_m_s = (if bbox_h_px > 1 then tp_speed_px_s track1 / bbox_h_px * tc_avg_person_height_m c else 0)
       in track1\<lparr>tp_speed_m_s := speed_m_s,
                 tp_speed_sum := tp_speed_sum track1 + speed_m_s,
                 tp_speed_samples := tp_speed_samples track1 + 1\<rparr>)"

definition update_stationary_frames :: "tracker_config \<Rightarrow> tracked_person \<Rightarrow> bool \<Rightarrow> tracked_person" where
  "update_stationary_frames c track is_stationary =
    (if is_stationary then track\<lparr>tp_stationary_frames := tp_stationary_frames track + 1\<rparr>
     else if tp_stationary_frames track > tc_stationary_stable_threshold c
     then track\<lparr>tp_stationary_frames := max 0 (tp_stationary_frames track - tc_stationary_decay_slow c)\<rparr>
     else track\<lparr>tp_stationary_frames := max 0 (tp_stationary_frames track - tc_stationary_decay_fast c)\<rparr>)"

definition update_dwell_state :: "tracker_config \<Rightarrow> tracked_person \<Rightarrow> f32 \<Rightarrow> tracked_person" where
  "update_dwell_state c track0 current_time =
    (let is_stationary = tp_speed_px_s track0 < tc_dwell_speed_threshold c;
         track = update_stationary_frames c track0 is_stationary;
         is_still = (is_stationary \<and> tp_stationary_frames track \<ge> tc_dwell_min_frames c)
     in if \<not> is_still then
          (if tp_stationary_frames track = 0
           then track\<lparr>tp_dwell_state := TRANSIENT, tp_dwell_start_time := 0, tp_dwell_duration_sec := 0\<rparr>
           else track)
        else
          let start = (if tp_dwell_start_time track \<le> 0 then current_time else tp_dwell_start_time track);
              duration = current_time - start;
              prev_state = tp_dwell_state track;
              new_state = (if duration \<ge> tc_dwell_assistance_threshold c then ASSISTANCE
                           else if duration \<ge> tc_dwell_min_duration c then ENGAGED
                           else DWELLING)
          in track\<lparr>tp_dwell_start_time := start, tp_dwell_duration_sec := duration,
                   tp_dwell_state := new_state,
                   tp_engagement_start_time :=
                     (if prev_state < ENGAGED \<and> new_state \<ge> ENGAGED then current_time
                      else tp_engagement_start_time track)\<rparr>)"

section \<open>Removal\<close>

definition track_record_of :: "tracker_config \<Rightarrow> tracked_person \<Rightarrow> f32 \<Rightarrow> track_record" where
  "track_record_of c track current_time =
    \<lparr>tr_track_id = tp_track_id track,
     tr_dwell_time = tp_dwell_duration_sec track,
     tr_engagement_time =
       (if tp_engagement_start_time track > 0 then current_time - tp_engagement_start_time track else 0),
     tr_avg_speed =
       (if tp_speed_samples track > 0 then tp_speed_sum track / fl_of_int (tp_speed_samples track) else 0),
     tr_removal_time = current_time,
     tr_exited_at_edge = is_near_edge c (tp_detection track)\<rparr>"

definition remove_track :: "int \<Rightarrow> f32 \<Rightarrow> person_tracker \<Rightarrow> person_tracker \<times> track_record list" where
  "remove_track tid current_time t =
    (case om_find tid (pt_tracks t) of
       None \<Rightarrow> (t, [])
     | Some track \<Rightarrow>
         let c = pt_config t;
             exits =
               (if \<not> pt_line_enabled t \<and> tp_frames_tracked track \<ge> tc_min_frames_for_count c then
                  let is_edge_loss = classify_as_edge_loss c track
                  in if is_edge_loss then 1
                     else if is_near_edge c (tp_detection track) then 1
                     else 0
                else 0);
             emitted = (if pt_on_track_removed t then [track_record_of c track current_time] else [])
         in (t\<lparr>pt_exit_count := pt_exit_count t + exits, pt_tracks := om_del tid (pt_tracks t)\<rparr>, emitted))"

fun remove_tracks :: "int list \<Rightarrow> f32 \<Rightarrow> person_tracker \<Rightarrow> person_tracker \<times> track_record list" where
  "remove_tracks [] now t = (t, [])"
| "remove_tracks (i # is) now t =
    (let (t1, r1) = remove_track i now t; (t2, r2) = remove_tracks is now t1 in (t2, r1 @ r2))"

section \<open>One frame\<close>

definition count_crossing :: "detection_box \<Rightarrow> detection_box \<Rightarrow> person_tracker \<Rightarrow> person_tracker" where
  "count_crossing old new t =
    (if pt_line_enabled t then
       let (p0x, p0y) = foot_point old; (p1x, p1y) = foot_point new;
           dir = segment_crossing (fst (pt_line_a t)) (snd (pt_line_a t))
                   (fst (pt_line_b t)) (snd (pt_line_b t)) p0x p0y p1x p1y
       in if dir \<noteq> 0 then
            (if (dir > 0) = pt_line_ab_in t then t\<lparr>pt_entry_count := pt_entry_count t + 1\<rparr>
             else t\<lparr>pt_exit_count := pt_exit_count t + 1\<rparr>)
          else t
     else t)"

definition process_match :: "detection_box list \<Rightarrow> f32 \<Rightarrow> f32 \<Rightarrow> int \<times> nat \<Rightarrow> person_tracker \<Rightarrow> person_tracker" where
  "process_match dets dt now m t =
    (let (tid, d) = m; det = dets ! d; c = pt_config t in
     case om_find tid (pt_tracks t) of
       None \<Rightarrow> t
     | Some track0 \<Rightarrow>
         let track1 = update_velocity c track0 det dt;
             t1 = count_crossing (tp_detection track1) det t;
             track2 = track1\<lparr>tp_detection := det, tp_last_seen_time := now,
                        tp_frames_tracked := tp_frames_tracked track1 + 1, tp_lost_frames := 0,
                        tp_last_near_edge := is_near_edge c det\<rparr>
         in t1\<lparr>pt_tracks := om_put tid (update_dwell_state c track2 now) (pt_tracks t1)\<rparr>)"

definition max_lost :: "tracker_config \<Rightarrow> tracked_person \<Rightarrow> int" where
  "max_lost c track =
    (if classify_as_edge_loss c track then tc_max_lost_frames_edge c else tc_max_lost_frames_center c)"

text \<open>Unmatched tracks age by one frame; those past their limit are listed for removal.\<close>

definition age_track :: "int list \<Rightarrow> int \<times> tracked_person \<Rightarrow> int \<times> tracked_person" where
  "age_track matched p =
    (if fst p \<notin> set matched then (fst p, (snd p)\<lparr>tp_lost_frames := tp_lost_frames (snd p) + 1\<rparr>) else p)"

definition tracks_to_remove :: "tracker_config \<Rightarrow> int list \<Rightarrow> (int, tracked_person) omap \<Rightarrow> int list" where
  "tracks_to_remove c matched aged =
    map fst (filter (\<lambda>(i, tr). i \<notin> set matched \<and> tp_lost_frames tr > max_lost c tr) aged)"

definition new_track :: "tracker_config \<Rightarrow> int \<Rightarrow> detection_box \<Rightarrow> f32 \<Rightarrow> tracked_person" where
  "new_track c tid det now =
    \<lparr>tp_track_id = tid, tp_detection = det, tp_velocity_x = 0, tp_velocity_y = 0,
     tp_speed_px_s = 0, tp_speed_m_s = 0, tp_dwell_state = TRANSIENT, tp_dwell_duration_sec = 0,
     tp_first_seen_time = now, tp_last_seen_time = now, tp_dwell_start_time = 0,
     tp_engagement_start_time = 0, tp_frames_tracked = 1, tp_stationary_frames = 0,
     tp_lost_frames = 0, tp_speed_sum = 0, tp_speed_samples = 0,
     tp_last_near_edge = is_near_edge c det\<rparr>"

definition open_track :: "f32 \<Rightarrow> detection_box \<Rightarrow> person_tracker \<Rightarrow> person_tracker" where
  "open_track now det t =
    t\<lparr>pt_next_track_id := pt_next_track_id t + 1,
      pt_tracks := om_put (pt_next_track_id t) (new_track (pt_config t) (pt_next_track_id t) det now) (pt_tracks t),
      pt_entry_count := (if \<not> pt_line_enabled t then pt_entry_count t + 1 else pt_entry_count t)\<rparr>"

definition unmatched_dets :: "(int \<times> nat) list \<Rightarrow> detection_box list \<Rightarrow> detection_box list" where
  "unmatched_dets ms dets = map (\<lambda>i. dets ! i) (filter (\<lambda>i. i \<notin> set (map snd ms)) [0..<length dets])"

definition visible :: "(int, tracked_person) omap \<Rightarrow> tracked_person list" where
  "visible tracks = map snd (filter (\<lambda>(i, tr). tp_lost_frames tr = 0) tracks)"

definition pt_update :: "id_sort \<Rightarrow> detection_box list \<Rightarrow> f32 \<Rightarrow> person_tracker \<Rightarrow>
    person_tracker \<times> tracked_person list \<times> track_record list" where
  "pt_update srt detections now t0 =
    (let dt = (if pt_last_update_time t0 > 0 then now - pt_last_update_time t0 else 0);
         t1 = t0\<lparr>pt_last_update_time := now\<rparr>;
         person_detections = filter (\<lambda>d. db_target d = 0) detections;
         matches = match_detections srt (pt_config t1) (pt_tracks t1) person_detections;
         matched = map fst matches;
         t2 = fold (process_match person_detections dt now) matches t1;
         aged = map (age_track matched) (pt_tracks t2);
         t3 = t2\<lparr>pt_tracks := aged\<rparr>;
         (t4, removed) = remove_tracks (tracks_to_remove (pt_config t3) matched aged) now t3;
         t5 = fold (open_track now) (unmatched_dets matches person_detections) t4
     in (t5, visible (pt_tracks t5), removed))"

section \<open>Counts\<close>

definition count_state :: "dwell_state \<Rightarrow> state_count \<Rightarrow> state_count" where
  "count_state s n0 =
    (let n = n0\<lparr>sc_total := sc_total n0 + 1\<rparr> in
     case s of
       TRANSIENT \<Rightarrow> n\<lparr>sc_browsing := sc_browsing n + 1\<rparr>
     | DWELLING \<Rightarrow> n\<lparr>sc_browsing := sc_browsing n + 1\<rparr>
     | ENGAGED \<Rightarrow> n\<lparr>sc_engaged := sc_engaged n + 1\<rparr>
     | ASSISTANCE \<Rightarrow> n\<lparr>sc_assistance := sc_assistance n + 1\<rparr>)"

definition counted_in_zone :: "point list \<Rightarrow> tracked_person \<Rightarrow> bool" where
  "counted_in_zone zone track =
    (if zone \<noteq> [] then
       let (fx, fy) = foot_point (tp_detection track) in geom_point_in_polygon fx fy zone
     else True)"

definition get_state_counts :: "person_tracker \<Rightarrow> state_count" where
  "get_state_counts t =
    fold (\<lambda>(i, track) n.
        if tp_lost_frames track > 0 then n
        else if \<not> counted_in_zone (pt_count_zone t) track then n
        else count_state (tp_dwell_state track) n)
      (pt_tracks t) \<lparr>sc_total = 0, sc_browsing = 0, sc_engaged = 0, sc_assistance = 0\<rparr>"

end
