(* ===== verification/Person_Tracker_Facts.thy ===== *)
theory Person_Tracker_Facts
  imports Person_Tracker
begin

text \<open>
  Facts about the retail tracker: the assignment of detections to tracks, what one
  frame does to the track table, the invariant of the table, the conservation of the entry,
  exit and removal counts, and the dwell state machine.
\<close>

section \<open>Matching\<close>

interpretation iou_pass: picker "pick_iou c tracks dets" "length dets" for c tracks dets
  by unfold_locales (auto simp: pick_iou_def dest!: scan_best_sound split: option.splits)

interpretation dist_pass: picker "pick_dist c tracks dets" "length dets" for c tracks dets
  by unfold_locales
    (auto simp: pick_dist_def Let_def dest!: scan_best_sound split: option.splits if_splits)

lemma match_detections_facts:
  assumes srt: "sort_spec srt" and ok: "om_ok tracks"
    and ms: "match_detections srt c tracks dets = ms"
  shows "distinct (map fst ms)" "distinct (map snd ms)"
    "set (map fst ms) \<subseteq> set (om_keys tracks)" "\<forall>d \<in> set (map snd ms). d < length dets"
proof -
  have "distinct (map fst ms) \<and> distinct (map snd ms) \<and>
    set (map fst ms) \<subseteq> set (om_keys tracks) \<and> (\<forall>d \<in> set (map snd ms). d < length dets)"
  proof (cases "tracks = [] \<or> dets = []")
    case True
    with ms show ?thesis by (auto simp: match_detections_def)
  next
    case False
    define ids where "ids = srt (\<lambda>a b. frames_of tracks a > frames_of tracks b) (om_keys tracks)"
    have ids: "distinct ids" "set ids = set (om_keys tracks)"
      using sort_spec_set [OF srt weak_order_key [where f = "frames_of tracks"], where xs = "om_keys tracks"]
        om.keys_distinct [OF ok] by (simp_all add: ids_def)
    obtain m1 un u where p1: "greedy_pass (pick_iou c tracks dets) ids (replicate (length dets) False) = (m1, un, u)"
      by (metis prod_cases3)
    obtain m2 un2 u2 where p2: "greedy_pass (pick_dist c tracks dets) un u = (m2, un2, u2)"
      by (metis prod_cases3)
    have ms12: "ms = m1 @ m2" using ms False p1 p2 by (simp add: match_detections_def ids_def)
    note a1 = iou_pass.pass_assignment [OF p1, simplified] and u1 = iou_pass.pass_used [OF p1, simplified]
    note a2 = dist_pass.pass_assignment [OF p2 u1(1)]
    from a2(3) have "mset (map fst m1) + (mset (map fst m2) + mset un2) = mset ids"
      using a1(3) by simp
    then have m: "mset (map fst ms) + mset un2 = mset ids" using ms12 by (simp add: add.assoc)
    have "distinct (map fst ms @ un2)" using ids(1) m by (metis mset_append mset_eq_imp_distinct_iff)
    then have d1: "distinct (map fst ms)" by simp
    have "set (map fst ms) \<subseteq> set ids" using m by (metis mset_append mset_eq_setD set_append sup_ge1)
    with ids(2) have s: "set (map fst ms) \<subseteq> set (om_keys tracks)" by simp
    have n: "\<forall>d \<in> set (map snd ms). d < length dets" using a1(1) a2(1) ms12 by auto
    have "u ! d" if "d \<in> snd ` set m1" for d using u1(2) [of d] a1(1) that by auto
    moreover have "\<not> u ! d" if "d \<in> snd ` set m2" for d using a2(1) that by auto
    ultimately have "set (map snd m1) \<inter> set (map snd m2) = {}" by auto
    with a1(2) a2(2) ms12 have "distinct (map snd ms)" by simp
    with d1 s n show ?thesis by blast
  qed
  then show "distinct (map fst ms)" "distinct (map snd ms)"
    "set (map fst ms) \<subseteq> set (om_keys tracks)" "\<forall>d \<in> set (map snd ms). d < length dets" by blast+
qed

section \<open>Shape of the track table after each stage\<close>

lemma om_del_filter: "om_ok m \<Longrightarrow> om_del k m = filter (\<lambda>p. fst p \<noteq> k) m"
proof (induction k m rule: om_del.induct)
  case (2 k j w m)
  then show ?case by (auto simp: om_ok_Cons intro!: filter_True [symmetric])
qed simp

lemma om_ok_filter: "om_ok m \<Longrightarrow> om_ok (filter P m)"
  by (induction m) (auto simp: om_ok_Cons)

lemma om_put_append: "\<forall>j \<in> fst ` set m. j < k \<Longrightarrow> om_put k v m = m @ [(k, v)]"
  by (induction k v m rule: om_put.induct) auto

lemma om_ok_append: "om_ok m \<Longrightarrow> \<forall>j \<in> fst ` set m. j < k \<Longrightarrow> om_ok (m @ [(k, v)])"
  by (auto simp: om_ok_def sorted_wrt_append)

lemma om_ok_map: "(\<And>p. fst (f p) = fst p) \<Longrightarrow> om_ok m \<Longrightarrow> om_ok (map f m)"
  by (simp add: om_ok_def comp_def)

lemma om_ok_distinct: "om_ok m \<Longrightarrow> distinct m"
  by (metis distinct_map om_ok_def strict_sorted_iff)

text \<open>The tracks a list of ids selects, in any order.\<close>

lemma mset_filter_ids:
  assumes "om_ok m" "distinct is" "set is \<subseteq> fst ` set m"
  shows "mset (filter (\<lambda>p. fst p \<in> set is) m) = mset (map (\<lambda>i. (i, the (om_find i m))) is)"
proof -
  have "distinct (map (\<lambda>i. (i, the (om_find i m))) is)"
    using assms(2) by (simp add: distinct_map inj_on_def)
  moreover have "distinct (filter (\<lambda>p. fst p \<in> set is) m)" using om_ok_distinct [OF assms(1)] by simp
  moreover have "set (filter (\<lambda>p. fst p \<in> set is) m) = set (map (\<lambda>i. (i, the (om_find i m))) is)"
    using assms(1,3) by (force dest: om_find_mem)
  ultimately show ?thesis by (simp only: set_eq_iff_mset_eq_distinct)
qed

definition matched_track :: "tracker_config \<Rightarrow> detection_box \<Rightarrow> f32 \<Rightarrow> f32 \<Rightarrow> tracked_person \<Rightarrow> tracked_person" where
  "matched_track c det dt now track0 =
    (let track1 = update_velocity c track0 det dt in
     update_dwell_state c (track1\<lparr>tp_detection := det, tp_last_seen_time := now,
        tp_frames_tracked := tp_frames_tracked track1 + 1, tp_lost_frames := 0,
        tp_last_near_edge := is_near_edge c det\<rparr>) now)"

lemma update_velocity_frame [simp]:
  "tp_track_id (update_velocity c t d dt) = tp_track_id t"
  "tp_detection (update_velocity c t d dt) = tp_detection t"
  "tp_frames_tracked (update_velocity c t d dt) = tp_frames_tracked t"
  "tp_stationary_frames (update_velocity c t d dt) = tp_stationary_frames t"
  "tp_dwell_state (update_velocity c t d dt) = tp_dwell_state t"
  "tp_dwell_duration_sec (update_velocity c t d dt) = tp_dwell_duration_sec t"
  "tp_dwell_start_time (update_velocity c t d dt) = tp_dwell_start_time t"
  by (simp_all add: update_velocity_def Let_def)

lemma update_dwell_state_frame [simp]:
  "tp_track_id (update_dwell_state c t now) = tp_track_id t"
  "tp_detection (update_dwell_state c t now) = tp_detection t"
  "tp_frames_tracked (update_dwell_state c t now) = tp_frames_tracked t"
  "tp_lost_frames (update_dwell_state c t now) = tp_lost_frames t"
  by (simp_all add: update_dwell_state_def update_stationary_frames_def Let_def)

lemma count_crossing_frame [simp]:
  "pt_tracks (count_crossing a b t) = pt_tracks t" "pt_config (count_crossing a b t) = pt_config t"
  "pt_next_track_id (count_crossing a b t) = pt_next_track_id t"
  "pt_line_enabled (count_crossing a b t) = pt_line_enabled t"
  "pt_on_track_removed (count_crossing a b t) = pt_on_track_removed t"
  "pt_last_update_time (count_crossing a b t) = pt_last_update_time t"
  "pt_count_zone (count_crossing a b t) = pt_count_zone t"
  "\<not> pt_line_enabled t \<Longrightarrow> count_crossing a b t = t"
  by (simp_all add: count_crossing_def Let_def split: prod.splits)

lemma process_match_tracks:
  "om_find (fst m) (pt_tracks t) = Some tr \<Longrightarrow> pt_tracks (process_match dets dt now m t) =
     om_put (fst m) (matched_track (pt_config t) (dets ! snd m) dt now tr) (pt_tracks t)"
  by (cases m) (simp add: process_match_def matched_track_def Let_def)

lemma process_match_frame [simp]:
  "pt_config (process_match dets dt now m t) = pt_config t"
  "pt_next_track_id (process_match dets dt now m t) = pt_next_track_id t"
  "pt_line_enabled (process_match dets dt now m t) = pt_line_enabled t"
  "pt_on_track_removed (process_match dets dt now m t) = pt_on_track_removed t"
  "\<not> pt_line_enabled t \<Longrightarrow> pt_entry_count (process_match dets dt now m t) = pt_entry_count t"
  "\<not> pt_line_enabled t \<Longrightarrow> pt_exit_count (process_match dets dt now m t) = pt_exit_count t"
  by (simp_all add: process_match_def Let_def split: prod.splits option.splits)

lemma fold_process_frame [simp]:
  "pt_config (fold (process_match dets dt now) ms t) = pt_config t"
  "pt_next_track_id (fold (process_match dets dt now) ms t) = pt_next_track_id t"
  "pt_line_enabled (fold (process_match dets dt now) ms t) = pt_line_enabled t"
  "pt_on_track_removed (fold (process_match dets dt now) ms t) = pt_on_track_removed t"
  "\<not> pt_line_enabled t \<Longrightarrow> pt_entry_count (fold (process_match dets dt now) ms t) = pt_entry_count t"
  "\<not> pt_line_enabled t \<Longrightarrow> pt_exit_count (fold (process_match dets dt now) ms t) = pt_exit_count t"
  by (induction ms arbitrary: t) simp_all

text \<open>After the matches are processed, a matched track is the updated one, the others are as before.\<close>

lemma fold_process_tracks:
  assumes "om_ok (pt_tracks t)" "distinct (map fst ms)" "set (map fst ms) \<subseteq> fst ` set (pt_tracks t)"
  shows "om_ok (pt_tracks (fold (process_match dets dt now) ms t)) \<and>
    fst ` set (pt_tracks (fold (process_match dets dt now) ms t)) = fst ` set (pt_tracks t) \<and>
    length (pt_tracks (fold (process_match dets dt now) ms t)) = length (pt_tracks t) \<and>
    (\<forall>i. om_find i (pt_tracks (fold (process_match dets dt now) ms t)) =
      (case map_of ms i of None \<Rightarrow> om_find i (pt_tracks t)
       | Some d \<Rightarrow> map_option (matched_track (pt_config t) (dets ! d) dt now) (om_find i (pt_tracks t))))"
  using assms
proof (induction ms arbitrary: t)
  case (Cons m ms)
  obtain j d where m: "m = (j, d)" by force
  from Cons.prems(3) m obtain tr where tr: "om_find j (pt_tracks t) = Some tr"
    using om_find_iff [of j "pt_tracks t"] by auto
  let ?t1 = "process_match dets dt now m t"
  have t1: "pt_tracks ?t1 = om_put j (matched_track (pt_config t) (dets ! d) dt now tr) (pt_tracks t)"
    using process_match_tracks [of m t tr] tr m by simp
  have keys: "fst ` set (pt_tracks ?t1) = fst ` set (pt_tracks t)"
    using tr om_find_iff [of j "pt_tracks t"] unfolding t1 fst_om_put by auto
  have ok1: "om_ok (pt_tracks ?t1)" using Cons.prems(1) by (simp add: t1 om_ok_put)
  have len: "length (pt_tracks ?t1) = length (pt_tracks t)"
    using keys Cons.prems(1) ok1 by (metis distinct_card length_map list.set_map om_ok_def strict_sorted_iff)
  have IH: "om_ok (pt_tracks (fold (process_match dets dt now) ms ?t1)) \<and>
    fst ` set (pt_tracks (fold (process_match dets dt now) ms ?t1)) = fst ` set (pt_tracks ?t1) \<and>
    length (pt_tracks (fold (process_match dets dt now) ms ?t1)) = length (pt_tracks ?t1) \<and>
    (\<forall>i. om_find i (pt_tracks (fold (process_match dets dt now) ms ?t1)) =
      (case map_of ms i of None \<Rightarrow> om_find i (pt_tracks ?t1)
       | Some d \<Rightarrow> map_option (matched_track (pt_config ?t1) (dets ! d) dt now) (om_find i (pt_tracks ?t1))))"
    by (rule Cons.IH [OF ok1]) (use Cons.prems keys in auto)
  have nj: "map_of ms j = None" using Cons.prems(2) m by (simp add: map_of_eq_None_iff)
  show ?case
    using IH keys len tr nj unfolding m by (auto simp: t1 [unfolded m] split: option.splits)
qed (auto split: option.splits)


section \<open>Removal and opening\<close>

lemma remove_track_eq:
  "fst (remove_track i now t) = t\<lparr>pt_exit_count := pt_exit_count (fst (remove_track i now t)),
     pt_tracks := pt_tracks (fst (remove_track i now t))\<rparr>"
  by (simp add: remove_track_def Let_def split: option.splits)

lemma remove_track_facts:
  assumes "om_ok (pt_tracks t)" "i \<in> fst ` set (pt_tracks t)" "remove_track i now t = (t', rs)"
  shows "pt_tracks t' = filter (\<lambda>p. fst p \<noteq> i) (pt_tracks t)"
    "pt_exit_count t \<le> pt_exit_count t'" "pt_exit_count t' \<le> pt_exit_count t + 1"
    "map tr_track_id rs = (if pt_on_track_removed t then [tp_track_id (the (om_find i (pt_tracks t)))] else [])"
    "pt_entry_count t' = pt_entry_count t" "pt_next_track_id t' = pt_next_track_id t"
    "pt_config t' = pt_config t" "pt_line_enabled t' = pt_line_enabled t"
    "pt_on_track_removed t' = pt_on_track_removed t"
  using assms om_find_iff [of i "pt_tracks t"]
  by (auto simp: remove_track_def Let_def track_record_of_def om_del_filter split: if_splits)

lemma remove_tracks_facts:
  assumes "om_ok (pt_tracks t)" "distinct is" "set is \<subseteq> fst ` set (pt_tracks t)"
    "remove_tracks is now t = (t', rs)" "\<forall>(i, tr) \<in> set (pt_tracks t). tp_track_id tr = i"
  shows "pt_tracks t' = filter (\<lambda>p. fst p \<notin> set is) (pt_tracks t) \<and>
    pt_exit_count t \<le> pt_exit_count t' \<and> pt_exit_count t' \<le> pt_exit_count t + int (length is) \<and>
    map tr_track_id rs = (if pt_on_track_removed t then is else []) \<and>
    pt_entry_count t' = pt_entry_count t \<and> pt_next_track_id t' = pt_next_track_id t \<and>
    pt_config t' = pt_config t \<and> pt_line_enabled t' = pt_line_enabled t \<and>
    pt_on_track_removed t' = pt_on_track_removed t"
  using assms
proof (induction "is" arbitrary: t t' rs)
  case (Cons i js)
  obtain t1 r1 where s1: "remove_track i now t = (t1, r1)" by force
  obtain t2 r2 where s2: "remove_tracks js now t1 = (t2, r2)" by force
  have r: "t' = t2" "rs = r1 @ r2" using Cons.prems(4) s1 s2 by auto
  have i: "i \<in> fst ` set (pt_tracks t)" using Cons.prems(3) by simp
  note f = remove_track_facts [OF Cons.prems(1) i s1]
  obtain tr where tr: "om_find i (pt_tracks t) = Some tr" using i by (auto simp: om_find_iff)
  with Cons.prems(5) have tid: "tp_track_id tr = i" by (auto dest: om_find_in)
  have IH: "pt_tracks t2 = filter (\<lambda>p. fst p \<notin> set js) (pt_tracks t1) \<and>
    pt_exit_count t1 \<le> pt_exit_count t2 \<and> pt_exit_count t2 \<le> pt_exit_count t1 + int (length js) \<and>
    map tr_track_id r2 = (if pt_on_track_removed t1 then js else []) \<and>
    pt_entry_count t2 = pt_entry_count t1 \<and> pt_next_track_id t2 = pt_next_track_id t1 \<and>
    pt_config t2 = pt_config t1 \<and> pt_line_enabled t2 = pt_line_enabled t1 \<and>
    pt_on_track_removed t2 = pt_on_track_removed t1"
  proof (rule Cons.IH [OF _ _ _ s2])
    show "om_ok (pt_tracks t1)" by (simp add: f(1) om_ok_filter Cons.prems(1))
    show "distinct js" using Cons.prems(2) by simp
    show "set js \<subseteq> fst ` set (pt_tracks t1)" using Cons.prems(2,3) by (fastforce simp: f(1))
    show "\<forall>(i, tr) \<in> set (pt_tracks t1). tp_track_id tr = i" using Cons.prems(5) by (auto simp: f(1))
  qed
  show ?case using IH f tr tid unfolding r by (auto simp: conj_commute intro!: filter_cong)
qed simp

fun new_entries :: "tracker_config \<Rightarrow> int \<Rightarrow> detection_box list \<Rightarrow> f32 \<Rightarrow> (int, tracked_person) omap" where
  "new_entries c k [] now = []"
| "new_entries c k (d # ds) now = (k, new_track c k d now) # new_entries c (k + 1) ds now"

lemma new_entries_facts:
  "length (new_entries c k ds now) = length ds"
  "(i, tr) \<in> set (new_entries c k ds now) \<Longrightarrow> k \<le> i \<and> i < k + int (length ds) \<and>
     (\<exists>d \<in> set ds. tr = new_track c i d now)"
  "map (tp_detection \<circ> snd) (new_entries c k ds now) = ds"
  by (induction c k ds now rule: new_entries.induct) (auto simp: new_track_def)

lemma fold_open_facts:
  assumes "om_ok (pt_tracks t)" "\<forall>i \<in> fst ` set (pt_tracks t). i < pt_next_track_id t"
  shows "pt_tracks (fold (open_track now) ds t) =
      pt_tracks t @ new_entries (pt_config t) (pt_next_track_id t) ds now \<and>
    om_ok (pt_tracks (fold (open_track now) ds t)) \<and>
    pt_next_track_id (fold (open_track now) ds t) = pt_next_track_id t + int (length ds) \<and>
    pt_entry_count (fold (open_track now) ds t) =
      pt_entry_count t + (if pt_line_enabled t then 0 else int (length ds)) \<and>
    pt_exit_count (fold (open_track now) ds t) = pt_exit_count t \<and>
    pt_config (fold (open_track now) ds t) = pt_config t \<and>
    pt_line_enabled (fold (open_track now) ds t) = pt_line_enabled t \<and>
    pt_on_track_removed (fold (open_track now) ds t) = pt_on_track_removed t"
  using assms
proof (induction ds arbitrary: t)
  case (Cons d ds)
  let ?t1 = "open_track now d t"
  have t1: "pt_tracks ?t1 = pt_tracks t @
      [(pt_next_track_id t, new_track (pt_config t) (pt_next_track_id t) d now)]"
    using Cons.prems(2) by (simp add: open_track_def om_put_append)
  have "om_ok (pt_tracks ?t1)" unfolding t1 using Cons.prems by (intro om_ok_append) auto
  moreover have "\<forall>i \<in> fst ` set (pt_tracks ?t1). i < pt_next_track_id ?t1"
    using Cons.prems(2) unfolding t1 by (auto simp: open_track_def)
  ultimately show ?case using Cons.IH [of ?t1] by (simp add: t1) (auto simp: open_track_def)
qed simp


section \<open>The invariant of the track table\<close>

definition track_ok :: "tracker_config \<Rightarrow> int \<Rightarrow> int \<times> tracked_person \<Rightarrow> bool" where
  "track_ok c next p =
    (case p of (i, tr) \<Rightarrow> tp_track_id tr = i \<and> 0 \<le> i \<and> i < next \<and> 1 \<le> tp_frames_tracked tr \<and>
       0 \<le> tp_stationary_frames tr \<and> 0 \<le> tp_lost_frames tr \<and>
       (0 < tp_lost_frames tr \<longrightarrow> tp_lost_frames tr \<le> max_lost c tr))"

definition pt_inv :: "person_tracker \<Rightarrow> bool" where
  "pt_inv t \<longleftrightarrow> om_ok (pt_tracks t) \<and> 0 \<le> pt_next_track_id t \<and>
     (\<forall>p \<in> set (pt_tracks t). track_ok (pt_config t) (pt_next_track_id t) p)"

lemma age_track_fst [simp]: "fst (age_track M p) = fst p"
  by (simp add: age_track_def)

lemma om_find_age: "om_find i (map (age_track M) m) = map_option (\<lambda>tr. snd (age_track M (i, tr))) (om_find i m)"
  by (induction m) (auto simp: age_track_def)

lemma max_lost_age [simp]: "max_lost c (tr\<lparr>tp_lost_frames := k\<rparr>) = max_lost c tr"
  by (simp add: max_lost_def classify_as_edge_loss_def is_moving_toward_edge_def)

lemma update_stationary_nonneg:
  "0 \<le> tp_stationary_frames tr \<Longrightarrow> 0 \<le> tp_stationary_frames (update_dwell_state c tr now)"
  by (auto simp: update_dwell_state_def update_stationary_frames_def Let_def)

lemma matched_track_facts [simp]:
  "tp_track_id (matched_track c det dt now tr) = tp_track_id tr"
  "tp_detection (matched_track c det dt now tr) = det"
  "tp_lost_frames (matched_track c det dt now tr) = 0"
  "tp_frames_tracked (matched_track c det dt now tr) = tp_frames_tracked tr + 1"
  "0 \<le> tp_stationary_frames tr \<Longrightarrow> 0 \<le> tp_stationary_frames (matched_track c det dt now tr)"
  by (simp_all add: matched_track_def Let_def update_stationary_nonneg)

text \<open>
  The stages of one frame, named for the proofs: the person detections, the matches, the
  table after the matches, the aged table, the ids that are removed and the detections that
  open tracks.
\<close>

record frame_in =
  fi_srt :: id_sort
  fi_detections :: "detection_box list"
  fi_now :: f32
  fi_t :: person_tracker

definition frame_ok :: "frame_in \<Rightarrow> bool" where
  "frame_ok f \<longleftrightarrow> sort_spec (fi_srt f) \<and> pt_inv (fi_t f)"

definition fr_dets :: "frame_in \<Rightarrow> detection_box list" where
  "fr_dets f = filter (\<lambda>d. db_target d = 0) (fi_detections f)"

definition fr_ms :: "frame_in \<Rightarrow> (int \<times> nat) list" where
  "fr_ms f = match_detections (fi_srt f) (pt_config (fi_t f)) (pt_tracks (fi_t f)) (fr_dets f)"

definition fr_dt :: "frame_in \<Rightarrow> f32" where
  "fr_dt f = (if pt_last_update_time (fi_t f) > 0 then fi_now f - pt_last_update_time (fi_t f) else 0)"

definition fr_t2 :: "frame_in \<Rightarrow> person_tracker" where
  "fr_t2 f = fold (process_match (fr_dets f) (fr_dt f) (fi_now f)) (fr_ms f)
     ((fi_t f)\<lparr>pt_last_update_time := fi_now f\<rparr>)"

definition fr_aged :: "frame_in \<Rightarrow> (int, tracked_person) omap" where
  "fr_aged f = map (age_track (map fst (fr_ms f))) (pt_tracks (fr_t2 f))"

definition fr_lost :: "frame_in \<Rightarrow> int list" where
  "fr_lost f = tracks_to_remove (pt_config (fi_t f)) (map fst (fr_ms f)) (fr_aged f)"

definition fr_fresh :: "frame_in \<Rightarrow> detection_box list" where
  "fr_fresh f = unmatched_dets (fr_ms f) (fr_dets f)"

definition fr_result :: "frame_in \<Rightarrow> person_tracker \<times> tracked_person list \<times> track_record list" where
  "fr_result f = pt_update (fi_srt f) (fi_detections f) (fi_now f) (fi_t f)"

lemma fr_tracks_ok: "frame_ok f \<Longrightarrow> (i, tr) \<in> set (pt_tracks (fi_t f)) \<Longrightarrow>
    track_ok (pt_config (fi_t f)) (pt_next_track_id (fi_t f)) (i, tr)"
  by (auto simp: frame_ok_def pt_inv_def)

lemma fr_ms_facts:
  assumes "frame_ok f"
  shows "distinct (map fst (fr_ms f))" "distinct (map snd (fr_ms f))"
    "fst ` set (fr_ms f) \<subseteq> fst ` set (pt_tracks (fi_t f))"
    "d \<in> snd ` set (fr_ms f) \<Longrightarrow> d < length (fr_dets f)"
proof -
  have "sort_spec (fi_srt f)" "om_ok (pt_tracks (fi_t f))"
    using assms by (auto simp: frame_ok_def pt_inv_def)
  note m = match_detections_facts [OF this refl, of "pt_config (fi_t f)" "fr_dets f", folded fr_ms_def]
  show "distinct (map fst (fr_ms f))" "distinct (map snd (fr_ms f))"
    "fst ` set (fr_ms f) \<subseteq> fst ` set (pt_tracks (fi_t f))"
    "d \<in> snd ` set (fr_ms f) \<Longrightarrow> d < length (fr_dets f)"
    using m by (auto simp: om_keys_def)
qed

lemma fr_t2_facts:
  assumes "frame_ok f"
  shows "om_ok (pt_tracks (fr_t2 f))" "fst ` set (pt_tracks (fr_t2 f)) = fst ` set (pt_tracks (fi_t f))"
    "length (pt_tracks (fr_t2 f)) = length (pt_tracks (fi_t f))"
    "om_find i (pt_tracks (fr_t2 f)) =
     (case map_of (fr_ms f) i of None \<Rightarrow> om_find i (pt_tracks (fi_t f))
      | Some d \<Rightarrow> map_option (matched_track (pt_config (fi_t f)) (fr_dets f ! d) (fr_dt f) (fi_now f))
          (om_find i (pt_tracks (fi_t f))))"
proof -
  have "om_ok (pt_tracks (fi_t f))" using assms by (auto simp: frame_ok_def pt_inv_def)
  then have "om_ok (pt_tracks ((fi_t f)\<lparr>pt_last_update_time := fi_now f\<rparr>))" by simp
  note p = fold_process_tracks [OF this fr_ms_facts(1) [OF assms], folded fr_t2_def, of "fr_dets f" "fr_dt f" "fi_now f"]
  show "om_ok (pt_tracks (fr_t2 f))" "fst ` set (pt_tracks (fr_t2 f)) = fst ` set (pt_tracks (fi_t f))"
    "length (pt_tracks (fr_t2 f)) = length (pt_tracks (fi_t f))"
    "om_find i (pt_tracks (fr_t2 f)) =
     (case map_of (fr_ms f) i of None \<Rightarrow> om_find i (pt_tracks (fi_t f))
      | Some d \<Rightarrow> map_option (matched_track (pt_config (fi_t f)) (fr_dets f ! d) (fr_dt f) (fi_now f))
          (om_find i (pt_tracks (fi_t f))))"
    using p fr_ms_facts(3) [OF assms] by (simp_all add: fr_t2_def split: option.splits)
qed

lemma fr_aged_ok:
  assumes "frame_ok f"
  shows "om_ok (fr_aged f)" "fst ` set (fr_aged f) = fst ` set (pt_tracks (fi_t f))"
    "length (fr_aged f) = length (pt_tracks (fi_t f))"
  using fr_t2_facts(1-3) [OF assms] by (auto simp: fr_aged_def om_ok_map image_image)

lemma fr_aged_cases:
  assumes ok: "frame_ok f" and "(i, tr) \<in> set (fr_aged f)"
  obtains (matched) tr0 d where "(i, tr0) \<in> set (pt_tracks (fi_t f))" "(i, d) \<in> set (fr_ms f)"
      "tr = matched_track (pt_config (fi_t f)) (fr_dets f ! d) (fr_dt f) (fi_now f) tr0"
  | (unmatched) tr0 where "(i, tr0) \<in> set (pt_tracks (fi_t f))" "i \<notin> fst ` set (fr_ms f)"
      "tr = tr0\<lparr>tp_lost_frames := tp_lost_frames tr0 + 1\<rparr>"
proof -
  have "om_find i (fr_aged f) = Some tr" using assms(2) fr_aged_ok(1) [OF ok] by (rule om_find_mem [rotated])
  then obtain tr2 where tr2: "om_find i (pt_tracks (fr_t2 f)) = Some tr2"
    "tr = snd (age_track (map fst (fr_ms f)) (i, tr2))" by (auto simp: fr_aged_def om_find_age)
  show ?thesis
  proof (cases "map_of (fr_ms f) i")
    case None
    then have "i \<notin> fst ` set (fr_ms f)" by (simp add: map_of_eq_None_iff)
    with None tr2 show ?thesis
      by (intro unmatched [of tr2]) (auto simp: fr_t2_facts(4) [OF ok] age_track_def dest: om_find_in)
  next
    case (Some d)
    then have m: "(i, d) \<in> set (fr_ms f)" by (rule map_of_SomeD)
    then have "i \<in> fst ` set (fr_ms f)" by force
    with Some tr2 m show ?thesis
      by (auto simp: fr_t2_facts(4) [OF ok] age_track_def intro!: matched dest: om_find_in)
  qed
qed

lemma fr_lost_facts:
  assumes "frame_ok f"
  shows "distinct (fr_lost f)" "set (fr_lost f) \<subseteq> fst ` set (fr_aged f)"
    "set (fr_lost f) \<inter> fst ` set (fr_ms f) = {}"
proof -
  have "distinct (map fst (fr_aged f))" using fr_aged_ok(1) [OF assms] by (metis om_ok_def strict_sorted_iff)
  then show "distinct (fr_lost f)" unfolding fr_lost_def tracks_to_remove_def by (rule distinct_map_filter)
qed (force simp: fr_lost_def tracks_to_remove_def)+

lemma fr_aged_ids:
  assumes ok: "frame_ok f" and m: "(i, tr) \<in> set (fr_aged f)" shows "tp_track_id tr = i"
  using ok m
proof (cases rule: fr_aged_cases)
  case (matched tr0 d)
  with fr_tracks_ok [OF ok matched(1)] show ?thesis by (simp add: track_ok_def)
next
  case (unmatched tr0)
  with fr_tracks_ok [OF ok unmatched(1)] show ?thesis by (simp add: track_ok_def)
qed

lemma fr_t2_frame:
  "pt_config (fr_t2 f) = pt_config (fi_t f)" "pt_next_track_id (fr_t2 f) = pt_next_track_id (fi_t f)"
  "pt_line_enabled (fr_t2 f) = pt_line_enabled (fi_t f)"
  "pt_on_track_removed (fr_t2 f) = pt_on_track_removed (fi_t f)"
  "\<not> pt_line_enabled (fi_t f) \<Longrightarrow> pt_entry_count (fr_t2 f) = pt_entry_count (fi_t f)"
  "\<not> pt_line_enabled (fi_t f) \<Longrightarrow> pt_exit_count (fr_t2 f) = pt_exit_count (fi_t f)"
  by (simp_all add: fr_t2_def)

lemma fr_result_eq:
  "fr_result f =
    (let (t4, rs) = remove_tracks (fr_lost f) (fi_now f) ((fr_t2 f)\<lparr>pt_tracks := fr_aged f\<rparr>);
         t5 = fold (open_track (fi_now f)) (fr_fresh f) t4
     in (t5, visible (pt_tracks t5), rs))"
  by (simp add: fr_result_def pt_update_def Let_def fr_ms_def fr_dt_def fr_t2_def fr_aged_def
      fr_lost_def fr_fresh_def fr_dets_def)

lemma fr_outcome:
  assumes ok: "frame_ok f" and res: "fr_result f = (t', vis, recs)"
  shows "pt_tracks t' = filter (\<lambda>p. fst p \<notin> set (fr_lost f)) (fr_aged f) @
     new_entries (pt_config (fi_t f)) (pt_next_track_id (fi_t f)) (fr_fresh f) (fi_now f)"
  "om_ok (pt_tracks t')" "vis = visible (pt_tracks t')"
  "pt_next_track_id t' = pt_next_track_id (fi_t f) + int (length (fr_fresh f))"
  "pt_config t' = pt_config (fi_t f)" "pt_line_enabled t' = pt_line_enabled (fi_t f)"
  "pt_on_track_removed t' = pt_on_track_removed (fi_t f)"
  "map tr_track_id recs = (if pt_on_track_removed (fi_t f) then fr_lost f else [])"
  "\<not> pt_line_enabled (fi_t f) \<Longrightarrow> pt_entry_count t' = pt_entry_count (fi_t f) + int (length (fr_fresh f))"
  "\<not> pt_line_enabled (fi_t f) \<Longrightarrow> pt_exit_count (fi_t f) \<le> pt_exit_count t'"
  "\<not> pt_line_enabled (fi_t f) \<Longrightarrow> pt_exit_count t' \<le> pt_exit_count (fi_t f) + int (length (fr_lost f))"
proof -
  obtain t4 rs where rm: "remove_tracks (fr_lost f) (fi_now f) ((fr_t2 f)\<lparr>pt_tracks := fr_aged f\<rparr>) = (t4, rs)"
    by force
  have u: "t' = fold (open_track (fi_now f)) (fr_fresh f) t4" "vis = visible (pt_tracks t')" "recs = rs"
    using res rm by (auto simp: fr_result_eq Let_def)
  have r: "pt_tracks t4 = filter (\<lambda>p. fst p \<notin> set (fr_lost f)) (fr_aged f) \<and>
    pt_exit_count (fr_t2 f) \<le> pt_exit_count t4 \<and>
    pt_exit_count t4 \<le> pt_exit_count (fr_t2 f) + int (length (fr_lost f)) \<and>
    map tr_track_id rs = (if pt_on_track_removed (fr_t2 f) then fr_lost f else []) \<and>
    pt_entry_count t4 = pt_entry_count (fr_t2 f) \<and> pt_next_track_id t4 = pt_next_track_id (fr_t2 f) \<and>
    pt_config t4 = pt_config (fr_t2 f) \<and> pt_line_enabled t4 = pt_line_enabled (fr_t2 f) \<and>
    pt_on_track_removed t4 = pt_on_track_removed (fr_t2 f)"
  proof -
    have ids: "\<forall>(i, tr) \<in> set (fr_aged f). tp_track_id tr = i" using fr_aged_ids [OF ok] by blast
    show ?thesis
      using remove_tracks_facts [OF _ fr_lost_facts(1) [OF ok] _ rm] fr_aged_ok(1) [OF ok]
        fr_lost_facts(2) [OF ok] ids by simp
  qed
  have lt: "\<forall>i \<in> fst ` set (pt_tracks t4). i < pt_next_track_id t4"
  proof
    fix i assume "i \<in> fst ` set (pt_tracks t4)"
    then have "i \<in> fst ` set (fr_aged f)" using r by auto
    then obtain tr where "(i, tr) \<in> set (pt_tracks (fi_t f))" using fr_aged_ok(2) [OF ok] by auto
    from fr_tracks_ok [OF ok this] show "i < pt_next_track_id t4"
      using r fr_t2_frame [of f] by (simp add: track_ok_def)
  qed
  have "om_ok (pt_tracks t4)" using r fr_aged_ok(1) [OF ok] by (simp add: om_ok_filter)
  note o = fold_open_facts [OF this lt, of "fi_now f" "fr_fresh f", folded u(1)]
  show "om_ok (pt_tracks t')" using o by blast
  show "pt_tracks t' = filter (\<lambda>p. fst p \<notin> set (fr_lost f)) (fr_aged f) @
     new_entries (pt_config (fi_t f)) (pt_next_track_id (fi_t f)) (fr_fresh f) (fi_now f)"
  "vis = visible (pt_tracks t')"
  "pt_next_track_id t' = pt_next_track_id (fi_t f) + int (length (fr_fresh f))"
  "pt_config t' = pt_config (fi_t f)" "pt_line_enabled t' = pt_line_enabled (fi_t f)"
  "pt_on_track_removed t' = pt_on_track_removed (fi_t f)"
  "map tr_track_id recs = (if pt_on_track_removed (fi_t f) then fr_lost f else [])"
  "\<not> pt_line_enabled (fi_t f) \<Longrightarrow> pt_entry_count t' = pt_entry_count (fi_t f) + int (length (fr_fresh f))"
  "\<not> pt_line_enabled (fi_t f) \<Longrightarrow> pt_exit_count (fi_t f) \<le> pt_exit_count t'"
  "\<not> pt_line_enabled (fi_t f) \<Longrightarrow> pt_exit_count t' \<le> pt_exit_count (fi_t f) + int (length (fr_lost f))"
    using o r fr_t2_frame [of f] u by simp_all
qed

lemma fr_length:
  assumes ok: "frame_ok f" and res: "fr_result f = (t', vis, recs)"
  shows "length (pt_tracks t') + length (fr_lost f) = length (pt_tracks (fi_t f)) + length (fr_fresh f)"
proof -
  have "mset (filter (\<lambda>p. fst p \<in> set (fr_lost f)) (fr_aged f)) =
      mset (map (\<lambda>i. (i, the (om_find i (fr_aged f)))) (fr_lost f))"
    by (rule mset_filter_ids [OF fr_aged_ok(1) [OF ok] fr_lost_facts(1,2) [OF ok]])
  then have "length (filter (\<lambda>p. fst p \<in> set (fr_lost f)) (fr_aged f)) = length (fr_lost f)"
    by (metis length_map size_mset)
  moreover have "length (filter (\<lambda>p. fst p \<in> set (fr_lost f)) (fr_aged f)) +
      length (filter (\<lambda>p. fst p \<notin> set (fr_lost f)) (fr_aged f)) = length (fr_aged f)"
    by (rule sum_length_filter_compl)
  ultimately show ?thesis
    by (simp add: fr_outcome(1) [OF ok res] new_entries_facts(1) fr_aged_ok(3) [OF ok])
qed

lemma fr_tracks_cases:
  assumes ok: "frame_ok f" and res: "fr_result f = (t', vis, recs)" and m: "(i, tr) \<in> set (pt_tracks t')"
  obtains (old) "(i, tr) \<in> set (fr_aged f)" "i \<notin> set (fr_lost f)"
  | (new) d where "pt_next_track_id (fi_t f) \<le> i" "i < pt_next_track_id t'" "d \<in> set (fr_fresh f)"
      "tr = new_track (pt_config (fi_t f)) i d (fi_now f)"
  using m new_entries_facts(2) [of i tr] fr_outcome(4) [OF ok res]
  by (force simp: fr_outcome(1) [OF ok res])

lemma fr_inv:
  assumes ok: "frame_ok f" and res: "fr_result f = (t', vis, recs)" shows "pt_inv t'"
proof -
  have nn: "0 \<le> pt_next_track_id (fi_t f)" using ok by (simp add: frame_ok_def pt_inv_def)
  have "track_ok (pt_config (fi_t f)) (pt_next_track_id t') (i, tr)"
    if m: "(i, tr) \<in> set (pt_tracks t')" for i tr
    using ok res m
  proof (cases rule: fr_tracks_cases)
    case old
    show ?thesis using ok old(1)
    proof (cases rule: fr_aged_cases)
      case (matched tr0 d)
      then show ?thesis using fr_tracks_ok [OF ok matched(1)] fr_outcome(4) [OF ok res]
        by (auto simp: track_ok_def)
    next
      case (unmatched tr0)
      have "\<not> tp_lost_frames tr > max_lost (pt_config (fi_t f)) tr"
        using old unmatched(2) by (force simp: fr_lost_def tracks_to_remove_def)
      with unmatched fr_tracks_ok [OF ok unmatched(1)] fr_outcome(4) [OF ok res] show ?thesis
        by (auto simp: track_ok_def)
    qed
  next
    case (new d)
    with nn show ?thesis by (simp add: track_ok_def new_track_def)
  qed
  with fr_outcome [OF ok res] nn show ?thesis by (auto simp: pt_inv_def)
qed

lemma visible_new_entries: "visible (new_entries c k ds now) = map snd (new_entries c k ds now)"
  by (induction c k ds now rule: new_entries.induct) (auto simp: visible_def new_track_def)

lemma visible_append: "visible (a @ b) = visible a @ visible b"
  by (simp add: visible_def)

lemma fr_aged_detection:
  assumes ok: "frame_ok f" and m: "(i, d) \<in> set (fr_ms f)"
  shows "tp_detection (the (om_find i (fr_aged f))) = fr_dets f ! d"
proof -
  have "i \<in> fst ` set (fr_aged f)" using m fr_ms_facts(3) [OF ok] fr_aged_ok(2) [OF ok] by force
  then obtain tr where tr: "om_find i (fr_aged f) = Some tr" by (auto simp: om_find_iff)
  then have "(i, tr) \<in> set (fr_aged f)" by (rule om_find_in)
  with ok show ?thesis
  proof (cases rule: fr_aged_cases)
    case (matched tr0 e)
    with m fr_ms_facts(1) [OF ok] have "e = d" by (metis eq_key_imp_eq_value)
    with matched tr show ?thesis by simp
  qed (use m in force)
qed

lemma fr_aged_visible:
  assumes ok: "frame_ok f"
  shows "image_mset tp_detection (mset (visible (filter (\<lambda>p. fst p \<notin> set (fr_lost f)) (fr_aged f)))) =
    image_mset (\<lambda>m. fr_dets f ! snd m) (mset (fr_ms f))"
proof -
  have lost0: "(tp_lost_frames tr = 0) = (i \<in> fst ` set (fr_ms f))" if m: "(i, tr) \<in> set (fr_aged f)" for i tr
    using ok m
  proof (cases rule: fr_aged_cases)
    case (matched tr0 d)
    then show ?thesis by force
  next
    case (unmatched tr0)
    with fr_tracks_ok [OF ok unmatched(1)] show ?thesis by (simp add: track_ok_def)
  qed
  have "visible (filter (\<lambda>p. fst p \<notin> set (fr_lost f)) (fr_aged f)) =
      map snd (filter (\<lambda>p. fst p \<in> set (map fst (fr_ms f))) (fr_aged f))"
    unfolding visible_def filter_filter using lost0 fr_lost_facts(3) [OF ok]
    by (intro arg_cong [where f = "map snd"] filter_cong) force+
  moreover have "mset (filter (\<lambda>p. fst p \<in> set (map fst (fr_ms f))) (fr_aged f)) =
      mset (map (\<lambda>i. (i, the (om_find i (fr_aged f)))) (map fst (fr_ms f)))"
    using fr_ms_facts [OF ok] fr_aged_ok [OF ok] by (intro mset_filter_ids) auto
  ultimately have "mset (visible (filter (\<lambda>p. fst p \<notin> set (fr_lost f)) (fr_aged f))) =
      image_mset (\<lambda>m. the (om_find (fst m) (fr_aged f))) (mset (fr_ms f))"
    by (simp add: comp_def image_mset.compositionality)
  then show ?thesis using fr_aged_detection [OF ok]
    by (simp add: image_mset.compositionality comp_def) (force intro: image_mset_cong)
qed

lemma fr_visible_detections:
  assumes ok: "frame_ok f" and res: "fr_result f = (t', vis, recs)"
  shows "image_mset tp_detection (mset vis) = mset (fr_dets f)"
proof -
  let ?D = "fr_dets f"
  let ?un = "filter (\<lambda>i. i \<notin> set (map snd (fr_ms f))) [0..<length ?D]"
  have "image_mset tp_detection (mset vis) =
      image_mset (\<lambda>m. ?D ! snd m) (mset (fr_ms f)) + mset (fr_fresh f)"
    using fr_aged_visible [OF ok] new_entries_facts(3) [of "pt_config (fi_t f)" "pt_next_track_id (fi_t f)" "fr_fresh f" "fi_now f"]
    by (simp add: fr_outcome(1,3) [OF ok res] visible_append visible_new_entries
        comp_def flip: mset_map)
  also have "mset (fr_fresh f) = image_mset ((!) ?D) (mset ?un)"
    by (simp add: fr_fresh_def unmatched_dets_def)
  also have "image_mset (\<lambda>m. ?D ! snd m) (mset (fr_ms f)) = image_mset ((!) ?D) (mset (map snd (fr_ms f)))"
    by (simp add: image_mset.compositionality comp_def)
  also have "image_mset ((!) ?D) (mset (map snd (fr_ms f))) + image_mset ((!) ?D) (mset ?un) =
      image_mset ((!) ?D) (mset (map snd (fr_ms f) @ ?un))" by simp
  also have "mset (map snd (fr_ms f) @ ?un) = mset [0..<length ?D]"
  proof -
    have "distinct (map snd (fr_ms f) @ ?un)" using fr_ms_facts(2) [OF ok] by auto
    moreover have "set (map snd (fr_ms f) @ ?un) = set [0..<length ?D]" using fr_ms_facts(4) [OF ok] by (force simp: image_iff)
    ultimately show ?thesis by (metis distinct_upt set_eq_iff_mset_eq_distinct)
  qed
  finally show ?thesis by (simp only: map_nth flip: mset_map)
qed

section \<open>Runs\<close>

fun pt_run :: "id_sort \<Rightarrow> (detection_box list \<times> f32) list \<Rightarrow> person_tracker \<Rightarrow>
    person_tracker \<times> track_record list" where
  "pt_run srt [] t = (t, [])"
| "pt_run srt ((ds, now) # frames) t =
    (let (t1, _, r1) = pt_update srt ds now t; (t2, r2) = pt_run srt frames t1 in (t2, r1 @ r2))"

lemma mset_new_ids: "map fst (new_entries c k ds now) = [k..k + int (length ds) - 1]"
  by (induction c k ds now rule: new_entries.induct) (auto simp: upto_rec1 algebra_simps)

text \<open>Every id is either alive or was removed: the ids in the table and the removed ones.\<close>

lemma fr_ids:
  assumes ok: "frame_ok f" and res: "fr_result f = (t', vis, recs)"
  shows "mset (om_keys (pt_tracks t')) + mset (fr_lost f) =
    mset (om_keys (pt_tracks (fi_t f))) + mset [pt_next_track_id (fi_t f)..pt_next_track_id t' - 1]"
proof -
  have keys: "om_keys (fr_aged f) = om_keys (pt_tracks (fi_t f))"
    using fr_aged_ok [OF ok] ok unfolding om_keys_def om_ok_def frame_ok_def pt_inv_def
    by (intro strict_sorted_equal) auto
  have "mset (filter (\<lambda>i. i \<in> set (fr_lost f)) (om_keys (fr_aged f))) = mset (fr_lost f)"
    using fr_lost_facts [OF ok] fr_aged_ok(1) [OF ok]
    by (intro set_eq_iff_mset_eq_distinct [THEN iffD1]) (auto simp: om_keys_def om_ok_def strict_sorted_iff)
  then have "mset (filter (\<lambda>i. i \<notin> set (fr_lost f)) (om_keys (fr_aged f))) + mset (fr_lost f) =
      mset (om_keys (fr_aged f))"
    by (metis add.commute mset_filter multiset_partition)
  moreover have "om_keys (pt_tracks t') = filter (\<lambda>i. i \<notin> set (fr_lost f)) (om_keys (fr_aged f)) @
      [pt_next_track_id (fi_t f)..pt_next_track_id t' - 1]"
    by (simp add: fr_outcome(1,4) [OF ok res] om_keys_def mset_new_ids filter_map comp_def)
  ultimately show ?thesis by (simp add: keys)
qed

definition conserved :: "person_tracker \<Rightarrow> track_record list \<Rightarrow> bool" where
  "conserved t recs \<longleftrightarrow> pt_inv t \<and> \<not> pt_line_enabled t \<and> pt_on_track_removed t \<and>
     pt_entry_count t = pt_next_track_id t \<and> 0 \<le> pt_exit_count t \<and>
     pt_exit_count t \<le> int (length recs) \<and>
     mset (map tr_track_id recs) + mset (om_keys (pt_tracks t)) = mset [0..pt_next_track_id t - 1]"

lemma conserved_update:
  assumes srt: "sort_spec srt" and c: "conserved t recs" and u: "pt_update srt ds now t = (t', vis, rs)"
  shows "conserved t' (recs @ rs)"
proof -
  let ?f = "\<lparr>fi_srt = srt, fi_detections = ds, fi_now = now, fi_t = t\<rparr>"
  have ok: "frame_ok ?f" using srt c by (simp add: frame_ok_def conserved_def)
  have res: "fr_result ?f = (t', vis, rs)" using u by (simp add: fr_result_def)
  note o = fr_outcome [OF ok res, simplified] and i = fr_ids [OF ok res, simplified]
  have nn: "0 \<le> pt_next_track_id t" "pt_next_track_id t \<le> pt_next_track_id t'"
    using c o(4) by (auto simp: conserved_def pt_inv_def)
  then have split: "[0..pt_next_track_id t' - 1] =
      [0..pt_next_track_id t - 1] @ [pt_next_track_id t..pt_next_track_id t' - 1]"
    using upto_split1 [of 0 "pt_next_track_id t" "pt_next_track_id t' - 1"] by (cases "pt_next_track_id t = pt_next_track_id t'") auto
  have rs: "map tr_track_id rs = fr_lost ?f" using o(8) c by (simp add: conserved_def)
  have "mset (map tr_track_id (recs @ rs)) + mset (om_keys (pt_tracks t')) =
      mset (map tr_track_id recs) + (mset (om_keys (pt_tracks t')) + mset (fr_lost ?f))"
    by (simp only: map_append mset_append rs) (simp add: ac_simps)
  also have "\<dots> = mset [0..pt_next_track_id t' - 1]"
    unfolding i split using c by (simp add: conserved_def ac_simps) 
  finally have m: "mset (map tr_track_id (recs @ rs)) + mset (om_keys (pt_tracks t')) =
      mset [0..pt_next_track_id t' - 1]" .
  have "length rs = length (fr_lost ?f)" using arg_cong [OF rs, of length] by simp
  then have "pt_exit_count t' \<le> int (length (recs @ rs))" "0 \<le> pt_exit_count t'"
    using c o(10,11) by (auto simp: conserved_def)
  with m c o(4-7,9) fr_inv [OF ok res] show ?thesis unfolding conserved_def by simp
qed

lemma conserved_run:
  "sort_spec srt \<Longrightarrow> conserved t recs \<Longrightarrow> pt_run srt frames t = (t', rs) \<Longrightarrow> conserved t' (recs @ rs)"
proof (induction frames arbitrary: t t' recs rs)
  case (Cons a frames)
  obtain ds now where a: "a = (ds, now)" by force
  obtain t1 v r1 where u: "pt_update srt ds now t = (t1, v, r1)" by (metis prod_cases3)
  obtain t2 r2 where r: "pt_run srt frames t1 = (t2, r2)" by force
  have "conserved t2 ((recs @ r1) @ r2)"
    by (rule Cons.IH [OF Cons.prems(1) conserved_update [OF Cons.prems(1,2) u] r])
  with Cons.prems(3) a u r show ?case by simp
qed simp

lemma inv_run:
  "sort_spec srt \<Longrightarrow> pt_inv t \<Longrightarrow> pt_run srt frames t = (t', rs) \<Longrightarrow> pt_inv t'"
proof (induction frames arbitrary: t t' rs)
  case (Cons a frames)
  obtain ds now where a: "a = (ds, now)" by force
  obtain t1 v r1 where u: "pt_update srt ds now t = (t1, v, r1)" by (metis prod_cases3)
  obtain t2 r2 where r: "pt_run srt frames t1 = (t2, r2)" by force
  let ?f = "\<lparr>fi_srt = srt, fi_detections = ds, fi_now = now, fi_t = t\<rparr>"
  have "pt_inv t1" using Cons.prems u by (intro fr_inv [of ?f]) (auto simp: frame_ok_def fr_result_def)
  with Cons.IH [OF Cons.prems(1) _ r] Cons.prems(3) a u r show ?case by simp
qed simp

section \<open>Dwell state\<close>

definition dwell_class :: "tracker_config \<Rightarrow> f32 \<Rightarrow> dwell_state" where
  "dwell_class c d = (if d \<ge> tc_dwell_assistance_threshold c then ASSISTANCE
     else if d \<ge> tc_dwell_min_duration c then ENGAGED else DWELLING)"

definition dwell_ok :: "tracker_config \<Rightarrow> tracked_person \<Rightarrow> bool" where
  "dwell_ok c tr \<longleftrightarrow>
     (if tp_dwell_state tr = TRANSIENT then tp_dwell_duration_sec tr = 0
      else tp_dwell_state tr = dwell_class c (tp_dwell_duration_sec tr) \<and>
        (1 \<le> tc_dwell_min_frames c \<longrightarrow> 0 < tp_stationary_frames tr))"

lemma dwell_class_not_transient [simp]: "dwell_class c d \<noteq> TRANSIENT"
  by (simp add: dwell_class_def)

lemma update_dwell_still:
  fixes now :: f32
  assumes "tp_speed_px_s tr < tc_dwell_speed_threshold c"
    "tp_stationary_frames tr + 1 \<ge> tc_dwell_min_frames c"
  defines "start \<equiv> (if tp_dwell_start_time tr \<le> 0 then now else tp_dwell_start_time tr)"
  shows "tp_dwell_state (update_dwell_state c tr now) = dwell_class c (now - start)"
    "tp_dwell_duration_sec (update_dwell_state c tr now) = now - start"
    "tp_dwell_start_time (update_dwell_state c tr now) = start"
    "tp_stationary_frames (update_dwell_state c tr now) = tp_stationary_frames tr + 1"
    "tp_speed_px_s (update_dwell_state c tr now) = tp_speed_px_s tr"
  using assms by (simp_all add: update_dwell_state_def update_stationary_frames_def dwell_class_def Let_def)

lemma update_dwell_warming:
  assumes "tp_speed_px_s tr < tc_dwell_speed_threshold c"
    "tp_stationary_frames tr + 1 < tc_dwell_min_frames c" "0 \<le> tp_stationary_frames tr"
  shows "update_dwell_state c tr now = tr\<lparr>tp_stationary_frames := tp_stationary_frames tr + 1\<rparr>"
  using assms by (simp add: update_dwell_state_def update_stationary_frames_def Let_def)

lemma update_dwell_moving:
  assumes "\<not> tp_speed_px_s tr < tc_dwell_speed_threshold c"
  defines "n \<equiv> tp_stationary_frames (update_stationary_frames c tr False)"
  shows "update_dwell_state c tr now =
    (if n = 0 then tr\<lparr>tp_stationary_frames := 0, tp_dwell_state := TRANSIENT,
       tp_dwell_start_time := 0, tp_dwell_duration_sec := 0\<rparr>
     else tr\<lparr>tp_stationary_frames := n\<rparr>)"
  using assms by (simp add: update_dwell_state_def update_stationary_frames_def Let_def)

lemma dwell_ok_update:
  assumes "dwell_ok c tr" "0 \<le> tp_stationary_frames tr"
  shows "dwell_ok c (update_dwell_state c tr now)"
proof (cases "tp_speed_px_s tr < tc_dwell_speed_threshold c")
  case still: True
  show ?thesis
  proof (cases "tp_stationary_frames tr + 1 \<ge> tc_dwell_min_frames c")
    case True
    with still assms(2) show ?thesis by (simp add: dwell_ok_def update_dwell_still)
  next
    case False
    with still assms show ?thesis by (auto simp: dwell_ok_def update_dwell_warming)
  qed
next
  case False
  with assms show ?thesis
    by (auto simp: dwell_ok_def update_dwell_moving update_stationary_frames_def)
qed

definition dwell_run :: "tracker_config \<Rightarrow> f32 list \<Rightarrow> tracked_person \<Rightarrow> tracked_person" where
  "dwell_run c ts tr = fold (\<lambda>now tr. update_dwell_state c tr now) ts tr"

definition dwell_inv :: "person_tracker \<Rightarrow> bool" where
  "dwell_inv t \<longleftrightarrow> (\<forall>p \<in> set (pt_tracks t). dwell_ok (pt_config t) (snd p))"

lemma dwell_ok_matched:
  assumes "dwell_ok c tr" "0 \<le> tp_stationary_frames tr"
  shows "dwell_ok c (matched_track c det dt now tr)"
  unfolding matched_track_def Let_def
  by (rule dwell_ok_update) (use assms in \<open>simp_all add: dwell_ok_def\<close>)

lemma dwell_inv_frame:
  assumes ok: "frame_ok f" and d: "dwell_inv (fi_t f)" and res: "fr_result f = (t', vis, recs)"
  shows "dwell_inv t'"
proof -
  have "dwell_ok (pt_config (fi_t f)) tr" if m: "(i, tr) \<in> set (pt_tracks t')" for i tr
    using ok res m
  proof (cases rule: fr_tracks_cases)
    case old
    from ok old(1) show ?thesis
    proof (cases rule: fr_aged_cases)
      case (matched tr0 e)
      have "dwell_ok (pt_config (fi_t f)) tr0" using d matched(1) by (auto simp: dwell_inv_def)
      moreover have "0 \<le> tp_stationary_frames tr0" using fr_tracks_ok [OF ok matched(1)] by (simp add: track_ok_def)
      ultimately show ?thesis unfolding matched(3) by (rule dwell_ok_matched)
    next
      case (unmatched tr0)
      have "dwell_ok (pt_config (fi_t f)) tr0" using d unmatched(1) by (auto simp: dwell_inv_def)
      then show ?thesis unfolding unmatched(3) by (simp add: dwell_ok_def)
    qed
  qed (simp add: dwell_ok_def new_track_def)
  then show ?thesis using fr_outcome(5) [OF ok res] by (auto simp: dwell_inv_def)
qed

lemma dwell_inv_run:
  "sort_spec srt \<Longrightarrow> pt_inv t \<Longrightarrow> dwell_inv t \<Longrightarrow> pt_run srt frames t = (t', rs) \<Longrightarrow> dwell_inv t'"
proof (induction frames arbitrary: t t' rs)
  case (Cons a frames)
  obtain ds now where a: "a = (ds, now)" by force
  obtain t1 v r1 where u: "pt_update srt ds now t = (t1, v, r1)" by (metis prod_cases3)
  obtain t2 r2 where r: "pt_run srt frames t1 = (t2, r2)" by force
  let ?f = "\<lparr>fi_srt = srt, fi_detections = ds, fi_now = now, fi_t = t\<rparr>"
  have ok: "frame_ok ?f" and res: "fr_result ?f = (t1, v, r1)"
    using Cons.prems u by (simp_all add: frame_ok_def fr_result_def)
  have "dwell_inv t1" using dwell_inv_frame [OF ok _ res] Cons.prems by simp
  with Cons.IH [OF Cons.prems(1) fr_inv [OF ok res] _ r] Cons.prems(4) a u r show ?case by simp
qed simp

lemma run_config:
  "sort_spec srt \<Longrightarrow> pt_inv t \<Longrightarrow> pt_run srt frames t = (t', rs) \<Longrightarrow> pt_config t' = pt_config t"
proof (induction frames arbitrary: t t' rs)
  case (Cons a frames)
  obtain ds now where a: "a = (ds, now)" by force
  obtain t1 v r1 where u: "pt_update srt ds now t = (t1, v, r1)" by (metis prod_cases3)
  obtain t2 r2 where r: "pt_run srt frames t1 = (t2, r2)" by force
  let ?f = "\<lparr>fi_srt = srt, fi_detections = ds, fi_now = now, fi_t = t\<rparr>"
  have ok: "frame_ok ?f" and res: "fr_result ?f = (t1, v, r1)"
    using Cons.prems u by (simp_all add: frame_ok_def fr_result_def)
  show ?case
    using Cons.IH [OF Cons.prems(1) fr_inv [OF ok res] r] fr_outcome(5) [OF ok res] Cons.prems(3) a u r by simp
qed simp

text \<open>A person who stands still from the first frame on.\<close>

lemma dwell_run_still:
  assumes slow: "tp_speed_px_s tr < tc_dwell_speed_threshold c"
    and new: "tp_stationary_frames tr = 0" "tp_dwell_start_time tr = 0" "tp_dwell_state tr = TRANSIENT"
    and m: "tc_dwell_min_frames c = int m" "1 \<le> m"
    and pos: "\<forall>x \<in> set ts. 0 < x"
  shows "tp_speed_px_s (dwell_run c ts tr) = tp_speed_px_s tr \<and>
    tp_stationary_frames (dwell_run c ts tr) = int (length ts) \<and>
    (if length ts < m
     then tp_dwell_start_time (dwell_run c ts tr) = 0 \<and> tp_dwell_state (dwell_run c ts tr) = TRANSIENT
     else tp_dwell_start_time (dwell_run c ts tr) = ts ! (m - 1) \<and>
       tp_dwell_duration_sec (dwell_run c ts tr) = last ts - ts ! (m - 1) \<and>
       tp_dwell_state (dwell_run c ts tr) = dwell_class c (last ts - ts ! (m - 1)))"
  using pos
proof (induction ts rule: rev_induct)
  case Nil
  with new m show ?case by (simp add: dwell_run_def)
next
  case (snoc now ts)
  let ?r = "dwell_run c ts tr"
  have step: "dwell_run c (ts @ [now]) tr = update_dwell_state c ?r now" by (simp add: dwell_run_def)
  have IH: "tp_speed_px_s ?r = tp_speed_px_s tr" "tp_stationary_frames ?r = int (length ts)"
    "length ts < m \<Longrightarrow> tp_dwell_start_time ?r = 0 \<and> tp_dwell_state ?r = TRANSIENT"
    "\<not> length ts < m \<Longrightarrow> tp_dwell_start_time ?r = ts ! (m - 1)"
    using snoc by (auto split: if_splits)
  have slow': "tp_speed_px_s ?r < tc_dwell_speed_threshold c" using slow IH(1) by simp
  have "\<not> is_nan now" using snoc.prems fl_less_not_nan [of 0 now] by simp
  show ?case
  proof (cases "length ts + 1 < m")
    case True
    with slow' IH m show ?thesis by (simp add: step update_dwell_warming)
  next
    case reach: False
    have "tc_dwell_min_frames c \<le> tp_stationary_frames ?r + 1" using reach IH(2) m by simp
    note st = update_dwell_still [OF slow' this, where now = now]
    show ?thesis
    proof (cases "length ts < m")
      case True
      with reach have len: "m = length ts + 1" by simp
      have "tp_dwell_start_time ?r \<le> 0" using IH(3) [OF True] by (simp add: le_fin)
      with st IH(1,2) len show ?thesis unfolding step by simp
    next
      case False
      then have i: "m - 1 < length ts" using m(2) by simp
      then have "0 < ts ! (m - 1)" using snoc.prems by simp
      then have "\<not> ts ! (m - 1) \<le> 0"
        by (cases "ts ! (m - 1)") (auto simp: zero_fl_def elim: less_fl.elims)
      with st IH(1,2) IH(4) [OF False] False i show ?thesis unfolding step by (simp add: nth_append)
    qed
  qed
qed

section \<open>Counts\<close>

lemma fold_counts:
  "fold (\<lambda>(i, track) n. if tp_lost_frames track > 0 then n
      else if \<not> counted_in_zone zone track then n else count_state (tp_dwell_state track) n) m n =
   (let V = filter (\<lambda>tr. \<not> tp_lost_frames tr > 0 \<and> counted_in_zone zone tr) (map snd m)
    in n\<lparr>sc_total := sc_total n + int (length V),
         sc_browsing := sc_browsing n + int (length (filter (\<lambda>tr. tp_dwell_state tr < ENGAGED) V)),
         sc_engaged := sc_engaged n + int (length (filter (\<lambda>tr. tp_dwell_state tr = ENGAGED) V)),
         sc_assistance := sc_assistance n + int (length (filter (\<lambda>tr. tp_dwell_state tr = ASSISTANCE) V))\<rparr>)"
proof (induction m arbitrary: n)
  case (Cons p m)
  obtain i tr where p: "p = (i, tr)" by force
  show ?case
    by (cases "tp_dwell_state tr")
      (simp_all add: p Cons.IH Let_def count_state_def less_dwell_state_def)
qed (simp add: Let_def)

section \<open>Properties\<close>

text \<open>Matching assigns every detection to at most one track and every track to at most one
  detection; it names only existing tracks and in-range detections, whatever order the sort
  gives to equally old tracks and whatever the coordinates are (NaN included).\<close>

theorem match_detections_injective:
  assumes "sort_spec srt" "om_ok tracks"
  shows "let ms = match_detections srt c tracks dets in
    distinct (map fst ms) \<and> distinct (map snd ms) \<and>
    set (map fst ms) \<subseteq> set (om_keys tracks) \<and> (\<forall>d \<in> set (map snd ms). d < length dets)"
  using match_detections_facts [OF assms refl, of c dets] by (simp add: Let_def)

text \<open>C1: the persons a frame returns are exactly its person detections: as a multiset the
  returned boxes are the boxes of class 0 of the input, none lost, invented or duplicated, in
  order of increasing track id.\<close>

theorem update_returns_person_detections:
  assumes "sort_spec srt" "pt_inv t" "pt_update srt detections now t = (t', vis, recs)"
  shows "mset (map tp_detection vis) = mset (filter (\<lambda>d. db_target d = 0) detections) \<and>
    sorted_wrt (<) (map tp_track_id vis) \<and> (\<forall>tr \<in> set vis. tp_lost_frames tr = 0)"
proof -
  let ?f = "\<lparr>fi_srt = srt, fi_detections = detections, fi_now = now, fi_t = t\<rparr>"
  have ok: "frame_ok ?f" and res: "fr_result ?f = (t', vis, recs)"
    using assms by (simp_all add: frame_ok_def fr_result_def)
  have ids: "map tp_track_id (visible m) = map fst (filter (\<lambda>(i, tr). tp_lost_frames tr = 0) m)"
    if "\<forall>p \<in> set m. tp_track_id (snd p) = fst p" for m
    using that by (auto simp: visible_def)
  have inv: "pt_inv t'" by (rule fr_inv [OF ok res])
  then have "\<forall>p \<in> set (pt_tracks t'). tp_track_id (snd p) = fst p"
    by (auto simp: pt_inv_def track_ok_def)
  moreover have "sorted_wrt (<) (map fst (filter (\<lambda>(i, tr). tp_lost_frames tr = 0) (pt_tracks t')))"
    using inv om_ok_filter unfolding pt_inv_def om_ok_def by blast
  ultimately have "sorted_wrt (<) (map tp_track_id vis)" by (simp add: fr_outcome(3) [OF ok res] ids)
  moreover have "\<forall>tr \<in> set vis. tp_lost_frames tr = 0"
    by (auto simp: fr_outcome(3) [OF ok res] visible_def)
  ultimately show ?thesis using fr_visible_detections [OF ok res] by (simp add: fr_dets_def)
qed

text \<open>C3: after any sequence of frames the table is well formed: keys strictly increase and
  equal the stored ids, ids lie below the next id, and a track that is not visible has been
  lost for at most the limit of its kind (edge or centre).\<close>

theorem run_keeps_table_invariant:
  assumes "sort_spec srt" "pt_run srt frames (set_config c new_person_tracker) = (t, recs)"
  shows "pt_inv t"
  using assms(1) _ assms(2)
  by (rule inv_run) (simp add: pt_inv_def set_config_def new_person_tracker_def)

text \<open>C2: without an entry line, over any run, every id ever issued is either in the table or
  was reported removed, exactly once; the entry count is the number of ids issued, and the
  exit count never exceeds the number of removals, hence never the number of entries.\<close>

theorem run_conserves_tracks:
  assumes "sort_spec srt"
    "pt_run srt frames (set_track_removed_callback True (set_config c new_person_tracker)) = (t, recs)"
  shows "pt_entry_count t = pt_next_track_id t \<and>
    mset (map tr_track_id recs) + mset (om_keys (pt_tracks t)) = mset [0..pt_entry_count t - 1] \<and>
    0 \<le> pt_exit_count t \<and> pt_exit_count t \<le> int (length recs) \<and>
    pt_entry_count t = int (length recs) + int (length (pt_tracks t))"
proof -
  have "conserved t ([] @ recs)"
    using assms(1) _ assms(2)
    by (rule conserved_run)
      (simp add: conserved_def pt_inv_def set_config_def set_track_removed_callback_def
        new_person_tracker_def om_keys_def)
  then have c: "pt_entry_count t = pt_next_track_id t" "0 \<le> pt_exit_count t"
    "pt_exit_count t \<le> int (length recs)" "0 \<le> pt_next_track_id t"
    "mset (map tr_track_id recs) + mset (om_keys (pt_tracks t)) = mset [0..pt_next_track_id t - 1]"
    by (auto simp: conserved_def pt_inv_def)
  from arg_cong [OF c(5), of size] c(4)
  have "int (length recs) + int (length (pt_tracks t)) = pt_next_track_id t"
    by (simp add: om_keys_def)
  with c show ?thesis by simp
qed

text \<open>After any sequence of frames the dwell state of every track agrees with its dwell
  duration: a transient track has duration 0, any other state is the class of the duration
  under the configured thresholds (and, when stillness needs at least one frame, the track has
  been stationary for one).\<close>

theorem dwell_state_matches_duration:
  assumes "sort_spec srt" "pt_run srt frames (set_config c new_person_tracker) = (t, recs)"
  shows "\<forall>p \<in> set (pt_tracks t). dwell_ok c (snd p)"
proof -
  have "dwell_inv t" using assms(1) _ _ assms(2)
    by (rule dwell_inv_run) (simp_all add: dwell_inv_def pt_inv_def set_config_def new_person_tracker_def)
  moreover have "pt_config t = c"
    using run_config [OF assms(1) _ assms(2)] by (simp add: pt_inv_def set_config_def new_person_tracker_def)
  ultimately show ?thesis by (simp add: dwell_inv_def)
qed

text \<open>A person who stands still becomes stationary on frame \<open>dwell_min_frames\<close>, and from then
  on the duration is the time since exactly that frame: transient before, then dwelling,
  engaged or in need of assistance as the duration passes the thresholds.\<close>

theorem standing_still_dwell_progress:
  assumes "tp_speed_px_s tr < tc_dwell_speed_threshold c"
    "tp_stationary_frames tr = 0" "tp_dwell_start_time tr = 0" "tp_dwell_state tr = TRANSIENT"
    "tc_dwell_min_frames c = int m" "1 \<le> m" "\<forall>x \<in> set ts. 0 < x"
  shows "tp_dwell_state (dwell_run c ts tr) =
    (if length ts < m then TRANSIENT else dwell_class c (last ts - ts ! (m - 1)))"
  using dwell_run_still [OF assms] by (simp split: if_splits)

text \<open>The state counts partition the visible persons whose foot point is in the counting
  zone (the whole frame when there is none): the total is their number and splits into
  browsing (transient or dwelling), engaged and assistance.\<close>

theorem state_counts_partition:
  "let V = filter (\<lambda>tr. \<not> tp_lost_frames tr > 0 \<and> counted_in_zone (pt_count_zone t) tr) (map snd (pt_tracks t));
       n = get_state_counts t
   in sc_total n = int (length V) \<and>
    sc_browsing n = int (length (filter (\<lambda>tr. tp_dwell_state tr < ENGAGED) V)) \<and>
    sc_engaged n = int (length (filter (\<lambda>tr. tp_dwell_state tr = ENGAGED) V)) \<and>
    sc_total n = sc_browsing n + sc_engaged n + sc_assistance n"
proof -
  have split: "length (filter (\<lambda>tr. tp_dwell_state tr < ENGAGED) xs) +
      length (filter (\<lambda>tr. tp_dwell_state tr = ENGAGED) xs) +
      length (filter (\<lambda>tr. tp_dwell_state tr = ASSISTANCE) xs) = length xs" for xs
  proof (induction xs)
    case (Cons x xs)
    then show ?case by (cases "tp_dwell_state x") (simp_all add: less_dwell_state_def)
  qed simp
  show ?thesis
    unfolding get_state_counts_def fold_counts Let_def
    using arg_cong [OF split [of "filter (\<lambda>tr. \<not> tp_lost_frames tr > 0 \<and> counted_in_zone (pt_count_zone t) tr)
      (map snd (pt_tracks t))"], of int] by simp
qed

section \<open>Concrete instances\<close>

definition box1 :: detection_box where
  "box1 = \<lparr>db_x = lit (1 / 2), db_y = lit (1 / 2), db_w = lit (1 / 4), db_h = lit (1 / 4), db_score = 1, db_target = 0\<rparr>"

definition table1 :: "(int, tracked_person) omap" where
  "table1 = [(7, new_track default_tracker_config 7 box1 1)]"

theorem match_detections_injective_witness:
  "match_detections stable_sort default_tracker_config table1 [box1, box1] = [(7, 0)] \<and>
   distinct (map fst (match_detections stable_sort default_tracker_config table1 [box1, box1]))"
proof
  show "match_detections stable_sort default_tracker_config table1 [box1, box1] = [(7, 0)]"
    by code_simp
  show "distinct (map fst (match_detections stable_sort default_tracker_config table1 [box1, box1]))"
    using match_detections_injective [OF stable_sort_spec, of table1 default_tracker_config "[box1, box1]"]
    by (simp add: table1_def om_ok_def Let_def)
qed

definition frames1 :: "(detection_box list \<times> f32) list" where
  "frames1 = [([box1], 1), ([], lit 2), ([box1], lit 3)]"

definition quick_config :: tracker_config where
  "quick_config = default_tracker_config\<lparr>tc_max_lost_frames_center := 0\<rparr>"

definition run1 :: "person_tracker \<times> track_record list" where
  "run1 = pt_run stable_sort frames1
     (set_track_removed_callback True (set_config quick_config new_person_tracker))"

theorem update_returns_person_detections_witness:
  "let (t, vis, recs) = pt_update stable_sort [box1, box1\<lparr>db_target := 2\<rparr>] 1 new_person_tracker in
   map tp_detection vis = [box1] \<and> list_all (\<lambda>tr. tp_lost_frames tr = 0) vis"
proof -
  have "pt_inv new_person_tracker" by (simp add: pt_inv_def new_person_tracker_def)
  obtain t vis recs where
    u: "pt_update stable_sort [box1, box1\<lparr>db_target := 2\<rparr>] 1 new_person_tracker = (t, vis, recs)"
    by (metis prod_cases3)
  note update_returns_person_detections [OF stable_sort_spec \<open>pt_inv new_person_tracker\<close> u]
  then have "mset (map tp_detection vis) = {#box1#}" "\<forall>tr \<in> set vis. tp_lost_frames tr = 0"
    by (simp_all add: box1_def)
  moreover from this(1) have "map tp_detection vis = [box1]" by (metis mset_single_iff mset.simps(1,2))
  ultimately show ?thesis using u by (simp add: list_all_iff)
qed

theorem run_keeps_table_invariant_witness:
  "pt_inv (fst (pt_run stable_sort frames1 (set_config quick_config new_person_tracker)))"
  using run_keeps_table_invariant [OF stable_sort_spec prod.collapse [symmetric]] .

theorem run_conserves_tracks_witness:
  "map tr_track_id (snd run1) = [0] \<and> pt_entry_count (fst run1) = 2 \<and> length (pt_tracks (fst run1)) = 1"
proof -
  have "snd run1 \<noteq> [] \<and> map tr_track_id (snd run1) = [0] \<and> length (pt_tracks (fst run1)) = 1"
    unfolding run1_def by code_simp
  with run_conserves_tracks [OF stable_sort_spec, of frames1 quick_config "fst run1" "snd run1"]
  show ?thesis by (auto simp: run1_def)
qed

theorem dwell_state_matches_duration_witness:
  "list_all (\<lambda>p. dwell_ok quick_config (snd p))
     (pt_tracks (fst (pt_run stable_sort frames1 (set_config quick_config new_person_tracker))))"
  using dwell_state_matches_duration [OF stable_sort_spec prod.collapse [symmetric]] by (simp add: list_all_iff)

theorem standing_still_dwell_progress_witness:
  "tp_dwell_state (dwell_run (default_tracker_config\<lparr>tc_dwell_min_frames := 2\<rparr>) [1, lit 2, lit 4]
     (new_track default_tracker_config 0 box1 1)) = ENGAGED"
proof -
  have "tp_speed_px_s (new_track default_tracker_config 0 box1 1) <
      tc_dwell_speed_threshold (default_tracker_config\<lparr>tc_dwell_min_frames := 2\<rparr>)"
    "\<forall>x \<in> set [1, lit 2, lit 4 :: f32]. 0 < x" by code_simp+
  from standing_still_dwell_progress [OF this(1) _ _ _ _ _ this(2), of 2]
  have "tp_dwell_state (dwell_run (default_tracker_config\<lparr>tc_dwell_min_frames := 2\<rparr>) [1, lit 2, lit 4]
     (new_track default_tracker_config 0 box1 1)) =
     dwell_class (default_tracker_config\<lparr>tc_dwell_min_frames := 2\<rparr>) (lit 4 - lit 2)"
    by (simp add: new_track_def)
  also have "\<dots> = ENGAGED" by code_simp
  finally show ?thesis .
qed

end
