(* ===== verification/Zone_Metrics.thy ===== *)
theory Zone_Metrics
  imports Person_Tracker_Facts
begin

text \<open>
  \<open>core-cpp/zone_metrics.{h,cpp}\<close>: the sliding-window statistics of the counting zone. The
  deques are lists, oldest element first; \<open>int\<close> counters are \<open>int\<close>. A run is a list of the two
  calls the engine makes, one per frame and one per removed track.
\<close>

section \<open>State and operations\<close>

record zone_snapshot =
  zs_occupancy_count :: int
  zs_browsing_count :: int
  zs_engaged_count :: int
  zs_assist_count :: int
  zs_peak_customer :: int
  zs_avg_dwell_time :: f32
  zs_avg_engagement_time :: f32
  zs_avg_velocity :: f32
  zs_entry_count :: int
  zs_exit_count :: int

record occupancy_sample =
  os_time :: f32
  os_count :: int

record zone_metrics =
  zm_window_duration :: f32
  zm_occupancy_samples :: "occupancy_sample list"
  zm_last_sample_time :: f32
  zm_removed_tracks :: "track_record list"
  zm_sum_dwell_time :: f32
  zm_sum_engagement_time :: f32
  zm_sum_avg_speed :: f32
  zm_removed_count :: int
  zm_occupancy_history :: "int list"
  zm_current_counts :: state_count
  zm_smoothed_occupancy :: int
  zm_current_entry_count :: int
  zm_current_exit_count :: int

definition new_zone_metrics :: zone_metrics where
  "new_zone_metrics =
    \<lparr>zm_window_duration = lit 60, zm_occupancy_samples = [], zm_last_sample_time = 0,
     zm_removed_tracks = [], zm_sum_dwell_time = 0, zm_sum_engagement_time = 0,
     zm_sum_avg_speed = 0, zm_removed_count = 0, zm_occupancy_history = [],
     zm_current_counts = \<lparr>sc_total = 0, sc_browsing = 0, sc_engaged = 0, sc_assistance = 0\<rparr>,
     zm_smoothed_occupancy = 0, zm_current_entry_count = 0, zm_current_exit_count = 0\<rparr>"

definition set_window_duration :: "f32 \<Rightarrow> zone_metrics \<Rightarrow> zone_metrics" where
  "set_window_duration seconds z = z\<lparr>zm_window_duration := seconds\<rparr>"

fun prune_removed :: "f32 \<Rightarrow> track_record list \<Rightarrow> zone_metrics \<Rightarrow> zone_metrics" where
  "prune_removed cutoff [] z = z\<lparr>zm_removed_tracks := []\<rparr>"
| "prune_removed cutoff (old # rest) z =
    (if tr_removal_time old < cutoff then
       prune_removed cutoff rest
         (z\<lparr>zm_sum_dwell_time := zm_sum_dwell_time z - tr_dwell_time old,
            zm_sum_engagement_time := zm_sum_engagement_time z - tr_engagement_time old,
            zm_sum_avg_speed := zm_sum_avg_speed z - tr_avg_speed old,
            zm_removed_count := zm_removed_count z - 1\<rparr>)
     else z\<lparr>zm_removed_tracks := old # rest\<rparr>)"

definition prune_window :: "f32 \<Rightarrow> zone_metrics \<Rightarrow> zone_metrics" where
  "prune_window current_time z =
    (let cutoff = current_time - zm_window_duration z;
         z1 = z\<lparr>zm_occupancy_samples := dropWhile (\<lambda>s. os_time s < cutoff) (zm_occupancy_samples z)\<rparr>
     in prune_removed cutoff (zm_removed_tracks z1) z1)"

definition smoothing_window :: nat where "smoothing_window = 5"

fun pop_front_to :: "nat \<Rightarrow> int list \<Rightarrow> int list" where
  "pop_front_to n [] = []"
| "pop_front_to n (x # xs) = (if length (x # xs) > n then pop_front_to n xs else x # xs)"

definition smooth_occupancy :: "int \<Rightarrow> zone_metrics \<Rightarrow> zone_metrics \<times> int" where
  "smooth_occupancy raw_count z =
    (let h = pop_front_to smoothing_window (zm_occupancy_history z @ [raw_count]);
         sorted = sort h
     in (z\<lparr>zm_occupancy_history := h\<rparr>, sorted ! (length sorted div 2)))"

definition zm_update :: "state_count \<Rightarrow> int \<Rightarrow> int \<Rightarrow> f32 \<Rightarrow> zone_metrics \<Rightarrow> zone_metrics" where
  "zm_update counts entry_count exit_count current_time_sec z0 =
    (let z1 = z0\<lparr>zm_current_counts := counts, zm_current_entry_count := entry_count,
                zm_current_exit_count := exit_count\<rparr>;
         (z2, smoothed) = smooth_occupancy (sc_total counts) z1;
         z3 = z2\<lparr>zm_smoothed_occupancy := smoothed\<rparr>;
         z4 = (if current_time_sec - zm_last_sample_time z3 \<ge> 1 then
                 z3\<lparr>zm_occupancy_samples := zm_occupancy_samples z3 @
                      [\<lparr>os_time = current_time_sec, os_count = zm_smoothed_occupancy z3\<rparr>],
                    zm_last_sample_time := current_time_sec\<rparr>
               else z3)
     in prune_window current_time_sec z4)"

definition on_track_removed :: "track_record \<Rightarrow> zone_metrics \<Rightarrow> zone_metrics" where
  "on_track_removed r z =
    z\<lparr>zm_removed_tracks := zm_removed_tracks z @ [r],
      zm_sum_dwell_time := zm_sum_dwell_time z + tr_dwell_time r,
      zm_sum_engagement_time := zm_sum_engagement_time z + tr_engagement_time r,
      zm_sum_avg_speed := zm_sum_avg_speed z + tr_avg_speed r,
      zm_removed_count := zm_removed_count z + 1\<rparr>"

fun peak_of :: "int \<Rightarrow> occupancy_sample list \<Rightarrow> int" where
  "peak_of p [] = p"
| "peak_of p (s # ss) = peak_of (if os_count s > p then os_count s else p) ss"

definition get_snapshot :: "zone_metrics \<Rightarrow> zone_snapshot" where
  "get_snapshot z =
    (let n = fl_of_int (zm_removed_count z); some = zm_removed_count z > 0 in
     \<lparr>zs_occupancy_count = zm_smoothed_occupancy z,
      zs_browsing_count = sc_browsing (zm_current_counts z),
      zs_engaged_count = sc_engaged (zm_current_counts z),
      zs_assist_count = sc_assistance (zm_current_counts z),
      zs_peak_customer = peak_of 0 (zm_occupancy_samples z),
      zs_avg_dwell_time = (if some then zm_sum_dwell_time z / n else 0),
      zs_avg_engagement_time = (if some then zm_sum_engagement_time z / n else 0),
      zs_avg_velocity = (if some then zm_sum_avg_speed z / n else 0),
      zs_entry_count = zm_current_entry_count z,
      zs_exit_count = zm_current_exit_count z\<rparr>)"

datatype zm_event = Zone_Frame state_count int int f32 | Zone_Removed track_record

fun zm_step :: "zm_event \<Rightarrow> zone_metrics \<Rightarrow> zone_metrics" where
  "zm_step (Zone_Frame n en ex t) z = zm_update n en ex t z"
| "zm_step (Zone_Removed r) z = on_track_removed r z"

definition zm_run :: "zm_event list \<Rightarrow> zone_metrics \<Rightarrow> zone_metrics" where
  "zm_run es z = fold zm_step es z"

section \<open>What the operations do\<close>

fun zm_time :: "zm_event \<Rightarrow> f32" where
  "zm_time (Zone_Frame n en ex t) = t"
| "zm_time (Zone_Removed r) = tr_removal_time r"

fun removals :: "zm_event list \<Rightarrow> track_record list" where
  "removals [] = []"
| "removals (Zone_Removed r # es) = r # removals es"
| "removals (Zone_Frame n en ex t # es) = removals es"

fun totals :: "zm_event list \<Rightarrow> int list" where
  "totals [] = []"
| "totals (Zone_Frame n en ex t # es) = sc_total n # totals es"
| "totals (Zone_Removed r # es) = totals es"

lemma removals_append [simp]: "removals (a @ b) = removals a @ removals b"
  by (induction a rule: removals.induct) auto

lemma totals_append [simp]: "totals (a @ b) = totals a @ totals b"
  by (induction a rule: totals.induct) auto

lemma zm_run_snoc [simp]: "zm_run (es @ [e]) z = zm_step e (zm_run es z)" "zm_run [] z = z"
  by (simp_all add: zm_run_def)

lemma prune_removed_tracks:
  "zm_removed_tracks (prune_removed cutoff rs z) = dropWhile (\<lambda>r. tr_removal_time r < cutoff) rs"
  "zm_removed_count (prune_removed cutoff rs z) =
     zm_removed_count z - int (length (takeWhile (\<lambda>r. tr_removal_time r < cutoff) rs))"
  "zm_sum_dwell_time (prune_removed cutoff rs z) =
     fold (\<lambda>r s. s - tr_dwell_time r) (takeWhile (\<lambda>r. tr_removal_time r < cutoff) rs) (zm_sum_dwell_time z)"
  by (induction cutoff rs z rule: prune_removed.induct) auto

lemma prune_removed_frame [simp]:
  "zm_window_duration (prune_removed c rs z) = zm_window_duration z"
  "zm_occupancy_samples (prune_removed c rs z) = zm_occupancy_samples z"
  "zm_last_sample_time (prune_removed c rs z) = zm_last_sample_time z"
  "zm_occupancy_history (prune_removed c rs z) = zm_occupancy_history z"
  "zm_current_counts (prune_removed c rs z) = zm_current_counts z"
  "zm_smoothed_occupancy (prune_removed c rs z) = zm_smoothed_occupancy z"
  "zm_current_entry_count (prune_removed c rs z) = zm_current_entry_count z"
  "zm_current_exit_count (prune_removed c rs z) = zm_current_exit_count z"
  by (induction c rs z rule: prune_removed.induct) auto

lemma zm_update_fields:
  fixes t :: f32 and z :: zone_metrics
  defines "before \<equiv> \<lambda>r. tr_removal_time r < t - zm_window_duration z"
  shows "zm_removed_tracks (zm_update n en ex t z) = dropWhile before (zm_removed_tracks z)"
  "zm_removed_count (zm_update n en ex t z) =
     zm_removed_count z - int (length (takeWhile before (zm_removed_tracks z)))"
  "zm_sum_dwell_time (zm_update n en ex t z) =
     fold (\<lambda>r s. s - tr_dwell_time r) (takeWhile before (zm_removed_tracks z)) (zm_sum_dwell_time z)"
  "zm_window_duration (zm_update n en ex t z) = zm_window_duration z"
  "zm_occupancy_history (zm_update n en ex t z) =
     pop_front_to smoothing_window (zm_occupancy_history z @ [sc_total n])"
  "zm_current_counts (zm_update n en ex t z) = n"
  "zm_current_entry_count (zm_update n en ex t z) = en"
  "zm_current_exit_count (zm_update n en ex t z) = ex"
  "zm_smoothed_occupancy (zm_update n en ex t z) =
     (let h = sort (pop_front_to smoothing_window (zm_occupancy_history z @ [sc_total n])) in h ! (length h div 2))"
  by (simp_all add: zm_update_def prune_window_def smooth_occupancy_def prune_removed_tracks Let_def before_def)

lemma pop_front_to: "pop_front_to n xs = drop (length xs - n) xs"
  by (induction n xs rule: pop_front_to.induct) (auto simp: Suc_diff_le not_less)

lemma peak_of_max: "peak_of p ss = Max (insert p (os_count ` set ss))"
proof (induction ss arbitrary: p)
  case (Cons s ss)
  have m: "(if os_count s > p then os_count s else p) = max p (os_count s)" by (simp add: max_def)
  have "Max (insert (max a b) S) = Max (insert a (insert b S))" if "finite S" for a b :: int and S
    using that by (cases "S = {}") (simp_all add: max.assoc)
  then show ?case by (simp only: peak_of.simps m Cons.IH list.set image_insert finite_set finite_imageI)
qed simp

lemma length_dropWhile_int:
  "int (length (dropWhile P xs)) = int (length xs) - int (length (takeWhile P xs))"
  by (metis add_diff_cancel_left' length_append of_nat_add takeWhile_dropWhile_id)

lemma last_five: "drop (length (drop (length xs - 5) xs @ [y]) - 5) (drop (length xs - 5) xs @ [y]) =
   drop (length xs - 4) (xs @ [y])"
proof (cases "5 \<le> length xs")
  case True
  then have "Suc (length xs - 5) = length xs - 4" by simp
  with True show ?thesis by simp
qed auto

lemma dropWhile_sorted:
  assumes "sorted_wrt R xs" "\<And>x y. R x y \<Longrightarrow> P y \<Longrightarrow> P x"
  shows "dropWhile P xs = filter (\<lambda>x. \<not> P x) xs"
  using assms(1)
proof (induction xs)
  case (Cons x xs)
  with assms(2) show ?case by (auto intro!: filter_True [symmetric])
qed simp

section \<open>The window\<close>

definition in_order :: "zm_event list \<Rightarrow> bool" where
  "in_order es \<longleftrightarrow> (\<forall>e \<in> set es. is_fin (zm_time e)) \<and> sorted_wrt (\<lambda>a b. zm_time a \<le> zm_time b) es"

definition expired :: "f32 \<Rightarrow> f32 \<Rightarrow> track_record \<Rightarrow> bool" where
  "expired w t r \<longleftrightarrow> tr_removal_time r < t - w"

lemma in_order_snoc: "in_order (es @ [e]) \<longleftrightarrow>
    in_order es \<and> is_fin (zm_time e) \<and> (\<forall>a \<in> set es. zm_time a \<le> zm_time e)"
  by (auto simp: in_order_def sorted_wrt_append)

lemma removals_mem: "r \<in> set (removals es) \<longleftrightarrow> Zone_Removed r \<in> set es"
  by (induction es rule: removals.induct) auto

lemma expired_later:
  assumes "expired w t r" "t \<le> u" "is_fin t" "is_fin u" "is_fin w" shows "expired w u r"
  using assms minus_right_mono unfolding expired_def by (blast intro: fl_less_le_trans)

lemma window_kept:
  assumes "in_order es" "is_fin w"
    "zm_removed_tracks z = []" "zm_window_duration z = w"
  shows "zm_window_duration (zm_run es z) = w \<and>
    sorted_wrt (\<lambda>a b. tr_removal_time a \<le> tr_removal_time b) (zm_removed_tracks (zm_run es z)) \<and>
    set (zm_removed_tracks (zm_run es z)) \<subseteq> set (removals es) \<and>
    (\<forall>t. is_fin t \<longrightarrow> (\<forall>a \<in> set es. zm_time a \<le> t) \<longrightarrow>
      filter (\<lambda>r. \<not> expired w t r) (zm_removed_tracks (zm_run es z)) =
      filter (\<lambda>r. \<not> expired w t r) (removals es))"
  using assms(1)
proof (induction es rule: rev_induct)
  case Nil
  with assms show ?case by simp
next
  case (snoc e es)
  then have IH: "zm_window_duration (zm_run es z) = w"
    "sorted_wrt (\<lambda>a b. tr_removal_time a \<le> tr_removal_time b) (zm_removed_tracks (zm_run es z))"
    "set (zm_removed_tracks (zm_run es z)) \<subseteq> set (removals es)"
    "\<And>t. is_fin t \<Longrightarrow> \<forall>a \<in> set es. zm_time a \<le> t \<Longrightarrow>
      filter (\<lambda>r. \<not> expired w t r) (zm_removed_tracks (zm_run es z)) =
      filter (\<lambda>r. \<not> expired w t r) (removals es)"
    by (auto simp: in_order_snoc)
  show ?case
  proof (cases e)
    case (Zone_Frame n en ex t)
    let ?old = "zm_removed_tracks (zm_run es z)"
    have new: "zm_removed_tracks (zm_run (es @ [e]) z) = filter (\<lambda>r. \<not> expired w t r) ?old"
      unfolding Zone_Frame using IH(2)
      by (simp add: zm_update_fields IH(1) expired_def [symmetric])
        (rule dropWhile_sorted, assumption, auto simp: expired_def intro: fl_le_less_trans)
    have "filter (\<lambda>r. \<not> expired w u r) (filter (\<lambda>r. \<not> expired w t r) ?old) =
        filter (\<lambda>r. \<not> expired w u r) ?old" if "is_fin u" "t \<le> u" for u
      unfolding filter_filter using expired_later [OF _ that(2) _ that(1) assms(2)] snoc.prems Zone_Frame
      by (intro filter_cong) (auto simp: in_order_snoc)
    then show ?thesis unfolding new using IH Zone_Frame
      by (auto simp: zm_update_fields sorted_wrt_filter)
  next
    case (Zone_Removed r)
    then show ?thesis using IH snoc.prems removals_mem
      by (fastforce simp: on_track_removed_def in_order_snoc sorted_wrt_append)
  qed
qed

lemma counts_kept:
  assumes "zm_removed_tracks z = []" "zm_removed_count z = 0" "zm_occupancy_history z = []"
  shows "zm_removed_count (zm_run es z) = int (length (zm_removed_tracks (zm_run es z))) \<and>
    zm_occupancy_history (zm_run es z) = drop (length (totals es) - 5) (totals es)"
proof (induction es rule: rev_induct)
  case Nil
  with assms show ?case by simp
next
  case (snoc e es)
  show ?case
  proof (cases e)
    case (Zone_Frame n en ex t)
    show ?thesis using snoc Zone_Frame last_five [of "totals es" "sc_total n"]
      by (simp add: zm_update_fields pop_front_to smoothing_window_def length_dropWhile_int)
  next
    case (Zone_Removed r)
    with snoc show ?thesis by (simp add: on_track_removed_def)
  qed
qed


section \<open>Averages\<close>

text \<open>The running sum of durations that are whole multiples of \<open>1/1024\<close> s stays exact.\<close>

lemma fold_milli_minus:
  assumes "\<forall>r \<in> set rs. tr_dwell_time r = milli (m r) \<and> 0 \<le> m r" "sum_list (map m rs) \<le> a" "a \<le> 2 ^ 24"
  shows "fold (\<lambda>r s. s - tr_dwell_time r) rs (milli a) = milli (a - sum_list (map m rs))"
  using assms
proof (induction rs arbitrary: a)
  case (Cons r rs)
  have "0 \<le> sum_list (map m rs)" using Cons.prems(1) by (intro sum_list_nonneg) auto
  with Cons.prems have "milli a - tr_dwell_time r = milli (a - m r)" by (simp add: milli_minus)
  with Cons.IH [of "a - m r"] Cons.prems show ?case by (simp add: algebra_simps)
qed simp

lemma sum_take_drop: "sum_list (map m xs) = sum_list (map m (takeWhile P xs)) + sum_list (map m (dropWhile P xs))"
  for m :: "'a \<Rightarrow> int"
  by (induction xs) auto

lemma sum_parts_nonneg:
  fixes m :: "'a \<Rightarrow> int" assumes "\<forall>x \<in> set xs. 0 \<le> m x"
  shows "0 \<le> sum_list (map m xs)" "0 \<le> sum_list (map m (takeWhile P xs))" "0 \<le> sum_list (map m (dropWhile P xs))"
  using assms by (induction xs) auto

lemma sum_kept:
  assumes "\<forall>r \<in> set (removals es). tr_dwell_time r = milli (m r) \<and> 0 \<le> m r"
    "sum_list (map m (removals es)) \<le> 2 ^ 24"
    "zm_removed_tracks z = []" "zm_sum_dwell_time z = 0"
  shows "set (zm_removed_tracks (zm_run es z)) \<subseteq> set (removals es) \<and>
    sum_list (map m (zm_removed_tracks (zm_run es z))) \<le> sum_list (map m (removals es)) \<and>
    zm_sum_dwell_time (zm_run es z) = milli (sum_list (map m (zm_removed_tracks (zm_run es z))))"
  using assms(1,2)
proof (induction es rule: rev_induct)
  case Nil
  with assms show ?case by (simp add: milli_0)
next
  case (snoc e es)
  let ?old = "zm_removed_tracks (zm_run es z)"
  show ?case
  proof (cases e)
    case (Zone_Frame n en ex t)
    let ?P = "\<lambda>r. tr_removal_time r < t - zm_window_duration (zm_run es z)"
    have IH: "set ?old \<subseteq> set (removals es)" "sum_list (map m ?old) \<le> sum_list (map m (removals es))"
      "zm_sum_dwell_time (zm_run es z) = milli (sum_list (map m ?old))"
      using snoc Zone_Frame by auto
    have split: "sum_list (map m ?old) = sum_list (map m (takeWhile ?P ?old)) + sum_list (map m (dropWhile ?P ?old))"
      by (rule sum_take_drop)
    have ok: "\<forall>r \<in> set ?old. tr_dwell_time r = milli (m r) \<and> 0 \<le> m r"
      using IH(1) snoc.prems Zone_Frame by auto
    then have "0 \<le> sum_list (map m (takeWhile ?P ?old))" "0 \<le> sum_list (map m (dropWhile ?P ?old))"
      by (simp_all add: sum_parts_nonneg)
    moreover have "fold (\<lambda>r s. s - tr_dwell_time r) (takeWhile ?P ?old) (milli (sum_list (map m ?old))) =
        milli (sum_list (map m ?old) - sum_list (map m (takeWhile ?P ?old)))"
      using ok split calculation IH(2) snoc.prems Zone_Frame
      by (intro fold_milli_minus) (auto dest: set_takeWhileD)
    moreover have "set (dropWhile ?P ?old) \<subseteq> set (removals es)" using IH(1) by (auto dest: set_dropWhileD)
    ultimately show ?thesis using IH(2,3) split Zone_Frame by (simp add: zm_update_fields)
  next
    case (Zone_Removed r)
    have IH: "set ?old \<subseteq> set (removals es)" "sum_list (map m ?old) \<le> sum_list (map m (removals es))"
      "zm_sum_dwell_time (zm_run es z) = milli (sum_list (map m ?old))"
      using snoc Zone_Removed by auto
    have "0 \<le> sum_list (map m ?old)"
      using IH(1) snoc.prems Zone_Removed by (intro sum_list_nonneg) auto
    with IH snoc.prems Zone_Removed show ?thesis
      by (auto simp: on_track_removed_def milli_plus)
  qed
qed

section \<open>Properties\<close>

text \<open>C4: under non-decreasing finite times, after any frame the removed tracks kept are exactly
  the removed tracks of the whole run that are not older than the window at that frame: none
  is dropped early, none is kept late.\<close>

theorem window_is_the_recent_removals:
  assumes "in_order (es @ [Zone_Frame n en ex t])" "is_fin w"
  shows "zm_removed_tracks (zm_run (es @ [Zone_Frame n en ex t]) (set_window_duration w new_zone_metrics)) =
    filter (\<lambda>r. \<not> tr_removal_time r < t - w) (removals es)"
proof -
  let ?z = "set_window_duration w new_zone_metrics"
  have "in_order es" "is_fin t" "\<forall>a \<in> set es. zm_time a \<le> t" using assms(1) by (auto simp: in_order_snoc)
  then have k: "zm_window_duration (zm_run es ?z) = w"
    "sorted_wrt (\<lambda>a b. tr_removal_time a \<le> tr_removal_time b) (zm_removed_tracks (zm_run es ?z))"
    "filter (\<lambda>r. \<not> expired w t r) (zm_removed_tracks (zm_run es ?z)) = filter (\<lambda>r. \<not> expired w t r) (removals es)"
    using window_kept [of es w ?z] assms(2) by (auto simp: set_window_duration_def new_zone_metrics_def)
  have "dropWhile (expired w t) (zm_removed_tracks (zm_run es ?z)) =
      filter (\<lambda>r. \<not> expired w t r) (zm_removed_tracks (zm_run es ?z))"
    by (rule dropWhile_sorted [OF k(2)]) (auto simp: expired_def intro: fl_le_less_trans)
  with k show ?thesis by (simp add: zm_update_fields expired_def [abs_def])
qed

text \<open>After any run that ends in a frame, the snapshot reports that frame's state counts and
  entry/exit counts, the median (upper one of an even number) of the last five raw totals as
  occupancy, and as peak the largest sample kept (0 if there is none).\<close>

theorem snapshot_reports_the_run:
  "let z = zm_run (es @ [Zone_Frame n en ex t]) (set_window_duration w new_zone_metrics);
       s = get_snapshot z;
       h = sort (drop (length (totals es) - 4) (totals es @ [sc_total n]))
   in zs_occupancy_count s = h ! (length h div 2) \<and>
    zs_peak_customer s = Max (insert 0 (os_count ` set (zm_occupancy_samples z))) \<and>
    (zs_browsing_count s, zs_engaged_count s, zs_assist_count s) =
      (sc_browsing n, sc_engaged n, sc_assistance n) \<and>
    (zs_entry_count s, zs_exit_count s) = (en, ex)"
proof -
  let ?z = "set_window_duration w new_zone_metrics"
  have h: "zm_occupancy_history (zm_run es ?z) = drop (length (totals es) - 5) (totals es)"
    using counts_kept [of ?z es] by (simp add: set_window_duration_def new_zone_metrics_def)
  then have "pop_front_to smoothing_window (zm_occupancy_history (zm_run es ?z) @ [sc_total n]) =
      drop (length (totals es) - 4) (totals es @ [sc_total n])"
    by (simp only: pop_front_to smoothing_window_def last_five)
  then show ?thesis by (simp add: get_snapshot_def zm_update_fields peak_of_max Let_def)
qed

text \<open>When the dwell times are whole multiples of \<open>1/1024\<close> s with a total of at most 16384 s
  over the run, the reported average is the exact window total divided by the number of tracks
  in the window: subtracting on expiry loses nothing there.\<close>

theorem average_dwell_exact:
  assumes "\<forall>r \<in> set (removals es). tr_dwell_time r = milli (m r) \<and> 0 \<le> m r"
    "sum_list (map m (removals es)) \<le> 2 ^ 24"
  shows "let z = zm_run es (set_window_duration w new_zone_metrics); rs = zm_removed_tracks z in
    zs_avg_dwell_time (get_snapshot z) =
      (if rs = [] then 0 else milli (sum_list (map m rs)) / fl_of_int (int (length rs)))"
proof -
  let ?z = "set_window_duration w new_zone_metrics"
  have "zm_removed_tracks ?z = []" "zm_removed_count ?z = 0" "zm_occupancy_history ?z = []" "zm_sum_dwell_time ?z = 0"
    by (simp_all add: set_window_duration_def new_zone_metrics_def)
  with counts_kept [of ?z es] sum_kept [OF assms, of ?z] show ?thesis
    by (simp add: get_snapshot_def Let_def)
qed

section \<open>Concrete instances\<close>

definition rec_at :: "f32 \<Rightarrow> f32 \<Rightarrow> track_record" where
  "rec_at d t = \<lparr>tr_track_id = 0, tr_dwell_time = d, tr_engagement_time = 0, tr_avg_speed = 0,
     tr_removal_time = t, tr_exited_at_edge = False\<rparr>"

definition count_n :: "int \<Rightarrow> state_count" where
  "count_n k = \<lparr>sc_total = k, sc_browsing = k, sc_engaged = 0, sc_assistance = 0\<rparr>"

theorem window_is_the_recent_removals_witness:
  "map tr_removal_time (zm_removed_tracks (zm_run [Zone_Removed (rec_at 1 1), Zone_Removed (rec_at 1 (lit 9)),
     Zone_Frame (count_n 2) 2 0 (lit 12)] (set_window_duration (lit 10) new_zone_metrics))) = [lit 9]"
proof -
  have o: "in_order ([Zone_Removed (rec_at 1 1), Zone_Removed (rec_at 1 (lit 9))] @ [Zone_Frame (count_n 2) 2 0 (lit 12)])"
    "is_fin (lit 10 :: f32)"
    by code_simp+
  have "\<not> (lit 9 :: f32) < lit 12 - lit 10" "(1 :: f32) < lit 12 - lit 10" by code_simp+
  with window_is_the_recent_removals [OF o] show ?thesis by (simp add: rec_at_def)
qed

theorem average_dwell_exact_witness:
  "zs_avg_dwell_time (get_snapshot (zm_run [Zone_Removed (rec_at (milli 1024) 1), Zone_Removed (rec_at (milli 3072) 1)]
     (set_window_duration 1 new_zone_metrics))) = lit 2"
proof -
  have e: "(milli 1024 = milli 3072) = False" by code_simp
  have "milli (1024 + 3072) / fl_of_int 2 = lit 2" by code_simp
  with average_dwell_exact [of "[Zone_Removed (rec_at (milli 1024) 1), Zone_Removed (rec_at (milli 3072) 1)]"
      "\<lambda>r. if tr_dwell_time r = milli 1024 then 1024 else 3072" 1] e
  show ?thesis by (simp add: rec_at_def Let_def on_track_removed_def zm_run_def set_window_duration_def new_zone_metrics_def)
qed

text \<open>With other durations the running sum drifts: here the window holds a single track that
  dwelt 0 s, and the reported average is not 0, because three earlier tracks left a residue.\<close>

definition drift_run :: "zm_event list" where
  "drift_run = map (\<lambda>d. Zone_Removed (rec_at (lit d) 1)) [1/10, 1/10, 1/10] @
     [Zone_Removed (rec_at 0 (lit 100)), Zone_Frame (count_n 0) 0 0 (lit 100)]"

lemma average_dwell_drift:
  "let z = zm_run drift_run new_zone_metrics in
   map tr_dwell_time (zm_removed_tracks z) = [0] \<and> \<not> feq (zs_avg_dwell_time (get_snapshot z)) 0"
  by code_simp

end
