(* ===== verification/Text_Format.thy ===== *)
theory Text_Format
  imports Prelude
begin

text \<open>
  Decimal text: \<open>std::to_string\<close> of integers and fixed-point output of floats, with the readers
  that show what a consumer gets back.
\<close>

section \<open>Formatting\<close>

definition digit :: "nat \<Rightarrow> char" where "digit d = char_of (48 + d)"

fun dec_digits :: "nat \<Rightarrow> string" where
  "dec_digits n = (if n < 10 then [digit n] else dec_digits (n div 10) @ [digit (n mod 10)])"

fun pad_digits :: "nat \<Rightarrow> nat \<Rightarrow> string" where
  "pad_digits 0 k = []"
| "pad_digits (Suc n) k = pad_digits n (k div 10) @ [digit (k mod 10)]"

definition show_int :: "int \<Rightarrow> string" where
  "show_int i = (if i < 0 then ''-'' else '''') @ dec_digits (nat \<bar>i\<bar>)"

definition fixed_rat :: "nat \<Rightarrow> rat \<Rightarrow> string" where
  "fixed_rat n q = (let k = nat (rne (q * 10 ^ n)) in
     dec_digits (k div 10 ^ n) @ (if n = 0 then '''' else ''.'' @ pad_digits n (k mod 10 ^ n)))"

fun show_fixed :: "nat \<Rightarrow> f32 \<Rightarrow> string" where
  "show_fixed n FNaN = ''nan''"
| "show_fixed n (FInf s) = (if s then ''-inf'' else ''inf'')"
| "show_fixed n x = (if fsgn x then ''-'' else '''') @ fixed_rat n \<bar>fval x\<bar>"

section \<open>Reading back\<close>

fun dec_value :: "nat \<Rightarrow> string \<Rightarrow> nat" where
  "dec_value a [] = a"
| "dec_value a (c # cs) = dec_value (10 * a + (of_char c - 48)) cs"

lemma digit_value [simp]: "d < 10 \<Longrightarrow> of_char (digit d) - 48 = d"
  by (simp add: digit_def)

lemma dec_value_append [simp]: "dec_value a (xs @ ys) = dec_value (dec_value a xs) ys"
  by (induction a xs rule: dec_value.induct) simp_all

lemma dec_value_digits [simp]: "dec_value 0 (dec_digits n) = n"
proof (induction n rule: dec_digits.induct)
  case (1 n)
  show ?case
  proof (cases "n < 10")
    case False
    with 1 show ?thesis by (subst dec_digits.simps) simp
  qed simp
qed

declare dec_digits.simps [simp del]

lemma dec_value_pad: "k < 10 ^ n \<Longrightarrow> dec_value a (pad_digits n k) = a * 10 ^ n + k"
proof (induction n arbitrary: k)
  case (Suc n)
  have "k div 10 < 10 ^ n" using Suc.prems by (simp add: less_mult_imp_div_less)
  with Suc.IH [OF this] show ?case by (simp add: algebra_simps)
qed simp

lemma pad_digits_length [simp]: "length (pad_digits n k) = n"
  by (induction n arbitrary: k) simp_all

lemma digits_no_dot:
  "set (dec_digits n) \<subseteq> digit ` {..<10}" "set (pad_digits m n) \<subseteq> digit ` {..<10}"
proof -
  show "set (dec_digits n) \<subseteq> digit ` {..<10}"
  proof (induction n rule: dec_digits.induct)
    case (1 n)
    then show ?case by (subst dec_digits.simps) auto
  qed
  show "set (pad_digits m n) \<subseteq> digit ` {..<10}" by (induction m arbitrary: n) auto
qed

text \<open>What a reader of the text gets back: the sign, the whole part and the \<open>n\<close> decimals.\<close>

definition fixed_value :: "nat \<Rightarrow> string \<Rightarrow> rat" where
  "fixed_value n s =
    (let neg = (s \<noteq> [] \<and> hd s = CHR ''-''); t = (if neg then tl s else s);
         whole = takeWhile (\<lambda>c. c \<noteq> CHR ''.'') t; decs = drop (length whole + 1) t;
         v = of_nat (dec_value 0 whole) + of_nat (dec_value 0 decs) / 10 ^ n
     in if neg then - v else v)"

lemma digit_not_mark: "d < 10 \<Longrightarrow> digit d \<noteq> CHR ''.''" "d < 10 \<Longrightarrow> digit d \<noteq> CHR ''-''"
proof -
  assume "d < 10"
  then have "of_char (digit d) = 48 + d" by (simp add: digit_def)
  moreover have "of_char CHR ''.'' = (46 :: nat)" "of_char CHR ''-'' = (45 :: nat)" by simp_all
  ultimately show "digit d \<noteq> CHR ''.''" "digit d \<noteq> CHR ''-''" by auto
qed

lemma dec_digits_not_nil [simp]: "dec_digits n \<noteq> []"
  by (subst dec_digits.simps) simp

lemma dec_digits_marks: "c \<in> set (dec_digits n) \<Longrightarrow> c \<noteq> CHR ''.'' \<and> c \<noteq> CHR ''-''"
  using digits_no_dot(1) [of n] digit_not_mark by fastforce

lemma fixed_rat_value:
  assumes "0 \<le> q" "0 < n"
  shows "fixed_value n (fixed_rat n q) = of_int (rne (q * 10 ^ n)) / 10 ^ n"
    "fixed_value n (''-'' @ fixed_rat n q) = - (of_int (rne (q * 10 ^ n)) / 10 ^ n)"
proof -
  define k where "k = nat (rne (q * 10 ^ n))"
  have "0 \<le> rne (q * 10 ^ n)" using rne_mono [of 0 "q * 10 ^ n"] rne_of_int [of 0] assms(1) by simp
  then have k: "of_int (rne (q * 10 ^ n)) = (of_nat k :: rat)" by (simp add: k_def)
  let ?w = "dec_digits (k div 10 ^ n)" and ?d = "pad_digits n (k mod 10 ^ n)"
  have t: "fixed_rat n q = ?w @ ''.'' @ ?d" using assms(2) by (simp add: fixed_rat_def k_def Let_def)
  have whole: "takeWhile (\<lambda>c. c \<noteq> CHR ''.'') (?w @ ''.'' @ ?d) = ?w"
    using dec_digits_marks by (simp add: takeWhile_append2)
  have hd: "hd (?w @ ''.'' @ ?d) \<noteq> CHR ''-''"
    using dec_digits_marks [OF hd_in_set [OF dec_digits_not_nil]] by simp
  have "of_nat (k div 10 ^ n) + of_nat (k mod 10 ^ n) / 10 ^ n = (of_nat k / 10 ^ n :: rat)"
  proof -
    have "(of_nat k :: rat) = of_nat (k div 10 ^ n) * 10 ^ n + of_nat (k mod 10 ^ n)"
      using arg_cong [OF div_mult_mod_eq [of k "10 ^ n"], of "of_nat :: nat \<Rightarrow> rat"]
      by (simp only: of_nat_add of_nat_mult of_nat_power of_nat_numeral)
    then show ?thesis by (simp add: field_simps)
  qed
  then show "fixed_value n (fixed_rat n q) = of_int (rne (q * 10 ^ n)) / 10 ^ n"
    "fixed_value n (''-'' @ fixed_rat n q) = - (of_int (rne (q * 10 ^ n)) / 10 ^ n)"
    using hd whole by (simp_all add: fixed_value_def t k Let_def dec_value_pad)
qed

lemma rne_decimals: "\<bar>of_int (rne (q * 10 ^ n)) / 10 ^ n - q\<bar> \<le> (1 / 2 :: rat) / 10 ^ n"
proof -
  let ?e = "of_int (rne (q * 10 ^ n)) - q * 10 ^ n"
  have "\<bar>?e\<bar> \<le> (1 / 2 :: rat)" using rne_bounds [of "q * 10 ^ n"] by linarith
  then have "\<bar>?e\<bar> / 10 ^ n \<le> (1 / 2 :: rat) / 10 ^ n" by (rule divide_right_mono) simp
  moreover have "\<bar>?e / 10 ^ n\<bar> = \<bar>?e\<bar> / 10 ^ n" by simp
  moreover have "?e / 10 ^ n = of_int (rne (q * 10 ^ n)) / 10 ^ n - q" by (simp add: diff_divide_distrib)
  ultimately show ?thesis by simp
qed

end
