(* ===== verification/Vision_Payload.thy ===== *)
theory Vision_Payload
  imports Zone_Metrics Text_Format
begin

text \<open>
  \<open>core-cpp/mqtt_payload.cpp\<close>: the JSON text of one frame. \<open>std::fixed\<close> with
  \<open>std::setprecision(n)\<close> prints the exact binary value rounded to \<open>n\<close> decimals (ties to even),
  as the C library does; the precision set last stays in force, as on the stream. The sign of
  a NaN is not modelled (its text is \<open>nan\<close>).
\<close>

section \<open>The payload\<close>

record letterbox_undo =
  lu_scale_x :: f32
  lu_scale_y :: f32
  lu_offset_x :: f32
  lu_offset_y :: f32

definition letterbox_correction :: "int \<Rightarrow> int \<Rightarrow> int \<Rightarrow> int \<Rightarrow> letterbox_undo" where
  "letterbox_correction frame_width frame_height model_width model_height =
    (let fw = fl_of_int frame_width; fh = fl_of_int frame_height;
         mw = fl_of_int model_width; mh = fl_of_int model_height;
         display_aspect = fw / fh; model_aspect = mw / mh;
         id = \<lparr>lu_scale_x = 1, lu_scale_y = 1, lu_offset_x = 0, lu_offset_y = 0\<rparr>
     in if display_aspect > model_aspect then
          let content_h = mh * (model_aspect / display_aspect); scale_y = content_h / mh
          in id\<lparr>lu_scale_y := scale_y, lu_offset_y := (1 - scale_y) / lit 2\<rparr>
        else if display_aspect < model_aspect then
          let content_w = mw * (display_aspect / model_aspect); scale_x = content_w / mw
          in id\<lparr>lu_scale_x := scale_x, lu_offset_x := (1 - scale_x) / lit 2\<rparr>
        else id)"

record display_box =
  dbx_cx :: f32
  dbx_cy :: f32
  dbx_x :: f32
  dbx_y :: f32
  dbx_w :: f32
  dbx_h :: f32

definition display_box_of :: "letterbox_undo \<Rightarrow> detection_box \<Rightarrow> display_box" where
  "display_box_of u d =
    (let real_cx = (db_x d - lu_offset_x u) / lu_scale_x u;
         real_cy = (db_y d - lu_offset_y u) / lu_scale_y u;
         real_w = db_w d / lu_scale_x u;
         real_h = db_h d / lu_scale_y u;
         x0 = std_max 0 (real_cx - real_w / lit 2);
         y0 = std_max 0 (real_cy - real_h / lit 2);
         x1 = std_min 1 (real_cx + real_w / lit 2);
         y1 = std_min 1 (real_cy + real_h / lit 2)
     in \<lparr>dbx_cx = real_cx, dbx_cy = real_cy, dbx_x = x0, dbx_y = y0,
         dbx_w = std_max 0 (x1 - x0), dbx_h = std_max 0 (y1 - y0)\<rparr>)"

definition quoted :: "string \<Rightarrow> string" where
  "quoted s = [char_of (34::nat)] @ s @ [char_of (34::nat)]"

definition key :: "string \<Rightarrow> string" where
  "key k = quoted k @ '':''"

definition person_json :: "letterbox_undo \<Rightarrow> int \<Rightarrow> int \<Rightarrow> nat \<Rightarrow> tracked_person \<Rightarrow> string" where
  "person_json u frame_width frame_height i p =
    (let fw = fl_of_int frame_width; fh = fl_of_int frame_height; b = display_box_of u (tp_detection p) in
     (if i > 0 then '','' else '''') @ ''{'' @
     key ''slot'' @ dec_digits i @
     '','' @ key ''track_id'' @ show_int (tp_track_id p) @
     '','' @ key ''confidence'' @ show_fixed 2 (db_score (tp_detection p)) @
     '','' @ key ''cx_pct'' @ show_fixed 1 (dbx_cx b * lit 100) @
     '','' @ key ''cy_pct'' @ show_fixed 1 (dbx_cy b * lit 100) @
     '','' @ key ''bbox'' @ ''{'' @
       key ''x'' @ show_fixed 4 (dbx_x b) @
       '','' @ key ''y'' @ show_fixed 4 (dbx_y b) @
       '','' @ key ''w'' @ show_fixed 4 (dbx_w b) @
       '','' @ key ''h'' @ show_fixed 4 (dbx_h b) @ ''}'' @
     '','' @ key ''velocity'' @ ''{'' @
       key ''vx'' @ show_fixed 2 (tp_velocity_x p / fw) @
       '','' @ key ''vy'' @ show_fixed 2 (tp_velocity_y p / fh) @
       '','' @ key ''speed_m_s'' @ show_fixed 2 (tp_speed_m_s p) @ ''}'' @
     '','' @ key ''state'' @ quoted (get_dwell_state_name (tp_dwell_state p)) @
     '','' @ key ''dwell_duration'' @ show_fixed 1 (tp_dwell_duration_sec p) @ ''}'')"

fun persons_json :: "letterbox_undo \<Rightarrow> int \<Rightarrow> int \<Rightarrow> nat \<Rightarrow> tracked_person list \<Rightarrow> string" where
  "persons_json u fw fh i [] = ''''"
| "persons_json u fw fh i (p # ps) = person_json u fw fh i p @ persons_json u fw fh (Suc i) ps"

definition build_vision_json ::
  "u64 \<Rightarrow> u32 \<Rightarrow> f32 \<Rightarrow> f32 \<Rightarrow> zone_snapshot \<Rightarrow> tracked_person list \<Rightarrow> int \<Rightarrow> int \<Rightarrow> int \<Rightarrow> int \<Rightarrow> string" where
  "build_vision_json timestamp_ms frame_id fps inference_time_ms zone persons
     frame_width frame_height model_width model_height =
    (let u = letterbox_correction frame_width frame_height model_width model_height in
     ''{'' @ key ''timestamp'' @ dec_digits (unat timestamp_ms) @
     '','' @ key ''frame_id'' @ dec_digits (unat frame_id) @
     '','' @ key ''frame_width'' @ show_int frame_width @
     '','' @ key ''frame_height'' @ show_int frame_height @
     '','' @ key ''fps'' @ show_fixed 1 fps @
     '','' @ key ''inference_time_ms'' @ show_fixed 1 inference_time_ms @
     '','' @ key ''zone'' @ ''{'' @
       key ''occupancy_count'' @ show_int (zs_occupancy_count zone) @
       '','' @ key ''browsing_count'' @ show_int (zs_browsing_count zone) @
       '','' @ key ''engaged_count'' @ show_int (zs_engaged_count zone) @
       '','' @ key ''assist_count'' @ show_int (zs_assist_count zone) @
       '','' @ key ''peak_customer'' @ show_int (zs_peak_customer zone) @
       '','' @ key ''avg_dwell_time'' @ show_fixed 1 (zs_avg_dwell_time zone) @
       '','' @ key ''avg_engagement_time'' @ show_fixed 1 (zs_avg_engagement_time zone) @
       '','' @ key ''avg_velocity'' @ show_fixed 2 (zs_avg_velocity zone) @
       '','' @ key ''entry_count'' @ show_int (zs_entry_count zone) @
       '','' @ key ''exit_count'' @ show_int (zs_exit_count zone) @ ''}'' @
     '','' @ key ''persons'' @ ''['' @
     persons_json u frame_width frame_height 0 persons @
     '']'' @ ''}'')"

section \<open>Facts\<close>

text \<open>One clamped side of the box.\<close>

lemma fround_one [simp]: "fround False 1 = (1 :: f32)"
  using fround_exact [of 1 0 False, where ?'e = 8 and ?'p = 24] repr_powi2 [of "- 149" 0 24]
  by (simp add: one_fl_def)

lemma clamp_side:
  fixes a b :: f32
  defines "x0 \<equiv> std_max 0 a" and "x1 \<equiv> std_min 1 b"
  shows "0 \<le> x0" "0 \<le> std_max 0 (x1 - x0)" "std_max 0 (x1 - x0) \<le> 1"
    "0 < std_max 0 (x1 - x0) \<Longrightarrow> x0 < 1"
proof -
  show x0: "0 \<le> x0" unfolding x0_def by (rule std_max_bound) simp
  show "0 \<le> std_max 0 (x1 - x0)" by (rule std_max_bound) simp
  have x1: "x1 \<le> 1" unfolding x1_def by (rule std_min_bound) simp
  have inf: "x1 - x0 = FInf True" if "\<not> (is_fin x0 \<and> is_fin x1)"
    using that x0 x1
    by (cases x0; cases x1) (auto simp: minus_fl_def one_fl_def zero_fl_def elim!: less_eq_fl.elims)
  have d: "x1 - x0 \<le> 1"
  proof (cases "is_fin x0 \<and> is_fin x1")
    case True
    then have "fval x1 - fval x0 \<le> 1" using x0 x1 by (simp add: le_fin)
    then have "x1 - x0 \<le> fround False 1" using True by (simp add: minus_fin fround_mono del: fround_one)
    then show ?thesis by simp
  qed (simp add: inf one_fl_def)
  then show "std_max 0 (x1 - x0) \<le> 1" by (auto simp: std_max_def le_fin)
  assume "0 < std_max 0 (x1 - x0)"
  then have pos: "0 < x1 - x0" by (auto simp: std_max_def split: if_splits)
  have fin: "is_fin x0 \<and> is_fin x1"
  proof (rule ccontr)
    assume "\<not> (is_fin x0 \<and> is_fin x1)"
    from inf [OF this] pos show False by (simp add: zero_fl_def)
  qed
  have "fval x0 < fval x1"
  proof (rule ccontr)
    assume "\<not> fval x0 < fval x1"
    then have "fround (fsgn x1 \<and> fsgn (- x0)) (fval x1 - fval x0) \<le> (fround False 0 :: f32)"
      by (intro fround_mono) simp
    then have "x1 - x0 \<le> 0" using fin by (simp add: minus_fin zero_fl_def)
    with pos show False using fl_less_le_trans fl_less_irrefl by blast
  qed
  with fin x1 show "x0 < 1" by (simp add: le_fin less_fin)
qed

section \<open>Properties\<close>

text \<open>Whatever the detection and the frame sizes are (NaN and infinities included), the
  published box has non-negative corner and a size between 0 and 1, and a box with a positive
  width (height) has its corner inside the frame on that axis.\<close>

theorem published_box_bounds:
  "let b = display_box_of u d in
   0 \<le> dbx_x b \<and> 0 \<le> dbx_y b \<and> 0 \<le> dbx_w b \<and> dbx_w b \<le> 1 \<and> 0 \<le> dbx_h b \<and> dbx_h b \<le> 1 \<and>
   (0 < dbx_w b \<longrightarrow> dbx_x b < 1) \<and> (0 < dbx_h b \<longrightarrow> dbx_y b < 1)"
  by (simp add: display_box_of_def Let_def clamp_side)

text \<open>A finite number printed with \<open>n\<close> decimals reads back within half a unit of the last
  decimal.\<close>

theorem fixed_roundtrip:
  assumes "is_fin x" "0 < n"
  shows "\<bar>fixed_value n (show_fixed n x) - fval x\<bar> \<le> (1 / 2) / 10 ^ n"
proof -
  let ?r = "of_int (rne (\<bar>fval x\<bar> * 10 ^ n)) / 10 ^ n :: rat"
  have "show_fixed n x = (if fsgn x then ''-'' else '''') @ fixed_rat n \<bar>fval x\<bar>"
    using assms(1) by (cases x) auto
  then have "fixed_value n (show_fixed n x) = (if fsgn x then - ?r else ?r)"
    using fixed_rat_value [OF abs_ge_zero assms(2)] by simp
  moreover have "fval x = (if fsgn x then - \<bar>fval x\<bar> else \<bar>fval x\<bar>)"
    using assms(1) by (cases x) auto
  moreover have "\<bar>?r - \<bar>fval x\<bar>\<bar> \<le> (1 / 2) / 10 ^ n" by (rule rne_decimals)
  ultimately show ?thesis by (cases "fsgn x") (simp_all add: abs_if split: if_splits)
qed

theorem published_box_bounds_witness:
  "dbx_w (display_box_of (letterbox_correction 64 64 64 64) box1) = lit (1/4) \<and>
   dbx_x (display_box_of (letterbox_correction 64 64 64 64) box1) < 1"
proof -
  have w: "dbx_w (display_box_of (letterbox_correction 64 64 64 64) box1) = lit (1/4)" by code_simp
  have "(0 :: f32) < lit (1/4)" by code_simp
  with w published_box_bounds [of "letterbox_correction 64 64 64 64" box1] show ?thesis by (simp add: Let_def)
qed

theorem fixed_roundtrip_witness:
  "show_fixed 2 (lit (- (5/8))) = ''-0.62'' \<and> \<bar>fixed_value 2 (show_fixed 2 (lit (- (5/8)))) - (- (5/8))\<bar> \<le> 1 / 200"
proof -
  have "show_fixed 2 (lit (- (5/8))) = ''-0.62''" "fval (lit (- (5/8)) :: f32) = - (5/8)"
    "is_fin (lit (- (5/8)) :: f32)" by code_simp+
  with fixed_roundtrip [of "lit (- (5/8))" 2] show ?thesis by simp
qed

text \<open>A detection below the picture, in the padding band, is published with a corner outside it.\<close>

lemma padding_band_box:
  "1 < dbx_y (display_box_of (letterbox_correction 1280 640 640 640)
     (box1\<lparr>db_y := lit (15/16), db_h := lit (1/16)\<rparr>))"
  by code_simp

end
