(* ===== verification/Vb_Types.thy ===== *)
theory Vb_Types
  imports Prelude "HOL-Library.Signed_Division"
begin

text \<open>
  \<open>core-cpp/vb/include/vb/types.h\<close> and \<open>core-cpp/vb/src/letterbox.cpp\<close>: the shared types of the
  compute core and the letterbox geometry. \<open>std::invalid_argument\<close> is the error case of the
  option results. A float is converted to \<open>int\<close> only where the value is in range for the sizes
  the code accepts; outside, C++ leaves the result undefined and the model returns 0.
\<close>

datatype align = Align_Center | Align_TopLeft

definition align_from_int :: "int \<Rightarrow> align option" where
  "align_from_int v = (if v = 0 then Some Align_Center else if v = 1 then Some Align_TopLeft else None)"

datatype color_order = BGR | RGB

record input_spec =
  is_color_order :: color_order
  is_divide :: f32

definition default_for_decoder :: "string \<Rightarrow> input_spec" where
  "default_for_decoder type =
    (if type = ''yolov8'' \<or> type = ''yolov8_dfl'' \<or> type = ''yolo_pose'' \<or> type = ''classify''
     then \<lparr>is_color_order = RGB, is_divide = lit 255\<rparr>
     else \<lparr>is_color_order = BGR, is_divide = lit 1\<rparr>)"

record letterbox_geom =
  lg_src_w :: int
  lg_src_h :: int
  lg_model_w :: int
  lg_model_h :: int
  lg_scale :: f32
  lg_pad_x :: f32
  lg_pad_y :: f32
  lg_align :: align

definition no_geom :: letterbox_geom where
  "no_geom = \<lparr>lg_src_w = 0, lg_src_h = 0, lg_model_w = 0, lg_model_h = 0, lg_scale = 0,
     lg_pad_x = 0, lg_pad_y = 0, lg_align = Align_Center\<rparr>"

record keypoint =
  kp_x :: f32
  kp_y :: f32
  kp_conf :: f32

record detection =
  d_cx :: f32
  d_cy :: f32
  d_w :: f32
  d_h :: f32
  d_score :: f32
  d_class_id :: int
  d_track_id :: u32
  d_kpt_offset :: u32
  d_kpt_count :: u32

definition no_detection :: detection where
  "no_detection = \<lparr>d_cx = 0, d_cy = 0, d_w = 0, d_h = 0, d_score = 0, d_class_id = 0,
     d_track_id = 0, d_kpt_offset = 0, d_kpt_count = 0\<rparr>"

section \<open>Letterbox\<close>

definition fl_to_int :: "('e::len, 'p::len) fl \<Rightarrow> int" where
  "fl_to_int x = (case fl_trunc x of None \<Rightarrow> 0 | Some k \<Rightarrow> k)"

definition py_round :: "f32 \<Rightarrow> int" where
  "py_round v =
    (let f = ffloor v; r = v - f
     in if r > lit (1/2) then fl_to_int f + 1
        else if r < lit (1/2) then fl_to_int f
        else if even (fl_to_int f) then fl_to_int f else fl_to_int f + 1)"

definition letterbox_fit :: "int \<Rightarrow> int \<Rightarrow> int \<Rightarrow> int \<Rightarrow> align \<Rightarrow> letterbox_geom option" where
  "letterbox_fit src_w src_h model_w model_h a =
    (if src_w \<le> 0 \<or> src_h \<le> 0 \<or> model_w \<le> 0 \<or> model_h \<le> 0 then None
     else
       let scale = std_min (fl_of_int model_w / fl_of_int src_w) (fl_of_int model_h / fl_of_int src_h);
           sw = py_round (fl_of_int src_w * scale);
           sh = py_round (fl_of_int src_h * scale);
           g = \<lparr>lg_src_w = src_w, lg_src_h = src_h, lg_model_w = model_w, lg_model_h = model_h,
                lg_scale = scale, lg_pad_x = 0, lg_pad_y = 0, lg_align = a\<rparr>
       in Some (if a = Align_Center
                then g\<lparr>lg_pad_x := fl_of_int ((model_w - sw) sdiv 2),
                       lg_pad_y := fl_of_int ((model_h - sh) sdiv 2)\<rparr>
                else g))"

definition to_source_norm :: "letterbox_geom \<Rightarrow> f32 \<Rightarrow> f32 \<Rightarrow> f32 \<times> f32" where
  "to_source_norm g mx my =
    (let px = mx * fl_of_int (lg_model_w g); py = my * fl_of_int (lg_model_h g)
     in (((px - lg_pad_x g) / lg_scale g) / fl_of_int (lg_src_w g),
         ((py - lg_pad_y g) / lg_scale g) / fl_of_int (lg_src_h g)))"

definition box_to_source_norm :: "letterbox_geom \<Rightarrow> f32 \<Rightarrow> f32 \<Rightarrow> f32 \<Rightarrow> f32 \<Rightarrow> f32 \<times> f32 \<times> f32 \<times> f32" where
  "box_to_source_norm g cx cy w h =
    (let (scx, scy) = to_source_norm g cx cy
     in (scx, scy, w * fl_of_int (lg_model_w g) / (lg_scale g * fl_of_int (lg_src_w g)),
         h * fl_of_int (lg_model_h g) / (lg_scale g * fl_of_int (lg_src_h g))))"

definition to_model_norm :: "letterbox_geom \<Rightarrow> f32 \<Rightarrow> f32 \<Rightarrow> f32 \<times> f32" where
  "to_model_norm g sx sy =
    (let px = (sx * fl_of_int (lg_src_w g)) * lg_scale g + lg_pad_x g;
         py = (sy * fl_of_int (lg_src_h g)) * lg_scale g + lg_pad_y g
     in (px / fl_of_int (lg_model_w g), py / fl_of_int (lg_model_h g)))"

section \<open>Overlap\<close>

text \<open>The same function is written in \<open>tracker.cpp\<close> and in \<open>post/nms.cpp\<close>.\<close>

definition iou :: "detection \<Rightarrow> detection \<Rightarrow> f32" where
  "iou a b =
    (let ax1 = d_cx a - d_w a / lit 2; ay1 = d_cy a - d_h a / lit 2;
         ax2 = d_cx a + d_w a / lit 2; ay2 = d_cy a + d_h a / lit 2;
         bx1 = d_cx b - d_w b / lit 2; by1 = d_cy b - d_h b / lit 2;
         bx2 = d_cx b + d_w b / lit 2; by2 = d_cy b + d_h b / lit 2;
         ix1 = std_max ax1 bx1; iy1 = std_max ay1 by1;
         ix2 = std_min ax2 bx2; iy2 = std_min ay2 by2;
         iw = std_max 0 (ix2 - ix1); ih = std_max 0 (iy2 - iy1);
         inter = iw * ih;
         uni = d_w a * d_h a + d_w b * d_h b - inter
     in if uni > 0 then inter / uni else 0)"

text \<open>\<open>kpts[off, off + cnt)\<close> guarded by \<open>cnt > 0 && off + cnt <= kpts.size()\<close>, the sum taken in
  32 bits. When that sum wraps the guard can pass with \<open>off\<close> past the end, which is undefined in
  C++ and the empty list here.\<close>

definition kpt_slice_ok :: "keypoint list \<Rightarrow> u32 \<Rightarrow> u32 \<Rightarrow> bool" where
  "kpt_slice_ok kpts off cnt \<longleftrightarrow> cnt > 0 \<and> unat (off + cnt) \<le> length kpts"

definition kpt_slice :: "keypoint list \<Rightarrow> u32 \<Rightarrow> u32 \<Rightarrow> keypoint list" where
  "kpt_slice kpts off cnt = take (unat cnt) (drop (unat off) kpts)"

end
