(* ===== verification/Vb_Tracker.thy ===== *)
theory Vb_Tracker
  imports Std_Containers Vb_Types
begin

text \<open>
  \<open>core-cpp/vb/include/vb/tracker.h\<close> and \<open>core-cpp/vb/src/tracker.cpp\<close>: the generic tracker.
  Tracks are a vector in order of increasing id; one \<open>update\<close> matches detections by overlap and
  then by anchor distance, updates the matched tracks, ages or removes the others and opens
  tracks for the detections left over, writing the ids back into the detections.
\<close>

section \<open>State\<close>

datatype tk_anchor = Anchor_Center | Anchor_BottomCenter

record tk_config =
  tk_iou_threshold :: f32
  tk_dist_threshold :: f32
  tk_max_misses :: int
  tk_max_lost_s :: f32
  tk_min_hits :: int
  tk_class_aware :: bool
  tk_anchor :: tk_anchor

definition default_tk_config :: tk_config where
  "default_tk_config =
    \<lparr>tk_iou_threshold = lit (2/10), tk_dist_threshold = lit (15/100), tk_max_misses = 15,
     tk_max_lost_s = 0, tk_min_hits = 1, tk_class_aware = True, tk_anchor = Anchor_Center\<rparr>"

record track =
  trk_id :: u32
  trk_det :: detection
  trk_kpts :: "keypoint list"
  trk_vx :: f32
  trk_vy :: f32
  trk_hits :: u32
  trk_misses :: u32
  trk_first_seen_s :: f64
  trk_last_seen_s :: f64

record vb_tracker =
  vt_cfg :: tk_config
  vt_tracks :: "track list"
  vt_alive :: "track list"
  vt_next_id :: u32
  vt_last_t :: f64
  vt_has_t :: bool

definition new_vb_tracker :: "tk_config \<Rightarrow> vb_tracker" where
  "new_vb_tracker c = \<lparr>vt_cfg = c, vt_tracks = [], vt_alive = [], vt_next_id = 1, vt_last_t = 0, vt_has_t = False\<rparr>"

definition vt_reset :: "vb_tracker \<Rightarrow> vb_tracker" where
  "vt_reset t = t\<lparr>vt_tracks := [], vt_alive := [], vt_next_id := 1, vt_last_t := 0, vt_has_t := False\<rparr>"

section \<open>Velocity and prediction\<close>

definition vel_zero :: f32 where "vel_zero = lit 3 / lit 640"
definition vel_dwell_speed :: f32 where "vel_dwell_speed = lit 10 / lit 640"
definition vel_sudden_start_prev :: f32 where "vel_sudden_start_prev = lit 5 / lit 640"
definition vel_sudden_start_inst :: f32 where "vel_sudden_start_inst = lit 50 / lit 640"
definition vel_alpha :: f32 where "vel_alpha = lit (8/100)"
definition vel_alpha_sudden :: f32 where "vel_alpha_sudden = lit (6/10)"
definition predict_min_speed :: f32 where "predict_min_speed = lit 1 / lit 640"
definition fallback_max_misses :: int where "fallback_max_misses = 5"

definition tk_update_velocity :: "track \<Rightarrow> f32 \<Rightarrow> f32 \<Rightarrow> f64 \<Rightarrow> track" where
  "tk_update_velocity tr ncx ncy dt =
    (if dt \<le> lit (1/1000) then tr
     else
       let dx = ncx - d_cx (trk_det tr); dy = ncy - d_cy (trk_det tr);
           ivx = fconv (fconv dx / dt) :: f32; ivy = fconv (fconv dy / dt) :: f32;
           inst = fhypot ivx ivy;
           prev = fhypot (trk_vx tr) (trk_vy tr)
       in if inst < vel_zero then tr\<lparr>trk_vx := 0, trk_vy := 0\<rparr>
          else
            let sudden_stop = (prev > vel_dwell_speed \<and> (prev - inst) / prev > lit (1/2));
                sudden_start = (prev < vel_sudden_start_prev \<and> inst > vel_sudden_start_inst);
                alpha = (if sudden_stop \<or> sudden_start then vel_alpha_sudden else vel_alpha)
            in tr\<lparr>trk_vx := (1 - alpha) * trk_vx tr + alpha * ivx,
                  trk_vy := (1 - alpha) * trk_vy tr + alpha * ivy\<rparr>)"

definition tk_predicted :: "f64 \<Rightarrow> track \<Rightarrow> f32 \<times> f32" where
  "tk_predicted t tr =
    (let px = d_cx (trk_det tr); py = d_cy (trk_det tr)
     in if trk_misses tr > 0 \<and> fhypot (trk_vx tr) (trk_vy tr) > predict_min_speed then
          let dts = fconv (t - trk_last_seen_s tr) in (px + trk_vx tr * dts, py + trk_vy tr * dts)
        else (px, py))"

section \<open>Matching\<close>

definition tk_class_ok :: "tk_config \<Rightarrow> detection \<Rightarrow> detection \<Rightarrow> bool" where
  "tk_class_ok c a b \<longleftrightarrow> \<not> tk_class_aware c \<or> d_class_id a = d_class_id b"

definition pred_det :: "f64 \<Rightarrow> track \<Rightarrow> detection" where
  "pred_det t tr = (let (px, py) = tk_predicted t tr in (trk_det tr)\<lparr>d_cx := px, d_cy := py\<rparr>)"

definition anchor_xy :: "tk_config \<Rightarrow> detection \<Rightarrow> f32 \<times> f32" where
  "anchor_xy c d = (d_cx d, if tk_anchor c = Anchor_BottomCenter then d_cy d + d_h d / lit 2 else d_cy d)"

definition tk_pick_iou ::
  "tk_config \<Rightarrow> f64 \<Rightarrow> track list \<Rightarrow> detection list \<Rightarrow> nat \<Rightarrow> bool list \<Rightarrow> nat option" where
  "tk_pick_iou c t tracks dets oi used =
    (let tr = tracks ! oi; pred = pred_det t tr in
     snd (scan_best (\<lambda>v best. v > best) (\<lambda>d. iou pred (dets ! d))
       (\<lambda>d. used ! d \<or> \<not> tk_class_ok c (trk_det tr) (dets ! d)) [0..<length dets]
       (tk_iou_threshold c, None)))"

definition tk_pick_dist ::
  "tk_config \<Rightarrow> f64 \<Rightarrow> track list \<Rightarrow> detection list \<Rightarrow> nat \<Rightarrow> bool list \<Rightarrow> nat option" where
  "tk_pick_dist c t tracks dets oi used =
    (let tr = tracks ! oi in
     if sint (trk_misses tr) > fallback_max_misses then None
     else
       let (pax, pay) = anchor_xy c (pred_det t tr) in
       snd (scan_best (\<lambda>v best. v < best)
         (\<lambda>d. let (dax, day) = anchor_xy c (dets ! d) in fhypot (dax - pax) (day - pay))
         (\<lambda>d. used ! d \<or> \<not> tk_class_ok c (trk_det tr) (dets ! d)) [0..<length dets]
         (tk_dist_threshold c, None)))"

text \<open>\<open>track_match\<close> as the list of (track index, detection index) pairs, with the used flags.\<close>

definition tk_match :: "tk_config \<Rightarrow> f64 \<Rightarrow> track list \<Rightarrow> detection list \<Rightarrow> (nat \<times> nat) list \<times> bool list" where
  "tk_match c t tracks dets =
    (let order = stable_sort (\<lambda>a b. trk_hits (tracks ! a) > trk_hits (tracks ! b)) [0..<length tracks];
         (m1, unmatched, used1) =
           greedy_pass (tk_pick_iou c t tracks dets) order (replicate (length dets) False);
         (m2, _, used2) = greedy_pass (tk_pick_dist c t tracks dets) unmatched used1
     in (m1 @ m2, used2))"

section \<open>One update\<close>

definition assign_kpts :: "keypoint list \<Rightarrow> detection \<Rightarrow> keypoint list" where
  "assign_kpts kpts d =
    (if kpt_slice_ok kpts (d_kpt_offset d) (d_kpt_count d)
     then kpt_slice kpts (d_kpt_offset d) (d_kpt_count d) else [])"

definition tk_matched :: "keypoint list \<Rightarrow> f64 \<Rightarrow> f64 \<Rightarrow> detection \<Rightarrow> track \<Rightarrow> track" where
  "tk_matched kpts t dt nd tr =
    (tk_update_velocity tr (d_cx nd) (d_cy nd) dt)
      \<lparr>trk_det := nd, trk_kpts := assign_kpts kpts nd, trk_hits := trk_hits tr + 1,
       trk_misses := 0, trk_last_seen_s := t\<rparr>"

definition match_step :: "keypoint list \<Rightarrow> f64 \<Rightarrow> f64 \<Rightarrow> (nat \<times> nat) list \<Rightarrow> nat \<Rightarrow>
    track list \<times> detection list \<Rightarrow> track list \<times> detection list" where
  "match_step kpts t dt ms i s =
    (case s of (tracks, dets) \<Rightarrow>
       (case map_of ms i of
          None \<Rightarrow> (tracks, dets)
        | Some d \<Rightarrow>
            let tr = tracks ! i; nd = dets ! d
            in (tracks[i := tk_matched kpts t dt nd tr], dets[d := nd\<lparr>d_track_id := trk_id tr\<rparr>])))"

definition tk_timed_out :: "tk_config \<Rightarrow> f64 \<Rightarrow> track \<Rightarrow> bool" where
  "tk_timed_out c t tr =
    (let by_misses = sint (trk_misses tr) > tk_max_misses c;
         by_time = (tk_max_lost_s c > 0 \<and> t - trk_last_seen_s tr > fconv (tk_max_lost_s c))
     in by_misses \<or> by_time)"

fun tk_age :: "tk_config \<Rightarrow> f64 \<Rightarrow> (nat option \<times> track) list \<Rightarrow> track list \<times> u32 list" where
  "tk_age c t [] = ([], [])"
| "tk_age c t ((Some d, tr) # rest) = (let (ts, rm) = tk_age c t rest in (tr # ts, rm))"
| "tk_age c t ((None, tr) # rest) =
    (let tr' = tr\<lparr>trk_misses := trk_misses tr + 1\<rparr>; (ts, rm) = tk_age c t rest
     in if tk_timed_out c t tr' then (ts, trk_id tr' # rm) else (tr' # ts, rm))"

definition tk_new :: "keypoint list \<Rightarrow> f64 \<Rightarrow> u32 \<Rightarrow> detection \<Rightarrow> track" where
  "tk_new kpts t i d =
    \<lparr>trk_id = i, trk_det = d, trk_kpts = assign_kpts kpts d, trk_vx = 0, trk_vy = 0, trk_hits = 1,
     trk_misses = 0, trk_first_seen_s = t, trk_last_seen_s = t\<rparr>"

definition open_step :: "keypoint list \<Rightarrow> f64 \<Rightarrow> bool list \<Rightarrow> nat \<Rightarrow>
    track list \<times> detection list \<times> u32 \<Rightarrow> track list \<times> detection list \<times> u32" where
  "open_step kpts t used d s =
    (case s of (tracks, dets, next_id) \<Rightarrow>
       if used ! d then s
       else (tracks @ [tk_new kpts t next_id (dets ! d)], dets[d := (dets ! d)\<lparr>d_track_id := next_id\<rparr>], next_id + 1))"

definition vt_update :: "detection list \<Rightarrow> keypoint list \<Rightarrow> f64 \<Rightarrow> vb_tracker \<Rightarrow>
    vb_tracker \<times> detection list \<times> u32 list" where
  "vt_update dets kpts t v =
    (let c = vt_cfg v;
         dt = (if vt_has_t v then t - vt_last_t v else 0);
         (ms, used) = tk_match c t (vt_tracks v) dets;
         (tracks1, dets1) = fold (match_step kpts t dt ms) [0..<length (vt_tracks v)] (vt_tracks v, dets);
         (tracks2, removed) = tk_age c t (zip (map (map_of ms) [0..<length tracks1]) tracks1);
         (tracks3, dets3, next_id) =
           fold (open_step kpts t used) [0..<length dets] (tracks2, dets1, vt_next_id v);
         alive = filter (\<lambda>tr. sint (trk_hits tr) \<ge> tk_min_hits c) tracks3
     in (v\<lparr>vt_tracks := tracks3, vt_alive := alive, vt_next_id := next_id, vt_last_t := t, vt_has_t := True\<rparr>,
         dets3, removed))"

end
