(* ===== verification/Vb_Tracker_Facts.thy ===== *)
theory Vb_Tracker_Facts
  imports Vb_Tracker
begin

text \<open>
  Facts about the generic tracker: the matching is injective and respects classes, the ids
  written back name the fresh tracks one to one, the table stays ordered by id, and every id
  issued is in the table or was reported removed exactly once.
\<close>

section \<open>Matching\<close>

interpretation tk_iou: picker "tk_pick_iou c t tracks dets" "length dets" for c t tracks dets
  by unfold_locales (auto simp: tk_pick_iou_def Let_def split: prod.splits dest!: scan_best_sound)

interpretation tk_dist: picker "tk_pick_dist c t tracks dets" "length dets" for c t tracks dets
  by unfold_locales
    (auto simp: tk_pick_dist_def Let_def split: prod.splits if_splits dest!: scan_best_sound)

lemma pick_class:
  "tk_pick_iou c t tracks dets i used = Some d \<Longrightarrow> tk_class_ok c (trk_det (tracks ! i)) (dets ! d)"
  "tk_pick_dist c t tracks dets i used = Some d \<Longrightarrow> tk_class_ok c (trk_det (tracks ! i)) (dets ! d)"
  by (auto simp: tk_pick_iou_def tk_pick_dist_def Let_def split: prod.splits if_splits dest!: scan_best_sound)

lemma greedy_pass_class:
  assumes "greedy_pass pick ts used = (ms, un, u)"
    "\<And>i used d. pick i used = Some d \<Longrightarrow> P i d" "(i, d) \<in> set ms"
  shows "P i d"
  using assms(1,3)
  by (induction ts arbitrary: used ms un) (auto split: option.splits prod.splits dest: assms(2))

lemma tk_match_facts:
  assumes "tk_match c t tracks dets = (ms, used)"
  shows "distinct (map fst ms)" "distinct (map snd ms)" "set (map fst ms) \<subseteq> {..<length tracks}"
    "set (map snd ms) \<subseteq> {..<length dets}" "length used = length dets"
    "d < length dets \<Longrightarrow> used ! d \<longleftrightarrow> d \<in> snd ` set ms"
    "(i, d) \<in> set ms \<Longrightarrow> tk_class_ok c (trk_det (tracks ! i)) (dets ! d)"
proof -
  define order where
    "order = stable_sort (\<lambda>a b. trk_hits (tracks ! a) > trk_hits (tracks ! b)) [0..<length tracks]"
  have order: "mset order = mset [0..<length tracks]" by (simp add: order_def)
  obtain m1 un u1 where p1: "greedy_pass (tk_pick_iou c t tracks dets) order (replicate (length dets) False) = (m1, un, u1)"
    by (metis prod_cases3)
  obtain m2 un2 u2 where p2: "greedy_pass (tk_pick_dist c t tracks dets) un u1 = (m2, un2, u2)"
    by (metis prod_cases3)
  have eq: "ms = m1 @ m2" "used = u2" using assms p1 p2 by (auto simp: tk_match_def order_def)
  note a1 = tk_iou.pass_assignment [OF p1, simplified] and b1 = tk_iou.pass_used [OF p1, simplified]
  note a2 = tk_dist.pass_assignment [OF p2 b1(1)] and b2 = tk_dist.pass_used [OF p2 b1(1)]
  have "mset (map fst ms) + mset un2 = mset [0..<length tracks]"
    using a1(3) a2(3) order unfolding eq by (simp add: add.assoc)
  then have m: "mset (map fst ms @ un2) = mset [0..<length tracks]" by simp
  then have "distinct (map fst ms @ un2)" by (metis distinct_upt mset_eq_imp_distinct_iff)
  then show "distinct (map fst ms)" by simp
  have "set (map fst ms @ un2) = {..<length tracks}" using mset_eq_setD [OF m] by auto
  then show "set (map fst ms) \<subseteq> {..<length tracks}" by auto
  show "set (map snd ms) \<subseteq> {..<length dets}" using a1(1) a2(1) unfolding eq by auto
  have "u1 ! d" if "d \<in> snd ` set m1" for d using b1(2) [of d] a1(1) that by auto
  moreover have "\<not> u1 ! d" if "d \<in> snd ` set m2" for d using a2(1) that by auto
  ultimately have "set (map snd m1) \<inter> set (map snd m2) = {}" by auto
  with a1(2) a2(2) eq show "distinct (map snd ms)" by simp
  show "length used = length dets" using b2(1) eq by simp
  show "d < length dets \<Longrightarrow> used ! d \<longleftrightarrow> d \<in> snd ` set ms" using b1(2) b2(2) eq by auto
  show "(i, d) \<in> set ms \<Longrightarrow> tk_class_ok c (trk_det (tracks ! i)) (dets ! d)"
    using greedy_pass_class [OF p1 pick_class(1)] greedy_pass_class [OF p2 pick_class(2)] eq by auto
qed

section \<open>The loops of one update\<close>

definition inv_match :: "(nat \<times> nat) list \<Rightarrow> nat \<Rightarrow> nat option" where
  "inv_match ms d = map_of (map (\<lambda>(i, d). (d, i)) ms) d"

lemma inv_match_iff:
  assumes "distinct (map fst ms)" "distinct (map snd ms)"
  shows "inv_match ms d = Some i \<longleftrightarrow> map_of ms i = Some d"
proof -
  have "map fst (map (\<lambda>(i, d). (d, i)) ms) = map snd ms" by (simp add: case_prod_beta comp_def)
  then have "distinct (map fst (map (\<lambda>(i, d). (d, i)) ms))" using assms(2) by (simp only:)
  then have "inv_match ms d = Some i \<longleftrightarrow> (d, i) \<in> set (map (\<lambda>(i, d). (d, i)) ms)"
    unfolding inv_match_def by (rule map_of_eq_Some_iff)
  then have "inv_match ms d = Some i \<longleftrightarrow> (i, d) \<in> set ms" by force
  with assms(1) show ?thesis by simp
qed

lemma inv_match_None: "inv_match ms d = None \<longleftrightarrow> d \<notin> snd ` set ms"
  by (force simp: inv_match_def map_of_eq_None_iff)

lemma map_upt_update: "k < n \<Longrightarrow> (map f [0..<n])[k := v] = map (\<lambda>i. if i = k then v else f i) [0..<n]"
  by (auto intro!: nth_equalityI simp: nth_list_update)

lemma match_loop:
  assumes "distinct (map fst ms)" "distinct (map snd ms)" "set (map snd ms) \<subseteq> {..<length dets}"
    "k \<le> length tracks"
  shows "fold (match_step kpts t dt ms) [0..<k] (tracks, dets) =
    (map (\<lambda>i. case map_of ms i of Some d \<Rightarrow> if i < k then tk_matched kpts t dt (dets ! d) (tracks ! i) else tracks ! i
        | None \<Rightarrow> tracks ! i) [0..<length tracks],
     map (\<lambda>d. case inv_match ms d of Some i \<Rightarrow> if i < k then (dets ! d)\<lparr>d_track_id := trk_id (tracks ! i)\<rparr> else dets ! d
        | None \<Rightarrow> dets ! d) [0..<length dets])"
  using assms(4)
proof (induction k)
  case 0
  show ?case by (auto simp: map_nth split: option.splits intro!: nth_equalityI)
next
  case (Suc k)
  note inv = inv_match_iff [OF assms(1,2)]
  show ?case
  proof (cases "map_of ms k")
    case None
    have "inv_match ms d \<noteq> Some k" for d using None by (simp add: inv)
    then have "inv_match ms d = Some i \<Longrightarrow> (i < Suc k) = (i < k)" for i d by (auto simp: less_Suc_eq)
    moreover have "map_of ms i = Some d \<Longrightarrow> (i < Suc k) = (i < k)" for i d using None by (auto simp: less_Suc_eq)
    ultimately show ?thesis using Suc None
      by (auto simp: match_step_def split: option.splits)
  next
    case (Some d)
    have d: "d < length dets" using Some assms(3) by (force dest: map_of_SomeD)
    have k: "k < length tracks" using Suc.prems by simp
    have inj: "inv_match ms d' = Some i \<Longrightarrow> i = k \<longleftrightarrow> d' = d" for d' i
      using Some inv by (metis option.inject)
    have dk: "inv_match ms d = Some k" using Some by (simp add: inv)
    show ?thesis
      using Suc Some d k dk
      by (simp add: match_step_def Let_def map_upt_update)
        (auto simp: less_Suc_eq inj split: option.splits)
  qed
qed

lemma tk_age_spec:
  "tk_age c t ps =
    (map (\<lambda>(m, tr). if m = None then tr\<lparr>trk_misses := trk_misses tr + 1\<rparr> else tr)
       (filter (\<lambda>(m, tr). \<not> (m = None \<and> tk_timed_out c t (tr\<lparr>trk_misses := trk_misses tr + 1\<rparr>))) ps),
     map (trk_id \<circ> snd) (filter (\<lambda>(m, tr). m = None \<and> tk_timed_out c t (tr\<lparr>trk_misses := trk_misses tr + 1\<rparr>)) ps))"
  by (induction c t ps rule: tk_age.induct) (auto simp: Let_def)

text \<open>The detections that open tracks, with their ids.\<close>

fun fresh_tracks :: "keypoint list \<Rightarrow> f64 \<Rightarrow> u32 \<Rightarrow> detection list \<Rightarrow> track list" where
  "fresh_tracks kpts t i [] = []"
| "fresh_tracks kpts t i (d # ds) = tk_new kpts t i d # fresh_tracks kpts t (i + 1) ds"

lemma fresh_tracks_append:
  "fresh_tracks kpts t i (xs @ [d]) = fresh_tracks kpts t i xs @ [tk_new kpts t (i + of_nat (length xs)) d]"
  by (induction kpts t i xs rule: fresh_tracks.induct) (auto simp: algebra_simps)

definition unused_below :: "bool list \<Rightarrow> nat \<Rightarrow> nat list" where
  "unused_below used k = filter (\<lambda>d. \<not> used ! d) [0..<k]"

lemma open_loop:
  assumes "k \<le> length dets"
  shows "fold (open_step kpts t used) [0..<k] (tracks, dets, i) =
    (tracks @ fresh_tracks kpts t i (map ((!) dets) (unused_below used k)),
     map (\<lambda>d. if d < k \<and> \<not> used ! d
        then (dets ! d)\<lparr>d_track_id := i + of_nat (length (unused_below used d))\<rparr> else dets ! d) [0..<length dets],
     i + of_nat (length (unused_below used k)))"
  using assms
proof (induction k)
  case 0
  show ?case by (simp add: unused_below_def map_nth)
next
  case (Suc k)
  then show ?case
    by (auto simp: open_step_def unused_below_def fresh_tracks_append less_Suc_eq nth_list_update
        algebra_simps intro!: nth_equalityI)
qed

section \<open>The outcome of one update\<close>

definition aged :: "track \<Rightarrow> track" where
  "aged tr = tr\<lparr>trk_misses := trk_misses tr + 1\<rparr>"

definition gone :: "vb_tracker \<Rightarrow> f64 \<Rightarrow> (nat \<times> nat) list \<Rightarrow> nat \<Rightarrow> bool" where
  "gone v t ms i \<longleftrightarrow> map_of ms i = None \<and> tk_timed_out (vt_cfg v) t (aged (vt_tracks v ! i))"

definition kept_track :: "vb_tracker \<Rightarrow> detection list \<Rightarrow> keypoint list \<Rightarrow> f64 \<Rightarrow> f64 \<Rightarrow> (nat \<times> nat) list \<Rightarrow> nat \<Rightarrow> track" where
  "kept_track v dets kpts t dt ms i =
    (case map_of ms i of None \<Rightarrow> aged (vt_tracks v ! i)
     | Some d \<Rightarrow> tk_matched kpts t dt (dets ! d) (vt_tracks v ! i))"

lemma tk_matched_id [simp]: "trk_id (tk_matched kpts t dt d tr) = trk_id tr"
  "trk_det (tk_matched kpts t dt d tr) = d" "trk_misses (tk_matched kpts t dt d tr) = 0"
  by (simp_all add: tk_matched_def tk_update_velocity_def Let_def)

lemma kept_track_id [simp]: "trk_id (kept_track v dets kpts t dt ms i) = trk_id (vt_tracks v ! i)"
  by (simp add: kept_track_def aged_def split: option.split)

lemma zip_map_both: "zip (map f xs) (map g xs) = map (\<lambda>x. (f x, g x)) xs"
  by (induction xs) auto

lemma update_outcome:
  assumes m: "tk_match (vt_cfg v) t (vt_tracks v) dets = (ms, used)"
    and u: "vt_update dets kpts t v = (v', dets', removed)"
  defines "n \<equiv> length (vt_tracks v)" and "dt \<equiv> if vt_has_t v then t - vt_last_t v else 0"
  shows "vt_tracks v' = map (kept_track v dets kpts t dt ms) (filter (\<lambda>i. \<not> gone v t ms i) [0..<n]) @
      fresh_tracks kpts t (vt_next_id v) (map ((!) dets) (unused_below used (length dets)))"
    "removed = map (\<lambda>i. trk_id (vt_tracks v ! i)) (filter (gone v t ms) [0..<n])"
    "dets' = map (\<lambda>d. (dets ! d)\<lparr>d_track_id := (case inv_match ms d of Some i \<Rightarrow> trk_id (vt_tracks v ! i)
        | None \<Rightarrow> vt_next_id v + of_nat (length (unused_below used d)))\<rparr>) [0..<length dets]"
    "vt_next_id v' = vt_next_id v + of_nat (length (unused_below used (length dets)))"
    "vt_cfg v' = vt_cfg v"
proof -
  note f = tk_match_facts [OF m]
  let ?M = "fold (match_step kpts t dt ms) [0..<n] (vt_tracks v, dets)"
  have M: "?M = (map (\<lambda>i. case map_of ms i of Some d \<Rightarrow> tk_matched kpts t dt (dets ! d) (vt_tracks v ! i)
        | None \<Rightarrow> vt_tracks v ! i) [0..<n],
     map (\<lambda>d. case inv_match ms d of Some i \<Rightarrow> (dets ! d)\<lparr>d_track_id := trk_id (vt_tracks v ! i)\<rparr>
        | None \<Rightarrow> dets ! d) [0..<length dets])" (is "_ = (?T, ?D)")
  proof -
    have "inv_match ms d = Some i \<Longrightarrow> i < n" for d i
      using inv_match_iff [OF f(1,2)] f(3) by (force simp: n_def dest: map_of_SomeD)
    then show ?thesis
      unfolding n_def by (subst match_loop [OF f(1,2,4) order_refl]) (auto split: option.splits)
  qed
  have unused: "inv_match ms d = None \<longleftrightarrow> \<not> used ! d" if "d < length dets" for d
    using that f(6) by (simp add: inv_match_None)
  have A: "tk_age (vt_cfg v) t (zip (map (map_of ms) [0..<length ?T]) ?T) =
      (map (kept_track v dets kpts t dt ms) (filter (\<lambda>i. \<not> gone v t ms i) [0..<n]),
       map (\<lambda>i. trk_id (vt_tracks v ! i)) (filter (gone v t ms) [0..<n]))"
    unfolding tk_age_spec length_map length_upt minus_nat.diff_0 zip_map_both filter_map map_map
    by (intro arg_cong2 [where f = Pair] map_cong filter_cong)
      (auto simp: comp_def gone_def aged_def kept_track_def split: option.splits)
  have D: "map ((!) ?D) (unused_below used (length dets)) = map ((!) dets) (unused_below used (length dets))"
    using unused [THEN iffD2] by (auto simp: unused_below_def split: option.split)
  have len: "length ?D = length dets" by simp
  show "vt_tracks v' = map (kept_track v dets kpts t dt ms) (filter (\<lambda>i. \<not> gone v t ms i) [0..<n]) @
      fresh_tracks kpts t (vt_next_id v) (map ((!) dets) (unused_below used (length dets)))"
    "removed = map (\<lambda>i. trk_id (vt_tracks v ! i)) (filter (gone v t ms) [0..<n])"
    "vt_next_id v' = vt_next_id v + of_nat (length (unused_below used (length dets)))"
    "vt_cfg v' = vt_cfg v"
    using u D len M A open_loop [of "length dets" ?D kpts t used]
    unfolding vt_update_def Let_def m n_def [symmetric] dt_def [symmetric]
    by (auto split: prod.splits)
  have "dets' = map (\<lambda>d. if d < length dets \<and> \<not> used ! d
        then (?D ! d)\<lparr>d_track_id := vt_next_id v + of_nat (length (unused_below used d))\<rparr> else ?D ! d) [0..<length dets]"
    using u len M A open_loop [of "length dets" ?D kpts t used]
    unfolding vt_update_def Let_def m n_def [symmetric] dt_def [symmetric]
    by (auto split: prod.splits)
  also have "\<dots> = map (\<lambda>d. (dets ! d)\<lparr>d_track_id := (case inv_match ms d of Some i \<Rightarrow> trk_id (vt_tracks v ! i)
        | None \<Rightarrow> vt_next_id v + of_nat (length (unused_below used d)))\<rparr>) [0..<length dets]"
  proof (intro map_cong refl)
    fix d assume "d \<in> set [0..<length dets]"
    then have d: "d < length dets" by simp
    with unused [OF d] show "(if d < length dets \<and> \<not> used ! d
        then (?D ! d)\<lparr>d_track_id := vt_next_id v + of_nat (length (unused_below used d))\<rparr> else ?D ! d) =
      (dets ! d)\<lparr>d_track_id := (case inv_match ms d of Some i \<Rightarrow> trk_id (vt_tracks v ! i)
        | None \<Rightarrow> vt_next_id v + of_nat (length (unused_below used d)))\<rparr>"
      by (cases "inv_match ms d") simp_all
  qed
  finally show "dets' = map (\<lambda>d. (dets ! d)\<lparr>d_track_id := (case inv_match ms d of Some i \<Rightarrow> trk_id (vt_tracks v ! i)
        | None \<Rightarrow> vt_next_id v + of_nat (length (unused_below used d)))\<rparr>) [0..<length dets]" .
qed

section \<open>Ids\<close>

definition vt_inv :: "vb_tracker \<Rightarrow> bool" where
  "vt_inv v \<longleftrightarrow> sorted_wrt (<) (map trk_id (vt_tracks v)) \<and> 0 < vt_next_id v \<and>
     (\<forall>tr \<in> set (vt_tracks v). 0 < trk_id tr \<and> trk_id tr < vt_next_id v)"

lemma id_plus:
  fixes i :: u32
  assumes "unat i + m < 2 ^ 32" "k \<le> m"
  shows "unat (i + of_nat k) = unat i + k"
  using assms by (simp add: unat_word_ariths unat_of_nat)

lemma length_unused: "length (unused_below used k) \<le> k"
  unfolding unused_below_def by (metis diff_zero length_filter_le length_upt)

lemma fresh_ids:
  "unat i + length ds < 2 ^ 32 \<Longrightarrow> map (unat \<circ> trk_id) (fresh_tracks kpts t i ds) = [unat i..<unat i + length ds]"
proof (induction kpts t i ds rule: fresh_tracks.induct)
  case (2 kpts t i d ds)
  then have "unat (i + 1) = unat i + 1" using id_plus [of i "length (d # ds)" 1] by simp
  with 2 show ?case by (simp add: tk_new_def upt_rec)
qed simp

lemma unused_below_less: "d < e \<Longrightarrow> \<not> used ! d \<Longrightarrow> length (unused_below used d) < length (unused_below used e)"
proof -
  assume "d < e" "\<not> used ! d"
  then have "[0..<e] = [0..<d] @ d # [Suc d..<e]"
    by (metis le_add1 le_add_same_cancel1 less_imp_add_positive upt_add_eq_append upt_conv_Cons zero_le)
  with \<open>\<not> used ! d\<close> show ?thesis by (simp add: unused_below_def)
qed

text \<open>The ids of the table and of the detections after an update.\<close>

definition vt_ids :: "vb_tracker \<Rightarrow> nat list" where
  "vt_ids v = map (unat \<circ> trk_id) (vt_tracks v)"

lemma vt_inv_iff: "vt_inv v \<longleftrightarrow> sorted_wrt (<) (vt_ids v) \<and> 0 < unat (vt_next_id v) \<and>
    (\<forall>i \<in> set (vt_ids v). 0 < i \<and> i < unat (vt_next_id v))"
  by (auto simp: vt_inv_def vt_ids_def sorted_wrt_map word_less_nat_alt)

lemma update_ids:
  assumes m: "tk_match (vt_cfg v) t (vt_tracks v) dets = (ms, used)"
    and u: "vt_update dets kpts t v = (v', dets', removed)"
    and w: "unat (vt_next_id v) + length dets < 2 ^ 32"
  shows "vt_ids v' = map (\<lambda>i. vt_ids v ! i) (filter (\<lambda>i. \<not> gone v t ms i) [0..<length (vt_ids v)]) @
      [unat (vt_next_id v)..<unat (vt_next_id v')]"
    "map unat removed = map (\<lambda>i. vt_ids v ! i) (filter (gone v t ms) [0..<length (vt_ids v)])"
    "unat (vt_next_id v') = unat (vt_next_id v) + length (unused_below used (length dets))"
proof -
  note o = update_outcome [OF m u] and le = length_unused [of used "length dets"]
  show n: "unat (vt_next_id v') = unat (vt_next_id v) + length (unused_below used (length dets))"
    using o(4) id_plus [OF w le] by simp
  show "vt_ids v' = map (\<lambda>i. vt_ids v ! i) (filter (\<lambda>i. \<not> gone v t ms i) [0..<length (vt_ids v)]) @
      [unat (vt_next_id v)..<unat (vt_next_id v')]"
    using fresh_ids [of "vt_next_id v" "map ((!) dets) (unused_below used (length dets))" kpts t] w le n
    by (simp add: vt_ids_def o(1))
  show "map unat removed = map (\<lambda>i. vt_ids v ! i) (filter (gone v t ms) [0..<length (vt_ids v)])"
    by (simp add: vt_ids_def o(2))
qed

lemma mset_filter_split: "mset (filter (\<lambda>x. \<not> P x) xs) + mset (filter P xs) = mset xs"
  by (induction xs) auto

lemma update_conserves:
  assumes m: "tk_match (vt_cfg v) t (vt_tracks v) dets = (ms, used)"
    and u: "vt_update dets kpts t v = (v', dets', removed)"
    and w: "unat (vt_next_id v) + length dets < 2 ^ 32"
  shows "mset (map unat removed) + mset (vt_ids v') =
    mset (vt_ids v) + mset [unat (vt_next_id v)..<unat (vt_next_id v')]"
proof -
  let ?f = "\<lambda>i. vt_ids v ! i" and ?I = "[0..<length (vt_ids v)]"
  have "mset (map ?f (filter (\<lambda>i. \<not> gone v t ms i) ?I)) + mset (map ?f (filter (gone v t ms) ?I)) =
      image_mset ?f (mset ?I)"
    by (simp only: mset_map image_mset_union [symmetric] mset_filter_split)
  also have "\<dots> = mset (vt_ids v)" by (metis map_nth mset_map)
  finally show ?thesis by (simp add: update_ids [OF m u w] add.commute)
qed

lemma update_inv:
  assumes m: "tk_match (vt_cfg v) t (vt_tracks v) dets = (ms, used)"
    and u: "vt_update dets kpts t v = (v', dets', removed)"
    and w: "unat (vt_next_id v) + length dets < 2 ^ 32" and inv: "vt_inv v"
  shows "vt_inv v'"
proof -
  let ?I = "[0..<length (vt_ids v)]"
  have "sorted_wrt (\<lambda>i j. vt_ids v ! i < vt_ids v ! j) (filter (\<lambda>i. \<not> gone v t ms i) ?I)"
  proof (rule sorted_wrt_filter, rule sorted_wrt_mono_rel [rotated])
    show "sorted_wrt (<) ?I" by simp
    fix i j assume "i \<in> set ?I" "j \<in> set ?I" "i < j"
    with inv show "vt_ids v ! i < vt_ids v ! j"
      by (auto simp: vt_inv_iff sorted_wrt_iff_nth_less)
  qed
  moreover have "0 < vt_ids v ! i \<and> vt_ids v ! i < unat (vt_next_id v)" if "i < length (vt_ids v)" for i
    using inv that by (auto simp: vt_inv_iff)
  ultimately obtain K where K: "sorted_wrt (<) K" "\<forall>x \<in> set K. 0 < x \<and> x < unat (vt_next_id v)"
    "vt_ids v' = K @ [unat (vt_next_id v)..<unat (vt_next_id v')]"
    using update_ids(1) [OF m u w] by (fastforce simp: sorted_wrt_map)
  have "unat (vt_next_id v) \<le> unat (vt_next_id v')" using update_ids(3) [OF m u w] by simp
  moreover have "0 < unat (vt_next_id v)" using inv by (simp add: vt_inv_iff)
  ultimately show ?thesis using K by (fastforce simp: vt_inv_iff sorted_wrt_append)
qed

fun vt_run :: "(detection list \<times> keypoint list \<times> f64) list \<Rightarrow> vb_tracker \<Rightarrow> vb_tracker \<times> u32 list" where
  "vt_run [] v = (v, [])"
| "vt_run ((dets, kpts, t) # frames) v =
    (let (v1, _, r1) = vt_update dets kpts t v; (v2, r2) = vt_run frames v1 in (v2, r1 @ r2))"

definition n_dets :: "(detection list \<times> keypoint list \<times> f64) list \<Rightarrow> nat" where
  "n_dets frames = sum_list (map (length \<circ> fst) frames)"

lemma run_conserves:
  assumes "vt_run frames v = (v', removed)" "vt_inv v" "unat (vt_next_id v) + n_dets frames < 2 ^ 32"
  shows "vt_inv v' \<and> unat (vt_next_id v) \<le> unat (vt_next_id v') \<and>
    mset (map unat removed) + mset (vt_ids v') =
      mset (vt_ids v) + mset [unat (vt_next_id v)..<unat (vt_next_id v')]"
  using assms
proof (induction frames arbitrary: v v' removed)
  case (Cons f frames)
  obtain dets kpts t where f: "f = (dets, kpts, t)" by (metis prod_cases3)
  obtain v1 d1 r1 where u: "vt_update dets kpts t v = (v1, d1, r1)" by (metis prod_cases3)
  obtain v2 r2 where r: "vt_run frames v1 = (v2, r2)" by force
  obtain ms used where m: "tk_match (vt_cfg v) t (vt_tracks v) dets = (ms, used)" by force
  have w: "unat (vt_next_id v) + length dets < 2 ^ 32" using Cons.prems(3) f by (simp add: n_dets_def)
  have n1: "unat (vt_next_id v) \<le> unat (vt_next_id v1)" "unat (vt_next_id v1) \<le> unat (vt_next_id v) + length dets"
    using update_ids(3) [OF m u w] length_unused [of used "length dets"] by auto
  have IH: "vt_inv v2 \<and> unat (vt_next_id v1) \<le> unat (vt_next_id v2) \<and>
    mset (map unat r2) + mset (vt_ids v2) =
      mset (vt_ids v1) + mset [unat (vt_next_id v1)..<unat (vt_next_id v2)]"
    using Cons.IH [OF r update_inv [OF m u w Cons.prems(2)]] n1(2) Cons.prems(3) f
    by (simp add: n_dets_def)
  have "[unat (vt_next_id v)..<unat (vt_next_id v2)] =
      [unat (vt_next_id v)..<unat (vt_next_id v1)] @ [unat (vt_next_id v1)..<unat (vt_next_id v2)]"
    using n1 IH by (metis le_iff_add upt_add_eq_append)
  then have "mset [unat (vt_next_id v)..<unat (vt_next_id v2)] =
      mset [unat (vt_next_id v)..<unat (vt_next_id v1)] + mset [unat (vt_next_id v1)..<unat (vt_next_id v2)]"
    by (simp only: mset_append)
  moreover have "v' = v2" "removed = r1 @ r2" using Cons.prems(1) f u r by auto
  ultimately show ?case using IH n1(1) update_conserves [OF m u w]
    by (simp add: add.assoc del: mset_upt)
qed auto

lemma filter_upt_nth_mem: "i \<in> set (filter P [0..<n]) \<longleftrightarrow> i < n \<and> P i"
  by auto

section \<open>Properties\<close>

text \<open>C5: an update keeps every box and writes into each detection a nonzero id, no two equal, of
  a track of the table that carries exactly this detection and has no miss (as long as the id
  counter does not wrap).\<close>

theorem detections_get_their_tracks:
  assumes "vt_inv v" "unat (vt_next_id v) + length dets < 2 ^ 32"
    "vt_update dets kpts t v = (v', dets', removed)"
  shows "length dets' = length dets \<and> distinct (map d_track_id dets') \<and>
    (\<forall>d < length dets. dets' ! d = (dets ! d)\<lparr>d_track_id := d_track_id (dets' ! d)\<rparr> \<and>
       d_track_id (dets' ! d) \<noteq> 0 \<and>
       (\<exists>tr \<in> set (vt_tracks v'). trk_id tr = d_track_id (dets' ! d) \<and> trk_misses tr = 0 \<and> trk_det tr = dets ! d))"
proof -
  obtain ms used where m: "tk_match (vt_cfg v) t (vt_tracks v) dets = (ms, used)" by force
  note f = tk_match_facts [OF m] and o = update_outcome [OF m assms(3)]
  note inv = inv_match_iff [OF f(1,2)]
  define new where "new = (\<lambda>d. vt_next_id v + of_nat (length (unused_below used d)))"
  define ids where "ids = (\<lambda>d. case inv_match ms d of Some i \<Rightarrow> trk_id (vt_tracks v ! i) | None \<Rightarrow> new d)"
  have dets': "dets' = map (\<lambda>d. (dets ! d)\<lparr>d_track_id := ids d\<rparr>) [0..<length dets]"
    unfolding o(3) ids_def new_def ..
  have old: "inv_match ms d = Some i \<Longrightarrow> i < length (vt_tracks v)" for d i
    using inv f(3) by (force dest: map_of_SomeD)
  have new: "unat (new d) = unat (vt_next_id v) + length (unused_below used d)" if "d < length dets" for d
    using id_plus [OF assms(2), of "length (unused_below used d)"] length_unused [of used d] that
    by (simp add: new_def)
  have un: "inv_match ms d = None \<longleftrightarrow> \<not> used ! d" if "d < length dets" for d
    using that f(6) by (simp add: inv_match_None)
  have lo: "unat (trk_id (vt_tracks v ! i)) < unat (vt_next_id v)" "0 < unat (trk_id (vt_tracks v ! i))"
    if "i < length (vt_tracks v)" for i
    using assms(1) that by (auto simp: vt_inv_iff vt_ids_def)
  have inj_old: "i = j" if "i < length (vt_tracks v)" "j < length (vt_tracks v)"
    "trk_id (vt_tracks v ! i) = trk_id (vt_tracks v ! j)" for i j
    using assms(1) that nth_eq_iff_index_eq [of "map trk_id (vt_tracks v)" i j]
    unfolding vt_inv_def strict_sorted_iff by simp
  have inj: "ids d \<noteq> ids e" if "d < length dets" "e < length dets" "d < e" for d e
  proof (cases "inv_match ms d"; cases "inv_match ms e")
    fix i j assume i: "inv_match ms d = Some i" and j: "inv_match ms e = Some j"
    then have "i \<noteq> j" using inv that(3) by (metis option.inject less_irrefl)
    with i j inj_old old show ?thesis by (auto simp: ids_def)
  next
    fix i assume "inv_match ms d = Some i" "inv_match ms e = None"
    with lo(1) old new [OF that(2)] show ?thesis by (fastforce simp: ids_def)
  next
    fix j assume "inv_match ms d = None" "inv_match ms e = Some j"
    with lo(1) old new [OF that(1)] show ?thesis by (fastforce simp: ids_def)
  next
    assume n: "inv_match ms d = None" "inv_match ms e = None"
    have "length (unused_below used d) < length (unused_below used e)"
      using un that n by (intro unused_below_less) auto
    with n new that have "unat (ids d) \<noteq> unat (ids e)" by (simp add: ids_def)
    then show ?thesis by metis
  qed
  have dist: "distinct (map d_track_id dets')"
    unfolding dets' by (auto simp: distinct_map inj_on_def comp_def) (metis inj linorder_less_linear)
  have nz: "ids d \<noteq> 0" if "d < length dets" for d
    using new [OF that] lo(2) old assms(1)
    by (auto simp: ids_def vt_inv_iff unat_eq_0 [symmetric] split: option.split)
  have ex: "\<exists>tr \<in> set (vt_tracks v'). trk_id tr = ids d \<and> trk_misses tr = 0 \<and> trk_det tr = dets ! d"
    if d: "d < length dets" for d
  proof (cases "inv_match ms d")
    case (Some i)
    then have i: "map_of ms i = Some d" "i < length (vt_tracks v)" using inv old by auto
    let ?tr = "kept_track v dets kpts t (if vt_has_t v then t - vt_last_t v else 0) ms i"
    have "\<not> gone v t ms i" using i by (simp add: gone_def)
    then have "?tr \<in> set (vt_tracks v')" using i(2) unfolding o(1) by auto
    with i Some show ?thesis by (intro bexI [of _ ?tr]) (simp_all add: kept_track_def ids_def)
  next
    case None
    then have "\<not> used ! d" using un d by simp
    have "tk_new kpts t (new d) (dets ! d) \<in> set (vt_tracks v')"
    proof -
      have "[0..<length dets] = [0..<d] @ d # [Suc d..<length dets]"
        using d by (metis le_add1 le_add_same_cancel1 less_imp_add_positive upt_add_eq_append upt_conv_Cons zero_le)
      then obtain rest where "unused_below used (length dets) = unused_below used d @ d # rest"
        using \<open>\<not> used ! d\<close> by (simp add: unused_below_def)
      moreover have "fresh_tracks kpts t i (xs @ y # ys) =
          fresh_tracks kpts t i xs @ tk_new kpts t (i + of_nat (length xs)) y # fresh_tracks kpts t (i + of_nat (length xs) + 1) ys"
        for i xs y ys by (induction kpts t i xs rule: fresh_tracks.induct) (auto simp: algebra_simps)
      ultimately show ?thesis unfolding o(1) by (simp add: new_def)
    qed
    then show ?thesis using None by (intro bexI) (auto simp: tk_new_def ids_def)
  qed
  show ?thesis using dist nz ex by (simp add: dets')
qed

text \<open>C6: over any run the table stays ordered by id, ids are never reused, and every id issued is
  either in the table or was reported removed, exactly once (as long as fewer than 2^32 - 1
  detections have been seen).\<close>

theorem tracker_run_conserves_ids:
  assumes "vt_run frames (new_vb_tracker c) = (v, removed)" "n_dets frames < 2 ^ 32 - 1"
  shows "sorted_wrt (<) (vt_ids v) \<and>
    mset (map unat removed) + mset (vt_ids v) = mset [1..<unat (vt_next_id v)]"
proof -
  have "vt_inv (new_vb_tracker c)" "vt_ids (new_vb_tracker c) = []"
    by (simp_all add: vt_inv_def new_vb_tracker_def vt_ids_def)
  with run_conserves [OF assms(1)] assms(2) show ?thesis
    by (simp add: vt_inv_iff) (simp add: new_vb_tracker_def)
qed

text \<open>With class-aware matching a track never changes its class.\<close>

theorem track_keeps_its_class:
  assumes "vt_inv v" "unat (vt_next_id v) + length dets < 2 ^ 32" "tk_class_aware (vt_cfg v)"
    "vt_update dets kpts t v = (v', dets', removed)"
    "tr \<in> set (vt_tracks v)" "tr' \<in> set (vt_tracks v')" "trk_id tr' = trk_id tr"
  shows "d_class_id (trk_det tr') = d_class_id (trk_det tr)"
proof -
  obtain ms used where m: "tk_match (vt_cfg v) t (vt_tracks v) dets = (ms, used)" by force
  note f = tk_match_facts [OF m] and o = update_outcome [OF m assms(4)]
  have lt: "unat (trk_id tr') < unat (vt_next_id v)"
    using assms(1,5,7) by (simp add: vt_inv_def word_less_nat_alt)
  let ?new = "map ((!) dets) (unused_below used (length dets))"
  have "tr' \<notin> set (fresh_tracks kpts t (vt_next_id v) ?new)"
  proof
    assume "tr' \<in> set (fresh_tracks kpts t (vt_next_id v) ?new)"
    then have "unat (trk_id tr') \<in> set (map (unat \<circ> trk_id) (fresh_tracks kpts t (vt_next_id v) ?new))" by auto
    also have "\<dots> = set [unat (vt_next_id v)..<unat (vt_next_id v) + length ?new]"
      using assms(2) length_unused [of used "length dets"] by (subst fresh_ids) auto
    finally show False using lt by simp
  qed
  then obtain i where i: "i < length (vt_tracks v)"
    "tr' = kept_track v dets kpts t (if vt_has_t v then t - vt_last_t v else 0) ms i"
    using assms(6) unfolding o(1) by auto
  then have "trk_id (vt_tracks v ! i) = trk_id tr" using assms(7) by simp
  then have "vt_tracks v ! i = tr"
    using assms(1,5) i(1) unfolding vt_inv_def strict_sorted_iff
    by (metis distinct_map inj_on_eq_iff nth_mem)
  with i(2) f(7) assms(3) show ?thesis
    by (auto simp: kept_track_def aged_def tk_class_ok_def dest!: map_of_SomeD split: option.splits)
qed

section \<open>Concrete instances\<close>

definition det0 :: detection where
  "det0 = no_detection\<lparr>d_cx := lit (1/2), d_cy := lit (1/2), d_w := lit (1/4), d_h := lit (1/4), d_class_id := 3\<rparr>"

definition tracker0 :: vb_tracker where "tracker0 = new_vb_tracker default_tk_config"

definition after0 :: "vb_tracker \<times> detection list \<times> u32 list" where
  "after0 = vt_update [det0] [] 1 tracker0"

lemma tracker0_inv: "vt_inv tracker0" "unat (vt_next_id tracker0) = 1" "vt_inv (fst after0)"
proof -
  show inv: "vt_inv tracker0" and n: "unat (vt_next_id tracker0) = 1"
    by (simp_all add: vt_inv_def tracker0_def new_vb_tracker_def)
  obtain ms used where m: "tk_match (vt_cfg tracker0) 1 (vt_tracks tracker0) [det0] = (ms, used)" by force
  show "vt_inv (fst after0)"
    using update_inv [OF m _ _ inv, of "[]" "fst after0" "fst (snd after0)" "snd (snd after0)"] n
    by (simp add: after0_def)
qed

theorem detections_get_their_tracks_witness:
  "let ds = fst (snd (vt_update [det0, det0] [] 1 tracker0)) in length ds = 2 \<and> distinct (map d_track_id ds)"
  using detections_get_their_tracks [OF tracker0_inv(1), of "[det0, det0]" "[]" 1
      "fst (vt_update [det0, det0] [] 1 tracker0)" "fst (snd (vt_update [det0, det0] [] 1 tracker0))"
      "snd (snd (vt_update [det0, det0] [] 1 tracker0))"] tracker0_inv(2)
  by (simp add: Let_def)

theorem tracker_run_conserves_ids_witness:
  "sorted_wrt (<) (vt_ids (fst (vt_run [([det0, det0], [], 1), ([], [], lit 2)] tracker0)))"
  using tracker_run_conserves_ids [OF prod.collapse [symmetric], of "[([det0, det0], [], 1), ([], [], lit 2)]" default_tk_config]
  by (simp add: n_dets_def tracker0_def)

theorem track_keeps_its_class_witness:
  "map (d_class_id \<circ> trk_det) (vt_tracks (fst (vt_update [det0\<lparr>d_class_id := 4\<rparr>, det0] [] (lit 2) (fst after0)))) = [3, 4]"
proof -
  let ?u = "vt_update [det0\<lparr>d_class_id := 4\<rparr>, det0] [] (lit 2) (fst after0)"
  have facts: "unat (vt_next_id (fst after0)) = 2" "tk_class_aware (vt_cfg (fst after0))"
    "map (unat \<circ> trk_id) (vt_tracks (fst after0)) = [1]" "map (d_class_id \<circ> trk_det) (vt_tracks (fst after0)) = [3]"
    "map (unat \<circ> trk_id) (vt_tracks (fst ?u)) = [1, 2]" "d_class_id (trk_det (vt_tracks (fst ?u) ! 1)) = 4"
    unfolding after0_def tracker0_def by code_simp+
  obtain tr where tr: "vt_tracks (fst after0) = [tr]" using facts(3) by (cases "vt_tracks (fst after0)") auto
  obtain a b where ab: "vt_tracks (fst ?u) = [a, b]"
    using facts(5) by (cases "vt_tracks (fst ?u)"; cases "tl (vt_tracks (fst ?u))") auto
  have "trk_id a = trk_id tr" using facts(3,5) tr ab by (intro word_unat_eq_iff [THEN iffD2]) simp
  with track_keeps_its_class [OF tracker0_inv(3) _ facts(2), of "[det0\<lparr>d_class_id := 4\<rparr>, det0]" "[]" "lit 2"
      "fst ?u" "fst (snd ?u)" "snd (snd ?u)" tr a] facts(1,4,6) tr ab
  show ?thesis by simp
qed

end
