(* ===== verification/Nms.thy ===== *)
theory Nms
  imports Std_Containers Vb_Types
begin

text \<open>
  \<open>core-cpp/vb/src/post/nms.cpp\<close>: greedy non-maximum suppression with keypoint compaction. The
  comparator of \<open>std::stable_sort\<close> is a strict weak order only when no score is NaN; the facts on
  the order carry that hypothesis.
\<close>

section \<open>Definitions\<close>

definition nms_hit :: "bool \<Rightarrow> f32 \<Rightarrow> detection \<Rightarrow> detection \<Rightarrow> bool" where
  "nms_hit class_aware iou_th keep other \<longleftrightarrow>
     \<not> (class_aware \<and> d_class_id keep \<noteq> d_class_id other) \<and> iou keep other > iou_th"

fun suppress_row :: "(nat \<Rightarrow> nat \<Rightarrow> bool) \<Rightarrow> nat \<Rightarrow> nat list \<Rightarrow> bool list \<Rightarrow> bool list" where
  "suppress_row hit oi [] suppressed = suppressed"
| "suppress_row hit oi (oj # rest) suppressed =
    (if oj = oi \<or> suppressed ! oj then suppress_row hit oi rest suppressed
     else suppress_row hit oi rest (if hit oi oj then suppressed[oj := True] else suppressed))"

definition keep_one :: "keypoint list \<Rightarrow> detection \<Rightarrow> detection list \<times> keypoint list \<Rightarrow> detection list \<times> keypoint list" where
  "keep_one kpts keep s =
    (case s of (kept_dets, kept_kpts) \<Rightarrow>
       if kpt_slice_ok kpts (d_kpt_offset keep) (d_kpt_count keep) then
         (kept_dets @ [keep\<lparr>d_kpt_offset := of_nat (length kept_kpts)\<rparr>],
          kept_kpts @ kpt_slice kpts (d_kpt_offset keep) (d_kpt_count keep))
       else (kept_dets @ [keep\<lparr>d_kpt_count := 0, d_kpt_offset := 0\<rparr>], kept_kpts))"

fun nms_loop :: "(nat \<Rightarrow> nat \<Rightarrow> bool) \<Rightarrow> detection list \<Rightarrow> keypoint list \<Rightarrow> nat list \<Rightarrow> nat list \<Rightarrow> bool list \<Rightarrow>
    detection list \<times> keypoint list \<Rightarrow> detection list \<times> keypoint list" where
  "nms_loop hit dets kpts order [] suppressed s = s"
| "nms_loop hit dets kpts order (oi # rest) suppressed s =
    (if suppressed ! oi then nms_loop hit dets kpts order rest suppressed s
     else nms_loop hit dets kpts order rest (suppress_row hit oi order suppressed)
            (keep_one kpts (dets ! oi) s))"

definition nms_order :: "detection list \<Rightarrow> nat list" where
  "nms_order dets = stable_sort (\<lambda>a b. d_score (dets ! a) > d_score (dets ! b)) [0..<length dets]"

definition nms :: "detection list \<Rightarrow> keypoint list \<Rightarrow> f32 \<Rightarrow> bool \<Rightarrow> detection list \<times> keypoint list" where
  "nms dets kpts iou_th class_aware =
    (let order = nms_order dets
     in nms_loop (\<lambda>i j. nms_hit class_aware iou_th (dets ! i) (dets ! j)) dets kpts order order
          (replicate (length dets) False) ([], []))"

section \<open>The kept indices\<close>

fun nms_indices :: "(nat \<Rightarrow> nat \<Rightarrow> bool) \<Rightarrow> nat list \<Rightarrow> nat list \<Rightarrow> bool list \<Rightarrow> nat list" where
  "nms_indices hit order [] suppressed = []"
| "nms_indices hit order (oi # rest) suppressed =
    (if suppressed ! oi then nms_indices hit order rest suppressed
     else oi # nms_indices hit order rest (suppress_row hit oi order suppressed))"

lemma nms_loop_indices:
  "nms_loop hit dets kpts order todo sp s =
     fold (\<lambda>i. keep_one kpts (dets ! i)) (nms_indices hit order todo sp) s"
  by (induction hit dets kpts order todo sp s rule: nms_loop.induct) auto

lemma suppress_row_length [simp]: "length (suppress_row hit oi order sp) = length sp"
  by (induction hit oi order sp rule: suppress_row.induct) auto

lemma suppress_row_nth:
  assumes "\<forall>k \<in> set order. k < length sp"
  shows "suppress_row hit oi order sp ! j \<longleftrightarrow> sp ! j \<or> (j \<in> set order \<and> j \<noteq> oi \<and> hit oi j)"
  using assms
  by (induction hit oi order sp rule: suppress_row.induct) (auto simp: nth_list_update)

text \<open>What is kept has no hit on a later kept one; what is dropped was hit by a kept earlier one.\<close>

lemma nms_indices_facts:
  fixes hit :: "nat \<Rightarrow> nat \<Rightarrow> bool" and R :: "nat \<Rightarrow> nat \<Rightarrow> bool"
  assumes "distinct todo" "set todo \<subseteq> set order" "\<forall>k \<in> set order. k < length sp"
  defines "K \<equiv> nms_indices hit order todo sp"
  shows "set K \<subseteq> set todo" "distinct K" "\<forall>j \<in> set K. \<not> sp ! j"
    "sorted_wrt (\<lambda>i j. \<not> hit i j) K" "sorted_wrt R todo \<Longrightarrow> sorted_wrt R K"
    "sorted_wrt R todo \<Longrightarrow> j \<in> set todo \<Longrightarrow> j \<notin> set K \<Longrightarrow> sp ! j \<or> (\<exists>i \<in> set K. hit i j \<and> R i j)"
proof -
  have "set K \<subseteq> set todo \<and> distinct K \<and> (\<forall>j \<in> set K. \<not> sp ! j) \<and> sorted_wrt (\<lambda>i j. \<not> hit i j) K \<and>
    (sorted_wrt R todo \<longrightarrow> sorted_wrt R K \<and>
      (\<forall>j \<in> set todo. j \<notin> set K \<longrightarrow> sp ! j \<or> (\<exists>i \<in> set K. hit i j \<and> R i j)))"
    unfolding K_def using assms(1-3)
  proof (induction hit order todo sp rule: nms_indices.induct)
    case (2 hit order oi rest sp)
    show ?case
    proof (cases "sp ! oi")
      case True
      with 2 show ?thesis by auto
    next
      case False
      let ?sp = "suppress_row hit oi order sp"
      let ?K = "nms_indices hit order rest ?sp"
      have nth: "?sp ! j \<longleftrightarrow> sp ! j \<or> (j \<in> set order \<and> j \<noteq> oi \<and> hit oi j)" for j
        by (rule suppress_row_nth [OF 2(5)])
      have IH: "set ?K \<subseteq> set rest" "distinct ?K" "\<forall>j \<in> set ?K. \<not> ?sp ! j" "sorted_wrt (\<lambda>i j. \<not> hit i j) ?K"
        "sorted_wrt R rest \<Longrightarrow> sorted_wrt R ?K"
        "sorted_wrt R rest \<Longrightarrow> \<forall>j \<in> set rest. j \<notin> set ?K \<longrightarrow> ?sp ! j \<or> (\<exists>i \<in> set ?K. hit i j \<and> R i j)"
        using 2(2) [OF False] 2(3-5) by auto
      have "\<forall>j \<in> set ?K. \<not> hit oi j" using IH(1,3) nth 2(3,4) by fastforce
      with IH nth False 2(3,4) show ?thesis by (auto simp: subset_eq)
    qed
  qed simp
  then show "set K \<subseteq> set todo" "distinct K" "\<forall>j \<in> set K. \<not> sp ! j"
    "sorted_wrt (\<lambda>i j. \<not> hit i j) K" "sorted_wrt R todo \<Longrightarrow> sorted_wrt R K"
    "sorted_wrt R todo \<Longrightarrow> j \<in> set todo \<Longrightarrow> j \<notin> set K \<Longrightarrow> sp ! j \<or> (\<exists>i \<in> set K. hit i j \<and> R i j)"
    by blast+
qed

definition nms_kept :: "detection list \<Rightarrow> f32 \<Rightarrow> bool \<Rightarrow> nat list" where
  "nms_kept dets iou_th class_aware =
    nms_indices (\<lambda>i j. nms_hit class_aware iou_th (dets ! i) (dets ! j)) (nms_order dets) (nms_order dets)
      (replicate (length dets) False)"

lemma nms_order: "distinct (nms_order dets)" "set (nms_order dets) = {..<length dets}"
proof -
  have m: "mset (nms_order dets) = mset [0..<length dets]" by (simp add: nms_order_def)
  show "distinct (nms_order dets)" unfolding mset_eq_imp_distinct_iff [OF m] by simp
  show "set (nms_order dets) = {..<length dets}" unfolding mset_eq_setD [OF m] by (simp add: atLeast0LessThan)
qed


definition same_box :: "detection \<Rightarrow> detection \<Rightarrow> bool" where
  "same_box a b \<longleftrightarrow> a\<lparr>d_kpt_offset := 0, d_kpt_count := 0\<rparr> = b\<lparr>d_kpt_offset := 0, d_kpt_count := 0\<rparr>"

text \<open>What the keypoint compaction does to the kept detections.\<close>

definition compacted :: "keypoint list \<Rightarrow> keypoint list \<Rightarrow> detection \<Rightarrow> detection \<Rightarrow> bool" where
  "compacted kpts ks old new \<longleftrightarrow> same_box old new \<and>
     (if kpt_slice_ok kpts (d_kpt_offset old) (d_kpt_count old)
      then d_kpt_count new = d_kpt_count old \<and> unat (d_kpt_offset new) + unat (d_kpt_count new) \<le> length ks \<and>
        kpt_slice ks (d_kpt_offset new) (d_kpt_count new) = kpt_slice kpts (d_kpt_offset old) (d_kpt_count old)
      else d_kpt_count new = 0)"

lemma kpt_slice_extend: "unat off + unat cnt \<le> length ks \<Longrightarrow> kpt_slice (ks @ xs) off cnt = kpt_slice ks off cnt"
  by (simp add: kpt_slice_def)

lemma compacted_extend: "compacted kpts ks old new \<Longrightarrow> compacted kpts (ks @ xs) old new"
  by (auto simp: compacted_def kpt_slice_extend split: if_splits)

definition slices_in_range :: "keypoint list \<Rightarrow> detection \<Rightarrow> bool" where
  "slices_in_range kpts d \<longleftrightarrow> unat (d_kpt_offset d) + unat (d_kpt_count d) < 2 ^ 32"

lemma slice_in_range: "slices_in_range kpts d \<Longrightarrow> kpt_slice_ok kpts (d_kpt_offset d) (d_kpt_count d) \<Longrightarrow>
    unat (d_kpt_offset d) + unat (d_kpt_count d) \<le> length kpts"
  by (simp add: slices_in_range_def kpt_slice_ok_def unat_word_ariths)

lemma keep_fold:
  assumes "\<forall>i \<in> set is. slices_in_range kpts (dets ! i)"
    "fold (\<lambda>i. keep_one kpts (dets ! i)) is ([], []) = (ds, ks)" "length ks < 2 ^ 32"
  shows "list_all2 (compacted kpts ks) (map ((!) dets) is) ds"
  using assms
proof (induction "is" arbitrary: ds ks rule: rev_induct)
  case (snoc i "is")
  obtain ds0 ks0 where f: "fold (\<lambda>i. keep_one kpts (dets ! i)) is ([], []) = (ds0, ks0)" by force
  let ?d = "dets ! i"
  have step: "keep_one kpts ?d (ds0, ks0) = (ds, ks)" using snoc.prems(2) f by simp
  show ?case
  proof (cases "kpt_slice_ok kpts (d_kpt_offset ?d) (d_kpt_count ?d)")
    case ok: True
    let ?sl = "kpt_slice kpts (d_kpt_offset ?d) (d_kpt_count ?d)"
    let ?new = "?d\<lparr>d_kpt_offset := of_nat (length ks0)\<rparr>"
    have new: "ds = ds0 @ [?new]" "ks = ks0 @ ?sl" using step ok by (auto simp: keep_one_def)
    have len: "length ?sl = unat (d_kpt_count ?d)"
      using snoc.prems(1) ok slice_in_range [of kpts ?d] by (simp add: kpt_slice_def)
    have l0: "length ks0 < 2 ^ 32" using snoc.prems(3) new(2) by simp
    have off: "unat (of_nat (length ks0) :: u32) = length ks0" using l0 by (simp add: unat_of_nat)
    have "compacted kpts ks ?d ?new"
      using ok off len by (simp add: compacted_def same_box_def kpt_slice_def new(2) del: unat_of_nat)
    moreover have "list_all2 (compacted kpts ks) (map ((!) dets) is) ds0"
      using snoc.IH [OF _ f l0] snoc.prems(1) unfolding new(2)
      by (auto elim!: list_all2_mono compacted_extend)
    ultimately show ?thesis unfolding new(1) by (simp add: list_all2_appendI)
  next
    case False
    then have new: "ds = ds0 @ [?d\<lparr>d_kpt_count := 0, d_kpt_offset := 0\<rparr>]" "ks = ks0"
      using step by (auto simp: keep_one_def)
    have "list_all2 (compacted kpts ks) (map ((!) dets) is) ds0"
      using snoc.IH [OF _ f] snoc.prems(1,3) new(2) by simp
    moreover have "compacted kpts ks ?d (?d\<lparr>d_kpt_count := 0, d_kpt_offset := 0\<rparr>)"
      using False by (simp add: compacted_def same_box_def)
    ultimately show ?thesis unfolding new(1) by (simp add: list_all2_appendI)
  qed
qed simp

lemma nms_eq:
  "nms dets kpts th ca = fold (\<lambda>i. keep_one kpts (dets ! i)) (nms_kept dets th ca) ([], [])"
  by (simp add: nms_def nms_kept_def Let_def nms_loop_indices)


lemma nms_kept_facts:
  "set (nms_kept dets th ca) \<subseteq> {..<length dets}" "distinct (nms_kept dets th ca)"
  "sorted_wrt (\<lambda>i j. \<not> nms_hit ca th (dets ! i) (dets ! j)) (nms_kept dets th ca)"
  "sorted_wrt R (nms_order dets) \<Longrightarrow> sorted_wrt R (nms_kept dets th ca)"
  "sorted_wrt R (nms_order dets) \<Longrightarrow> j < length dets \<Longrightarrow> j \<notin> set (nms_kept dets th ca) \<Longrightarrow>
     \<exists>i \<in> set (nms_kept dets th ca). nms_hit ca th (dets ! i) (dets ! j) \<and> R i j"
  using nms_indices_facts(1-4) [OF nms_order(1) [of dets] order_refl, where sp = "replicate (length dets) False" and
      hit = "\<lambda>i j. nms_hit ca th (dets ! i) (dets ! j)"]
    nms_indices_facts(5,6) [OF nms_order(1) [of dets] order_refl, where sp = "replicate (length dets) False" and
      hit = "\<lambda>i j. nms_hit ca th (dets ! i) (dets ! j)" and R = R] nms_order(2) [of dets]
  by (auto simp: nms_kept_def)

lemma compacted_counts:
  "list_all2 (compacted kpts ks) olds news \<Longrightarrow> map d_kpt_count news =
    map (\<lambda>d. if kpt_slice_ok kpts (d_kpt_offset d) (d_kpt_count d) then d_kpt_count d else 0) olds"
  by (induction olds news rule: list_all2_induct) (auto simp: compacted_def)











section \<open>Properties\<close>


text \<open>The output detections are the kept ones in order, with unchanged boxes, and the keypoints
  of each are those it had: its slice of the compacted vector equals its slice of the input
  (as long as no slice sum and no keypoint count wraps 32 bits).\<close>

theorem nms_compacts_keypoints:
  assumes "\<forall>d \<in> set dets. slices_in_range kpts d" "nms dets kpts th ca = (ds, ks)" "length ks < 2 ^ 32"
  shows "list_all2 (compacted kpts ks) (map ((!) dets) (nms_kept dets th ca)) ds"
  using assms nms_kept_facts(1) [where dets = dets and th = th and ca = ca]
  by (intro keep_fold) (auto simp: nms_eq)

section \<open>Concrete instances\<close>

definition nms_dets :: "detection list" where
  "nms_dets = [no_detection\<lparr>d_w := 1, d_h := 1, d_score := lit (1/4), d_kpt_count := 1\<rparr>,
     no_detection\<lparr>d_w := 1, d_h := 1, d_score := lit (1/2), d_kpt_offset := 1, d_kpt_count := 1\<rparr>,
     no_detection\<lparr>d_cx := lit 4, d_w := 1, d_h := 1, d_score := lit (1/8), d_kpt_offset := 5, d_kpt_count := 1\<rparr>]"

definition nms_kpts :: "keypoint list" where
  "nms_kpts = [\<lparr>kp_x = 0, kp_y = 0, kp_conf = 0\<rparr>, \<lparr>kp_x = 1, kp_y = 1, kp_conf = 1\<rparr>]"

lemma nms_dets_kept: "nms_kept nms_dets (lit (1/2)) True = [1, 2]"
  by code_simp


theorem nms_compacts_keypoints_witness:
  "map d_kpt_count (fst (nms nms_dets nms_kpts (lit (1/2)) True)) = [1, 0]"
proof -
  let ?r = "nms nms_dets nms_kpts (lit (1/2)) True"
  have s: "\<forall>d \<in> set nms_dets. slices_in_range nms_kpts d"
    by (simp add: nms_dets_def no_detection_def slices_in_range_def)
  have "length (snd ?r) = 1" by code_simp
  then have l: "length (snd ?r) < 2 ^ 32" by simp
  have "map (\<lambda>d. if kpt_slice_ok nms_kpts (d_kpt_offset d) (d_kpt_count d) then d_kpt_count d else 0)
      (map ((!) nms_dets) [1, 2]) = [1, 0]" by code_simp
  with compacted_counts [OF nms_compacts_keypoints [OF s prod.collapse [symmetric] l]] nms_dets_kept
  show ?thesis by simp
qed

end
