(* ===== verification/Wire.thy ===== *)
theory Wire
  imports Text_Format
begin

text \<open>
  \<open>core-cpp/vb/include/vb/wire.h\<close> and \<open>core-cpp/vb/src/wire.cpp\<close>: the binary records of the
  process boundary. Bytes are \<open>u8\<close>; a float or double is kept as the bit pattern \<open>memcpy\<close> reads,
  an \<open>int32_t\<close> as its 32-bit word. The readers at the end are what a consumer of the format in
  the header comment does; they serve to state that the encoding is faithful.
\<close>

section \<open>Records\<close>

record wire_det =
  wd_cx :: u32
  wd_cy :: u32
  wd_w :: u32
  wd_h :: u32
  wd_score :: u32
  wd_class_id :: u32
  wd_track_id :: u32

record wire_frame_rec =
  wf_stream_index :: u32
  wf_seq :: u64
  wf_wall_ms :: u64
  wf_src_w :: u32
  wf_src_h :: u32
  wf_model_w :: u32
  wf_model_h :: u32
  wf_scale :: u32
  wf_pad_x :: u32
  wf_pad_y :: u32
  wf_align :: u8
  wf_kpt_per_det :: u8
  wf_inference_ms :: u32
  wf_queue_delay_ms :: u32
  wf_attr_per_det :: u8
  wf_dets :: "wire_det list"
  wf_kpts :: "u32 list"
  wf_attrs :: "u32 list"

section \<open>Little-endian output\<close>

definition put_u16 :: "u16 \<Rightarrow> u8 list" where
  "put_u16 v = [ucast (and v 0xff), ucast (and (drop_bit 8 v) 0xff)]"

definition put_u32 :: "u32 \<Rightarrow> u8 list" where
  "put_u32 v = map (\<lambda>i. ucast (and (drop_bit (8 * i) v) 0xff)) [0..<4]"

definition put_u64 :: "u64 \<Rightarrow> u8 list" where
  "put_u64 v = map (\<lambda>i. ucast (and (drop_bit (8 * i) v) 0xff)) [0..<8]"

definition ascii :: "string \<Rightarrow> u8 list" where
  "ascii s = map (\<lambda>c. of_nat (of_char c)) s"

definition put_header :: "string \<Rightarrow> u32 \<Rightarrow> u8 list" where
  "put_header magic body_len = ascii magic @ put_u32 body_len"

section \<open>Encoders\<close>

definition vbr1_validate :: "wire_frame_rec \<Rightarrow> string + unit" where
  "vbr1_validate r =
    (let n_det = length (wf_dets r) in
     if n_det > 0xFFFF then Inl (''VBR1 too many detections: '' @ dec_digits n_det)
     else
       let kpts = n_det * unat (wf_kpt_per_det r) * 3 in
       if length (wf_kpts r) \<noteq> kpts then
         Inl (''VBR1 keypoint count '' @ dec_digits (length (wf_kpts r)) @ '' does not match n_det '' @
           dec_digits n_det @ '' * kpt_per_det '' @ dec_digits (unat (wf_kpt_per_det r)) @ '' * 3 ('' @
           dec_digits kpts @ '')'')
       else
         let attrs = n_det * unat (wf_attr_per_det r) in
         if length (wf_attrs r) \<noteq> attrs then
           Inl (''VBR1 attribute count '' @ dec_digits (length (wf_attrs r)) @ '' does not match n_det '' @
             dec_digits n_det @ '' * attr_per_det '' @ dec_digits (unat (wf_attr_per_det r)) @ '' ('' @
             dec_digits attrs @ '')'')
         else Inr ())"

definition put_det :: "wire_det \<Rightarrow> u8 list" where
  "put_det d = put_u32 (wd_cx d) @ put_u32 (wd_cy d) @ put_u32 (wd_w d) @ put_u32 (wd_h d) @
     put_u32 (wd_score d) @ put_u32 (wd_class_id d) @ put_u32 (wd_track_id d)"

definition vbr1_body_len :: "wire_frame_rec \<Rightarrow> nat" where
  "vbr1_body_len r =
    (let n_det = length (wf_dets r)
     in 64 + n_det * 28 + n_det * unat (wf_kpt_per_det r) * 3 * 4 + n_det * unat (wf_attr_per_det r) * 4)"

definition vbr1_head :: "wire_frame_rec \<Rightarrow> u8 list" where
  "vbr1_head r =
     put_u32 (wf_stream_index r) @ put_u64 (wf_seq r) @ put_u64 (wf_wall_ms r) @
     put_u32 (wf_src_w r) @ put_u32 (wf_src_h r) @ put_u32 (wf_model_w r) @ put_u32 (wf_model_h r) @
     put_u32 (wf_scale r) @ put_u32 (wf_pad_x r) @ put_u32 (wf_pad_y r) @
     [wf_align r, wf_kpt_per_det r] @ put_u16 (of_nat (length (wf_dets r))) @
     put_u32 (wf_inference_ms r) @ put_u32 (wf_queue_delay_ms r) @
     [wf_attr_per_det r, 0] @ put_u16 0"

definition vbr1_body :: "wire_frame_rec \<Rightarrow> u8 list" where
  "vbr1_body r =
     vbr1_head r @
     concat (map put_det (wf_dets r)) @ concat (map put_u32 (wf_kpts r)) @ concat (map put_u32 (wf_attrs r))"

text \<open>The result is the new content of \<open>out\<close> and the error text; \<open>false\<close> is the error case.\<close>

definition wire_encode_vbr1 :: "wire_frame_rec \<Rightarrow> u8 list \<Rightarrow> string + u8 list" where
  "wire_encode_vbr1 r out =
    (case vbr1_validate r of
       Inl why \<Rightarrow> Inl why
     | Inr _ \<Rightarrow> Inr (out @ put_header ''VBR1'' (of_nat (vbr1_body_len r)) @ vbr1_body r))"

definition wire_encode_json_record :: "string \<Rightarrow> u8 list \<Rightarrow> u8 list \<Rightarrow> u8 list" where
  "wire_encode_json_record magic json_body out =
     out @ put_header magic (of_nat (length json_body)) @ json_body"

definition wire_encode_vbs1 :: "u8 list \<Rightarrow> u8 list \<Rightarrow> u8 list \<Rightarrow> u8 list" where
  "wire_encode_vbs1 meta_json payload out =
     out @ put_header ''VBS1'' (of_nat (4 + length meta_json + length payload)) @
     put_u32 (of_nat (length meta_json)) @ meta_json @ payload"

section \<open>Reading\<close>

definition get_le :: "u8 list \<Rightarrow> nat" where
  "get_le bs = foldr (\<lambda>b a. unat b + 256 * a) bs 0"

lemma put_lengths [simp]: "length (put_u16 a) = 2" "length (put_u32 b) = 4" "length (put_u64 c) = 8"
  by (simp_all add: put_u16_def put_u32_def put_u64_def)

lemma byte_value:
  "unat (ucast (and (drop_bit (8 * i) v) 0xff) :: u8) = unat (v :: 'a::len word) div 256 ^ i mod 256"
proof -
  have "and w 0xff = take_bit 8 w" for w :: "'a word"
    by (simp add: take_bit_eq_mask mask_eq_exp_minus_1)
  then have "unat (ucast (and w 0xff) :: u8) = take_bit 8 (unat w)" for w :: "'a word"
    by (simp add: unsigned_ucast_eq unsigned_take_bit_eq)
  then have "unat (ucast (and (drop_bit (8 * i) v) 0xff) :: u8) = take_bit 8 (drop_bit (8 * i) (unat v))"
    by (simp only: unat_drop_bit_eq)
  then show ?thesis by (simp only: drop_bit_eq_div take_bit_eq_mod power_mult) simp
qed

lemma get_le_bytes:
  "get_le (map (\<lambda>i. ucast (and (drop_bit (8 * i) v) 0xff)) [k..<k + n]) = unat (v :: 'a::len word) div 256 ^ k mod 256 ^ n"
proof (induction n arbitrary: k)
  case (Suc n)
  have "[k..<k + Suc n] = k # [Suc k..<Suc k + n]" by (simp add: upt_conv_Cons)
  moreover have "x mod 256 + 256 * (x div 256 mod 256 ^ n) = x mod 256 ^ Suc n" for x :: nat
    by (simp add: mod_mult2_eq mult.commute)
  moreover have "unat v div 256 ^ Suc k = unat v div 256 ^ k div 256"
    by (simp only: power_Suc2 div_mult2_eq)
  ultimately show ?case using Suc [of "Suc k"] by (simp add: get_le_def byte_value)
qed (simp add: get_le_def)

lemma get_put [simp]:
  "get_le (put_u16 a) = unat a" "get_le (put_u32 b) = unat b" "get_le (put_u64 c) = unat c"
proof -
  have "put_u16 a = map (\<lambda>i. ucast (and (drop_bit (8 * i) a) 0xff)) [0..<0 + 2]"
    by (simp add: put_u16_def upt_rec numeral_2_eq_2)
  then show "get_le (put_u16 a) = unat a"
    using unsigned_less [where ?'a = nat, of a] by (simp only: get_le_bytes) simp
  show "get_le (put_u32 b) = unat b"
    using get_le_bytes [of b 0 4] unsigned_less [where ?'a = nat, of b] by (simp add: put_u32_def)
  show "get_le (put_u64 c) = unat c"
    using get_le_bytes [of c 0 8] unsigned_less [where ?'a = nat, of c] by (simp add: put_u64_def)
qed

text \<open>One record off a stream: magic, body, and what follows.\<close>

definition read_record :: "u8 list \<Rightarrow> (u8 list \<times> u8 list \<times> u8 list) option" where
  "read_record bs =
    (if length bs < 8 then None
     else let n = get_le (take 4 (drop 4 bs)); rest = drop 8 bs
       in if length rest < n then None else Some (take 4 bs, take n rest, drop n rest))"

lemma read_record_put:
  assumes "length magic = 4" "length body < 2 ^ 32"
  shows "read_record (put_header magic (of_nat (length body)) @ body @ rest) = Some (ascii magic, body, rest)"
proof -
  have "unat (of_nat (length body) :: u32) = length body" using assms(2) by (simp add: unat_of_nat)
  then show ?thesis using assms(1) by (simp add: read_record_def put_header_def ascii_def Let_def)
qed

text \<open>The fields of a frame body.\<close>

definition get_det :: "u8 list \<Rightarrow> wire_det" where
  "get_det bs =
    (let f = (\<lambda>i. of_nat (get_le (take 4 (drop (4 * i) bs))))
     in \<lparr>wd_cx = f 0, wd_cy = f 1, wd_w = f 2, wd_h = f 3, wd_score = f 4, wd_class_id = f 5, wd_track_id = f 6\<rparr>)"

fun chunks :: "nat \<Rightarrow> nat \<Rightarrow> u8 list \<Rightarrow> u8 list list" where
  "chunks k 0 bs = []"
| "chunks k (Suc n) bs = take k bs # chunks k n (drop k bs)"

definition read_frame :: "u8 list \<Rightarrow> wire_frame_rec" where
  "read_frame bs =
    (let w = (\<lambda>i. of_nat (get_le (take 4 (drop i bs))) :: u32);
         d = (\<lambda>i. of_nat (get_le (take 8 (drop i bs))) :: u64);
         n = get_le (take 2 (drop 50 bs)); k = n * unat (bs ! 49) * 3; a = n * unat (bs ! 60);
         words = map (\<lambda>c. of_nat (get_le c))
     in \<lparr>wf_stream_index = w 0, wf_seq = d 4, wf_wall_ms = d 12, wf_src_w = w 20, wf_src_h = w 24,
         wf_model_w = w 28, wf_model_h = w 32, wf_scale = w 36, wf_pad_x = w 40, wf_pad_y = w 44,
         wf_align = bs ! 48, wf_kpt_per_det = bs ! 49, wf_inference_ms = w 52, wf_queue_delay_ms = w 56,
         wf_attr_per_det = bs ! 60, wf_dets = map get_det (chunks 28 n (drop 64 bs)),
         wf_kpts = words (chunks 4 k (drop (64 + 28 * n) bs)),
         wf_attrs = words (chunks 4 a (drop (64 + 28 * n + 4 * k) bs))\<rparr>)"

lemma put_det_length [simp]: "length (put_det d) = 28"
  by (simp add: put_det_def)

lemma get_put_det [simp]: "get_det (put_det d) = d"
  by (simp add: get_det_def put_det_def Let_def drop_append)

lemma length_concat_put:
  "(\<And>x. length (f x) = k) \<Longrightarrow> length (concat (map f xs)) = k * length xs"
  by (induction xs) simp_all

lemmas length_concat_puts [simp] = length_concat_put [OF put_det_length] length_concat_put [OF put_lengths(2)]

lemma chunks_put: "(\<And>x. length (f x) = k) \<Longrightarrow> chunks k (length xs) (concat (map f xs) @ rest) = map f xs"
  by (induction xs) simp_all

lemmas chunks_puts = chunks_put [OF put_det_length] chunks_put [OF put_lengths(2)]
  chunks_put [OF put_lengths(2), where rest = "[]", simplified]

definition vbr1_ok :: "wire_frame_rec \<Rightarrow> bool" where
  "vbr1_ok r \<longleftrightarrow> length (wf_dets r) \<le> 65535 \<and>
     length (wf_kpts r) = length (wf_dets r) * unat (wf_kpt_per_det r) * 3 \<and>
     length (wf_attrs r) = length (wf_dets r) * unat (wf_attr_per_det r)"

lemma vbr1_validate_ok: "(vbr1_validate r = Inr ()) = vbr1_ok r"
  by (auto simp: vbr1_validate_def vbr1_ok_def Let_def)

lemma vbr1_head_length [simp]: "length (vbr1_head r) = 64"
  by (simp add: vbr1_head_def)

lemma vbr1_body_length: "vbr1_ok r \<Longrightarrow> length (vbr1_body r) = vbr1_body_len r"
  by (simp add: vbr1_ok_def vbr1_body_def vbr1_body_len_def Let_def)

lemma vbr1_body_bound: "vbr1_ok r \<Longrightarrow> vbr1_body_len r < 4294967296"
proof -
  assume ok: "vbr1_ok r"
  let ?n = "length (wf_dets r)"
  have k: "unat (wf_kpt_per_det r) \<le> 255" "unat (wf_attr_per_det r) \<le> 255"
    using unsigned_less [where ?'a = nat, of "wf_kpt_per_det r"]
      unsigned_less [where ?'a = nat, of "wf_attr_per_det r"] by simp_all
  have n: "?n \<le> 65535" using ok by (simp add: vbr1_ok_def)
  have "?n * unat (wf_kpt_per_det r) \<le> 65535 * 255" "?n * unat (wf_attr_per_det r) \<le> 65535 * 255"
    using mult_le_mono [OF n k(1)] mult_le_mono [OF n k(2)] by simp_all
  with n show ?thesis by (simp add: vbr1_body_len_def Let_def)
qed

text \<open>The fixed fields lie in the head, whatever follows it.\<close>

lemma vbr1_head_fields:
  assumes "vbr1_ok r"
  defines "bs \<equiv> \<lambda>X. vbr1_head r @ X"
  shows "get_le (take 2 (drop 50 (bs X))) = length (wf_dets r)"
    "bs X ! 48 = wf_align r" "bs X ! 49 = wf_kpt_per_det r" "bs X ! 60 = wf_attr_per_det r"
    "take 4 (bs X) = put_u32 (wf_stream_index r)" "take 8 (drop 4 (bs X)) = put_u64 (wf_seq r)"
    "take 8 (drop 12 (bs X)) = put_u64 (wf_wall_ms r)" "take 4 (drop 20 (bs X)) = put_u32 (wf_src_w r)"
    "take 4 (drop 24 (bs X)) = put_u32 (wf_src_h r)" "take 4 (drop 28 (bs X)) = put_u32 (wf_model_w r)"
    "take 4 (drop 32 (bs X)) = put_u32 (wf_model_h r)" "take 4 (drop 36 (bs X)) = put_u32 (wf_scale r)"
    "take 4 (drop 40 (bs X)) = put_u32 (wf_pad_x r)" "take 4 (drop 44 (bs X)) = put_u32 (wf_pad_y r)"
    "take 4 (drop 52 (bs X)) = put_u32 (wf_inference_ms r)"
    "take 4 (drop 56 (bs X)) = put_u32 (wf_queue_delay_ms r)"
proof -
  have "unat (of_nat (length (wf_dets r)) :: u16) = length (wf_dets r)"
    using assms by (simp add: vbr1_ok_def unat_of_nat)
  then show "get_le (take 2 (drop 50 (bs X))) = length (wf_dets r)"
    by (simp add: bs_def vbr1_head_def drop_append)
qed (simp_all add: bs_def vbr1_head_def drop_append nth_append)

lemma read_frame_body:
  assumes ok: "vbr1_ok r" shows "read_frame (vbr1_body r) = r"
proof -
  define D K A where "D = concat (map put_det (wf_dets r))" and "K = concat (map put_u32 (wf_kpts r))"
    and "A = concat (map put_u32 (wf_attrs r))"
  have counts: "length (wf_kpts r) = length (wf_dets r) * unat (wf_kpt_per_det r) * 3"
    "length (wf_attrs r) = length (wf_dets r) * unat (wf_attr_per_det r)"
    using ok by (simp_all add: vbr1_ok_def)
  have d: "drop 64 (vbr1_head r @ D @ K @ A) = D @ K @ A"
    "drop (64 + 28 * length (wf_dets r)) (vbr1_head r @ D @ K @ A) = K @ A"
    "drop (64 + 28 * length (wf_dets r) + 4 * length (wf_kpts r)) (vbr1_head r @ D @ K @ A) = A"
    by (simp_all add: D_def K_def)
  have c: "chunks 28 (length (wf_dets r)) (D @ K @ A) = map put_det (wf_dets r)"
    "chunks 4 (length (wf_kpts r)) (K @ A) = map put_u32 (wf_kpts r)"
    "chunks 4 (length (wf_attrs r)) A = map put_u32 (wf_attrs r)"
    unfolding D_def K_def A_def by (rule chunks_puts)+
  have b: "vbr1_body r = vbr1_head r @ D @ K @ A" by (simp add: vbr1_body_def D_def K_def A_def)
  show ?thesis
    unfolding b read_frame_def Let_def vbr1_head_fields [OF ok] counts [symmetric] drop_0 get_put
    by (simp only: d c) (simp add: comp_def)
qed

section \<open>Properties\<close>

text \<open>The frame encoder accepts exactly the records whose counts agree with the header fields;
  then the declared body length is the number of bytes written and fits 32 bits, and otherwise
  nothing is written.\<close>

theorem vbr1_length_is_declared:
  "(case wire_encode_vbr1 r out of
      Inl why \<Rightarrow> \<not> vbr1_ok r \<and> why \<noteq> []
    | Inr bs \<Rightarrow> vbr1_ok r \<and> vbr1_body_len r < 2 ^ 32 \<and>
        bs = out @ put_header ''VBR1'' (of_nat (vbr1_body_len r)) @ vbr1_body r \<and>
        length bs = length out + 8 + vbr1_body_len r)"
proof (cases "vbr1_ok r")
  case True
  then have "vbr1_validate r = Inr ()" by (simp add: vbr1_validate_ok)
  with True show ?thesis
    by (simp add: wire_encode_vbr1_def vbr1_body_bound vbr1_body_length put_header_def ascii_def)
next
  case False
  then have "vbr1_validate r \<noteq> Inr ()" by (simp add: vbr1_validate_ok)
  then obtain why where "vbr1_validate r = Inl why" by (cases "vbr1_validate r") auto
  moreover from this have "why \<noteq> []" by (auto simp: vbr1_validate_def Let_def split: if_splits)
  ultimately show ?thesis using False by (simp add: wire_encode_vbr1_def)
qed

text \<open>C8: a reader of the stream gets back exactly the frame that was encoded, and the rest of the
  stream from the byte after it, whatever follows.\<close>

theorem vbr1_roundtrip:
  assumes "vbr1_ok r"
  shows "\<exists>bs body. wire_encode_vbr1 r [] = Inr bs \<and>
    read_record (bs @ rest) = Some (ascii ''VBR1'', body, rest) \<and> read_frame body = r"
proof (intro exI conjI)
  have v: "vbr1_validate r = Inr ()" using assms by (simp add: vbr1_validate_ok)
  show "wire_encode_vbr1 r [] = Inr (put_header ''VBR1'' (of_nat (length (vbr1_body r))) @ vbr1_body r)"
    using v assms by (simp add: wire_encode_vbr1_def vbr1_body_length)
  show "read_record ((put_header ''VBR1'' (of_nat (length (vbr1_body r))) @ vbr1_body r) @ rest) =
      Some (ascii ''VBR1'', vbr1_body r, rest)"
    using read_record_put [of "''VBR1''" "vbr1_body r" rest] assms vbr1_body_bound
    by (simp add: vbr1_body_length)
  show "read_frame (vbr1_body r) = r" by (rule read_frame_body [OF assms])
qed

section \<open>Concrete instances\<close>

definition rec0 :: wire_frame_rec where
  "rec0 = \<lparr>wf_stream_index = 1, wf_seq = 2, wf_wall_ms = 3, wf_src_w = 4, wf_src_h = 5, wf_model_w = 6,
     wf_model_h = 7, wf_scale = 8, wf_pad_x = 9, wf_pad_y = 10, wf_align = 1, wf_kpt_per_det = 1,
     wf_inference_ms = 11, wf_queue_delay_ms = 12, wf_attr_per_det = 0,
     wf_dets = [\<lparr>wd_cx = 1, wd_cy = 2, wd_w = 3, wd_h = 4, wd_score = 5, wd_class_id = 6, wd_track_id = 7\<rparr>],
     wf_kpts = [1, 2, 3], wf_attrs = []\<rparr>"

theorem vbr1_length_is_declared_witness:
  "wire_encode_vbr1 (rec0\<lparr>wf_kpts := []\<rparr>) [] =
     Inl ''VBR1 keypoint count 0 does not match n_det 1 * kpt_per_det 1 * 3 (3)'' \<and> \<not> vbr1_ok (rec0\<lparr>wf_kpts := []\<rparr>)"
proof -
  have "digit 0 = CHR ''0''" "digit 1 = CHR ''1''" "digit 3 = CHR ''3''" by code_simp+
  then have "wire_encode_vbr1 (rec0\<lparr>wf_kpts := []\<rparr>) [] =
     Inl ''VBR1 keypoint count 0 does not match n_det 1 * kpt_per_det 1 * 3 (3)''"
    by (simp add: wire_encode_vbr1_def vbr1_validate_def rec0_def Let_def dec_digits.simps)
  with vbr1_length_is_declared [of "rec0\<lparr>wf_kpts := []\<rparr>" "[]"] show ?thesis by simp
qed

theorem vbr1_roundtrip_witness:
  "\<exists>bs body. wire_encode_vbr1 rec0 [] = Inr bs \<and>
    read_record (bs @ [7]) = Some (ascii ''VBR1'', body, [7]) \<and> read_frame body = rec0"
proof -
  have "vbr1_ok rec0" by (simp add: vbr1_ok_def rec0_def)
  then show ?thesis by (rule vbr1_roundtrip)
qed

end
