(* ===== verification/Json_Value.thy ===== *)
theory Json_Value
  imports Std_Containers "HOL-Library.List_Lexorder" "HOL-Library.Char_ord"
begin

text \<open>
  JSON values as the code sees them through the vendored nlohmann library
  (\<open>core-cpp/vb/include/vb/json.h\<close>): integers are those of \<open>int64\<close> and \<open>uint64\<close>, every other
  number is a \<open>double\<close>, and an object is a \<open>std::map\<close> from keys to values. Parsing and printing
  belong to the library: a parser is a parameter of the definitions that call it, and events
  carry their fields as values.

  An operation of the code that may fail has an \<open>outcome\<close>: it returns a value, it refuses with
  an error text, or it throws (a conversion \<open>get<T>()\<close> or an access \<open>at()\<close> on a value of another
  type).
\<close>

section \<open>Values\<close>

datatype json =
    JNull
  | JBool bool
  | JInt int
  | JNum f64
  | JStr string
  | JArr "json list"
  | JObj "(string \<times> json) list"

definition json_obj :: "(string \<times> json) list \<Rightarrow> json" where
  "json_obj fields = JObj (foldl (\<lambda>m (k, v). om_put k v m) [] fields)"

definition json_of_f32 :: "f32 \<Rightarrow> json" where
  "json_of_f32 x = JNum (fconv x)"

text \<open>A limit, or null when it is not set.\<close>

definition json_opt :: "f64 option \<Rightarrow> json" where
  "json_opt x = (case x of None \<Rightarrow> JNull | Some v \<Rightarrow> JNum v)"

fun is_object :: "json \<Rightarrow> bool" where
  "is_object (JObj _) = True"
| "is_object _ = False"

fun is_array :: "json \<Rightarrow> bool" where
  "is_array (JArr _) = True"
| "is_array _ = False"

fun is_number :: "json \<Rightarrow> bool" where
  "is_number (JInt _) = True"
| "is_number (JNum _) = True"
| "is_number _ = False"

fun is_number_integer :: "json \<Rightarrow> bool" where
  "is_number_integer (JInt _) = True"
| "is_number_integer _ = False"

text \<open>\<open>find\<close> on an object; on another value it is \<open>end()\<close>.\<close>

fun json_find :: "string \<Rightarrow> json \<Rightarrow> json option" where
  "json_find k (JObj m) = om_find k m"
| "json_find k _ = None"

fun elements :: "json \<Rightarrow> json list" where
  "elements (JArr xs) = xs"
| "elements _ = []"

lemma json_find_obj [simp]: "json_find k (json_obj fs) = map_of (rev fs) k"
proof -
  have "om_find k (foldl (\<lambda>m (k, v). om_put k v m) m fs) =
      (case map_of (rev fs) k of None \<Rightarrow> om_find k m | Some v \<Rightarrow> Some v)" for m
    by (induction fs arbitrary: m) (auto simp: map_add_def split: option.splits)
  then show ?thesis by (simp add: json_obj_def split: option.splits)
qed

text \<open>Conversions of a number: what \<open>get<double>()\<close>, \<open>get<float>()\<close>, \<open>get<int>()\<close> and
  \<open>get<long long>()\<close> return on it. The integer ones are used on integers only and wrap.\<close>

fun num64 :: "json \<Rightarrow> f64" where
  "num64 (JInt i) = fl_of_int i"
| "num64 (JNum x) = x"
| "num64 _ = 0"

fun num32 :: "json \<Rightarrow> f32" where
  "num32 (JInt i) = fl_of_int i"
| "num32 (JNum x) = fconv x"
| "num32 _ = 0"

fun int32_of :: "json \<Rightarrow> int" where
  "int32_of (JInt i) = sint (word_of_int i :: 32 word)"
| "int32_of _ = 0"

fun int64_of :: "json \<Rightarrow> int" where
  "int64_of (JInt i) = sint (word_of_int i :: 64 word)"
| "int64_of _ = 0"

section \<open>Outcomes\<close>

datatype 'a outcome = Returned 'a | Refused string | Thrown

fun and_then :: "'a outcome \<Rightarrow> ('a \<Rightarrow> 'b outcome) \<Rightarrow> 'b outcome" where
  "and_then (Returned x) f = f x"
| "and_then (Refused e) f = Refused e"
| "and_then Thrown f = Thrown"

definition check :: "bool \<Rightarrow> string \<Rightarrow> unit outcome" where
  "check ok msg = (if ok then Returned () else Refused msg)"

text \<open>A loop that builds a vector and may fail at an element.\<close>

fun collect :: "('x \<Rightarrow> 'a list \<Rightarrow> 'a outcome) \<Rightarrow> 'x list \<Rightarrow> 'a list \<Rightarrow> 'a list outcome" where
  "collect f [] acc = Returned acc"
| "collect f (x # xs) acc = and_then (f x acc) (\<lambda>y. collect f xs (acc @ [y]))"

text \<open>\<open>get<std::string>()\<close> throws on a value that is not a string, \<open>get<float>()\<close> on one that is
  neither a number nor a boolean, \<open>at(i)\<close> on a value that is not an array or is too short.\<close>

fun get_string :: "json \<Rightarrow> string outcome" where
  "get_string (JStr s) = Returned s"
| "get_string _ = Thrown"

fun get_float :: "json \<Rightarrow> f32 outcome" where
  "get_float (JInt i) = Returned (num32 (JInt i))"
| "get_float (JNum x) = Returned (num32 (JNum x))"
| "get_float (JBool b) = Returned (if b then 1 else 0)"
| "get_float _ = Thrown"

definition json_at :: "nat \<Rightarrow> json \<Rightarrow> json outcome" where
  "json_at i v = (if is_array v \<and> i < length (elements v) then Returned (elements v ! i) else Thrown)"

definition get_at :: "string \<Rightarrow> json \<Rightarrow> json outcome" where
  "get_at k v = (case json_find k v of None \<Rightarrow> Thrown | Some x \<Rightarrow> Returned x)"

lemma and_then_Returned: "and_then r f = Returned y \<longleftrightarrow> (\<exists>x. r = Returned x \<and> f x = Returned y)"
  by (cases r) auto

lemma and_then_Thrown: "and_then r f = Thrown \<longleftrightarrow> r = Thrown \<or> (\<exists>x. r = Returned x \<and> f x = Thrown)"
  by (cases r) auto

lemma check_Returned [simp]: "check ok msg = Returned u \<longleftrightarrow> ok"
  by (simp add: check_def)

lemma check_not_Thrown [simp]: "check ok msg \<noteq> Thrown"
  by (simp add: check_def)

lemmas outcome_elims = and_then_Returned and_then_Thrown

lemma collect_all:
  assumes "collect f xs acc = Returned ys" "\<forall>y \<in> set acc. P y"
    "\<And>x acc y. f x acc = Returned y \<Longrightarrow> P y"
  shows "\<forall>y \<in> set ys. P y"
  using assms(1,2)
proof (induction xs arbitrary: acc)
  case (Cons x xs)
  then obtain y where y: "f x acc = Returned y" "collect f xs (acc @ [y]) = Returned ys"
    by (auto simp: outcome_elims)
  from assms(3) [OF y(1)] Cons.prems(2) have "\<forall>y \<in> set (acc @ [y]). P y" by simp
  with Cons.IH [OF y(2)] show ?case by simp
qed simp

lemma collect_distinct:
  assumes "collect f xs acc = Returned ys" "distinct (map key acc)"
    "\<And>x acc y. f x acc = Returned y \<Longrightarrow> key y \<notin> key ` set acc"
  shows "distinct (map key ys)"
  using assms(1,2)
proof (induction xs arbitrary: acc)
  case (Cons x xs)
  then obtain y where y: "f x acc = Returned y" "collect f xs (acc @ [y]) = Returned ys"
    by (auto simp: outcome_elims)
  from assms(3) [OF y(1)] Cons.prems(2) have "distinct (map key (acc @ [y]))" by simp
  with Cons.IH [OF y(2)] show ?case by simp
qed simp

lemma collect_length:
  "collect f xs acc = Returned ys \<Longrightarrow> length ys = length acc + length xs"
  by (induction xs arbitrary: acc) (auto simp: outcome_elims)

end
