(* ===== verification/Analyzer_Interface.thy ===== *)
theory Analyzer_Interface
  imports Json_Value Vb_Tracker
begin

text \<open>
  The analyzer chain interface of \<open>core-cpp/vb/include/vb/analyzer.h\<close>. An analyzer is a state
  with two handlers, \<open>on_frame\<close> and \<open>on_track_removed\<close>, that return the events they push on
  \<open>out\<close>. The locale \<open>analyzer\<close> says which tracks its state may mention; \<open>event_machine\<close> adds an
  abstract machine that its events, per key, must follow, and \<open>closing_machine\<close> that the removal
  of a track closes what it left open. The field \<open>reads\<close> of a frame is left out: nothing sets it and
  no built-in analyzer reads it.
\<close>

section \<open>Frames and events\<close>

record frame_meta =
  fm_stream_index :: u32
  fm_seq :: u64
  fm_wall_ms :: f64
  fm_t_mono_s :: f64
  fm_geom :: letterbox_geom

record analyzer_event =
  ae_type :: string
  ae_track_id :: u32
  ae_fields :: json

definition emit_event :: "string \<Rightarrow> u32 \<Rightarrow> json \<Rightarrow> analyzer_event" where
  "emit_event ty tid j = \<lparr>ae_type = ty, ae_track_id = tid, ae_fields = j\<rparr>"

lemma emit_event_simps [simp]:
  "ae_type (emit_event ty i f) = ty" "ae_track_id (emit_event ty i f) = i"
  "ae_fields (emit_event ty i f) = f"
  by (simp_all add: emit_event_def)

text \<open>A loop that threads a state and appends to \<open>out\<close>.\<close>

fun steps :: "('x \<Rightarrow> 's \<Rightarrow> 's \<times> 'e list) \<Rightarrow> 'x list \<Rightarrow> 's \<Rightarrow> 's \<times> 'e list" where
  "steps f [] s = (s, [])"
| "steps f (x # xs) s = (let (s', es) = f x s; (s'', es') = steps f xs s' in (s'', es @ es'))"

lemma steps_fst: "fst (steps f xs s) = fold (\<lambda>x s. fst (f x s)) xs s"
  by (induction xs arbitrary: s) (auto simp: case_prod_beta Let_def)

lemma steps_invariant:
  assumes "P s" "\<And>x s. x \<in> set xs \<Longrightarrow> P s \<Longrightarrow> P (fst (f x s))"
  shows "P (fst (steps f xs s))"
  using assms
proof (induction xs arbitrary: s)
  case (Cons x xs)
  have "P (fst (steps f xs (fst (f x s))))"
    by (rule Cons.IH) (use Cons.prems in simp_all)
  then show ?case by (simp add: case_prod_beta Let_def)
qed simp

lemma steps_events:
  assumes "P s" "\<And>x s. x \<in> set xs \<Longrightarrow> P s \<Longrightarrow> P (fst (f x s))"
    and "\<And>x s e. x \<in> set xs \<Longrightarrow> P s \<Longrightarrow> e \<in> set (snd (f x s)) \<Longrightarrow> Q e"
    and "e \<in> set (snd (steps f xs s))"
  shows "Q e"
  using assms
proof (induction xs arbitrary: s)
  case (Cons x xs)
  have "e \<in> set (snd (f x s)) \<or> e \<in> set (snd (steps f xs (fst (f x s))))"
    using Cons.prems(4) by (auto simp: case_prod_beta Let_def)
  then show ?case
  proof
    assume "e \<in> set (snd (f x s))"
    with Cons.prems(1,3) show ?thesis by (meson list.set_intros(1))
  next
    assume "e \<in> set (snd (steps f xs (fst (f x s))))"
    then show ?thesis
      by (intro Cons.IH [of "fst (f x s)"] Cons.prems(2,3)) (use Cons.prems(1,2) in simp_all)
  qed
qed simp

section \<open>Configuration\<close>

text \<open>\<open>configure\<close>: the text is parsed inside the \<open>try\<close>, the parsed value is checked outside it.
  The new configuration is installed only when every check passes. The result is the state and
  the outcome of the call: true, false with an error text, or an exception of the checks.\<close>

definition parse_text :: "(string \<Rightarrow> string + json) \<Rightarrow> string \<Rightarrow> string \<Rightarrow> json outcome" where
  "parse_text parse who text =
    (case parse text of Inl what \<Rightarrow> Refused (who @ '': invalid json: '' @ what) | Inr j \<Rightarrow> Returned j)"

fun reconfigure :: "('c \<Rightarrow> 's \<Rightarrow> 's) \<Rightarrow> 'c outcome \<Rightarrow> 's \<Rightarrow> 's \<times> unit outcome" where
  "reconfigure install (Returned c) s = (install c s, Returned ())"
| "reconfigure install (Refused err) s = (s, Refused err)"
| "reconfigure install Thrown s = (s, Thrown)"

lemma reconfigure_failed: "snd (reconfigure install r s) \<noteq> Returned () \<Longrightarrow> fst (reconfigure install r s) = s"
  by (cases r) auto

lemma reconfigure_done:
  "snd (reconfigure install r s) = Returned () \<Longrightarrow> \<exists>c. r = Returned c \<and> fst (reconfigure install r s) = install c s"
  by (cases r) auto

section \<open>What a run may show\<close>

datatype input = Frame frame_meta "track list" | Removal u32 f64

text \<open>A run: every input with the events it produced.\<close>

fun drive :: "(frame_meta \<Rightarrow> track list \<Rightarrow> 's \<Rightarrow> 's \<times> analyzer_event list) \<Rightarrow>
    (u32 \<Rightarrow> f64 \<Rightarrow> 's \<Rightarrow> 's \<times> analyzer_event list) \<Rightarrow> input list \<Rightarrow> 's \<Rightarrow>
    's \<times> (input \<times> analyzer_event list) list" where
  "drive frame removed [] s = (s, [])"
| "drive frame removed (Frame m ts # is) s =
    (let (s', es) = frame m ts s; (s'', rest) = drive frame removed is s'
     in (s'', (Frame m ts, es) # rest))"
| "drive frame removed (Removal j t # is) s =
    (let (s', es) = removed j t s; (s'', rest) = drive frame removed is s'
     in (s'', (Removal j t, es) # rest))"

definition all_events :: "(input \<times> analyzer_event list) list \<Rightarrow> analyzer_event list" where
  "all_events tr = concat (map snd tr)"

text \<open>Running an abstract machine over labels; \<open>None\<close> is a label it does not allow.\<close>

fun accepts :: "('q \<Rightarrow> 'l \<Rightarrow> 'q option) \<Rightarrow> 'q \<Rightarrow> 'l list \<Rightarrow> 'q option" where
  "accepts delta q [] = Some q"
| "accepts delta q (l # ls) = (case delta q l of None \<Rightarrow> None | Some q' \<Rightarrow> accepts delta q' ls)"

lemma accepts_append:
  "accepts delta q (a @ b) = (case accepts delta q a of None \<Rightarrow> None | Some q' \<Rightarrow> accepts delta q' b)"
  by (induction a arbitrary: q) (auto split: option.splits)

definition labels :: "('k \<Rightarrow> analyzer_event \<Rightarrow> 'l option) \<Rightarrow> 'k \<Rightarrow> analyzer_event list \<Rightarrow> 'l list" where
  "labels lab k es = List.map_filter (lab k) es"

lemma labels_append [simp]: "labels lab k (a @ b) = labels lab k a @ labels lab k b"
  by (simp add: labels_def List.map_filter_def)

lemma labels_Nil [simp]: "labels lab k [] = []"
  by (simp add: labels_def List.map_filter_def)

lemma labels_Cons [simp]:
  "labels lab k (e # es) = (case lab k e of None \<Rightarrow> labels lab k es | Some l \<Rightarrow> l # labels lab k es)"
  by (simp add: labels_def List.map_filter_def split: option.split)

lemma labels_all:
  "(\<And>e. e \<in> set es \<Longrightarrow> lab k e = Some (g e)) \<Longrightarrow> labels lab k es = map g es"
  by (induction es) auto

lemma labels_none:
  "(\<And>e. e \<in> set es \<Longrightarrow> lab k e = None) \<Longrightarrow> labels lab k es = []"
  by (induction es) auto

text \<open>The labels of a key over a run, with \<open>None\<close> where its track was removed; a machine goes
  back to its initial state there.\<close>

fun with_reset :: "('q \<Rightarrow> 'l \<Rightarrow> 'q option) \<Rightarrow> 'q \<Rightarrow> 'q \<Rightarrow> 'l option \<Rightarrow> 'q option" where
  "with_reset delta q0 q None = Some q0"
| "with_reset delta q0 q (Some l) = delta q l"

fun key_log :: "('k \<Rightarrow> analyzer_event \<Rightarrow> 'l option) \<Rightarrow> ('k \<Rightarrow> u32 option) \<Rightarrow> 'k \<Rightarrow>
    (input \<times> analyzer_event list) list \<Rightarrow> 'l option list" where
  "key_log lab key_id k [] = []"
| "key_log lab key_id k ((i, es) # rest) =
    map Some (labels lab k es) @
    (case i of Frame m ts \<Rightarrow> [] | Removal j t \<Rightarrow> if key_id k = Some j then [None] else []) @
    key_log lab key_id k rest"

lemma accepts_Some: "accepts (with_reset delta q0) q (map Some ls) = accepts delta q ls"
  by (induction ls arbitrary: q) (auto split: option.splits)

text \<open>The machine of one step lifts to a loop of steps.\<close>

lemma accepts_steps:
  assumes "P s" "\<And>x s. x \<in> set xs \<Longrightarrow> P s \<Longrightarrow> P (fst (f x s))"
    and "\<And>x s. x \<in> set xs \<Longrightarrow> P s \<Longrightarrow> accepts delta (q s) (labels lab k (snd (f x s))) = Some (q (fst (f x s)))"
  shows "accepts delta (q s) (labels lab k (snd (steps f xs s))) = Some (q (fst (steps f xs s)))"
  using assms
proof (induction xs arbitrary: s)
  case (Cons x xs)
  have "accepts delta (q (fst (f x s))) (labels lab k (snd (steps f xs (fst (f x s))))) =
      Some (q (fst (steps f xs (fst (f x s)))))"
    by (intro Cons.IH Cons.prems) (use Cons.prems(1,2) in simp_all)
  with Cons.prems(1) Cons.prems(3) [of x s] show ?case
    by (simp add: case_prod_beta Let_def accepts_append)
qed simp

locale analyzer =
  fixes frame :: "frame_meta \<Rightarrow> track list \<Rightarrow> 's \<Rightarrow> 's \<times> analyzer_event list"
    and removed :: "u32 \<Rightarrow> f64 \<Rightarrow> 's \<Rightarrow> 's \<times> analyzer_event list"
    and ok :: "'s \<Rightarrow> bool"
    and ids :: "'s \<Rightarrow> u32 set"
  assumes frame_ok: "ok s \<Longrightarrow> ok (fst (frame m ts s))"
    and removed_ok: "ok s \<Longrightarrow> ok (fst (removed i t s))"
    and frame_ids: "ok s \<Longrightarrow> ids (fst (frame m ts s)) \<subseteq> ids s \<union> trk_id ` set ts"
    and removed_ids: "ok s \<Longrightarrow> ids (fst (removed i t s)) = ids s - {i}"
begin

lemma drive_ok: "ok s \<Longrightarrow> ok (fst (drive frame removed is s))"
proof (induction "is" arbitrary: s)
  case (Cons i "is")
  then show ?case by (cases i) (simp_all add: case_prod_beta Let_def frame_ok removed_ok)
qed simp

lemma drive_events:
  assumes "ok s" "e \<in> set (all_events (snd (drive frame removed is s)))"
    "\<And>m ts s e. ok s \<Longrightarrow> e \<in> set (snd (frame m ts s)) \<Longrightarrow> Q e"
    "\<And>i t s e. ok s \<Longrightarrow> e \<in> set (snd (removed i t s)) \<Longrightarrow> Q e"
  shows "Q e"
  using assms(1,2)
proof (induction "is" arbitrary: s)
  case (Cons i "is")
  show ?case
  proof (cases i)
    case (Frame m ts)
    with Cons.prems(2) have "e \<in> set (snd (frame m ts s)) \<or> e \<in> set (all_events (snd (drive frame removed is (fst (frame m ts s)))))"
      by (auto simp: all_events_def case_prod_beta Let_def)
    with Cons.IH [OF frame_ok [OF Cons.prems(1)]] assms(3) [OF Cons.prems(1)] show ?thesis by blast
  next
    case (Removal j t)
    with Cons.prems(2) have "e \<in> set (snd (removed j t s)) \<or> e \<in> set (all_events (snd (drive frame removed is (fst (removed j t s)))))"
      by (auto simp: all_events_def case_prod_beta Let_def)
    with Cons.IH [OF removed_ok [OF Cons.prems(1)]] assms(4) [OF Cons.prems(1)] show ?thesis by blast
  qed
qed (simp add: all_events_def)

text \<open>A frame followed by the removals of the same update.\<close>

lemma frame_then_removals_ids:
  assumes "ok s"
  shows "ids (fst (steps (\<lambda>i. removed i t) rm (fst (frame m ts s)))) \<subseteq> (ids s \<union> trk_id ` set ts) - set rm"
proof -
  have rm: "ok s' \<Longrightarrow> ids (fst (steps (\<lambda>i. removed i t) rm s')) = ids s' - set rm" for s'
    by (induction rm arbitrary: s') (auto simp: case_prod_beta Let_def removed_ids removed_ok)
  show ?thesis using rm [OF frame_ok [OF assms]] frame_ids [OF assms, of m ts] by auto
qed

end

locale event_machine = analyzer frame removed ok ids
  for frame :: "frame_meta \<Rightarrow> track list \<Rightarrow> 's \<Rightarrow> 's \<times> analyzer_event list"
    and removed :: "u32 \<Rightarrow> f64 \<Rightarrow> 's \<Rightarrow> 's \<times> analyzer_event list"
    and ok :: "'s \<Rightarrow> bool"
    and ids :: "'s \<Rightarrow> u32 set" +
  fixes q :: "'k \<Rightarrow> 's \<Rightarrow> 'q"
    and delta :: "'k \<Rightarrow> 'q \<Rightarrow> 'l \<Rightarrow> 'q option"
    and q0 :: 'q
    and lab :: "'k \<Rightarrow> analyzer_event \<Rightarrow> 'l option"
    and key_id :: "'k \<Rightarrow> u32 option"
  assumes frame_machine:
      "ok s \<Longrightarrow> accepts (delta k) (q k s) (labels lab k (snd (frame m ts s))) = Some (q k (fst (frame m ts s)))"
    and removed_machine:
      "ok s \<Longrightarrow> \<exists>q'. accepts (delta k) (q k s) (labels lab k (snd (removed i t s))) = Some q' \<and>
         q k (fst (removed i t s)) = (if key_id k = Some i then q0 else q')"
begin

lemma run_accepted:
  "ok s \<Longrightarrow> accepts (with_reset (delta k) q0) (q k s) (key_log lab key_id k (snd (drive frame removed is s))) =
     Some (q k (fst (drive frame removed is s)))"
proof (induction "is" arbitrary: s)
  case (Cons i "is")
  show ?case
  proof (cases i)
    case (Frame m ts)
    from Cons.IH [OF frame_ok [OF Cons.prems]] frame_machine [OF Cons.prems, of k m ts] Frame show ?thesis
      by (simp add: case_prod_beta Let_def accepts_append accepts_Some)
  next
    case (Removal j t)
    from Cons.IH [OF removed_ok [OF Cons.prems]] removed_machine [OF Cons.prems, of k j t] Removal show ?thesis
      by (auto simp: case_prod_beta Let_def accepts_append accepts_Some)
  qed
qed simp

end

locale closing_machine = event_machine +
  assumes removed_closes:
    "ok s \<Longrightarrow> key_id k = Some i \<Longrightarrow> accepts (delta k) (q k s) (labels lab k (snd (removed i t s))) = Some q0"
begin

lemma closed_run_accepted:
  "ok s \<Longrightarrow> accepts (delta k) (q k s) (labels lab k (all_events (snd (drive frame removed is s)))) =
     Some (q k (fst (drive frame removed is s)))"
proof (induction "is" arbitrary: s)
  case (Cons i "is")
  show ?case
  proof (cases i)
    case (Frame m ts)
    from Cons.IH [OF frame_ok [OF Cons.prems]] frame_machine [OF Cons.prems, of k m ts] Frame show ?thesis
      by (simp add: all_events_def case_prod_beta Let_def accepts_append)
  next
    case (Removal j t)
    have "accepts (delta k) (q k s) (labels lab k (snd (removed j t s))) = Some (q k (fst (removed j t s)))"
      using removed_machine [OF Cons.prems, of k j t] removed_closes [OF Cons.prems, of k j t] by auto
    with Cons.IH [OF removed_ok [OF Cons.prems]] Removal show ?thesis
      by (simp add: all_events_def case_prod_beta Let_def accepts_append)
  qed
qed (simp add: all_events_def)

end

section \<open>Analyzers with one map from track ids\<close>

definition track_label :: "u32 \<Rightarrow> analyzer_event \<Rightarrow> string option" where
  "track_label i e = (if ae_track_id e = i then Some (ae_type e) else None)"

lemma om_del_absent: "om_find i m = None \<Longrightarrow> om_del i m = m"
  by (induction m) (auto split: if_splits)

locale track_map =
  fixes frame :: "frame_meta \<Rightarrow> track list \<Rightarrow> 's \<Rightarrow> 's \<times> analyzer_event list"
    and removed :: "u32 \<Rightarrow> f64 \<Rightarrow> 's \<Rightarrow> 's \<times> analyzer_event list"
    and stp :: "frame_meta \<Rightarrow> track \<Rightarrow> 's \<Rightarrow> 's \<times> analyzer_event list"
    and ok :: "'s \<Rightarrow> bool"
    and get :: "'s \<Rightarrow> (u32, 'v) omap"
    and mode :: "'v option \<Rightarrow> 'q"
    and delta :: "'q \<Rightarrow> string \<Rightarrow> 'q option"
  assumes frame_steps: "frame m ts s = steps (stp m) ts s"
    and ok_map: "ok s \<Longrightarrow> om_ok (get s)"
    and step_ok: "ok s \<Longrightarrow> ok (fst (stp m tr s))"
    and step_other: "i \<noteq> trk_id tr \<Longrightarrow> om_find i (get (fst (stp m tr s))) = om_find i (get s)"
    and step_events: "e \<in> set (snd (stp m tr s)) \<Longrightarrow> ae_track_id e = trk_id tr"
    and step_machine: "ok s \<Longrightarrow> accepts delta (mode (om_find (trk_id tr) (get s))) (map ae_type (snd (stp m tr s))) =
      Some (mode (om_find (trk_id tr) (get (fst (stp m tr s)))))"
    and remove_ok: "ok s \<Longrightarrow> ok (fst (removed i t s))"
    and removed_map: "get (fst (removed i t s)) = om_del i (get s)"
    and removed_events: "e \<in> set (snd (removed i t s)) \<Longrightarrow> ae_track_id e = i"
    and removed_labels: "ok s \<Longrightarrow> \<exists>q'. accepts delta (mode (om_find i (get s))) (map ae_type (snd (removed i t s))) = Some q'"
begin

lemma labels_of_track:
  assumes "\<And>e. e \<in> set es \<Longrightarrow> ae_track_id e = j"
  shows "labels track_label i es = (if i = j then map ae_type es else [])"
  using assms by (auto intro!: labels_all labels_none simp: track_label_def)

lemma find_keys: "i \<in> fst ` set (get s) \<longleftrightarrow> om_find i (get s) \<noteq> None"
  by (rule om_find_iff)

lemma step_keys: "fst ` set (get (fst (stp m tr s))) \<subseteq> insert (trk_id tr) (fst ` set (get s))"
proof
  fix i assume "i \<in> fst ` set (get (fst (stp m tr s)))"
  then have "om_find i (get (fst (stp m tr s))) \<noteq> None" unfolding find_keys .
  then have "i = trk_id tr \<or> om_find i (get s) \<noteq> None" using step_other [of i tr m s] by metis
  then show "i \<in> insert (trk_id tr) (fst ` set (get s))" unfolding find_keys [symmetric] by blast
qed

lemma frame_keys: "fst ` set (get (fst (frame m ts s))) \<subseteq> fst ` set (get s) \<union> trk_id ` set ts"
proof -
  define P where "P b \<longleftrightarrow> fst ` set (get b) \<subseteq> fst ` set (get s) \<union> trk_id ` set ts" for b
  have "P (fst (stp m tr b))" if "tr \<in> set ts" "P b" for tr b
    using step_keys [of m tr b] that unfolding P_def by blast
  then have "P (fst (frame m ts s))" unfolding frame_steps
    by (intro steps_invariant [where P = P]) (simp_all add: P_def)
  then show ?thesis by (simp only: P_def)
qed

end

sublocale track_map \<subseteq> event_machine frame removed ok "\<lambda>s. fst ` set (get s)"
  "\<lambda>i s. mode (om_find i (get s))" "\<lambda>_. delta" "mode None" track_label Some
proof
  fix s m ts i t k assume s: "ok s"
  note om = ok_map [OF s]
  show "ok (fst (frame m ts s))"
    unfolding frame_steps by (rule steps_invariant [where P = ok, OF s step_ok])
  show "ok (fst (removed i t s))" by (rule remove_ok [OF s])
  show "fst ` set (get (fst (frame m ts s))) \<subseteq> fst ` set (get s) \<union> trk_id ` set ts"
    by (rule frame_keys)
  show "fst ` set (get (fst (removed i t s))) = fst ` set (get s) - {i}"
    using om by (auto simp: removed_map set_om_del)
  show "accepts delta (mode (om_find k (get s))) (labels track_label k (snd (frame m ts s))) =
      Some (mode (om_find k (get (fst (frame m ts s)))))"
    unfolding frame_steps
  proof (rule accepts_steps [where P = ok and q = "\<lambda>s. mode (om_find k (get s))", OF s step_ok])
    fix tr b assume "ok b"
    then show "accepts delta (mode (om_find k (get b))) (labels track_label k (snd (stp m tr b))) =
        Some (mode (om_find k (get (fst (stp m tr b)))))"
      using labels_of_track [of "snd (stp m tr b)" "trk_id tr" k] step_events [of _ m tr b] step_machine [of b tr m]
        step_other [of k tr m b] by (cases "k = trk_id tr") auto
  qed
  show "\<exists>q'. accepts delta (mode (om_find k (get s))) (labels track_label k (snd (removed i t s))) = Some q' \<and>
      mode (om_find k (get (fst (removed i t s)))) = (if Some k = Some i then mode None else q')"
    using labels_of_track [of "snd (removed i t s)" i k] removed_events [of _ i t s] removed_labels [OF s, of i t]
    by (auto simp: removed_map om_find_del [OF om])
qed

locale closing_track_map = track_map +
  assumes closes: "ok s \<Longrightarrow> accepts delta (mode (om_find i (get s))) (map ae_type (snd (removed i t s))) = Some (mode None)"

sublocale closing_track_map \<subseteq> closing_machine frame removed ok "\<lambda>s. fst ` set (get s)"
  "\<lambda>i s. mode (om_find i (get s))" "\<lambda>_. delta" "mode None" track_label Some
  by unfold_locales (use closes labels_of_track removed_events in auto)

end
