(* ===== verification/Motion_Util.thy ===== *)
theory Motion_Util
  imports Analyzer_Interface Geometry
begin

text \<open>
  \<open>core-cpp/vb/src/analyzers/motion_util.h\<close> and \<open>motion_util.cpp\<close>: anchor points, angles, the
  hysteresis debouncer and the configuration pieces the analyzers share.
\<close>

section \<open>Anchors and angles\<close>

definition anchor_point :: "track \<Rightarrow> letterbox_geom \<Rightarrow> string \<Rightarrow> f32 \<times> f32" where
  "anchor_point t g anchor =
    (let mx = d_cx (trk_det t);
         my = (if anchor = ''center'' then d_cy (trk_det t)
               else d_cy (trk_det t) + d_h (trk_det t) * lit (1/2))
     in to_source_norm g mx my)"

definition to_h :: "letterbox_geom \<Rightarrow> f32 \<times> f32 \<Rightarrow> f32 \<times> f32" where
  "to_h g p = (fst p * fl_of_int (lg_src_w g) / fl_of_int (lg_src_h g), snd p)"

definition wrap_deg :: "f64 \<Rightarrow> f64" where
  "wrap_deg a = (let r = ffmod a (lit 360) in if r < 0 then r + lit 360 else r)"

definition ang_diff :: "f64 \<Rightarrow> f64 \<Rightarrow> f64" where
  "ang_diff a b = (let d = ffabs (a - b) in if d > lit 180 then lit 360 - d else d)"

definition m_pi :: f64 where
  "m_pi = lit (314159265358979323846 / 100000000000000000000)"

section \<open>Debouncing\<close>

record debounce =
  db_state :: string
  db_pending :: bool
  db_pending_raw :: string
  db_pending_since :: f64

definition new_debounce :: "string \<Rightarrow> debounce" where
  "new_debounce initial = \<lparr>db_state = initial, db_pending = False, db_pending_raw = [], db_pending_since = 0\<rparr>"

text \<open>The result is the transition (previous and next state) when \<open>step\<close> returns true.\<close>

definition db_step :: "string \<Rightarrow> f64 \<Rightarrow> f64 \<Rightarrow> debounce \<Rightarrow> debounce \<times> (string \<times> string) option" where
  "db_step raw now hold_s d =
    (if raw = db_state d then (d\<lparr>db_pending := False\<rparr>, None)
     else if \<not> db_pending d \<or> db_pending_raw d \<noteq> raw then
       (d\<lparr>db_pending := True, db_pending_raw := raw, db_pending_since := now\<rparr>, None)
     else if now - db_pending_since d \<ge> hold_s then
       (d\<lparr>db_state := raw, db_pending := False\<rparr>, Some (db_state d, raw))
     else (d, None))"

definition db_run :: "f64 \<Rightarrow> (string \<times> f64) list \<Rightarrow> debounce \<Rightarrow> debounce" where
  "db_run hold_s xs d = fold (\<lambda>(raw, now) d. fst (db_step raw now hold_s d)) xs d"

section \<open>The sliding window\<close>

text \<open>The loop of \<open>direction.cpp\<close> and \<open>speed.cpp\<close> that drops samples older than the window, on the two
  parallel deques.\<close>

fun slide :: "f64 \<Rightarrow> f64 \<Rightarrow> f64 list \<Rightarrow> point list \<Rightarrow> f64 list \<times> point list" where
  "slide now window [] pts = ([], pts)"
| "slide now window (t # ts) pts =
    (if now - t > window then slide now window ts (tl pts) else (t # ts, pts))"

section \<open>Configuration pieces\<close>

record zone_cfg =
  zc_id :: string
  zc_poly :: "point list"

definition bad_coord :: "json \<Rightarrow> bool" where
  "bad_coord c \<longleftrightarrow> \<not> is_number c \<or> num64 c < 0 \<or> num64 c > 1"

definition parse_vertex :: "string \<Rightarrow> json \<Rightarrow> point list \<Rightarrow> point outcome" where
  "parse_vertex who p poly =
    (let c = elements p
     in and_then (check (is_array p \<and> length c = 2 \<and> \<not> bad_coord (c ! 0) \<and> \<not> bad_coord (c ! 1))
          (who @ '': polygon coords must be in [0,1] (source-normalized)''))
        (\<lambda>_. Returned (num32 (c ! 0), num32 (c ! 1))))"

text \<open>One zone; \<open>motion_util.cpp\<close> allows 64 vertices and \<open>zone.cpp\<close>, whose loop is otherwise the
  same, 16.\<close>

definition parse_zone :: "string \<Rightarrow> nat \<Rightarrow> string \<Rightarrow> json \<Rightarrow> zone_cfg list \<Rightarrow> zone_cfg outcome" where
  "parse_zone who max_vertices range_text zj zones =
    and_then (check (is_object zj \<and> json_find ''id'' zj \<noteq> None \<and> json_find ''polygon'' zj \<noteq> None)
      (who @ '': each zone needs id and polygon'')) (\<lambda>_.
    and_then (get_at ''id'' zj) (\<lambda>idj.
    and_then (get_string idj) (\<lambda>zid.
    and_then (check (zid \<noteq> [] \<and> length zid \<le> 32) (who @ '': zone id must be 1..32 chars'')) (\<lambda>_.
    and_then (check (\<not> list_ex (\<lambda>z. zc_id z = zid) zones) (who @ '': duplicate zone id '' @ zid)) (\<lambda>_.
    and_then (get_at ''polygon'' zj) (\<lambda>poly.
    and_then (check (is_array poly \<and> 3 \<le> length (elements poly) \<and> length (elements poly) \<le> max_vertices)
      (who @ '': polygon must have '' @ range_text @ '' vertices'')) (\<lambda>_.
    and_then (collect (parse_vertex who) (elements poly) []) (\<lambda>vs.
    Returned \<lparr>zc_id = zid, zc_poly = vs\<rparr>))))))))"

definition parse_zones :: "json \<Rightarrow> string \<Rightarrow> zone_cfg list outcome" where
  "parse_zones j who =
    (case json_find ''zones'' j of
       None \<Rightarrow> Returned []
     | Some zs \<Rightarrow>
         if zs = JNull then Returned []
         else and_then (check (is_array zs \<and> length (elements zs) \<le> 64) (who @ '': zones must be an array (0..64)''))
           (\<lambda>_. collect (parse_zone who 64 ''3..64'') (elements zs) []))"

definition parse_class :: "string \<Rightarrow> json \<Rightarrow> int list \<Rightarrow> int outcome" where
  "parse_class who cl classes =
    and_then (check (is_number_integer cl) (who @ '': classes must be an array of ints''))
      (\<lambda>_. Returned (int32_of cl))"

definition parse_classes :: "json \<Rightarrow> string \<Rightarrow> int list outcome" where
  "parse_classes j who =
    (case json_find ''classes'' j of
       None \<Rightarrow> Returned []
     | Some cs \<Rightarrow>
         if cs = JNull then Returned []
         else and_then (check (is_array cs) (who @ '': classes must be an array of ints''))
           (\<lambda>_. collect (parse_class who) (elements cs) []))"

definition class_ok :: "int list \<Rightarrow> int \<Rightarrow> bool" where
  "class_ok classes cid \<longleftrightarrow> classes = [] \<or> cid \<in> set classes"

fun zone_of :: "zone_cfg list \<Rightarrow> f32 \<Rightarrow> f32 \<Rightarrow> zone_cfg option" where
  "zone_of [] x y = None"
| "zone_of (z # zones) x y = (if vb_point_in_polygon x y (zc_poly z) then Some z else zone_of zones x y)"

text \<open>The string \<open>zone_of\<close> writes: the id of the zone found, or the empty string.\<close>

definition zone_id_of :: "zone_cfg list \<Rightarrow> f32 \<Rightarrow> f32 \<Rightarrow> string" where
  "zone_id_of zones x y = (case zone_of zones x y of None \<Rightarrow> [] | Some z \<Rightarrow> zc_id z)"

definition parse_anchor :: "json \<Rightarrow> string \<Rightarrow> string outcome" where
  "parse_anchor j who =
    (case json_find ''anchor'' j of
       None \<Rightarrow> Returned ''bottom_center''
     | Some a \<Rightarrow>
         if a = JNull then Returned ''bottom_center''
         else (case a of
             JStr s \<Rightarrow>
               if s = ''bottom_center'' \<or> s = ''center'' then Returned s
               else Refused (who @ '': anchor must be '' @ [CHR 0x22] @ ''bottom_center'' @ [CHR 0x22] @
                      '' or '' @ [CHR 0x22] @ ''center'' @ [CHR 0x22])
           | _ \<Rightarrow> Refused (who @ '': anchor must be a string'')))"

text \<open>The block that reads one optional number: a missing or null key keeps the default.\<close>

definition opt_num :: "string \<Rightarrow> (f64 \<Rightarrow> bool) \<Rightarrow> string \<Rightarrow> (json \<Rightarrow> 'a) \<Rightarrow> 'a \<Rightarrow> json \<Rightarrow> 'a outcome" where
  "opt_num key bad msg conv dflt j =
    (case json_find key j of
       None \<Rightarrow> Returned dflt
     | Some v \<Rightarrow>
         if v = JNull then Returned dflt
         else if \<not> is_number v \<or> bad (num64 v) then Refused msg
         else Returned (conv v))"

lemma opt_num_not_Thrown [simp]: "opt_num key bad msg conv dflt j \<noteq> Thrown"
  by (simp add: opt_num_def split: option.split)

lemma opt_num_bound:
  "opt_num key bad msg conv dflt j = Returned x \<Longrightarrow> x = dflt \<or> (\<exists>v. x = conv v \<and> is_number v \<and> \<not> bad (num64 v))"
  by (auto simp: opt_num_def split: option.splits if_splits)

lemma parse_anchor_values:
  "parse_anchor j who = Returned a \<Longrightarrow> a = ''bottom_center'' \<or> a = ''center''"
  by (auto simp: parse_anchor_def split: option.splits if_splits json.splits)

end
