(* ===== verification/Motion_Facts.thy ===== *)
theory Motion_Facts
  imports Motion_Util
begin

text \<open>
  Facts about the shared helpers of the analyzers: what the debouncer reports, when it settles,
  and what an accepted zone list looks like.
\<close>

section \<open>The debouncer\<close>

text \<open>A pending change was first seen at \<open>t0\<close> and every sample since is the same.\<close>

definition pending_since :: "debounce \<Rightarrow> (string \<times> f64) list \<Rightarrow> bool" where
  "pending_since d xs \<longleftrightarrow>
     (\<exists>ys zs. xs = ys @ (db_pending_raw d, db_pending_since d) # zs \<and> (\<forall>x \<in> set zs. fst x = db_pending_raw d))"

lemma db_run_snoc: "db_run hold (xs @ [(raw, now)]) d = fst (db_step raw now hold (db_run hold xs d))"
  by (simp add: db_run_def)

lemma db_run_pending:
  "db_pending (db_run hold xs (new_debounce s)) \<Longrightarrow> pending_since (db_run hold xs (new_debounce s)) xs \<and>
     db_pending_raw (db_run hold xs (new_debounce s)) \<noteq> db_state (db_run hold xs (new_debounce s))"
proof (induction xs rule: rev_induct)
  case Nil
  then show ?case by (simp add: db_run_def new_debounce_def)
next
  case (snoc x xs)
  obtain raw now where x: "x = (raw, now)" by force
  let ?d = "db_run hold xs (new_debounce s)"
  show ?case
  proof (cases "\<not> db_pending ?d \<or> db_pending_raw ?d \<noteq> raw")
    case True
    with snoc.prems x show ?thesis
      by (auto simp: db_run_snoc db_step_def pending_since_def split: if_splits
          intro!: exI [where P = "\<lambda>ys. \<exists>zs. xs @ [(raw, now)] = ys @ (raw, now) # zs \<and> Q zs" for Q, OF exI [of _ "[]"]])
  next
    case False
    with snoc.prems x have p: "db_run hold (xs @ [x]) (new_debounce s) = ?d"
      by (auto simp: db_run_snoc db_step_def split: if_splits)
    from snoc.IH False obtain ys zs where "xs = ys @ (db_pending_raw ?d, db_pending_since ?d) # zs"
      "\<forall>x \<in> set zs. fst x = db_pending_raw ?d" by (auto simp: pending_since_def)
    with False x have "pending_since ?d (xs @ [x])"
      unfolding pending_since_def by (intro exI [of _ ys] exI [of _ "zs @ [x]"]) auto
    with p snoc.IH False show ?thesis by auto
  qed
qed

text \<open>C9: a debouncer reports a change to a state only when every sample since some earlier one asked
  for it, that sample lies at least the hold time back, and the state it leaves is another one.\<close>

theorem debounce_holds:
  assumes "db_step raw now hold (db_run hold xs (new_debounce s)) = (d, Some (prev, nxt))"
  shows "nxt = raw \<and> prev = db_state (db_run hold xs (new_debounce s)) \<and> prev \<noteq> nxt \<and> db_state d = nxt \<and>
    (\<exists>ys zs t0. xs = ys @ (nxt, t0) # zs \<and> (\<forall>x \<in> set zs. fst x = nxt) \<and> hold \<le> now - t0)"
proof -
  let ?d = "db_run hold xs (new_debounce s)"
  from assms have a: "db_pending ?d" "db_pending_raw ?d = raw" "raw \<noteq> db_state ?d"
    "hold \<le> now - db_pending_since ?d" "nxt = raw" "prev = db_state ?d" "db_state d = raw"
    by (auto simp: db_step_def split: if_splits)
  from db_run_pending [OF a(1)] a(2) obtain ys zs where
    "xs = ys @ (raw, db_pending_since ?d) # zs" "\<forall>x \<in> set zs. fst x = raw"
    by (auto simp: pending_since_def)
  with a show ?thesis by auto
qed

theorem debounce_holds_witness:
  "let xs = [(''over'', lit 1), (''normal'', lit 2), (''over'', lit 3), (''over'', lit 4)] in
   db_state (fst (db_step ''over'' (lit 5) (lit 2) (db_run (lit 2) xs (new_debounce ''normal'')))) = ''over'' \<and>
   db_state (db_run (lit 2) xs (new_debounce ''normal'')) = ''normal''"
proof -
  let ?d = "db_run (lit 2) [(''over'', lit 1), (''normal'', lit 2), (''over'', lit 3), (''over'', lit 4)]
    (new_debounce ''normal'')"
  have "snd (db_step ''over'' (lit 5) (lit 2) ?d) = Some (''normal'', ''over'')" by code_simp
  then have "db_step ''over'' (lit 5) (lit 2) ?d = (fst (db_step ''over'' (lit 5) (lit 2) ?d), Some (''normal'', ''over''))"
    by (metis prod.collapse)
  from debounce_holds [OF this] show ?thesis by (simp add: Let_def)
qed

text \<open>A state asked for by every sample over at least the hold time becomes the committed state,
  from any debouncer whose pending change is not younger than the first of these samples.\<close>

theorem debounce_settles:
  assumes "\<forall>x \<in> set zs. fst x = raw" "hold \<le> now - t0" "is_fin t0" "is_fin now"
    "db_pending d \<Longrightarrow> db_pending_since d \<le> t0"
  shows "db_state (db_run hold ((raw, t0) # zs @ [(raw, now)]) d) = raw"
proof -
  define settling where "settling d' \<longleftrightarrow> db_state d' = raw \<or>
    db_pending d' \<and> db_pending_raw d' = raw \<and> db_pending_since d' \<le> t0" for d' :: debounce
  have keep: "settling d' \<Longrightarrow> settling (fst (db_step raw t hold d'))" for d' :: debounce and t
    by (auto simp: settling_def db_step_def)
  have "settling (fst (db_step raw t0 hold d))"
    using assms(3,5) by (auto simp: settling_def db_step_def fl_le_refl)
  then have "settling (db_run hold zs (fst (db_step raw t0 hold d)))"
    using assms(1) by (induction zs rule: rev_induct) (auto simp: db_run_snoc keep simp: db_run_def)
  then have "settling (db_run hold ((raw, t0) # zs) d)" by (simp add: db_run_def)
  moreover have "hold \<le> now - t" if "t \<le> t0" for t
    using fl_le_trans [OF assms(2) minus_left_anti [OF that assms(3,4)]] .
  ultimately have "db_state (fst (db_step raw now hold (db_run hold ((raw, t0) # zs) d))) = raw"
    by (auto simp: settling_def db_step_def)
  then show ?thesis using db_run_snoc [of hold "(raw, t0) # zs" raw now d] by simp
qed


theorem debounce_settles_witness:
  "db_state (db_run (lit 2) [(''over'', lit 3), (''over'', lit 4), (''over'', lit 5)] (new_debounce ''normal'')) = ''over''"
  using debounce_settles [of "[(''over'', lit 4)]" "''over''" "lit 2" "lit 5" "lit 3" "new_debounce ''normal''"]
  by (simp add: new_debounce_def) code_simp

section \<open>The sliding window\<close>

lemma slide_aligned:
  "slide now window ts pts = (ts', pts') \<Longrightarrow> length ts = length pts \<Longrightarrow>
     length ts' = length pts' \<and> (\<exists>k. ts' = drop k ts \<and> pts' = drop k pts)"
proof (induction now window ts pts rule: slide.induct)
  case (2 now window t ts pts)
  show ?case
  proof (cases "now - t > window")
    case True
    from 2(2) True have sl: "slide now window ts (tl pts) = (ts', pts')" by simp
    have "length ts = length (tl pts)" using 2(3) by simp
    from 2(1) [OF True sl this] obtain k where "length ts' = length pts'" "ts' = drop k ts" "pts' = drop k (tl pts)"
      by blast
    then show ?thesis by (auto simp: drop_Suc intro!: exI [of _ "Suc k"])
  next
    case False
    with 2 show ?thesis by (auto intro: exI [of _ 0])
  qed
qed (auto intro: exI [of _ 0])

lemma slide_recent: "slide now window ts pts = (t # ts', pts') \<Longrightarrow> \<not> now - t > window"
  by (induction now window ts pts rule: slide.induct) (auto split: if_splits)

section \<open>Zone lists\<close>

text \<open>Neither below 0 nor above 1: in the unit interval, or NaN.\<close>

definition unit_coord :: "f32 \<Rightarrow> bool" where
  "unit_coord x \<longleftrightarrow> \<not> x < 0 \<and> \<not> x > 1"

definition zone_ok :: "nat \<Rightarrow> zone_cfg \<Rightarrow> bool" where
  "zone_ok n z \<longleftrightarrow> zc_id z \<noteq> [] \<and> length (zc_id z) \<le> 32 \<and> 3 \<le> length (zc_poly z) \<and> length (zc_poly z) \<le> n \<and>
     (\<forall>(x, y) \<in> set (zc_poly z). unit_coord x \<and> unit_coord y)"

lemma fround_unit: "fround z 1 = (1 :: f32)" "fround z 1 = (1 :: f64)"
  by code_simp+

lemma unit_coord_num32:
  assumes "\<not> bad_coord c" shows "unit_coord (num32 c)"
proof (cases c)
  case (JInt i)
  with assms have b: "\<not> fl_of_int i < (0 :: f64)" "\<not> fl_of_int i > (1 :: f64)" by (auto simp: bad_coord_def)
  have "\<not> i < 0"
  proof
    assume "i < 0"
    then have "fround False (of_int i) \<le> (fround True (- 1) :: f64)" by (intro fround_mono) simp
    moreover have "fround True (- 1) < (0 :: f64)" by code_simp
    ultimately show False using b(1) fl_le_less_trans by (auto simp: fl_of_int_def)
  qed
  moreover have "\<not> i > 1"
  proof
    assume "i > 1"
    then have "(fround True 2 :: f64) \<le> fround False (of_int i)" by (intro fround_mono) simp
    moreover have "(1 :: f64) < fround True 2" by code_simp
    ultimately show False using b(2) fl_less_le_trans by (auto simp: fl_of_int_def)
  qed
  ultimately have "i = 0 \<or> i = 1" by auto
  then show ?thesis using JInt by (auto simp: unit_coord_def fl_of_int_def fround_unit zero_fl_def one_fl_def)
next
  case (JNum x)
  with assms have b: "\<not> x < 0" "\<not> x > 1" by (auto simp: bad_coord_def)
  have "\<not> (fround False q :: f32) < 0 \<and> \<not> (fround False q :: f32) > 1" if "0 \<le> q" "q \<le> 1" for q
  proof -
    have "(fround False 0 :: f32) \<le> fround False q" by (rule fround_mono [OF that(1)])
    moreover have "(fround False q :: f32) \<le> fround False 1" by (rule fround_mono [OF that(2)])
    moreover have "(fround False 0 :: f32) = 0" by (simp add: zero_fl_def)
    ultimately show ?thesis unfolding fround_unit using fl_not_less fl_le_not_nan by metis
  qed
  then show ?thesis using b JNum
    by (cases x) (auto simp: unit_coord_def zero_fl_def one_fl_def not_less)
qed (use assms in \<open>auto simp: bad_coord_def\<close>)

lemma parse_vertex_unit: "parse_vertex who p ps = Returned v \<Longrightarrow> unit_coord (fst v) \<and> unit_coord (snd v)"
  by (auto simp: parse_vertex_def outcome_elims Let_def unit_coord_num32)

lemma parse_zone_ok:
  assumes "parse_zone who n txt zj zs = Returned z"
  shows "zone_ok n z \<and> zc_id z \<notin> zc_id ` set zs"
proof -
  from assms obtain poly where p: "collect (parse_vertex who) (elements poly) [] = Returned (zc_poly z)"
    and z: "zc_id z \<noteq> []" "length (zc_id z) \<le> 32" "3 \<le> length (elements poly)" "length (elements poly) \<le> n"
      "zc_id z \<notin> zc_id ` set zs"
    by (fastforce simp: parse_zone_def outcome_elims list_ex_iff)
  have "\<forall>v \<in> set (zc_poly z). unit_coord (fst v) \<and> unit_coord (snd v)"
    by (rule collect_all [OF p]) (auto dest: parse_vertex_unit)
  with z collect_length [OF p] show ?thesis by (auto simp: zone_ok_def)
qed

lemma collect_zones_ok:
  assumes "collect (parse_zone who n txt) zjs [] = Returned zs"
  shows "length zs = length zjs \<and> distinct (map zc_id zs) \<and> (\<forall>z \<in> set zs. zone_ok n z)"
  using collect_length [OF assms] collect_distinct [OF assms, of zc_id] collect_all [OF assms, of "zone_ok n"]
    parse_zone_ok by fastforce

lemma parse_zones_ok:
  "parse_zones j who = Returned zs \<Longrightarrow> length zs \<le> 64 \<and> distinct (map zc_id zs) \<and> (\<forall>z \<in> set zs. zone_ok 64 z)"
  by (auto simp: parse_zones_def outcome_elims split: option.splits if_splits dest!: collect_zones_ok)

section \<open>Concrete inputs\<close>

text \<open>A unit picture, a track at a point, and a list with one square zone in the middle.\<close>

definition demo_frame :: "f64 \<Rightarrow> frame_meta" where
  "demo_frame t = \<lparr>fm_stream_index = 0, fm_seq = 0, fm_wall_ms = 0, fm_t_mono_s = t,
     fm_geom = no_geom\<lparr>lg_src_w := 1, lg_src_h := 1, lg_model_w := 1, lg_model_h := 1, lg_scale := 1\<rparr>\<rparr>"

definition demo_track :: "u32 \<Rightarrow> rat \<Rightarrow> rat \<Rightarrow> track" where
  "demo_track i x y = \<lparr>trk_id = i, trk_det = no_detection\<lparr>d_cx := lit x, d_cy := lit y\<rparr>, trk_kpts = [],
     trk_vx = 0, trk_vy = 0, trk_hits = 1, trk_misses = 0, trk_first_seen_s = 0, trk_last_seen_s = 0\<rparr>"

definition demo_zones :: json where
  "demo_zones = JArr [JObj [(''id'', JStr ''z''), (''polygon'', JArr
     [JArr [JNum (lit (1/4)), JNum (lit (1/4))], JArr [JNum (lit (3/4)), JNum (lit (1/4))],
      JArr [JNum (lit (3/4)), JNum (lit (3/4))], JArr [JNum (lit (1/4)), JNum (lit (3/4))]])]]"

end
