(* ===== verification/Zone_Analyzer.thy ===== *)
theory Zone_Analyzer
  imports Motion_Facts
begin

text \<open>
  \<open>core-cpp/vb/src/analyzers/zone.cpp\<close>: entering, leaving and staying in zones. For every zone the
  analyzer keeps a map from track ids to the state of the stay.
\<close>

section \<open>State and configuration\<close>

record za_config =
  za_zones :: "zone_cfg list"
  za_min_dwell_s :: f64
  za_classes :: "int list"

record zstate =
  zs_inside :: bool
  zs_entered_at :: f64
  zs_dwell_fired :: bool
  zs_class_id :: int
  zs_score :: f32

definition new_zstate :: zstate where
  "new_zstate = \<lparr>zs_inside = False, zs_entered_at = 0, zs_dwell_fired = False, zs_class_id = 0, zs_score = 0\<rparr>"

record zone_analyzer =
  za_cfg :: za_config
  za_st :: "(u32, zstate) omap list"

definition new_zone_analyzer :: zone_analyzer where
  "new_zone_analyzer = \<lparr>za_cfg = \<lparr>za_zones = [], za_min_dwell_s = 0, za_classes = []\<rparr>, za_st = []\<rparr>"

text \<open>A missing \<open>min_dwell_s\<close> keeps the default; a null one is refused.\<close>

definition zone_min_dwell :: "json \<Rightarrow> f64 outcome" where
  "zone_min_dwell j =
    (case json_find ''min_dwell_s'' j of
       None \<Rightarrow> Returned 0
     | Some v \<Rightarrow> if \<not> is_number v \<or> num64 v < 0 then Refused ''zone: min_dwell_s must be >= 0''
                 else Returned (num64 v))"

definition zone_parse_cfg :: "json \<Rightarrow> za_config outcome" where
  "zone_parse_cfg j =
    and_then (check (is_object j) ''zone: config must be an object'') (\<lambda>_.
    and_then (case json_find ''zones'' j of
        None \<Rightarrow> Refused ''zone: zones must be a non-empty array (1..64)''
      | Some zs \<Rightarrow>
          and_then (check (is_array zs \<and> elements zs \<noteq> [] \<and> length (elements zs) \<le> 64)
            ''zone: zones must be a non-empty array (1..64)'')
            (\<lambda>_. collect (parse_zone ''zone'' 16 ''3..16'') (elements zs) [])) (\<lambda>zones.
    and_then (zone_min_dwell j) (\<lambda>dwell.
    and_then (parse_classes j ''zone'') (\<lambda>classes.
    Returned \<lparr>za_zones = zones, za_min_dwell_s = dwell, za_classes = classes\<rparr>))))"

definition zone_install :: "za_config \<Rightarrow> zone_analyzer \<Rightarrow> zone_analyzer" where
  "zone_install c a = a\<lparr>za_cfg := c, za_st := replicate (length (za_zones c)) []\<rparr>"

definition zone_configure :: "(string \<Rightarrow> string + json) \<Rightarrow> string \<Rightarrow> zone_analyzer \<Rightarrow> zone_analyzer \<times> unit outcome" where
  "zone_configure parse text =
     reconfigure zone_install (and_then (parse_text parse ''zone'' text) zone_parse_cfg)"

section \<open>One frame\<close>

definition zone_event :: "string \<Rightarrow> string \<Rightarrow> u32 \<Rightarrow> int \<Rightarrow> f32 \<Rightarrow> f64 \<Rightarrow> analyzer_event" where
  "zone_event ty zid tid cls sc dwell =
    emit_event ty tid (json_obj ([(''zone_id'', JStr zid), (''class_id'', JInt cls), (''score'', json_of_f32 sc)] @
      (if dwell \<ge> 0 then [(''dwell_s'', JNum dwell)] else [])))"

definition zone_step :: "f64 \<Rightarrow> string \<Rightarrow> track \<Rightarrow> bool \<Rightarrow> f64 \<Rightarrow> zstate \<Rightarrow> zstate \<times> analyzer_event list" where
  "zone_step min_dwell zid tr inside now s0 =
    (let d = trk_det tr;
         s1 = s0\<lparr>zs_class_id := d_class_id d, zs_score := d_score d\<rparr>;
         ev = (\<lambda>ty dwell. zone_event ty zid (trk_id tr) (d_class_id d) (d_score d) dwell);
         (s2, out) =
           (if inside \<and> \<not> zs_inside s1 then
              (s1\<lparr>zs_inside := True, zs_entered_at := now, zs_dwell_fired := False\<rparr>, [ev ''zone_enter'' (- 1)])
            else if zs_inside s1 \<and> \<not> inside then
              (s1\<lparr>zs_inside := False\<rparr>, [ev ''zone_exit'' (now - zs_entered_at s1)])
            else (s1, []))
     in if zs_inside s2 then
          let dwell = now - zs_entered_at s2
          in if \<not> zs_dwell_fired s2 \<and> min_dwell > 0 \<and> dwell \<ge> min_dwell
             then (s2\<lparr>zs_dwell_fired := True\<rparr>, out @ [ev ''zone_dwell'' dwell])
             else (s2, out)
        else (s2, out))"

definition zstate_of :: "u32 \<Rightarrow> (u32, zstate) omap \<Rightarrow> zstate" where
  "zstate_of i m = (case om_find i m of None \<Rightarrow> new_zstate | Some s \<Rightarrow> s)"

definition zone_at :: "frame_meta \<Rightarrow> track \<Rightarrow> f32 \<times> f32 \<Rightarrow> nat \<Rightarrow> zone_analyzer \<Rightarrow> zone_analyzer \<times> analyzer_event list" where
  "zone_at m tr p zi a =
    (let z = za_zones (za_cfg a) ! zi; st = za_st a ! zi;
         (s, es) = zone_step (za_min_dwell_s (za_cfg a)) (zc_id z) tr
           (vb_point_in_polygon (fst p) (snd p) (zc_poly z)) (fm_t_mono_s m) (zstate_of (trk_id tr) st)
     in (a\<lparr>za_st := (za_st a)[zi := om_put (trk_id tr) s st]\<rparr>, es))"

definition zone_track :: "frame_meta \<Rightarrow> track \<Rightarrow> zone_analyzer \<Rightarrow> zone_analyzer \<times> analyzer_event list" where
  "zone_track m tr a =
    (let d = trk_det tr in
     if za_classes (za_cfg a) \<noteq> [] \<and> d_class_id d \<notin> set (za_classes (za_cfg a)) then (a, [])
     else
       let p = to_source_norm (fm_geom m) (d_cx d) (d_cy d + d_h d * lit (1/2))
       in steps (zone_at m tr p) [0..<length (za_zones (za_cfg a))] a)"

definition zone_on_frame :: "frame_meta \<Rightarrow> track list \<Rightarrow> zone_analyzer \<Rightarrow> zone_analyzer \<times> analyzer_event list" where
  "zone_on_frame m tracks = steps (zone_track m) tracks"

section \<open>Removal\<close>

definition zone_remove_at :: "u32 \<Rightarrow> f64 \<Rightarrow> nat \<Rightarrow> zone_analyzer \<Rightarrow> zone_analyzer \<times> analyzer_event list" where
  "zone_remove_at tid t zi a =
    (case om_find tid (za_st a ! zi) of
       None \<Rightarrow> (a, [])
     | Some s \<Rightarrow>
        (a\<lparr>za_st := (za_st a)[zi := om_del tid (za_st a ! zi)]\<rparr>,
         if zs_inside s then
           [emit_event ''zone_exit'' tid (json_obj
             [(''zone_id'', JStr (zc_id (za_zones (za_cfg a) ! zi))), (''dwell_s'', JNum (t - zs_entered_at s)),
              (''class_id'', JInt (zs_class_id s)), (''score'', json_of_f32 (zs_score s))])]
         else []))"

definition zone_on_removed :: "u32 \<Rightarrow> f64 \<Rightarrow> zone_analyzer \<Rightarrow> zone_analyzer \<times> analyzer_event list" where
  "zone_on_removed tid t a = steps (zone_remove_at tid t) [0..<length (za_zones (za_cfg a))] a"

end
