(* ===== verification/Zone_Facts.thy ===== *)
theory Zone_Facts
  imports Zone_Analyzer
begin

text \<open>
  The zone analyzer keeps the analyzer contract, and per track and zone its events follow the
  machine enter, at most one dwell, exit.
\<close>

section \<open>One step\<close>

datatype zone_mode = Outside | Inside bool

fun zone_delta :: "zone_mode \<Rightarrow> string \<Rightarrow> zone_mode option" where
  "zone_delta Outside l = (if l = ''zone_enter'' then Some (Inside False) else None)"
| "zone_delta (Inside fired) l =
    (if l = ''zone_exit'' then Some Outside
     else if l = ''zone_dwell'' \<and> \<not> fired then Some (Inside True) else None)"

definition zmode :: "zstate \<Rightarrow> zone_mode" where
  "zmode s = (if zs_inside s then Inside (zs_dwell_fired s) else Outside)"

definition zone_label :: "za_config \<Rightarrow> u32 \<times> nat \<Rightarrow> analyzer_event \<Rightarrow> string option" where
  "zone_label c k e =
    (if ae_track_id e = fst k \<and> snd k < length (za_zones c) \<and>
        json_find ''zone_id'' (ae_fields e) = Some (JStr (zc_id (za_zones c ! snd k)))
     then Some (ae_type e) else None)"

definition zone_key_mode :: "u32 \<times> nat \<Rightarrow> zone_analyzer \<Rightarrow> zone_mode" where
  "zone_key_mode k a = (if snd k < length (za_st a) then zmode (zstate_of (fst k) (za_st a ! snd k)) else Outside)"

definition za_ok :: "za_config \<Rightarrow> zone_analyzer \<Rightarrow> bool" where
  "za_ok c a \<longleftrightarrow> za_cfg a = c \<and> length (za_st a) = length (za_zones c) \<and> distinct (map zc_id (za_zones c)) \<and>
     (\<forall>m \<in> set (za_st a). om_ok m)"

definition za_ids :: "zone_analyzer \<Rightarrow> u32 set" where
  "za_ids a = (\<Union>m \<in> set (za_st a). fst ` set m)"

lemma zone_event_simps [simp]:
  "ae_track_id (zone_event ty zid i c s d) = i" "ae_type (zone_event ty zid i c s d) = ty"
  "json_find ''zone_id'' (ae_fields (zone_event ty zid i c s d)) = Some (JStr zid)"
  by (auto simp: zone_event_def)

lemma zone_step_machine:
  "zone_step md zid tr b now s = (s', es) \<Longrightarrow>
     accepts zone_delta (zmode s) (map ae_type es) = Some (zmode s') \<and>
     (\<forall>e \<in> set es. ae_track_id e = trk_id tr \<and> json_find ''zone_id'' (ae_fields e) = Some (JStr zid))"
  by (auto simp: zone_step_def Let_def zmode_def split: if_splits)

lemma zone_ids_inj: "za_ok c a \<Longrightarrow> i < length (za_zones c) \<Longrightarrow> j < length (za_zones c) \<Longrightarrow>
   zc_id (za_zones c ! i) = zc_id (za_zones c ! j) \<Longrightarrow> i = j"
  unfolding za_ok_def by (metis distinct_conv_nth length_map nth_map)

lemma za_ok_update: "za_ok c a \<Longrightarrow> om_ok m \<Longrightarrow> za_ok c (a\<lparr>za_st := (za_st a)[i := m]\<rparr>)"
  by (auto simp: za_ok_def dest!: subsetD [OF set_update_subset_insert])

lemma zone_at_ok: "za_ok c a \<Longrightarrow> zi < length (za_zones c) \<Longrightarrow> za_ok c (fst (zone_at m tr p zi a))"
  by (auto simp: zone_at_def Let_def case_prod_beta intro!: za_ok_update om_ok_put) (auto simp: za_ok_def)

lemma zone_at_machine:
  assumes "za_ok c a" "zi < length (za_zones c)"
  shows "accepts zone_delta (zone_key_mode k a) (labels (zone_label c) k (snd (zone_at m tr p zi a))) =
    Some (zone_key_mode k (fst (zone_at m tr p zi a)))"
proof -
  define s where "s = zstate_of (trk_id tr) (za_st a ! zi)"
  define zid where "zid = zc_id (za_zones c ! zi)"
  obtain s' es where st: "zone_step (za_min_dwell_s c) zid tr
      (vb_point_in_polygon (fst p) (snd p) (zc_poly (za_zones c ! zi))) (fm_t_mono_s m) s = (s', es)" by force
  note mach = zone_step_machine [OF st]
  have len: "length (za_st a) = length (za_zones c)" and cfg: "za_cfg a = c" using assms(1) by (auto simp: za_ok_def)
  have at: "zone_at m tr p zi a = (a\<lparr>za_st := (za_st a)[zi := om_put (trk_id tr) s' (za_st a ! zi)]\<rparr>, es)"
    using st by (simp add: zone_at_def Let_def cfg s_def zid_def)
  show ?thesis
  proof (cases "k = (trk_id tr, zi)")
    case True
    with mach assms(2) have "labels (zone_label c) k es = map ae_type es"
      by (intro labels_all) (auto simp: zone_label_def zid_def)
    with mach at True len assms(2) show ?thesis
      by (simp add: zone_key_mode_def s_def zstate_of_def)
  next
    case False
    have "labels (zone_label c) k es = []"
      by (rule labels_none)
        (use mach False zone_ids_inj [OF assms(1) _ assms(2)] in \<open>auto simp: zone_label_def zid_def prod_eq_iff\<close>)
    with at False len assms(2) show ?thesis
      by (auto simp: zone_key_mode_def zstate_of_def nth_list_update prod_eq_iff)
  qed
qed

lemma zone_remove_at_ok: "za_ok c a \<Longrightarrow> zi < length (za_zones c) \<Longrightarrow> za_ok c (fst (zone_remove_at i t zi a))"
  by (auto simp: zone_remove_at_def split: option.split intro!: za_ok_update om_ok_del) (auto simp: za_ok_def)

lemma zone_remove_at_machine:
  assumes "za_ok c a" "zi < length (za_zones c)"
  shows "accepts zone_delta (zone_key_mode k a) (labels (zone_label c) k (snd (zone_remove_at i t zi a))) =
    Some (zone_key_mode k (fst (zone_remove_at i t zi a))) \<and>
    (k = (i, zi) \<longrightarrow> zone_key_mode k (fst (zone_remove_at i t zi a)) = Outside)"
proof (cases "om_find i (za_st a ! zi)")
  case None
  with assms show ?thesis
    by (auto simp: zone_remove_at_def zone_key_mode_def zstate_of_def zmode_def new_zstate_def)
next
  case (Some s)
  have len: "length (za_st a) = length (za_zones c)" and cfg: "za_cfg a = c" and
    m: "om_ok (za_st a ! zi)" using assms by (auto simp: za_ok_def)
  show ?thesis
  proof (cases "k = (i, zi)")
    case True
    with Some len assms m show ?thesis
      by (auto simp: zone_remove_at_def zone_key_mode_def zstate_of_def zmode_def new_zstate_def om_find_del
          zone_label_def cfg)
  next
    case False
    have "zc_id (za_zones c ! zi) \<noteq> zc_id (za_zones c ! snd k)" if "snd k < length (za_zones c)" "fst k = i"
      using zone_ids_inj [OF assms(1) assms(2) that(1)] that False by (auto simp: prod_eq_iff)
    with Some len assms m False show ?thesis
      by (auto simp: zone_remove_at_def zone_key_mode_def zstate_of_def om_find_del zone_label_def cfg
          nth_list_update prod_eq_iff)
  qed
qed

section \<open>Frames and removals\<close>

lemma za_ok_cfg: "za_ok c a \<Longrightarrow> za_cfg a = c"
  by (simp add: za_ok_def)

lemma zone_loop:
  assumes "za_ok c a"
  shows "za_ok c (fst (steps (zone_at m tr p) [0..<length (za_zones c)] a))"
    and "accepts zone_delta (zone_key_mode k a) (labels (zone_label c) k (snd (steps (zone_at m tr p) [0..<length (za_zones c)] a))) =
      Some (zone_key_mode k (fst (steps (zone_at m tr p) [0..<length (za_zones c)] a)))"
proof -
  show "za_ok c (fst (steps (zone_at m tr p) [0..<length (za_zones c)] a))"
    by (rule steps_invariant [where P = "za_ok c", OF assms]) (rule zone_at_ok, auto)
  show "accepts zone_delta (zone_key_mode k a) (labels (zone_label c) k (snd (steps (zone_at m tr p) [0..<length (za_zones c)] a))) =
      Some (zone_key_mode k (fst (steps (zone_at m tr p) [0..<length (za_zones c)] a)))"
    by (rule accepts_steps [where P = "za_ok c", OF assms]) (rule zone_at_ok zone_at_machine, auto)+
qed

lemma zone_track_ok: "za_ok c a \<Longrightarrow> za_ok c (fst (zone_track m tr a))"
  using zone_loop(1) by (simp add: zone_track_def Let_def za_ok_cfg)

lemma zone_track_machine:
  "za_ok c a \<Longrightarrow> accepts zone_delta (zone_key_mode k a) (labels (zone_label c) k (snd (zone_track m tr a))) =
    Some (zone_key_mode k (fst (zone_track m tr a)))"
  using zone_loop(2) by (simp add: zone_track_def Let_def za_ok_cfg)

lemma zone_at_ids:
  assumes "zi < length (za_st a)" shows "za_ids (fst (zone_at m tr p zi a)) \<subseteq> insert (trk_id tr) (za_ids a)"
proof -
  obtain s where s: "za_st (fst (zone_at m tr p zi a)) = (za_st a)[zi := om_put (trk_id tr) s (za_st a ! zi)]"
    by (simp add: zone_at_def Let_def case_prod_beta)
  have sub: "m' = om_put (trk_id tr) s (za_st a ! zi) \<or> m' \<in> set (za_st a)"
    if "m' \<in> set (za_st (fst (zone_at m tr p zi a)))" for m'
    using that set_update_subset_insert unfolding s by fastforce
  show ?thesis
  proof
    fix i assume "i \<in> za_ids (fst (zone_at m tr p zi a))"
    then obtain m' where m': "m' \<in> set (za_st (fst (zone_at m tr p zi a)))" "i \<in> fst ` set m'"
      unfolding za_ids_def by blast
    from sub [OF m'(1)] show "i \<in> insert (trk_id tr) (za_ids a)"
    proof
      assume "m' = om_put (trk_id tr) s (za_st a ! zi)"
      with m'(2) have "i = trk_id tr \<or> i \<in> fst ` set (za_st a ! zi)" by (simp add: fst_om_put)
      with nth_mem [OF assms] show ?thesis unfolding za_ids_def by blast
    next
      assume "m' \<in> set (za_st a)"
      with m'(2) show ?thesis unfolding za_ids_def by blast
    qed
  qed
qed

lemma zone_track_ids:
  assumes "za_ok c a" shows "za_ids (fst (zone_track m tr a)) \<subseteq> insert (trk_id tr) (za_ids a)"
proof -
  define P where "P b \<longleftrightarrow> za_ok c b \<and> za_ids b \<subseteq> insert (trk_id tr) (za_ids a)" for b
  have step: "P (fst (zone_at m tr p zi b))" if "zi \<in> set [0..<length (za_zones c)]" "P b" for p zi b
  proof -
    have b: "za_ok c b" "zi < length (za_zones c)" "zi < length (za_st b)" using that by (auto simp: P_def za_ok_def)
    have "za_ids (fst (zone_at m tr p zi b)) \<subseteq> insert (trk_id tr) (za_ids b)" by (rule zone_at_ids [OF b(3)])
    with that(2) zone_at_ok [OF b(1,2)] show ?thesis unfolding P_def by blast
  qed
  have "P (fst (steps (zone_at m tr p) [0..<length (za_zones c)] a))" for p
    by (rule steps_invariant [where P = P, OF _ step], simp add: P_def assms subset_insertI, assumption+)
  then show ?thesis unfolding P_def by (auto simp: zone_track_def Let_def za_ok_cfg [OF assms])
qed

lemma zone_on_removed_ids:
  assumes "za_ok c a" shows "za_ids (fst (zone_on_removed i t a)) = za_ids a - {i}"
proof -
  have rm: "za_st (fst (steps (zone_remove_at i t) [0..<n] a)) =
      map (\<lambda>j. if j < n then om_del i (za_st a ! j) else za_st a ! j) [0..<length (za_st a)]"
    if "n \<le> length (za_st a)" for n
    using that
  proof (induction n)
    case (Suc n)
    have nf: "om_find i m = None \<Longrightarrow> om_del i m = m" for m :: "(u32, zstate) omap"
      by (induction m) (auto split: if_splits)
    have *: "za_st (fst (zone_remove_at i t n b)) = (za_st b)[n := om_del i (za_st b ! n)]" for b
      using nf by (auto simp: zone_remove_at_def split: option.split)
    from Suc show ?case
      by (auto simp: steps_fst * intro!: nth_equalityI simp: nth_list_update)
  qed (simp add: map_nth)
  have "om_ok m" if "m \<in> set (za_st a)" for m using assms that by (simp add: za_ok_def)
  moreover have "za_st (fst (zone_on_removed i t a)) = map (om_del i) (za_st a)"
    using rm [of "length (za_st a)"] assms by (auto simp: zone_on_removed_def za_ok_def intro!: nth_equalityI)
  ultimately show ?thesis by (fastforce simp: za_ids_def set_om_del)
qed

lemma zone_on_removed_machine:
  assumes "za_ok c a"
  shows "accepts zone_delta (zone_key_mode k a) (labels (zone_label c) k (snd (zone_on_removed i t a))) =
      Some (zone_key_mode k (fst (zone_on_removed i t a)))" (is ?A)
    and "fst k = i \<Longrightarrow> zone_key_mode k (fst (zone_on_removed i t a)) = Outside"
proof -
  have cfg: "za_cfg a = c" using assms by (simp add: za_ok_def)
  show ?A unfolding zone_on_removed_def cfg
    by (rule accepts_steps [where P = "za_ok c", OF assms]) (simp_all add: zone_remove_at_ok zone_remove_at_machine)
  assume k: "fst k = i"
  have "om_find i m = None" if "m \<in> set (za_st (fst (zone_on_removed i t a)))" for m
  proof -
    have "i \<notin> fst ` set m" using zone_on_removed_ids [OF assms, of i t] that unfolding za_ids_def by blast
    then show ?thesis by (rule om_find_None)
  qed
  then show "zone_key_mode k (fst (zone_on_removed i t a)) = Outside"
    using k by (auto simp: zone_key_mode_def zstate_of_def zmode_def new_zstate_def)
qed

interpretation zone: closing_machine zone_on_frame zone_on_removed "za_ok c" za_ids
  zone_key_mode "\<lambda>_. zone_delta" Outside "zone_label c" "\<lambda>k. Some (fst k)" for c
proof
  fix a k m ts i t assume ok: "za_ok c a"
  show "za_ok c (fst (zone_on_frame m ts a))"
    unfolding zone_on_frame_def by (rule steps_invariant [where P = "za_ok c", OF ok]) (rule zone_track_ok)
  show "za_ok c (fst (zone_on_removed i t a))"
    unfolding zone_on_removed_def
    unfolding za_ok_cfg [OF ok] by (rule steps_invariant [where P = "za_ok c", OF ok]) (rule zone_remove_at_ok, auto)
  define P where "P b \<longleftrightarrow> za_ok c b \<and> za_ids b \<subseteq> za_ids a \<union> trk_id ` set ts" for b
  have step: "P (fst (zone_track m tr b))" if "tr \<in> set ts" "P b" for tr b
    using zone_track_ids [of c b m tr] zone_track_ok [of c b m tr] that unfolding P_def by blast
  have "P (fst (zone_on_frame m ts a))"
    unfolding zone_on_frame_def by (rule steps_invariant [where P = P, OF _ step], simp add: P_def ok, assumption+)
  then show "za_ids (fst (zone_on_frame m ts a)) \<subseteq> za_ids a \<union> trk_id ` set ts" by (simp add: P_def)
  show "za_ids (fst (zone_on_removed i t a)) = za_ids a - {i}" by (rule zone_on_removed_ids [OF ok])
  show "accepts zone_delta (zone_key_mode k a) (labels (zone_label c) k (snd (zone_on_frame m ts a))) =
      Some (zone_key_mode k (fst (zone_on_frame m ts a)))"
    unfolding zone_on_frame_def
    by (rule accepts_steps [where P = "za_ok c", OF ok]) (rule zone_track_ok zone_track_machine, assumption)+
  show "\<exists>q'. accepts zone_delta (zone_key_mode k a) (labels (zone_label c) k (snd (zone_on_removed i t a))) = Some q' \<and>
      zone_key_mode k (fst (zone_on_removed i t a)) = (if Some (fst k) = Some i then Outside else q')"
    using zone_on_removed_machine [OF ok, of k i t] by auto
  show "Some (fst k) = Some i \<Longrightarrow>
      accepts zone_delta (zone_key_mode k a) (labels (zone_label c) k (snd (zone_on_removed i t a))) = Some Outside"
    using zone_on_removed_machine [OF ok, of k i t] by simp
qed

section \<open>Properties\<close>

lemma zone_install_ok:
  assumes "zone_parse_cfg j = Returned c" shows "za_ok c (zone_install c a)" "\<forall>z \<in> set (za_zones c). zone_ok 16 z"
  using assms by (auto simp: zone_parse_cfg_def outcome_elims za_ok_def zone_install_def split: option.splits
      dest!: collect_zones_ok)

text \<open>C10: from a successful configuration on, whatever frames and removals follow, the events of a
  track in a zone are a sequence of stays: an enter, at most one dwell, an exit; and the last stay
  is open exactly when the analyzer holds the track inside.\<close>

theorem zone_stays:
  assumes "zone_configure parse text a0 = (a, Returned ())" "drive zone_on_frame zone_on_removed ins a = (a', trace)"
  shows "accepts zone_delta Outside (labels (zone_label (za_cfg a)) (tid, zi) (all_events trace)) =
    Some (zone_key_mode (tid, zi) a')"
proof -
  obtain c j where c: "zone_parse_cfg j = Returned c" "a = zone_install c a0"
    using reconfigure_done [of zone_install "and_then (parse_text parse ''zone'' text) zone_parse_cfg" a0] assms(1)
    by (auto simp: zone_configure_def outcome_elims)
  then have "za_ok c a" "za_cfg a = c" using zone_install_ok(1) by (auto simp: za_ok_def)
  moreover have "zone_key_mode (tid, zi) a = Outside"
    using c(2) by (simp add: zone_key_mode_def zone_install_def zstate_of_def zmode_def new_zstate_def)
  ultimately show ?thesis using zone.closed_run_accepted [of c a "(tid, zi)" ins] assms(2) by simp
qed

text \<open>A square in the middle of the picture; a track that enters it and is removed there.\<close>

definition zone_demo :: zone_analyzer where
  "zone_demo = fst (zone_configure (\<lambda>_. Inr (JObj [(''min_dwell_s'', JInt 2), (''zones'', demo_zones)])) [] new_zone_analyzer)"

definition zone_demo_inputs :: "input list" where
  "zone_demo_inputs = [Frame (demo_frame (lit 1)) [demo_track 7 (1/2) (1/2)],
     Frame (demo_frame (lit 4)) [demo_track 7 (1/2) (1/2)], Removal 7 (lit 9)]"

theorem zone_stays_witness:
  "let (a, trace) = drive zone_on_frame zone_on_removed zone_demo_inputs zone_demo in
   labels (zone_label (za_cfg zone_demo)) (7, 0) (all_events trace) = [''zone_enter'', ''zone_dwell'', ''zone_exit''] \<and>
   zone_key_mode (7, 0) a = Outside"
proof -
  let ?c = "zone_configure (\<lambda>_. Inr (JObj [(''min_dwell_s'', JInt 2), (''zones'', demo_zones)])) [] new_zone_analyzer"
  let ?d = "drive zone_on_frame zone_on_removed zone_demo_inputs zone_demo"
  have "snd ?c = Returned ()" by code_simp
  then have c: "?c = (zone_demo, Returned ())" by (metis prod.collapse zone_demo_def)
  have "labels (zone_label (za_cfg zone_demo)) (7, 0) (all_events (snd ?d)) =
      [''zone_enter'', ''zone_dwell'', ''zone_exit'']" by code_simp
  then show ?thesis using zone_stays [OF c, of zone_demo_inputs "fst ?d" "snd ?d" 7 0]
    by (simp add: case_prod_beta)
qed

end
