(* ===== verification/Dwell_Analyzer.thy ===== *)
theory Dwell_Analyzer
  imports Motion_Facts
begin

text \<open>
  \<open>core-cpp/vb/src/analyzers/dwell.cpp\<close>: loitering. A track that stays within a radius of the
  point where its stay began, in the same zone, starts to dwell after a time; leaving the zone,
  moving away or disappearing ends it. Its events per track alternate between start and end.
\<close>

section \<open>State and configuration\<close>

record da_config =
  da_radius :: f32
  da_min_dwell_s :: f64
  da_repeat_s :: f64
  da_zones :: "zone_cfg list"
  da_anchor :: string
  da_classes :: "int list"

definition default_da_config :: da_config where
  "default_da_config = \<lparr>da_radius = lit (3/100), da_min_dwell_s = lit 10, da_repeat_s = 0, da_zones = [],
     da_anchor = ''bottom_center'', da_classes = []\<rparr>"

record dwell_st =
  ds_hx :: f32
  ds_hy :: f32
  ds_sx :: f32
  ds_sy :: f32
  ds_t0 :: f64
  ds_active :: bool
  ds_last :: f64
  ds_zone :: string

record dwell_analyzer =
  da_cfg :: da_config
  da_st :: "(u32, dwell_st) omap"

definition new_dwell_analyzer :: dwell_analyzer where
  "new_dwell_analyzer = \<lparr>da_cfg = default_da_config, da_st = []\<rparr>"

definition dwell_parse_cfg :: "json \<Rightarrow> da_config outcome" where
  "dwell_parse_cfg j =
    and_then (check (is_object j) ''dwell: config must be an object'') (\<lambda>_.
    and_then (parse_zones j ''dwell'') (\<lambda>zones.
    and_then (parse_classes j ''dwell'') (\<lambda>classes.
    and_then (parse_anchor j ''dwell'') (\<lambda>anchor.
    and_then (opt_num ''radius'' (\<lambda>v. v \<le> 0) ''dwell: radius must be > 0'' num32 (da_radius default_da_config) j) (\<lambda>radius.
    and_then (opt_num ''min_dwell_s'' (\<lambda>v. v < 0) ''dwell: min_dwell_s must be >= 0'' num64 (da_min_dwell_s default_da_config) j) (\<lambda>dwell.
    and_then (opt_num ''repeat_s'' (\<lambda>v. v < 0) ''dwell: repeat_s must be >= 0'' num64 (da_repeat_s default_da_config) j) (\<lambda>repeat.
    Returned \<lparr>da_radius = radius, da_min_dwell_s = dwell, da_repeat_s = repeat, da_zones = zones,
      da_anchor = anchor, da_classes = classes\<rparr>)))))))"

definition dwell_install :: "da_config \<Rightarrow> dwell_analyzer \<Rightarrow> dwell_analyzer" where
  "dwell_install c a = a\<lparr>da_cfg := c, da_st := []\<rparr>"

definition dwell_configure :: "(string \<Rightarrow> string + json) \<Rightarrow> string \<Rightarrow> dwell_analyzer \<Rightarrow> dwell_analyzer \<times> unit outcome" where
  "dwell_configure parse text =
     reconfigure dwell_install (and_then (parse_text parse ''dwell'' text) dwell_parse_cfg)"

section \<open>One frame\<close>

definition dwell_event :: "string \<Rightarrow> track \<Rightarrow> dwell_st \<Rightarrow> f64 \<Rightarrow> string \<Rightarrow> analyzer_event" where
  "dwell_event ty tr s d zid =
     emit_event ty (trk_id tr) (json_obj
       [(''dwell_s'', JNum d), (''anchor'', JArr [json_of_f32 (ds_sx s), json_of_f32 (ds_sy s)]),
        (''zone_id'', JStr zid), (''class_id'', JInt (d_class_id (trk_det tr))),
        (''score'', json_of_f32 (d_score (trk_det tr)))])"

definition dwell_end_event :: "u32 \<Rightarrow> f64 \<Rightarrow> string \<Rightarrow> analyzer_event" where
  "dwell_end_event i d reason =
     emit_event ''dwell_end'' i (json_obj [(''dwell_s'', JNum d), (''reason'', JStr reason)])"

text \<open>The state a stay starts with.\<close>

definition dwell_begin :: "f32 \<times> f32 \<Rightarrow> f32 \<times> f32 \<Rightarrow> f64 \<Rightarrow> string \<Rightarrow> dwell_st" where
  "dwell_begin h p now zid =
    \<lparr>ds_hx = fst h, ds_hy = snd h, ds_sx = fst p, ds_sy = snd p, ds_t0 = now, ds_active = False,
     ds_last = 0, ds_zone = zid\<rparr>"

definition dwell_move :: "da_config \<Rightarrow> track \<Rightarrow> f32 \<times> f32 \<Rightarrow> f32 \<times> f32 \<Rightarrow> string \<Rightarrow> f64 \<Rightarrow> dwell_st \<Rightarrow>
    dwell_st \<times> analyzer_event list" where
  "dwell_move c tr h p zid now s =
    (let left = (da_zones c \<noteq> [] \<and> zid = []) \<or> zid \<noteq> ds_zone s;
         dx = fst h - ds_hx s; dy = snd h - ds_hy s;
         ended = (\<lambda>reason. if ds_active s then [dwell_end_event (trk_id tr) (now - ds_t0 s) reason] else []);
         d = now - ds_t0 s
     in if left then (dwell_begin h p now zid, ended ''left_zone'')
        else if fsqrt (dx * dx + dy * dy) > da_radius c then (dwell_begin h p now zid, ended ''moved'')
        else if \<not> ds_active s \<and> d \<ge> da_min_dwell_s c then
          (let s' = s\<lparr>ds_active := True, ds_last := now\<rparr> in (s', [dwell_event ''dwell_start'' tr s' d zid]))
        else if ds_active s \<and> da_repeat_s c > 0 \<and> now - ds_last s \<ge> da_repeat_s c then
          (let s' = s\<lparr>ds_last := now\<rparr> in (s', [dwell_event ''dwell_update'' tr s' d zid]))
        else (s, []))"

definition dwell_track :: "frame_meta \<Rightarrow> track \<Rightarrow> dwell_analyzer \<Rightarrow> dwell_analyzer \<times> analyzer_event list" where
  "dwell_track m tr a =
    (let c = da_cfg a; now = fm_t_mono_s m in
     if trk_misses tr \<noteq> 0 \<or> \<not> class_ok (da_classes c) (d_class_id (trk_det tr)) then (a, [])
     else
       let p = anchor_point tr (fm_geom m) (da_anchor c);
           zid = zone_id_of (da_zones c) (fst p) (snd p);
           h = to_h (fm_geom m) p;
           (s, es) = (case om_find (trk_id tr) (da_st a) of
               None \<Rightarrow> (dwell_begin h p now zid, [])
             | Some s \<Rightarrow> dwell_move c tr h p zid now s)
       in (a\<lparr>da_st := om_put (trk_id tr) s (da_st a)\<rparr>, es))"

definition dwell_on_frame :: "frame_meta \<Rightarrow> track list \<Rightarrow> dwell_analyzer \<Rightarrow> dwell_analyzer \<times> analyzer_event list" where
  "dwell_on_frame m tracks = steps (dwell_track m) tracks"

definition dwell_on_removed :: "u32 \<Rightarrow> f64 \<Rightarrow> dwell_analyzer \<Rightarrow> dwell_analyzer \<times> analyzer_event list" where
  "dwell_on_removed tid t a =
    (case om_find tid (da_st a) of
       None \<Rightarrow> (a, [])
     | Some s \<Rightarrow>
        (a\<lparr>da_st := om_del tid (da_st a)\<rparr>,
         if ds_active s then [dwell_end_event tid (t - ds_t0 s) ''lost''] else []))"

section \<open>Start and end alternate\<close>

fun dwell_delta :: "bool \<Rightarrow> string \<Rightarrow> bool option" where
  "dwell_delta False l = (if l = ''dwell_start'' then Some True else None)"
| "dwell_delta True l =
    (if l = ''dwell_end'' then Some False else if l = ''dwell_update'' then Some True else None)"

definition dwell_mode :: "dwell_st option \<Rightarrow> bool" where
  "dwell_mode s = (case s of None \<Rightarrow> False | Some s \<Rightarrow> ds_active s)"

lemma dwell_move_machine:
  "dwell_move c tr h p zid now s = (s', es) \<Longrightarrow>
     accepts dwell_delta (ds_active s) (map ae_type es) = Some (ds_active s') \<and>
     (\<forall>e \<in> set es. ae_track_id e = trk_id tr)"
  by (auto simp: dwell_move_def Let_def dwell_begin_def dwell_end_event_def dwell_event_def split: if_splits)

interpretation dwell: closing_track_map dwell_on_frame dwell_on_removed dwell_track "\<lambda>a. om_ok (da_st a)" da_st dwell_mode dwell_delta
proof
  fix a m ts tr i t e
  show "dwell_on_frame m ts a = steps (dwell_track m) ts a" by (simp add: dwell_on_frame_def)
  show "om_ok (da_st a) \<Longrightarrow> om_ok (da_st a)" .
  show "om_ok (da_st a) \<Longrightarrow> om_ok (da_st (fst (dwell_on_removed i t a)))"
    by (auto simp: dwell_on_removed_def om_ok_del split: option.split)
  show "om_ok (da_st a) \<Longrightarrow> om_ok (da_st (fst (dwell_track m tr a)))"
    by (auto simp: dwell_track_def Let_def case_prod_beta om_ok_put)
  show "i \<noteq> trk_id tr \<Longrightarrow> om_find i (da_st (fst (dwell_track m tr a))) = om_find i (da_st a)"
    by (auto simp: dwell_track_def Let_def case_prod_beta)
  show "e \<in> set (snd (dwell_track m tr a)) \<Longrightarrow> ae_track_id e = trk_id tr"
    by (auto simp: dwell_track_def Let_def split: prod.splits option.splits if_splits dest: dwell_move_machine)
  show "accepts dwell_delta (dwell_mode (om_find (trk_id tr) (da_st a))) (map ae_type (snd (dwell_track m tr a))) =
      Some (dwell_mode (om_find (trk_id tr) (da_st (fst (dwell_track m tr a)))))"
    by (auto simp: dwell_track_def Let_def dwell_mode_def dwell_begin_def
        split: prod.splits option.splits dest: dwell_move_machine)
  show "da_st (fst (dwell_on_removed i t a)) = om_del i (da_st a)"
    by (auto simp: dwell_on_removed_def om_del_absent split: option.splits)
  show "e \<in> set (snd (dwell_on_removed i t a)) \<Longrightarrow> ae_track_id e = i"
    by (auto simp: dwell_on_removed_def dwell_end_event_def split: option.splits if_splits)
  show "accepts dwell_delta (dwell_mode (om_find i (da_st a))) (map ae_type (snd (dwell_on_removed i t a))) =
      Some (dwell_mode None)"
    by (auto simp: dwell_on_removed_def dwell_end_event_def dwell_mode_def split: option.splits)
  then show "\<exists>q'. accepts dwell_delta (dwell_mode (om_find i (da_st a))) (map ae_type (snd (dwell_on_removed i t a))) = Some q'"
    by blast
qed

text \<open>From a successful configuration on, the dwell events of a track alternate between a start
  and an end, with updates only in between, and the removal of the track ends an open dwell.\<close>

theorem dwell_alternates:
  assumes "dwell_configure parse text a0 = (a, Returned ())" "drive dwell_on_frame dwell_on_removed ins a = (a', trace)"
  shows "accepts dwell_delta False (labels track_label tid (all_events trace)) =
      Some (dwell_mode (om_find tid (da_st a'))) \<and>
    \<not> dwell_mode (om_find tid (da_st (fst (dwell_on_removed tid t a'))))"
proof -
  have st: "da_st a = []"
    using reconfigure_done [of dwell_install "and_then (parse_text parse ''dwell'' text) dwell_parse_cfg" a0] assms(1)
    by (auto simp: dwell_configure_def dwell_install_def)
  have "om_ok (da_st a')" using dwell.drive_ok [of a ins] st assms(2) by simp
  then have "om_find tid (da_st (fst (dwell_on_removed tid t a'))) = None"
    by (simp add: dwell.removed_map om_find_del)
  moreover have "accepts dwell_delta False (labels track_label tid (all_events trace)) =
      Some (dwell_mode (om_find tid (da_st a')))"
    using dwell.closed_run_accepted [of a tid ins] st assms(2) by (simp add: dwell_mode_def)
  ultimately show ?thesis by (simp add: dwell_mode_def)
qed

definition dwell_demo :: dwell_analyzer where
  "dwell_demo = fst (dwell_configure (\<lambda>_. Inr (JObj [(''min_dwell_s'', JInt 2)])) [] new_dwell_analyzer)"

definition dwell_demo_inputs :: "input list" where
  "dwell_demo_inputs = [Frame (demo_frame (lit 1)) [demo_track 7 (1/2) (1/2)],
     Frame (demo_frame (lit 4)) [demo_track 7 (1/2) (1/2)], Removal 7 (lit 9)]"

theorem dwell_alternates_witness:
  "let (a, trace) = drive dwell_on_frame dwell_on_removed dwell_demo_inputs dwell_demo in
   labels track_label 7 (all_events trace) = [''dwell_start'', ''dwell_end''] \<and> \<not> dwell_mode (om_find 7 (da_st a))"
proof -
  let ?c = "dwell_configure (\<lambda>_. Inr (JObj [(''min_dwell_s'', JInt 2)])) [] new_dwell_analyzer"
  let ?d = "drive dwell_on_frame dwell_on_removed dwell_demo_inputs dwell_demo"
  have "snd ?c = Returned ()" by code_simp
  then have c: "?c = (dwell_demo, Returned ())" by (metis prod.collapse dwell_demo_def)
  have "labels track_label 7 (all_events (snd ?d)) = [''dwell_start'', ''dwell_end'']" by code_simp
  then show ?thesis using dwell_alternates [OF c, of dwell_demo_inputs "fst ?d" "snd ?d" 7 0]
    by (simp add: case_prod_beta)
qed

end
