(* ===== verification/Direction_Analyzer.thy ===== *)
theory Direction_Analyzer
  imports Motion_Facts
begin

text \<open>
  \<open>core-cpp/vb/src/analyzers/direction.cpp\<close>: wrong-way detection over a sliding window of anchor
  points. \<open>std::atan2\<close> of the platform's math library is a parameter. The events of a track
  alternate between \<open>wrong_way\<close> and \<open>wrong_way_end\<close>.
\<close>

section \<open>State and configuration\<close>

record di_config =
  di_expected_deg :: f32
  di_tolerance_deg :: f32
  di_min_travel :: f32
  di_window_s :: f64
  di_hold_s :: f64
  di_zones :: "zone_cfg list"
  di_anchor :: string
  di_classes :: "int list"

definition default_di_config :: di_config where
  "default_di_config = \<lparr>di_expected_deg = lit 90, di_tolerance_deg = lit 60, di_min_travel = lit (5/100),
     di_window_s = lit (15/10), di_hold_s = lit (5/10), di_zones = [], di_anchor = ''bottom_center'', di_classes = []\<rparr>"

record di_hist =
  dh_ts :: "f64 list"
  dh_pts :: "point list"
  dh_deb :: debounce
  dh_wrong :: bool
  dh_since :: f64

definition new_di_hist :: di_hist where
  "new_di_hist = \<lparr>dh_ts = [], dh_pts = [], dh_deb = new_debounce ''ok'', dh_wrong = False, dh_since = 0\<rparr>"

record direction_analyzer =
  di_cfg :: di_config
  di_map :: "(u32, di_hist) omap"

definition new_direction_analyzer :: direction_analyzer where
  "new_direction_analyzer = \<lparr>di_cfg = default_di_config, di_map = []\<rparr>"

definition direction_parse_cfg :: "json \<Rightarrow> di_config outcome" where
  "direction_parse_cfg j =
    (let c = default_di_config in
    and_then (check (is_object j) ''direction: config must be an object'') (\<lambda>_.
    and_then (parse_zones j ''direction'') (\<lambda>zones.
    and_then (parse_classes j ''direction'') (\<lambda>classes.
    and_then (parse_anchor j ''direction'') (\<lambda>anchor.
    and_then (opt_num ''expected_deg'' (\<lambda>v. False) ''direction: expected_deg must be a number'' num32 (di_expected_deg c) j) (\<lambda>expected.
    and_then (opt_num ''tolerance_deg'' (\<lambda>v. v < 0 \<or> v > lit 180) ''direction: tolerance_deg must be in [0,180]'' num32 (di_tolerance_deg c) j) (\<lambda>tolerance.
    and_then (opt_num ''min_travel'' (\<lambda>v. v < 0) ''direction: min_travel must be >= 0'' num32 (di_min_travel c) j) (\<lambda>travel.
    and_then (opt_num ''window_s'' (\<lambda>v. v \<le> 0) ''direction: window_s must be > 0'' num64 (di_window_s c) j) (\<lambda>window.
    and_then (opt_num ''hold_s'' (\<lambda>v. v < 0) ''direction: hold_s must be >= 0'' num64 (di_hold_s c) j) (\<lambda>hold.
    Returned \<lparr>di_expected_deg = expected, di_tolerance_deg = tolerance, di_min_travel = travel,
      di_window_s = window, di_hold_s = hold, di_zones = zones, di_anchor = anchor, di_classes = classes\<rparr>))))))))))"

definition direction_install :: "di_config \<Rightarrow> direction_analyzer \<Rightarrow> direction_analyzer" where
  "direction_install c a = a\<lparr>di_cfg := c, di_map := []\<rparr>"

definition direction_configure ::
  "(string \<Rightarrow> string + json) \<Rightarrow> string \<Rightarrow> direction_analyzer \<Rightarrow> direction_analyzer \<times> unit outcome" where
  "direction_configure parse text =
     reconfigure direction_install (and_then (parse_text parse ''direction'' text) direction_parse_cfg)"

section \<open>One frame\<close>

text \<open>The judgement on a window: nothing when it is too short or the travel too small, otherwise
  the angle, its difference from the expected one, the travel and the raw state.\<close>

definition direction_judge :: "(f64 \<Rightarrow> f64 \<Rightarrow> f64) \<Rightarrow> di_config \<Rightarrow> f64 list \<Rightarrow> point list \<Rightarrow>
    (f64 \<times> f64 \<times> f64 \<times> string) option" where
  "direction_judge atan2 c ts pts =
    (if length ts < 2 then None
     else if last ts - hd ts < lit (1/2) * di_window_s c then None
     else
       let vx = fconv (fst (last pts)) - fconv (fst (hd pts)) :: f64;
           vy = fconv (snd (last pts)) - fconv (snd (hd pts)) :: f64;
           travel = fsqrt (vx * vx + vy * vy)
       in if travel < fconv (di_min_travel c) then None
          else
            let ang = wrap_deg (atan2 vy vx * lit 180 / m_pi);
                diff = ang_diff ang (fconv (di_expected_deg c))
            in Some (ang, diff, travel, if diff > fconv (di_tolerance_deg c) then ''wrong'' else ''ok''))"

definition wrong_way_event :: "di_config \<Rightarrow> track \<Rightarrow> string \<Rightarrow> f64 \<Rightarrow> f64 \<Rightarrow> f64 \<Rightarrow> analyzer_event" where
  "wrong_way_event c tr zid ang diff travel =
     emit_event ''wrong_way'' (trk_id tr) (json_obj
       [(''angle_deg'', JNum ang), (''expected_deg'', json_of_f32 (di_expected_deg c)), (''diff_deg'', JNum diff),
        (''travel'', JNum travel), (''zone_id'', JStr zid), (''class_id'', JInt (d_class_id (trk_det tr))),
        (''score'', json_of_f32 (d_score (trk_det tr)))])"

definition wrong_way_end_event :: "u32 \<Rightarrow> f64 \<Rightarrow> analyzer_event" where
  "wrong_way_end_event i d = emit_event ''wrong_way_end'' i (json_obj [(''duration_s'', JNum d)])"

definition direction_move :: "(f64 \<Rightarrow> f64 \<Rightarrow> f64) \<Rightarrow> di_config \<Rightarrow> track \<Rightarrow> point \<Rightarrow> string \<Rightarrow> f64 \<Rightarrow> di_hist \<Rightarrow>
    di_hist \<times> analyzer_event list" where
  "direction_move atan2 c tr h zid now s =
    (let (ts, pts) = slide now (di_window_s c) (dh_ts s @ [now]) (dh_pts s @ [h]);
         s1 = s\<lparr>dh_ts := ts, dh_pts := pts\<rparr>
     in case direction_judge atan2 c ts pts of
          None \<Rightarrow> (s1, [])
        | Some (ang, diff, travel, raw) \<Rightarrow>
            (case db_step raw now (di_hold_s c) (dh_deb s1) of
               (d, None) \<Rightarrow> (s1\<lparr>dh_deb := d\<rparr>, [])
             | (d, Some (prev, nxt)) \<Rightarrow>
                 if nxt = ''wrong'' then
                   (s1\<lparr>dh_deb := d, dh_wrong := True, dh_since := now\<rparr>, [wrong_way_event c tr zid ang diff travel])
                 else (s1\<lparr>dh_deb := d, dh_wrong := False\<rparr>, [wrong_way_end_event (trk_id tr) (now - dh_since s1)])))"

definition direction_track :: "(f64 \<Rightarrow> f64 \<Rightarrow> f64) \<Rightarrow> frame_meta \<Rightarrow> track \<Rightarrow> direction_analyzer \<Rightarrow>
    direction_analyzer \<times> analyzer_event list" where
  "direction_track atan2 m tr a =
    (let c = di_cfg a in
     if trk_misses tr \<noteq> 0 \<or> \<not> class_ok (di_classes c) (d_class_id (trk_det tr)) then (a, [])
     else
       let p = anchor_point tr (fm_geom m) (di_anchor c);
           zid = zone_id_of (di_zones c) (fst p) (snd p)
       in if di_zones c \<noteq> [] \<and> zid = [] then (a, [])
          else
            let s0 = (case om_find (trk_id tr) (di_map a) of None \<Rightarrow> new_di_hist | Some s \<Rightarrow> s);
                (s, es) = direction_move atan2 c tr (to_h (fm_geom m) p) zid (fm_t_mono_s m) s0
            in (a\<lparr>di_map := om_put (trk_id tr) s (di_map a)\<rparr>, es))"

definition direction_on_frame :: "(f64 \<Rightarrow> f64 \<Rightarrow> f64) \<Rightarrow> frame_meta \<Rightarrow> track list \<Rightarrow> direction_analyzer \<Rightarrow>
    direction_analyzer \<times> analyzer_event list" where
  "direction_on_frame atan2 m tracks = steps (direction_track atan2 m) tracks"

definition direction_on_removed :: "u32 \<Rightarrow> f64 \<Rightarrow> direction_analyzer \<Rightarrow> direction_analyzer \<times> analyzer_event list" where
  "direction_on_removed tid t a =
    (case om_find tid (di_map a) of
       None \<Rightarrow> (a, [])
     | Some s \<Rightarrow>
        (a\<lparr>di_map := om_del tid (di_map a)\<rparr>,
         if dh_wrong s then [wrong_way_end_event tid (t - dh_since s)] else []))"

section \<open>Wrong way and its end alternate\<close>

fun direction_delta :: "bool \<Rightarrow> string \<Rightarrow> bool option" where
  "direction_delta False l = (if l = ''wrong_way'' then Some True else None)"
| "direction_delta True l = (if l = ''wrong_way_end'' then Some False else None)"

definition direction_mode :: "di_hist option \<Rightarrow> bool" where
  "direction_mode s = (case s of None \<Rightarrow> False | Some s \<Rightarrow> dh_wrong s)"

text \<open>The flag mirrors the committed state, and the two deques have the same length.\<close>

definition hist_ok :: "di_hist \<Rightarrow> bool" where
  "hist_ok s \<longleftrightarrow> dh_wrong s = (db_state (dh_deb s) = ''wrong'') \<and>
     (db_state (dh_deb s) = ''wrong'' \<or> db_state (dh_deb s) = ''ok'') \<and> length (dh_ts s) = length (dh_pts s)"

definition direction_ok :: "direction_analyzer \<Rightarrow> bool" where
  "direction_ok a \<longleftrightarrow> om_ok (di_map a) \<and> (\<forall>i s. om_find i (di_map a) = Some s \<longrightarrow> hist_ok s)"

lemma judge_raw: "direction_judge atan2 c ts pts = Some (ang, diff, travel, raw) \<Longrightarrow> raw = ''wrong'' \<or> raw = ''ok''"
  by (auto simp: direction_judge_def Let_def split: if_splits)

lemma direction_move_machine:
  assumes "direction_move atan2 c tr h zid now s = (s', es)" "hist_ok s"
  shows "accepts direction_delta (dh_wrong s) (map ae_type es) = Some (dh_wrong s')" "hist_ok s'"
    "e \<in> set es \<Longrightarrow> ae_track_id e = trk_id tr"
proof -
  obtain ts pts where sl: "slide now (di_window_s c) (dh_ts s @ [now]) (dh_pts s @ [h]) = (ts, pts)" by force
  with slide_aligned [OF sl] assms(2) have len: "length ts = length pts" by (simp add: hist_ok_def)
  have "accepts direction_delta (dh_wrong s) (map ae_type es) = Some (dh_wrong s') \<and> hist_ok s' \<and>
      (\<forall>e \<in> set es. ae_track_id e = trk_id tr)"
  proof (cases "direction_judge atan2 c ts pts")
    case None
    with assms sl len show ?thesis by (auto simp: direction_move_def Let_def hist_ok_def)
  next
    case (Some r)
    obtain ang diff travel raw where r: "r = (ang, diff, travel, raw)" by (cases r)
    with judge_raw Some have "raw = ''wrong'' \<or> raw = ''ok''" by blast
    with assms sl len Some r show ?thesis
      by (auto simp: direction_move_def Let_def hist_ok_def wrong_way_event_def wrong_way_end_event_def db_step_def
          split: if_splits)
  qed
  then show "accepts direction_delta (dh_wrong s) (map ae_type es) = Some (dh_wrong s')" "hist_ok s'"
    "e \<in> set es \<Longrightarrow> ae_track_id e = trk_id tr" by auto
qed

lemma direction_move_events:
  "e \<in> set (snd (direction_move atan2 c tr h zid now s)) \<Longrightarrow> ae_track_id e = trk_id tr"
  by (auto simp: direction_move_def Let_def wrong_way_event_def wrong_way_end_event_def
      split: prod.splits option.splits if_splits)

lemma new_di_hist_ok: "hist_ok new_di_hist" "\<not> dh_wrong new_di_hist"
  by (simp_all add: hist_ok_def new_di_hist_def new_debounce_def)

lemma direction_track_cases:
  assumes "direction_ok a"
  obtains "direction_track atan2 m tr a = (a, [])"
  | s0 s es h zid where "direction_track atan2 m tr a = (a\<lparr>di_map := om_put (trk_id tr) s (di_map a)\<rparr>, es)"
      "direction_move atan2 (di_cfg a) tr h zid (fm_t_mono_s m) s0 = (s, es)" "hist_ok s0"
      "direction_mode (om_find (trk_id tr) (di_map a)) = dh_wrong s0"
proof -
  let ?p = "anchor_point tr (fm_geom m) (di_anchor (di_cfg a))"
  let ?zid = "zone_id_of (di_zones (di_cfg a)) (fst ?p) (snd ?p)"
  let ?s0 = "case om_find (trk_id tr) (di_map a) of None \<Rightarrow> new_di_hist | Some s \<Rightarrow> s"
  obtain s es where mv: "direction_move atan2 (di_cfg a) tr (to_h (fm_geom m) ?p) ?zid (fm_t_mono_s m) ?s0 = (s, es)"
    by force
  have "hist_ok ?s0" "direction_mode (om_find (trk_id tr) (di_map a)) = dh_wrong ?s0"
    using assms new_di_hist_ok by (auto simp: direction_ok_def direction_mode_def split: option.splits)
  note s0 = this
  show thesis
  proof (cases "trk_misses tr \<noteq> 0 \<or> \<not> class_ok (di_classes (di_cfg a)) (d_class_id (trk_det tr)) \<or>
      (di_zones (di_cfg a) \<noteq> [] \<and> ?zid = [])")
    case True
    then have "direction_track atan2 m tr a = (a, [])" unfolding direction_track_def Let_def by auto
    then show thesis by (rule that(1))
  next
    case False
    then have "direction_track atan2 m tr a = (a\<lparr>di_map := om_put (trk_id tr) s (di_map a)\<rparr>, es)"
      unfolding direction_track_def Let_def using mv by auto
    from that(2) [OF this mv s0] show thesis .
  qed
qed

interpretation direction: closing_track_map "direction_on_frame atan2" direction_on_removed
  "direction_track atan2" direction_ok di_map direction_mode direction_delta for atan2
proof
  fix a m ts tr i t e assume "direction_ok a"
  note ok = this and cases = direction_track_cases [OF this, of atan2 m tr]
  show "om_ok (di_map a)" using ok by (simp add: direction_ok_def)
  show "direction_ok (fst (direction_track atan2 m tr a))"
  proof (rule cases)
    fix s0 s es h zid
    assume "direction_track atan2 m tr a = (a\<lparr>di_map := om_put (trk_id tr) s (di_map a)\<rparr>, es)"
      "direction_move atan2 (di_cfg a) tr h zid (fm_t_mono_s m) s0 = (s, es)" "hist_ok s0"
    with direction_move_machine(2) have "hist_ok s" by blast
    with ok show ?thesis by (simp add: \<open>direction_track _ _ _ _ = _\<close> direction_ok_def om_ok_put)
  qed (simp add: ok)
  show "direction_ok (fst (direction_on_removed i t a))"
    using ok by (auto simp: direction_on_removed_def direction_ok_def om_ok_del om_find_del split: option.split if_splits)
  show "accepts direction_delta (direction_mode (om_find (trk_id tr) (di_map a))) (map ae_type (snd (direction_track atan2 m tr a))) =
      Some (direction_mode (om_find (trk_id tr) (di_map (fst (direction_track atan2 m tr a)))))"
  proof (rule cases)
    fix s0 s es h zid
    assume tr: "direction_track atan2 m tr a = (a\<lparr>di_map := om_put (trk_id tr) s (di_map a)\<rparr>, es)"
      and mv: "direction_move atan2 (di_cfg a) tr h zid (fm_t_mono_s m) s0 = (s, es)" "hist_ok s0"
      and md: "direction_mode (om_find (trk_id tr) (di_map a)) = dh_wrong s0"
    from direction_move_machine(1) [OF mv] show ?thesis unfolding tr md by (simp add: direction_mode_def)
  qed simp
  show "accepts direction_delta (direction_mode (om_find i (di_map a))) (map ae_type (snd (direction_on_removed i t a))) =
      Some (direction_mode None)"
    by (auto simp: direction_on_removed_def wrong_way_end_event_def direction_mode_def split: option.splits)
  then show "\<exists>q'. accepts direction_delta (direction_mode (om_find i (di_map a))) (map ae_type (snd (direction_on_removed i t a))) = Some q'"
    by blast
next
  fix a m ts tr i t e
  show "direction_on_frame atan2 m ts a = steps (direction_track atan2 m) ts a" by (simp add: direction_on_frame_def)
  show "i \<noteq> trk_id tr \<Longrightarrow> om_find i (di_map (fst (direction_track atan2 m tr a))) = om_find i (di_map a)"
    by (auto simp: direction_track_def Let_def case_prod_beta)
  show "e \<in> set (snd (direction_track atan2 m tr a)) \<Longrightarrow> ae_track_id e = trk_id tr"
    using direction_move_events [of e atan2 "di_cfg a" tr]
    by (simp add: direction_track_def Let_def case_prod_beta split: if_splits)
  show "di_map (fst (direction_on_removed i t a)) = om_del i (di_map a)"
    by (auto simp: direction_on_removed_def om_del_absent split: option.splits)
  show "e \<in> set (snd (direction_on_removed i t a)) \<Longrightarrow> ae_track_id e = i"
    by (auto simp: direction_on_removed_def wrong_way_end_event_def split: option.splits if_splits)
qed

section \<open>Properties\<close>

text \<open>C11: from a successful configuration on, and whatever arc tangent the platform computes, the
  events of a track alternate between a wrong-way start and its end, and the removal of the track
  ends an open one.\<close>

theorem wrong_way_alternates:
  assumes "direction_configure parse text a0 = (a, Returned ())"
    "drive (direction_on_frame atan2) direction_on_removed ins a = (a', trace)"
  shows "accepts direction_delta False (labels track_label tid (all_events trace)) =
      Some (direction_mode (om_find tid (di_map a'))) \<and>
    \<not> direction_mode (om_find tid (di_map (fst (direction_on_removed tid t a'))))"
proof -
  have st: "di_map a = []"
    using reconfigure_done [of direction_install "and_then (parse_text parse ''direction'' text) direction_parse_cfg" a0]
      assms(1) by (auto simp: direction_configure_def direction_install_def)
  then have ok: "direction_ok a" by (simp add: direction_ok_def)
  have "direction_ok a'" using direction.drive_ok [OF ok, of atan2 ins] assms(2) by simp
  then have "om_find tid (di_map (fst (direction_on_removed tid t a'))) = None"
    by (simp add: direction.removed_map om_find_del direction_ok_def)
  moreover have "accepts direction_delta False (labels track_label tid (all_events trace)) =
      Some (direction_mode (om_find tid (di_map a')))"
    using direction.closed_run_accepted [OF ok, of tid atan2 ins] st assms(2) by (simp add: direction_mode_def)
  ultimately show ?thesis by (simp add: direction_mode_def)
qed

text \<open>A track that moves up, judged by an arc tangent that gives -1.5 radians.\<close>

definition direction_demo :: direction_analyzer where
  "direction_demo = fst (direction_configure (\<lambda>_. Inr (JObj [(''hold_s'', JInt 0), (''window_s'', JInt 4)])) [] new_direction_analyzer)"

definition direction_demo_inputs :: "input list" where
  "direction_demo_inputs = [Frame (demo_frame (lit 1)) [demo_track 7 (1/2) (3/4)],
     Frame (demo_frame (lit 3)) [demo_track 7 (1/2) (1/2)], Frame (demo_frame (lit 4)) [demo_track 7 (1/2) (1/4)]]"

theorem wrong_way_alternates_witness:
  "let (a, trace) = drive (direction_on_frame (\<lambda>y x. lit (- (3/2)))) direction_on_removed direction_demo_inputs direction_demo in
   labels track_label 7 (all_events trace) = [''wrong_way''] \<and> direction_mode (om_find 7 (di_map a))"
proof -
  let ?c = "direction_configure (\<lambda>_. Inr (JObj [(''hold_s'', JInt 0), (''window_s'', JInt 4)])) [] new_direction_analyzer"
  let ?d = "drive (direction_on_frame (\<lambda>y x. lit (- (3/2)))) direction_on_removed direction_demo_inputs direction_demo"
  have "snd ?c = Returned ()" by code_simp
  then have c: "?c = (direction_demo, Returned ())" by (metis prod.collapse direction_demo_def)
  have "labels track_label 7 (all_events (snd ?d)) = [''wrong_way'']" by code_simp
  then show ?thesis
    using wrong_way_alternates [OF c, of "\<lambda>y x. lit (- (3/2))" direction_demo_inputs "fst ?d" "snd ?d" 7 0]
    by (simp add: case_prod_beta)
qed

end
