(* ===== verification/Speed_Analyzer.thy ===== *)
theory Speed_Analyzer
  imports Motion_Facts
begin

text \<open>
  \<open>core-cpp/vb/src/analyzers/speed.cpp\<close>: displacement over a sliding window, in frame heights per
  second or, through a homography, in metres per second. Unlike the zone, dwell and direction
  analyzers it reports nothing when a track is removed.
\<close>

section \<open>State and configuration\<close>

record sp_config =
  sp_window_s :: f64
  sp_max_speed :: "f64 option"
  sp_min_speed :: "f64 option"
  sp_hold_s :: f64
  sp_anchor :: string
  sp_h :: "f64 list option"
  sp_classes :: "int list"

definition default_sp_config :: sp_config where
  "default_sp_config = \<lparr>sp_window_s = 1, sp_max_speed = None, sp_min_speed = None, sp_hold_s = lit (5/10),
     sp_anchor = ''bottom_center'', sp_h = None, sp_classes = []\<rparr>"

record sp_hist =
  sh_ts :: "f64 list"
  sh_pts :: "point list"
  sh_deb :: debounce

definition new_sp_hist :: sp_hist where
  "new_sp_hist = \<lparr>sh_ts = [], sh_pts = [], sh_deb = new_debounce ''normal''\<rparr>"

record speed_analyzer =
  sp_cfg :: sp_config
  sp_map :: "(u32, sp_hist) omap"

definition new_speed_analyzer :: speed_analyzer where
  "new_speed_analyzer = \<lparr>sp_cfg = default_sp_config, sp_map = []\<rparr>"

definition speed_limit :: "string \<Rightarrow> json \<Rightarrow> f64 option outcome" where
  "speed_limit key = opt_num key (\<lambda>v. v < 0) (''speed: '' @ key @ '' must be a number >= 0'') (\<lambda>v. Some (num64 v)) None"

definition speed_homography :: "json \<Rightarrow> f64 list option outcome" where
  "speed_homography j =
    (case json_find ''homography'' j of
       None \<Rightarrow> Returned None
     | Some f \<Rightarrow>
         if f = JNull then Returned None
         else and_then (check (is_array f \<and> length (elements f) = 9 \<and> list_all is_number (elements f))
           ''speed: homography must be null or 9 numbers (row-major)'')
           (\<lambda>_. Returned (Some (map num64 (elements f)))))"

definition speed_parse_cfg :: "json \<Rightarrow> sp_config outcome" where
  "speed_parse_cfg j =
    (let c = default_sp_config in
    and_then (check (is_object j) ''speed: config must be an object'') (\<lambda>_.
    and_then (parse_classes j ''speed'') (\<lambda>classes.
    and_then (parse_anchor j ''speed'') (\<lambda>anchor.
    and_then (opt_num ''window_s'' (\<lambda>v. v \<le> 0) ''speed: window_s must be > 0'' num64 (sp_window_s c) j) (\<lambda>window.
    and_then (speed_limit ''max_speed'' j) (\<lambda>max_speed.
    and_then (speed_limit ''min_speed'' j) (\<lambda>min_speed.
    and_then (check (max_speed \<noteq> None \<or> min_speed \<noteq> None)
      ''speed: at least one of max_speed / min_speed must be set'') (\<lambda>_.
    and_then (opt_num ''hold_s'' (\<lambda>v. v < 0) ''speed: hold_s must be >= 0'' num64 (sp_hold_s c) j) (\<lambda>hold.
    and_then (speed_homography j) (\<lambda>h.
    Returned \<lparr>sp_window_s = window, sp_max_speed = max_speed, sp_min_speed = min_speed, sp_hold_s = hold,
      sp_anchor = anchor, sp_h = h, sp_classes = classes\<rparr>))))))))))"

definition speed_install :: "sp_config \<Rightarrow> speed_analyzer \<Rightarrow> speed_analyzer" where
  "speed_install c a = a\<lparr>sp_cfg := c, sp_map := []\<rparr>"

definition speed_configure :: "(string \<Rightarrow> string + json) \<Rightarrow> string \<Rightarrow> speed_analyzer \<Rightarrow> speed_analyzer \<times> unit outcome" where
  "speed_configure parse text =
     reconfigure speed_install (and_then (parse_text parse ''speed'' text) speed_parse_cfg)"

section \<open>One frame\<close>

definition ground_point :: "sp_config \<Rightarrow> letterbox_geom \<Rightarrow> point \<Rightarrow> point" where
  "ground_point c g p =
    (case sp_h c of
       None \<Rightarrow> to_h g p
     | Some H \<Rightarrow>
        (let px = fconv (fst p) :: f64; py = fconv (snd p) :: f64;
             w = H ! 6 * px + H ! 7 * py + H ! 8
         in (fconv ((H ! 0 * px + H ! 1 * py + H ! 2) / w), fconv ((H ! 3 * px + H ! 4 * py + H ! 5) / w))))"

definition speed_judge :: "sp_config \<Rightarrow> f64 list \<Rightarrow> point list \<Rightarrow> (f64 \<times> string) option" where
  "speed_judge c ts pts =
    (if length ts < 2 then None
     else
       let span = last ts - hd ts
       in if span < lit (1/2) * sp_window_s c then None
          else
            let dx = fconv (fst (last pts)) - fconv (fst (hd pts)) :: f64;
                dy = fconv (snd (last pts)) - fconv (snd (hd pts)) :: f64;
                v = fsqrt (dx * dx + dy * dy) / span;
                over = (case sp_max_speed c of None \<Rightarrow> False | Some l \<Rightarrow> v > l);
                under = (case sp_min_speed c of None \<Rightarrow> False | Some l \<Rightarrow> v < l)
            in Some (v, if over then ''over'' else if under then ''under'' else ''normal''))"

definition speed_event :: "sp_config \<Rightarrow> track \<Rightarrow> f64 \<Rightarrow> string \<Rightarrow> analyzer_event" where
  "speed_event c tr v nxt =
    (let unit = JStr (if sp_h c \<noteq> None then ''m/s'' else ''fh/s'');
         limited = (\<lambda>limit. [(''speed'', JNum v), (''limit'', json_opt limit), (''unit'', unit),
           (''class_id'', JInt (d_class_id (trk_det tr))), (''score'', json_of_f32 (d_score (trk_det tr)))])
     in if nxt = ''over'' then emit_event ''speed_over'' (trk_id tr) (json_obj (limited (sp_max_speed c)))
        else if nxt = ''under'' then emit_event ''speed_under'' (trk_id tr) (json_obj (limited (sp_min_speed c)))
        else emit_event ''speed_normal'' (trk_id tr) (json_obj [(''speed'', JNum v), (''unit'', unit)]))"

definition speed_move :: "sp_config \<Rightarrow> track \<Rightarrow> point \<Rightarrow> f64 \<Rightarrow> sp_hist \<Rightarrow> sp_hist \<times> analyzer_event list" where
  "speed_move c tr p now s =
    (let (ts, pts) = slide now (sp_window_s c) (sh_ts s @ [now]) (sh_pts s @ [p]);
         s1 = s\<lparr>sh_ts := ts, sh_pts := pts\<rparr>
     in case speed_judge c ts pts of
          None \<Rightarrow> (s1, [])
        | Some (v, raw) \<Rightarrow>
            (case db_step raw now (sp_hold_s c) (sh_deb s1) of
               (d, None) \<Rightarrow> (s1\<lparr>sh_deb := d\<rparr>, [])
             | (d, Some (prev, nxt)) \<Rightarrow> (s1\<lparr>sh_deb := d\<rparr>, [speed_event c tr v nxt])))"

definition speed_track :: "frame_meta \<Rightarrow> track \<Rightarrow> speed_analyzer \<Rightarrow> speed_analyzer \<times> analyzer_event list" where
  "speed_track m tr a =
    (let c = sp_cfg a in
     if trk_misses tr \<noteq> 0 \<or> \<not> class_ok (sp_classes c) (d_class_id (trk_det tr)) then (a, [])
     else
       let p = ground_point c (fm_geom m) (anchor_point tr (fm_geom m) (sp_anchor c));
           s0 = (case om_find (trk_id tr) (sp_map a) of None \<Rightarrow> new_sp_hist | Some s \<Rightarrow> s);
           (s, es) = speed_move c tr p (fm_t_mono_s m) s0
       in (a\<lparr>sp_map := om_put (trk_id tr) s (sp_map a)\<rparr>, es))"

definition speed_on_frame :: "frame_meta \<Rightarrow> track list \<Rightarrow> speed_analyzer \<Rightarrow> speed_analyzer \<times> analyzer_event list" where
  "speed_on_frame m tracks = steps (speed_track m) tracks"

definition speed_on_removed :: "u32 \<Rightarrow> f64 \<Rightarrow> speed_analyzer \<Rightarrow> speed_analyzer \<times> analyzer_event list" where
  "speed_on_removed tid t a = (a\<lparr>sp_map := om_del tid (sp_map a)\<rparr>, [])"

section \<open>Every event is a change of state\<close>

text \<open>The machine of a debounced state: an event names a state other than the current one.\<close>

definition level_of :: "string \<Rightarrow> string option" where
  "level_of l =
    (if l = ''speed_over'' then Some ''over'' else if l = ''speed_under'' then Some ''under''
     else if l = ''speed_normal'' then Some ''normal'' else None)"

definition speed_delta :: "string \<Rightarrow> string \<Rightarrow> string option" where
  "speed_delta q l = (case level_of l of None \<Rightarrow> None | Some q' \<Rightarrow> if q' = q then None else Some q')"

definition speed_mode :: "sp_hist option \<Rightarrow> string" where
  "speed_mode s = (case s of None \<Rightarrow> ''normal'' | Some s \<Rightarrow> db_state (sh_deb s))"

text \<open>An event that says over (under) a limit carries that limit and a speed beyond it.\<close>

definition truthful :: "sp_config \<Rightarrow> analyzer_event \<Rightarrow> bool" where
  "truthful c e \<longleftrightarrow> (\<exists>v. json_find ''speed'' (ae_fields e) = Some (JNum v) \<and>
     (ae_type e = ''speed_over'' \<and> (\<exists>l. json_find ''limit'' (ae_fields e) = Some (JNum l) \<and> sp_max_speed c = Some l \<and> l < v) \<or>
      ae_type e = ''speed_under'' \<and> (\<exists>l. json_find ''limit'' (ae_fields e) = Some (JNum l) \<and> sp_min_speed c = Some l \<and> v < l) \<or>
      ae_type e = ''speed_normal'' \<and> (\<forall>l. sp_max_speed c = Some l \<longrightarrow> \<not> l < v) \<and>
        (\<forall>l. sp_min_speed c = Some l \<longrightarrow> \<not> v < l)))"

lemma speed_event_facts:
  "sp_max_speed c = Some l \<Longrightarrow> l < v \<Longrightarrow> ae_track_id (speed_event c tr v ''over'') = trk_id tr \<and>
     truthful c (speed_event c tr v ''over'') \<and> level_of (ae_type (speed_event c tr v ''over'')) = Some ''over''"
  "sp_min_speed c = Some l \<Longrightarrow> v < l \<Longrightarrow> ae_track_id (speed_event c tr v ''under'') = trk_id tr \<and>
     truthful c (speed_event c tr v ''under'') \<and> level_of (ae_type (speed_event c tr v ''under'')) = Some ''under''"
  "\<forall>l. sp_max_speed c = Some l \<longrightarrow> \<not> l < v \<Longrightarrow> \<forall>l. sp_min_speed c = Some l \<longrightarrow> \<not> v < l \<Longrightarrow>
     ae_track_id (speed_event c tr v ''normal'') = trk_id tr \<and>
     truthful c (speed_event c tr v ''normal'') \<and> level_of (ae_type (speed_event c tr v ''normal'')) = Some ''normal''"
  by (simp_all add: speed_event_def truthful_def level_of_def json_opt_def Let_def)

lemma speed_move_facts:
  assumes "speed_move c tr p now s = (s', es)"
  shows "accepts speed_delta (db_state (sh_deb s)) (map ae_type es) = Some (db_state (sh_deb s'))"
    and "e \<in> set es \<Longrightarrow> ae_track_id e = trk_id tr \<and> truthful c e"
proof -
  obtain ts pts where sl: "slide now (sp_window_s c) (sh_ts s @ [now]) (sh_pts s @ [p]) = (ts, pts)" by force
  have "accepts speed_delta (db_state (sh_deb s)) (map ae_type es) = Some (db_state (sh_deb s')) \<and>
      (\<forall>e \<in> set es. ae_track_id e = trk_id tr \<and> truthful c e)"
  proof (cases "speed_judge c ts pts")
    case None
    with assms sl show ?thesis by (auto simp: speed_move_def Let_def)
  next
    case (Some r)
    obtain v raw where r: "r = (v, raw)" by force
    have raw: "raw = ''over'' \<and> (\<exists>l. sp_max_speed c = Some l \<and> l < v) \<or>
        raw = ''under'' \<and> (\<exists>l. sp_min_speed c = Some l \<and> v < l) \<or>
        raw = ''normal'' \<and> (\<forall>l. sp_max_speed c = Some l \<longrightarrow> \<not> l < v) \<and> (\<forall>l. sp_min_speed c = Some l \<longrightarrow> \<not> v < l)"
      using Some r by (auto simp: speed_judge_def Let_def split: if_splits option.splits)
    have "ae_track_id (speed_event c tr v raw) = trk_id tr \<and> truthful c (speed_event c tr v raw) \<and>
        level_of (ae_type (speed_event c tr v raw)) = Some raw"
      using raw speed_event_facts by blast
    with assms sl Some r show ?thesis
      by (auto simp: speed_move_def Let_def db_step_def speed_delta_def split: if_splits)
  qed
  then show "accepts speed_delta (db_state (sh_deb s)) (map ae_type es) = Some (db_state (sh_deb s'))"
    "e \<in> set es \<Longrightarrow> ae_track_id e = trk_id tr \<and> truthful c e" by auto
qed

lemma speed_track_cases:
  obtains "speed_track m tr a = (a, [])"
  | s0 s es p where "speed_track m tr a = (a\<lparr>sp_map := om_put (trk_id tr) s (sp_map a)\<rparr>, es)"
      "speed_move (sp_cfg a) tr p (fm_t_mono_s m) s0 = (s, es)"
      "speed_mode (om_find (trk_id tr) (sp_map a)) = db_state (sh_deb s0)"
proof -
  let ?p = "ground_point (sp_cfg a) (fm_geom m) (anchor_point tr (fm_geom m) (sp_anchor (sp_cfg a)))"
  let ?s0 = "case om_find (trk_id tr) (sp_map a) of None \<Rightarrow> new_sp_hist | Some s \<Rightarrow> s"
  obtain s es where mv: "speed_move (sp_cfg a) tr ?p (fm_t_mono_s m) ?s0 = (s, es)" by force
  have md: "speed_mode (om_find (trk_id tr) (sp_map a)) = db_state (sh_deb ?s0)"
    by (auto simp: speed_mode_def new_sp_hist_def new_debounce_def split: option.split)
  show thesis
  proof (cases "trk_misses tr \<noteq> 0 \<or> \<not> class_ok (sp_classes (sp_cfg a)) (d_class_id (trk_det tr))")
    case True
    then show thesis by (intro that(1)) (auto simp: speed_track_def)
  next
    case False
    then have "speed_track m tr a = (a\<lparr>sp_map := om_put (trk_id tr) s (sp_map a)\<rparr>, es)"
      unfolding speed_track_def Let_def using mv by auto
    from that(2) [OF this mv md] show thesis .
  qed
qed

lemma speed_track_facts:
  "accepts speed_delta (speed_mode (om_find (trk_id tr) (sp_map a))) (map ae_type (snd (speed_track m tr a))) =
     Some (speed_mode (om_find (trk_id tr) (sp_map (fst (speed_track m tr a)))))"
  "e \<in> set (snd (speed_track m tr a)) \<Longrightarrow> ae_track_id e = trk_id tr \<and> truthful (sp_cfg a) e"
  "sp_cfg (fst (speed_track m tr a)) = sp_cfg a"
proof -
  show "accepts speed_delta (speed_mode (om_find (trk_id tr) (sp_map a))) (map ae_type (snd (speed_track m tr a))) =
     Some (speed_mode (om_find (trk_id tr) (sp_map (fst (speed_track m tr a)))))"
  proof (rule speed_track_cases [of m tr a])
    fix s0 s es p
    assume tr: "speed_track m tr a = (a\<lparr>sp_map := om_put (trk_id tr) s (sp_map a)\<rparr>, es)"
      and mv: "speed_move (sp_cfg a) tr p (fm_t_mono_s m) s0 = (s, es)"
      and md: "speed_mode (om_find (trk_id tr) (sp_map a)) = db_state (sh_deb s0)"
    from speed_move_facts(1) [OF mv] show ?thesis unfolding tr md by (simp add: speed_mode_def)
  qed simp
  show "ae_track_id e = trk_id tr \<and> truthful (sp_cfg a) e" if "e \<in> set (snd (speed_track m tr a))"
    by (rule speed_track_cases [of m tr a]) (use that speed_move_facts(2) in auto)
  show "sp_cfg (fst (speed_track m tr a)) = sp_cfg a"
    by (rule speed_track_cases [of m tr a]) auto
qed

definition speed_ok :: "sp_config \<Rightarrow> speed_analyzer \<Rightarrow> bool" where
  "speed_ok c a \<longleftrightarrow> om_ok (sp_map a) \<and> sp_cfg a = c"

interpretation speed: track_map speed_on_frame speed_on_removed speed_track "speed_ok c" sp_map speed_mode speed_delta
  for c
proof
  fix a m ts tr i t e
  show "speed_on_frame m ts a = steps (speed_track m) ts a" by (simp add: speed_on_frame_def)
  show "speed_ok c a \<Longrightarrow> om_ok (sp_map a)" by (simp add: speed_ok_def)
  show "speed_ok c a \<Longrightarrow> speed_ok c (fst (speed_track m tr a))"
    by (rule speed_track_cases [of m tr a]) (auto simp: speed_ok_def om_ok_put)
  show "speed_ok c a \<Longrightarrow> speed_ok c (fst (speed_on_removed i t a))"
    by (simp add: speed_ok_def speed_on_removed_def om_ok_del)
  show "i \<noteq> trk_id tr \<Longrightarrow> om_find i (sp_map (fst (speed_track m tr a))) = om_find i (sp_map a)"
    by (rule speed_track_cases [of m tr a]) auto
  show "e \<in> set (snd (speed_track m tr a)) \<Longrightarrow> ae_track_id e = trk_id tr" using speed_track_facts(2) by blast
  show "accepts speed_delta (speed_mode (om_find (trk_id tr) (sp_map a))) (map ae_type (snd (speed_track m tr a))) =
      Some (speed_mode (om_find (trk_id tr) (sp_map (fst (speed_track m tr a)))))" by (rule speed_track_facts(1))
  show "sp_map (fst (speed_on_removed i t a)) = om_del i (sp_map a)"
    "e \<in> set (snd (speed_on_removed i t a)) \<Longrightarrow> ae_track_id e = i"
    "\<exists>q'. accepts speed_delta (speed_mode (om_find i (sp_map a))) (map ae_type (snd (speed_on_removed i t a))) = Some q'"
    by (simp_all add: speed_on_removed_def)
qed

section \<open>Properties\<close>

text \<open>From a successful configuration on, every speed event of a track changes its reported
  state (which goes back to normal, silently, only when the track is removed), and every event
  tells the truth: an over (under) event carries the configured limit and a speed beyond it, a
  normal event a speed within the limits.\<close>

theorem speed_reports_changes:
  assumes "speed_configure parse text a0 = (a, Returned ())" "drive speed_on_frame speed_on_removed ins a = (a', trace)"
  shows "accepts (with_reset speed_delta ''normal'') ''normal'' (key_log track_label Some tid trace) =
      Some (speed_mode (om_find tid (sp_map a'))) \<and> list_all (truthful (sp_cfg a)) (all_events trace)"
proof -
  have "sp_map a = []"
    using reconfigure_done [of speed_install "and_then (parse_text parse ''speed'' text) speed_parse_cfg" a0]
      assms(1) by (auto simp: speed_configure_def speed_install_def)
  then have ok: "speed_ok (sp_cfg a) a" "speed_mode (om_find tid (sp_map a)) = ''normal''"
    by (simp_all add: speed_ok_def speed_mode_def)
  have "truthful (sp_cfg a) e" if "e \<in> set (all_events trace)" for e
  proof (rule speed.drive_events [OF ok(1), of e ins])
    show "truthful (sp_cfg a) e" if "speed_ok (sp_cfg a) s" "e \<in> set (snd (speed_on_frame m ts s))" for m ts s e
    proof (rule steps_events [where P = "speed_ok (sp_cfg a)" and f = "speed_track m" and xs = ts, OF that(1) speed.step_ok])
      show "truthful (sp_cfg a) e" if "speed_ok (sp_cfg a) b" "e \<in> set (snd (speed_track m tr b))" for tr b e
        using speed_track_facts(2) [OF that(2)] that(1) by (simp add: speed_ok_def)
      show "e \<in> set (snd (steps (speed_track m) ts s))" using that(2) by (simp add: speed_on_frame_def)
    qed
  qed (use that assms(2) in \<open>auto simp: speed_on_removed_def\<close>)
  moreover have "accepts (with_reset speed_delta ''normal'') ''normal'' (key_log track_label Some tid trace) =
      Some (speed_mode (om_find tid (sp_map a')))"
    using speed.run_accepted [OF ok(1), of tid ins] ok(2) assms(2) by (simp add: speed_mode_def)
  ultimately show ?thesis by (simp add: list_all_iff)
qed

definition speed_demo :: speed_analyzer where
  "speed_demo = fst (speed_configure
     (\<lambda>_. Inr (JObj [(''hold_s'', JInt 0), (''max_speed'', JNum (lit (1/16))), (''window_s'', JInt 4)])) [] new_speed_analyzer)"

definition speed_demo_inputs :: "input list" where
  "speed_demo_inputs = [Frame (demo_frame (lit 1)) [demo_track 7 (1/2) (1/2)],
     Frame (demo_frame (lit 3)) [demo_track 7 (1/2) (3/4)], Frame (demo_frame (lit 5)) [demo_track 7 (1/2) 1],
     Removal 7 (lit 6)]"

theorem speed_reports_changes_witness:
  "let (a, trace) = drive speed_on_frame speed_on_removed speed_demo_inputs speed_demo in
   key_log track_label Some 7 trace = [Some ''speed_over'', None] \<and> speed_mode (om_find 7 (sp_map a)) = ''normal'' \<and>
   list_all (truthful (sp_cfg speed_demo)) (all_events trace)"
proof -
  let ?c = "speed_configure
     (\<lambda>_. Inr (JObj [(''hold_s'', JInt 0), (''max_speed'', JNum (lit (1/16))), (''window_s'', JInt 4)])) [] new_speed_analyzer"
  let ?d = "drive speed_on_frame speed_on_removed speed_demo_inputs speed_demo"
  have "snd ?c = Returned ()" by code_simp
  then have c: "?c = (speed_demo, Returned ())" by (metis prod.collapse speed_demo_def)
  have "key_log track_label Some 7 (snd ?d) = [Some ''speed_over'', None]" by code_simp
  then show ?thesis using speed_reports_changes [OF c, of speed_demo_inputs "fst ?d" "snd ?d" 7]
    by (simp add: case_prod_beta speed_delta_def level_of_def)
qed

end
