(* ===== verification/Count_Threshold.thy ===== *)
theory Count_Threshold
  imports Motion_Facts
begin

text \<open>
  \<open>core-cpp/vb/src/analyzers/count_threshold.cpp\<close>: occupancy limits per zone, or over the whole
  frame when no zone is configured. One debouncer per zone id; a reconfiguration keeps the
  debouncers of the zones whose id and polygon it does not change.
\<close>

section \<open>State and configuration\<close>

record ct_config =
  ct_zones :: "zone_cfg list"
  ct_max_count :: "f64 option"
  ct_min_count :: "f64 option"
  ct_hold_s :: f64
  ct_anchor :: string
  ct_classes :: "int list"

definition default_ct_config :: ct_config where
  "default_ct_config = \<lparr>ct_zones = [], ct_max_count = None, ct_min_count = None, ct_hold_s = lit 2,
     ct_anchor = ''bottom_center'', ct_classes = []\<rparr>"

record count_analyzer =
  ct_cfg :: ct_config
  ct_st :: "(string, debounce) omap"

definition new_count_analyzer :: count_analyzer where
  "new_count_analyzer = \<lparr>ct_cfg = default_ct_config, ct_st = []\<rparr>"

definition count_limit :: "string \<Rightarrow> json \<Rightarrow> f64 option outcome" where
  "count_limit key j =
    (case json_find key j of
       None \<Rightarrow> Returned None
     | Some v \<Rightarrow>
         if v = JNull then Returned None
         else if \<not> is_number_integer v \<or> int64_of v < 0
         then Refused (''count_threshold: '' @ key @ '' must be a non-negative integer'')
         else Returned (Some (num64 v)))"

definition count_parse_cfg :: "json \<Rightarrow> ct_config outcome" where
  "count_parse_cfg j =
    (let who = ''count_threshold'' in
    and_then (check (is_object j) ''count_threshold: config must be an object'') (\<lambda>_.
    and_then (parse_zones j who) (\<lambda>zones.
    and_then (parse_classes j who) (\<lambda>classes.
    and_then (parse_anchor j who) (\<lambda>anchor.
    and_then (count_limit ''max_count'' j) (\<lambda>max_count.
    and_then (count_limit ''min_count'' j) (\<lambda>min_count.
    and_then (check (max_count \<noteq> None \<or> min_count \<noteq> None)
      ''count_threshold: at least one of max_count / min_count must be set'') (\<lambda>_.
    and_then (opt_num ''hold_s'' (\<lambda>v. v < 0) ''count_threshold: hold_s must be >= 0'' num64 (ct_hold_s default_ct_config) j) (\<lambda>hold.
    Returned \<lparr>ct_zones = zones, ct_max_count = max_count, ct_min_count = min_count, ct_hold_s = hold,
      ct_anchor = anchor, ct_classes = classes\<rparr>)))))))))"

definition effective_zones :: "ct_config \<Rightarrow> zone_cfg list" where
  "effective_zones c =
    (if ct_zones c \<noteq> [] then ct_zones c
     else [\<lparr>zc_id = ''frame'', zc_poly = [(0, 0), (1, 0), (1, 1), (0, 1)]\<rparr>])"

definition same_poly :: "point list \<Rightarrow> point list \<Rightarrow> bool" where
  "same_poly p q \<longleftrightarrow> list_all2 (\<lambda>a b. feq (fst a) (fst b) \<and> feq (snd a) (snd b)) p q"

definition keep_zone :: "count_analyzer \<Rightarrow> zone_cfg \<Rightarrow> (string, debounce) omap \<Rightarrow> (string, debounce) omap" where
  "keep_zone a z keep =
    (case om_find (zc_id z) (ct_st a) of
       None \<Rightarrow> keep
     | Some d \<Rightarrow>
         if list_ex (\<lambda>oz. zc_id oz = zc_id z \<and> same_poly (zc_poly oz) (zc_poly z)) (ct_zones (ct_cfg a))
         then om_put (zc_id z) d keep else keep)"

definition count_install :: "ct_config \<Rightarrow> count_analyzer \<Rightarrow> count_analyzer" where
  "count_install c a = a\<lparr>ct_cfg := c, ct_st := fold (keep_zone a) (ct_zones c) []\<rparr>"

definition count_configure :: "(string \<Rightarrow> string + json) \<Rightarrow> string \<Rightarrow> count_analyzer \<Rightarrow> count_analyzer \<times> unit outcome" where
  "count_configure parse text =
     reconfigure count_install (and_then (parse_text parse ''count_threshold'' text) count_parse_cfg)"

section \<open>One frame\<close>

definition count_anchors :: "ct_config \<Rightarrow> frame_meta \<Rightarrow> track list \<Rightarrow> point list" where
  "count_anchors c m tracks =
     map (\<lambda>tr. anchor_point tr (fm_geom m) (ct_anchor c))
       (filter (\<lambda>tr. trk_misses tr = 0 \<and> class_ok (ct_classes c) (d_class_id (trk_det tr))) tracks)"

definition zone_count :: "zone_cfg \<Rightarrow> point list \<Rightarrow> int" where
  "zone_count z anchors = int (length (filter (\<lambda>p. vb_point_in_polygon (fst p) (snd p) (zc_poly z)) anchors))"

definition count_raw :: "ct_config \<Rightarrow> int \<Rightarrow> string" where
  "count_raw c n =
    (if (case ct_max_count c of None \<Rightarrow> False | Some l \<Rightarrow> fl_of_int n > l) then ''over''
     else if (case ct_min_count c of None \<Rightarrow> False | Some l \<Rightarrow> fl_of_int n < l) then ''under''
     else ''normal'')"

definition count_event :: "ct_config \<Rightarrow> string \<Rightarrow> int \<Rightarrow> string \<Rightarrow> analyzer_event" where
  "count_event c zid n nxt =
    (if nxt = ''over'' then
       emit_event ''count_over'' 0 (json_obj [(''zone_id'', JStr zid), (''count'', JInt n), (''limit'', json_opt (ct_max_count c))])
     else if nxt = ''under'' then
       emit_event ''count_under'' 0 (json_obj [(''zone_id'', JStr zid), (''count'', JInt n), (''limit'', json_opt (ct_min_count c))])
     else emit_event ''count_normal'' 0 (json_obj [(''zone_id'', JStr zid), (''count'', JInt n)]))"

definition count_zone :: "frame_meta \<Rightarrow> point list \<Rightarrow> zone_cfg \<Rightarrow> count_analyzer \<Rightarrow> count_analyzer \<times> analyzer_event list" where
  "count_zone m anchors z a =
    (let c = ct_cfg a; n = zone_count z anchors;
         d0 = (case om_find (zc_id z) (ct_st a) of None \<Rightarrow> new_debounce ''normal'' | Some d \<Rightarrow> d);
         (d, change) = db_step (count_raw c n) (fm_t_mono_s m) (ct_hold_s c) d0
     in (a\<lparr>ct_st := om_put (zc_id z) d (ct_st a)\<rparr>,
         case change of None \<Rightarrow> [] | Some (prev, nxt) \<Rightarrow> [count_event c (zc_id z) n nxt]))"

definition count_on_frame :: "frame_meta \<Rightarrow> track list \<Rightarrow> count_analyzer \<Rightarrow> count_analyzer \<times> analyzer_event list" where
  "count_on_frame m tracks a =
     steps (count_zone m (count_anchors (ct_cfg a) m tracks)) (effective_zones (ct_cfg a)) a"

definition count_on_removed :: "u32 \<Rightarrow> f64 \<Rightarrow> count_analyzer \<Rightarrow> count_analyzer \<times> analyzer_event list" where
  "count_on_removed tid t a = (a, [])"

section \<open>Every event is a change of state and tells the truth\<close>

definition count_level :: "string \<Rightarrow> string option" where
  "count_level l =
    (if l = ''count_over'' then Some ''over'' else if l = ''count_under'' then Some ''under''
     else if l = ''count_normal'' then Some ''normal'' else None)"

definition count_delta :: "string \<Rightarrow> string \<Rightarrow> string option" where
  "count_delta q l = (case count_level l of None \<Rightarrow> None | Some q' \<Rightarrow> if q' = q then None else Some q')"

definition count_mode :: "string \<Rightarrow> count_analyzer \<Rightarrow> string" where
  "count_mode zid a = (case om_find zid (ct_st a) of None \<Rightarrow> ''normal'' | Some d \<Rightarrow> db_state d)"

definition count_label :: "string \<Rightarrow> analyzer_event \<Rightarrow> string option" where
  "count_label zid e = (if json_find ''zone_id'' (ae_fields e) = Some (JStr zid) then Some (ae_type e) else None)"

text \<open>An event of a frame names a zone, carries the number of counted tracks inside it in this
  frame, and its type is the side of the limits that number is on.\<close>

definition count_true :: "ct_config \<Rightarrow> frame_meta \<Rightarrow> track list \<Rightarrow> analyzer_event \<Rightarrow> bool" where
  "count_true c m tracks e \<longleftrightarrow> ae_track_id e = 0 \<and>
     (\<exists>z \<in> set (effective_zones c). let n = zone_count z (count_anchors c m tracks) in
        json_find ''zone_id'' (ae_fields e) = Some (JStr (zc_id z)) \<and> json_find ''count'' (ae_fields e) = Some (JInt n) \<and>
        count_level (ae_type e) = Some (count_raw c n))"

lemma count_event_facts:
  assumes "raw = ''over'' \<or> raw = ''under'' \<or> raw = ''normal''"
  shows "ae_track_id (count_event c zid n raw) = 0"
    and "json_find ''zone_id'' (ae_fields (count_event c zid n raw)) = Some (JStr zid)"
    and "json_find ''count'' (ae_fields (count_event c zid n raw)) = Some (JInt n)"
    and "count_level (ae_type (count_event c zid n raw)) = Some raw"
  using assms by (auto simp: count_event_def count_level_def)

lemma count_raw_values: "count_raw c n = ''over'' \<or> count_raw c n = ''under'' \<or> count_raw c n = ''normal''"
  by (simp add: count_raw_def)

lemma count_zone_cases:
  obtains d where "count_zone m anchors z a = (a\<lparr>ct_st := om_put (zc_id z) d (ct_st a)\<rparr>, [])"
      "db_state d = count_mode (zc_id z) a"
  | d where "count_zone m anchors z a = (a\<lparr>ct_st := om_put (zc_id z) d (ct_st a)\<rparr>,
        [count_event (ct_cfg a) (zc_id z) (zone_count z anchors) (count_raw (ct_cfg a) (zone_count z anchors))])"
      "db_state d = count_raw (ct_cfg a) (zone_count z anchors)"
      "count_raw (ct_cfg a) (zone_count z anchors) \<noteq> count_mode (zc_id z) a"
proof -
  let ?d0 = "case om_find (zc_id z) (ct_st a) of None \<Rightarrow> new_debounce ''normal'' | Some d \<Rightarrow> d"
  have md: "count_mode (zc_id z) a = db_state ?d0"
    by (simp add: count_mode_def new_debounce_def split: option.split)
  obtain d ch where st: "db_step (count_raw (ct_cfg a) (zone_count z anchors)) (fm_t_mono_s m) (ct_hold_s (ct_cfg a)) ?d0 = (d, ch)"
    by force
  show thesis
  proof (cases ch)
    case None
    with st have "db_state d = db_state ?d0" by (auto simp: db_step_def split: if_splits)
    moreover have "count_zone m anchors z a = (a\<lparr>ct_st := om_put (zc_id z) d (ct_st a)\<rparr>, [])"
      using st None by (simp add: count_zone_def Let_def)
    ultimately show thesis using that(1) md by simp
  next
    case (Some r)
    with st have "db_state d = count_raw (ct_cfg a) (zone_count z anchors)"
      "count_raw (ct_cfg a) (zone_count z anchors) \<noteq> db_state ?d0"
      "snd r = count_raw (ct_cfg a) (zone_count z anchors)" by (auto simp: db_step_def split: if_splits)
    moreover from this(3) have "count_zone m anchors z a = (a\<lparr>ct_st := om_put (zc_id z) d (ct_st a)\<rparr>,
        [count_event (ct_cfg a) (zc_id z) (zone_count z anchors) (count_raw (ct_cfg a) (zone_count z anchors))])"
      using st Some by (simp add: count_zone_def Let_def case_prod_beta)
    ultimately show thesis using that(2) md by simp
  qed
qed

definition ct_ok :: "ct_config \<Rightarrow> count_analyzer \<Rightarrow> bool" where
  "ct_ok c a \<longleftrightarrow> ct_cfg a = c \<and> om_ok (ct_st a)"

lemma count_zone_ok: "ct_ok c a \<Longrightarrow> ct_ok c (fst (count_zone m anchors z a))"
  by (rule count_zone_cases [of m anchors z a]) (auto simp: ct_ok_def om_ok_put)

lemma count_zone_machine:
  "accepts count_delta (count_mode k a) (labels count_label k (snd (count_zone m anchors z a))) =
     Some (count_mode k (fst (count_zone m anchors z a)))"
proof (rule count_zone_cases [of m anchors z a])
  fix d assume "count_zone m anchors z a = (a\<lparr>ct_st := om_put (zc_id z) d (ct_st a)\<rparr>, [])"
    "db_state d = count_mode (zc_id z) a"
  then show ?thesis by (auto simp: count_mode_def)
next
  fix d
  let ?raw = "count_raw (ct_cfg a) (zone_count z anchors)"
  assume ev: "count_zone m anchors z a = (a\<lparr>ct_st := om_put (zc_id z) d (ct_st a)\<rparr>,
      [count_event (ct_cfg a) (zc_id z) (zone_count z anchors) ?raw])"
    and d: "db_state d = ?raw" "?raw \<noteq> count_mode (zc_id z) a"
  note facts = count_event_facts [OF count_raw_values]
  show ?thesis
  proof (cases "k = zc_id z")
    case True
    with d ev show ?thesis by (auto simp: count_label_def facts count_delta_def) (simp add: count_mode_def)
  next
    case False
    with ev show ?thesis by (auto simp: count_label_def facts) (simp add: count_mode_def)
  qed
qed

interpretation count: event_machine count_on_frame count_on_removed "ct_ok c" "\<lambda>_. {}"
  count_mode "\<lambda>_. count_delta" "''normal''" count_label "\<lambda>_. None" for c
proof
  fix a m ts i t k assume ok: "ct_ok c a"
  show "ct_ok c (fst (count_on_frame m ts a))"
    unfolding count_on_frame_def by (rule steps_invariant [where P = "ct_ok c", OF ok count_zone_ok])
  show "accepts count_delta (count_mode k a) (labels count_label k (snd (count_on_frame m ts a))) =
      Some (count_mode k (fst (count_on_frame m ts a)))"
    unfolding count_on_frame_def
    by (rule accepts_steps [where P = "ct_ok c" and q = "count_mode k", OF ok count_zone_ok count_zone_machine])
  show "ct_ok c (fst (count_on_removed i t a))"
    "\<exists>q'. accepts count_delta (count_mode k a) (labels count_label k (snd (count_on_removed i t a))) = Some q' \<and>
      count_mode k (fst (count_on_removed i t a)) = (if None = Some i then ''normal'' else q')"
    using ok by (simp_all add: count_on_removed_def)
qed auto

lemma count_frame_true:
  assumes "ct_ok c a" "e \<in> set (snd (count_on_frame m ts a))"
  shows "count_true c m ts e"
proof -
  have c: "ct_cfg a = c" using assms(1) by (simp add: ct_ok_def)
  have "count_true c m ts e" if z: "z \<in> set (effective_zones c)" "ct_ok c b"
    and e: "e \<in> set (snd (count_zone m (count_anchors c m ts) z b))" for z b e
  proof -
    have "ct_cfg b = c" using z(2) by (simp add: ct_ok_def)
    with e have "e = count_event c (zc_id z) (zone_count z (count_anchors c m ts)) (count_raw c (zone_count z (count_anchors c m ts)))"
      by (auto intro: count_zone_cases [of m "count_anchors c m ts" z b])
    with z(1) show ?thesis using count_event_facts [OF count_raw_values] by (auto simp: count_true_def Let_def)
  qed
  then show ?thesis
    using steps_events [where P = "ct_ok c" and Q = "count_true c m ts" and f = "count_zone m (count_anchors c m ts)" and
        xs = "effective_zones c" and e = e, OF assms(1) count_zone_ok] assms(2)
    unfolding count_on_frame_def c by blast
qed

section \<open>Properties\<close>

text \<open>Whatever frames and removals follow, every event of a zone changes its reported state, and
  every event of a frame is true of it: it names a zone, carries the number of counted tracks
  whose anchor is inside, and says over, under or normal as that number is to the limits.\<close>

theorem count_reports_changes:
  assumes "om_ok (ct_st a)" "drive count_on_frame count_on_removed ins a = (a', trace)"
  shows "accepts count_delta (count_mode zid a) (labels count_label zid (all_events trace)) = Some (count_mode zid a') \<and>
    list_all (\<lambda>(i, es). case i of Frame m ts \<Rightarrow> list_all (count_true (ct_cfg a) m ts) es | Removal _ _ \<Rightarrow> es = []) trace"
proof -
  define c where "c = ct_cfg a"
  have "ct_ok c a" using assms(1) by (simp add: ct_ok_def c_def)
  then have "accepts count_delta (count_mode zid a) (labels count_label zid (all_events trace)) = Some (count_mode zid a') \<and>
    list_all (\<lambda>(i, es). case i of Frame m ts \<Rightarrow> list_all (count_true c m ts) es | Removal _ _ \<Rightarrow> es = []) trace"
    using assms(2)
  proof (induction ins arbitrary: a trace)
    case (Cons i ins)
    show ?case
    proof (cases i)
      case (Frame m ts)
      let ?rest = "snd (drive count_on_frame count_on_removed ins (fst (count_on_frame m ts a)))"
      from Frame Cons.prems(2) have r: "drive count_on_frame count_on_removed ins (fst (count_on_frame m ts a)) = (a', ?rest)"
        "trace = (i, snd (count_on_frame m ts a)) # ?rest" by (auto simp: case_prod_beta Let_def)
      from Cons.IH [OF count.frame_ok [OF Cons.prems(1)] r(1)] count.frame_machine [OF Cons.prems(1), of zid m ts]
        count_frame_true [OF Cons.prems(1)] r(2) Frame show ?thesis
        by (auto simp: all_events_def accepts_append list_all_iff)
    next
      case (Removal j t)
      let ?rest = "snd (drive count_on_frame count_on_removed ins a)"
      have rm: "count_on_removed j t a = (a, [])" by (simp add: count_on_removed_def)
      from Removal Cons.prems(2) have "drive count_on_frame count_on_removed ins a = (a', ?rest)"
        "trace = (i, []) # ?rest" by (auto simp: case_prod_beta Let_def rm)
      with Cons.IH [OF Cons.prems(1)] Removal show ?thesis by (simp add: all_events_def)
    qed
  qed (simp add: all_events_def)
  then show ?thesis unfolding c_def .
qed

text \<open>A limit of no track in the frame, exceeded at the last frame already.\<close>

definition count_demo :: count_analyzer where
  "count_demo = \<lparr>ct_cfg = default_ct_config\<lparr>ct_max_count := Some 0, ct_hold_s := 0\<rparr>,
     ct_st = [(''frame'', \<lparr>db_state = ''normal'', db_pending = True, db_pending_raw = ''over'', db_pending_since = lit 1\<rparr>)]\<rparr>"

definition count_demo_inputs :: "input list" where
  "count_demo_inputs = [Frame (demo_frame (lit 3)) [demo_track 7 (1/2) (1/2)], Removal 7 (lit 6)]"

theorem count_reports_changes_witness:
  "let (a, trace) = drive count_on_frame count_on_removed count_demo_inputs count_demo in
   labels count_label ''frame'' (all_events trace) = [''count_over''] \<and> count_mode ''frame'' a = ''over''"
proof -
  let ?d = "drive count_on_frame count_on_removed count_demo_inputs count_demo"
  have ok: "om_ok (ct_st count_demo)" by code_simp
  have md: "count_mode ''frame'' count_demo = ''normal''" by code_simp
  have "labels count_label ''frame'' (all_events (snd ?d)) = [''count_over'']" by code_simp
  then show ?thesis using count_reports_changes [OF ok, of count_demo_inputs "fst ?d" "snd ?d" "''frame''"] md
    by (simp add: case_prod_beta count_delta_def count_level_def)
qed

end
