(* ===== verification/Pose_Angle.thy ===== *)
theory Pose_Angle
  imports Motion_Facts "HOL-Library.Product_Lexorder"
begin

text \<open>
  \<open>core-cpp/vb/src/analyzers/pose_angle.cpp\<close>: limits on the angle at a joint, from keypoints mapped
  to source pixels. One debouncer per track and joint id, in a map ordered by both.
  \<open>std::acos\<close> of the platform's math library is a parameter.
\<close>

section \<open>State and configuration\<close>

record joint =
  jt_id :: string
  jt_a :: int
  jt_b :: int
  jt_c :: int
  jt_min_deg :: "f64 option"
  jt_max_deg :: "f64 option"

record pa_config =
  pa_joints :: "joint list"
  pa_min_conf :: f64
  pa_hold_s :: f64
  pa_classes :: "int list"

definition default_pa_config :: pa_config where
  "default_pa_config = \<lparr>pa_joints = [], pa_min_conf = lit (3/10), pa_hold_s = lit (5/10), pa_classes = []\<rparr>"

text \<open>\<open>max_idx\<close>, which the code accumulates while parsing, from -1.\<close>

definition pa_max_idx :: "pa_config \<Rightarrow> int" where
  "pa_max_idx c = fold (\<lambda>jt m. max (max (max m (jt_a jt)) (jt_b jt)) (jt_c jt)) (pa_joints c) (- 1)"

record pose_analyzer =
  pa_cfg :: pa_config
  pa_deb :: "(u32 \<times> string, debounce) omap"

definition new_pose_analyzer :: pose_analyzer where
  "new_pose_analyzer = \<lparr>pa_cfg = default_pa_config, pa_deb = []\<rparr>"

definition pose_min_keypoints :: "pose_analyzer \<Rightarrow> u32" where
  "pose_min_keypoints a = (if pa_max_idx (pa_cfg a) < 0 then 0 else word_of_int (pa_max_idx (pa_cfg a) + 1))"

definition joint_index :: "string \<Rightarrow> json \<Rightarrow> string \<Rightarrow> int outcome" where
  "joint_index jid jj k =
    and_then (get_at k jj) (\<lambda>v.
    and_then (check (is_number_integer v \<and> \<not> int32_of v < 0)
      (''pose_angle: joint '' @ jid @ '': '' @ k @ '' must be a non-negative int'')) (\<lambda>_. Returned (int32_of v)))"

definition joint_limit :: "string \<Rightarrow> json \<Rightarrow> string \<Rightarrow> f64 option outcome" where
  "joint_limit jid jj k =
     opt_num k (\<lambda>v. v < 0 \<or> v > lit 180) (''pose_angle: joint '' @ jid @ '': '' @ k @ '' must be in [0,180]'')
       (\<lambda>v. Some (num64 v)) None jj"

definition parse_joint :: "json \<Rightarrow> joint list \<Rightarrow> joint outcome" where
  "parse_joint jj joints =
    and_then (check (is_object jj \<and> json_find ''id'' jj \<noteq> None \<and> json_find ''a'' jj \<noteq> None \<and>
        json_find ''b'' jj \<noteq> None \<and> json_find ''c'' jj \<noteq> None) ''pose_angle: each joint needs id, a, b, c'') (\<lambda>_.
    and_then (get_at ''id'' jj) (\<lambda>idj.
    and_then (get_string idj) (\<lambda>jid.
    and_then (check (jid \<noteq> [] \<and> length jid \<le> 32) ''pose_angle: joint id must be 1..32 chars'') (\<lambda>_.
    and_then (joint_index jid jj ''a'') (\<lambda>a.
    and_then (joint_index jid jj ''b'') (\<lambda>b.
    and_then (joint_index jid jj ''c'') (\<lambda>c.
    and_then (joint_limit jid jj ''min_deg'') (\<lambda>min_deg.
    and_then (joint_limit jid jj ''max_deg'') (\<lambda>max_deg.
    and_then (check (min_deg \<noteq> None \<or> max_deg \<noteq> None)
      (''pose_angle: joint '' @ jid @ '' needs at least one of min_deg / max_deg'')) (\<lambda>_.
    Returned \<lparr>jt_id = jid, jt_a = a, jt_b = b, jt_c = c, jt_min_deg = min_deg, jt_max_deg = max_deg\<rparr>))))))))))"

definition pose_parse_cfg :: "json \<Rightarrow> pa_config outcome" where
  "pose_parse_cfg j =
    and_then (check (is_object j) ''pose_angle: config must be an object'') (\<lambda>_.
    and_then (parse_classes j ''pose_angle'') (\<lambda>classes.
    and_then (case json_find ''joints'' j of
        None \<Rightarrow> Returned []
      | Some f \<Rightarrow>
          if f = JNull then Returned []
          else and_then (check (is_array f) ''pose_angle: joints must be an array'')
            (\<lambda>_. collect parse_joint (elements f) [])) (\<lambda>joints.
    and_then (opt_num ''min_conf'' (\<lambda>v. v < 0 \<or> v > 1) ''pose_angle: min_conf must be in [0,1]'' num64 (pa_min_conf default_pa_config) j) (\<lambda>min_conf.
    and_then (opt_num ''hold_s'' (\<lambda>v. v < 0) ''pose_angle: hold_s must be >= 0'' num64 (pa_hold_s default_pa_config) j) (\<lambda>hold.
    Returned \<lparr>pa_joints = joints, pa_min_conf = min_conf, pa_hold_s = hold, pa_classes = classes\<rparr>)))))"

definition pose_install :: "pa_config \<Rightarrow> pose_analyzer \<Rightarrow> pose_analyzer" where
  "pose_install c a = a\<lparr>pa_cfg := c, pa_deb := []\<rparr>"

definition pose_configure :: "(string \<Rightarrow> string + json) \<Rightarrow> string \<Rightarrow> pose_analyzer \<Rightarrow> pose_analyzer \<times> unit outcome" where
  "pose_configure parse text =
     reconfigure pose_install (and_then (parse_text parse ''pose_angle'' text) pose_parse_cfg)"

section \<open>One frame\<close>

definition source_pixel :: "letterbox_geom \<Rightarrow> keypoint \<Rightarrow> f64 \<times> f64" where
  "source_pixel g k =
    (let (sx, sy) = to_source_norm g (kp_x k) (kp_y k)
     in (fconv (sx * fl_of_int (lg_src_w g)), fconv (sy * fl_of_int (lg_src_h g))))"

text \<open>The angle ABC at B in degrees; none when a side is shorter than a millionth of a pixel.\<close>

definition joint_angle :: "(f64 \<Rightarrow> f64) \<Rightarrow> f64 \<times> f64 \<Rightarrow> f64 \<times> f64 \<Rightarrow> f64 \<times> f64 \<Rightarrow> f64 option" where
  "joint_angle acos pa pb pc =
    (let v1x = fst pa - fst pb; v1y = snd pa - snd pb; v2x = fst pc - fst pb; v2y = snd pc - snd pb;
         l1 = fsqrt (v1x * v1x + v1y * v1y); l2 = fsqrt (v2x * v2x + v2y * v2y)
     in if l1 < lit (1/1000000) \<or> l2 < lit (1/1000000) then None
        else
          let c0 = (v1x * v2x + v1y * v2y) / (l1 * l2);
              c1 = (if c0 > 1 then 1 else c0);
              c2 = (if c1 < - 1 then - 1 else c1)
          in Some (acos c2 * lit 180 / m_pi))"

definition angle_raw :: "joint \<Rightarrow> f64 \<Rightarrow> string" where
  "angle_raw jt ang =
    (if (case jt_min_deg jt of None \<Rightarrow> False | Some l \<Rightarrow> ang < l) \<or>
        (case jt_max_deg jt of None \<Rightarrow> False | Some l \<Rightarrow> ang > l) then ''out'' else ''in'')"

definition angle_event :: "joint \<Rightarrow> track \<Rightarrow> f64 \<Rightarrow> string \<Rightarrow> analyzer_event" where
  "angle_event jt tr ang nxt =
    (if nxt = ''out'' then
       emit_event ''angle_out'' (trk_id tr) (json_obj
         [(''joint_id'', JStr (jt_id jt)), (''angle_deg'', JNum ang), (''min_deg'', json_opt (jt_min_deg jt)),
          (''max_deg'', json_opt (jt_max_deg jt)), (''class_id'', JInt (d_class_id (trk_det tr))),
          (''score'', json_of_f32 (d_score (trk_det tr)))])
     else emit_event ''angle_in'' (trk_id tr) (json_obj [(''joint_id'', JStr (jt_id jt)), (''angle_deg'', JNum ang)]))"

text \<open>The angle of a joint of a track, when the track has the three keypoints, their confidence is
  high enough and the sides are long enough.\<close>

definition track_angle :: "(f64 \<Rightarrow> f64) \<Rightarrow> pa_config \<Rightarrow> letterbox_geom \<Rightarrow> track \<Rightarrow> joint \<Rightarrow> f64 option" where
  "track_angle acos c g tr jt =
    (let n = int (length (trk_kpts tr)); kp = (\<lambda>i. trk_kpts tr ! nat i) in
     if n \<le> jt_a jt \<or> n \<le> jt_b jt \<or> n \<le> jt_c jt then None
     else if fconv (kp_conf (kp (jt_a jt))) < pa_min_conf c \<or> fconv (kp_conf (kp (jt_b jt))) < pa_min_conf c \<or>
        fconv (kp_conf (kp (jt_c jt))) < pa_min_conf c then None
     else joint_angle acos (source_pixel g (kp (jt_a jt))) (source_pixel g (kp (jt_b jt))) (source_pixel g (kp (jt_c jt))))"

definition pose_joint :: "(f64 \<Rightarrow> f64) \<Rightarrow> frame_meta \<Rightarrow> track \<Rightarrow> joint \<Rightarrow> pose_analyzer \<Rightarrow>
    pose_analyzer \<times> analyzer_event list" where
  "pose_joint acos m tr jt a =
    (case track_angle acos (pa_cfg a) (fm_geom m) tr jt of
       None \<Rightarrow> (a, [])
     | Some ang \<Rightarrow>
        let k = (trk_id tr, jt_id jt);
            d0 = (case om_find k (pa_deb a) of None \<Rightarrow> new_debounce ''in'' | Some d \<Rightarrow> d);
            (d, change) = db_step (angle_raw jt ang) (fm_t_mono_s m) (pa_hold_s (pa_cfg a)) d0
        in (a\<lparr>pa_deb := om_put k d (pa_deb a)\<rparr>,
            case change of None \<Rightarrow> [] | Some (prev, nxt) \<Rightarrow> [angle_event jt tr ang nxt]))"

definition pose_track :: "(f64 \<Rightarrow> f64) \<Rightarrow> frame_meta \<Rightarrow> track \<Rightarrow> pose_analyzer \<Rightarrow> pose_analyzer \<times> analyzer_event list" where
  "pose_track acos m tr a =
    (if trk_misses tr \<noteq> 0 \<or> \<not> class_ok (pa_classes (pa_cfg a)) (d_class_id (trk_det tr)) then (a, [])
     else steps (pose_joint acos m tr) (pa_joints (pa_cfg a)) a)"

definition pose_on_frame :: "(f64 \<Rightarrow> f64) \<Rightarrow> frame_meta \<Rightarrow> track list \<Rightarrow> pose_analyzer \<Rightarrow> pose_analyzer \<times> analyzer_event list" where
  "pose_on_frame acos m tracks = steps (pose_track acos m) tracks"

definition pose_on_removed :: "u32 \<Rightarrow> f64 \<Rightarrow> pose_analyzer \<Rightarrow> pose_analyzer \<times> analyzer_event list" where
  "pose_on_removed tid t a = (a\<lparr>pa_deb := filter (\<lambda>(k, d). fst k \<noteq> tid) (pa_deb a)\<rparr>, [])"

section \<open>Every event is a change of state and tells the truth\<close>

definition pose_level :: "string \<Rightarrow> string option" where
  "pose_level l = (if l = ''angle_out'' then Some ''out'' else if l = ''angle_in'' then Some ''in'' else None)"

definition pose_delta :: "string \<Rightarrow> string \<Rightarrow> string option" where
  "pose_delta q l = (case pose_level l of None \<Rightarrow> None | Some q' \<Rightarrow> if q' = q then None else Some q')"

definition pose_mode :: "u32 \<times> string \<Rightarrow> pose_analyzer \<Rightarrow> string" where
  "pose_mode k a = (case om_find k (pa_deb a) of None \<Rightarrow> ''in'' | Some d \<Rightarrow> db_state d)"

definition pose_label :: "u32 \<times> string \<Rightarrow> analyzer_event \<Rightarrow> string option" where
  "pose_label k e =
    (if ae_track_id e = fst k \<and> json_find ''joint_id'' (ae_fields e) = Some (JStr (snd k)) then Some (ae_type e) else None)"

definition pose_true :: "pa_config \<Rightarrow> analyzer_event \<Rightarrow> bool" where
  "pose_true c e \<longleftrightarrow> (\<exists>jt \<in> set (pa_joints c). \<exists>ang.
     json_find ''joint_id'' (ae_fields e) = Some (JStr (jt_id jt)) \<and> json_find ''angle_deg'' (ae_fields e) = Some (JNum ang) \<and>
     pose_level (ae_type e) = Some (angle_raw jt ang))"

definition pa_ok :: "pa_config \<Rightarrow> pose_analyzer \<Rightarrow> bool" where
  "pa_ok c a \<longleftrightarrow> pa_cfg a = c \<and> om_ok (pa_deb a)"

definition pa_ids :: "pose_analyzer \<Rightarrow> u32 set" where
  "pa_ids a = fst ` fst ` set (pa_deb a)"

lemma angle_event_facts:
  assumes "raw = ''out'' \<or> raw = ''in''"
  shows "ae_track_id (angle_event jt tr ang raw) = trk_id tr"
    and "json_find ''joint_id'' (ae_fields (angle_event jt tr ang raw)) = Some (JStr (jt_id jt))"
    and "json_find ''angle_deg'' (ae_fields (angle_event jt tr ang raw)) = Some (JNum ang)"
    and "pose_level (ae_type (angle_event jt tr ang raw)) = Some raw"
  using assms by (auto simp: angle_event_def pose_level_def)

lemma angle_raw_values: "angle_raw jt ang = ''out'' \<or> angle_raw jt ang = ''in''"
  by (simp add: angle_raw_def)

lemma pose_joint_cases:
  obtains "pose_joint acos m tr jt a = (a, [])"
  | d where "pose_joint acos m tr jt a = (a\<lparr>pa_deb := om_put (trk_id tr, jt_id jt) d (pa_deb a)\<rparr>, [])"
      "db_state d = pose_mode (trk_id tr, jt_id jt) a"
  | d ang where "pose_joint acos m tr jt a = (a\<lparr>pa_deb := om_put (trk_id tr, jt_id jt) d (pa_deb a)\<rparr>,
        [angle_event jt tr ang (angle_raw jt ang)])"
      "db_state d = angle_raw jt ang" "angle_raw jt ang \<noteq> pose_mode (trk_id tr, jt_id jt) a"
proof (cases "track_angle acos (pa_cfg a) (fm_geom m) tr jt")
  case None
  then show thesis by (intro that(1)) (simp add: pose_joint_def)
next
  case (Some ang)
  let ?k = "(trk_id tr, jt_id jt)"
  let ?d0 = "case om_find ?k (pa_deb a) of None \<Rightarrow> new_debounce ''in'' | Some d \<Rightarrow> d"
  have md: "pose_mode ?k a = db_state ?d0"
    by (simp add: pose_mode_def new_debounce_def split: option.split)
  obtain d ch where st: "db_step (angle_raw jt ang) (fm_t_mono_s m) (pa_hold_s (pa_cfg a)) ?d0 = (d, ch)" by force
  show thesis
  proof (cases ch)
    case None
    with st have "db_state d = db_state ?d0" by (auto simp: db_step_def split: if_splits)
    moreover have "pose_joint acos m tr jt a = (a\<lparr>pa_deb := om_put ?k d (pa_deb a)\<rparr>, [])"
      using st None Some by (simp add: pose_joint_def Let_def)
    ultimately show thesis using that(2) md by simp
  next
    case ch: (Some r)
    with st have "db_state d = angle_raw jt ang" "angle_raw jt ang \<noteq> db_state ?d0" "snd r = angle_raw jt ang"
      by (auto simp: db_step_def split: if_splits)
    moreover from this(3) have "pose_joint acos m tr jt a = (a\<lparr>pa_deb := om_put ?k d (pa_deb a)\<rparr>,
        [angle_event jt tr ang (angle_raw jt ang)])"
      using st Some ch by (simp add: pose_joint_def Let_def case_prod_beta)
    ultimately show thesis using that(3) md by simp
  qed
qed

lemma pose_joint_machine:
  "accepts pose_delta (pose_mode k a) (labels pose_label k (snd (pose_joint acos m tr jt a))) =
     Some (pose_mode k (fst (pose_joint acos m tr jt a)))"
proof (rule pose_joint_cases [of acos m tr jt a])
  fix d assume "pose_joint acos m tr jt a = (a\<lparr>pa_deb := om_put (trk_id tr, jt_id jt) d (pa_deb a)\<rparr>, [])"
    "db_state d = pose_mode (trk_id tr, jt_id jt) a"
  then show ?thesis by (auto simp: pose_mode_def)
next
  fix d ang
  assume ev: "pose_joint acos m tr jt a = (a\<lparr>pa_deb := om_put (trk_id tr, jt_id jt) d (pa_deb a)\<rparr>,
      [angle_event jt tr ang (angle_raw jt ang)])"
    and d: "db_state d = angle_raw jt ang" "angle_raw jt ang \<noteq> pose_mode (trk_id tr, jt_id jt) a"
  note facts = angle_event_facts [OF angle_raw_values]
  show ?thesis
  proof (cases "k = (trk_id tr, jt_id jt)")
    case True
    with d ev show ?thesis by (auto simp: pose_label_def facts pose_delta_def) (simp add: pose_mode_def)
  next
    case False
    then have "pose_label k (angle_event jt tr ang (angle_raw jt ang)) = None"
      by (auto simp: pose_label_def facts prod_eq_iff)
    with ev False show ?thesis by (simp add: pose_mode_def)
  qed
qed simp

lemma pose_joint_ok:
  "pa_ok c a \<Longrightarrow> pa_ok c (fst (pose_joint acos m tr jt a))"
  "pa_ids (fst (pose_joint acos m tr jt a)) \<subseteq> insert (trk_id tr) (pa_ids a)"
  by (rule pose_joint_cases [of acos m tr jt a]; auto simp: pa_ok_def om_ok_put pa_ids_def fst_om_put)+

lemma pose_track_ok:
  assumes "pa_ok c a"
  shows "pa_ok c (fst (pose_track acos m tr a))" "pa_ids (fst (pose_track acos m tr a)) \<subseteq> insert (trk_id tr) (pa_ids a)"
proof -
  have "pa_ok c (fst (steps (pose_joint acos m tr) js a)) \<and>
      pa_ids (fst (steps (pose_joint acos m tr) js a)) \<subseteq> insert (trk_id tr) (pa_ids a)" for js
  proof (rule steps_invariant [where P = "\<lambda>b. pa_ok c b \<and> pa_ids b \<subseteq> insert (trk_id tr) (pa_ids a)"])
    show "pa_ok c (fst (pose_joint acos m tr jt b)) \<and> pa_ids (fst (pose_joint acos m tr jt b)) \<subseteq> insert (trk_id tr) (pa_ids a)"
      if "pa_ok c b \<and> pa_ids b \<subseteq> insert (trk_id tr) (pa_ids a)" for jt b
      using that pose_joint_ok(1) [of c b acos m tr jt] pose_joint_ok(2) [of acos m tr jt b] by blast
  qed (use assms in auto)
  then show "pa_ok c (fst (pose_track acos m tr a))" "pa_ids (fst (pose_track acos m tr a)) \<subseteq> insert (trk_id tr) (pa_ids a)"
    using assms by (auto simp: pose_track_def)
qed

lemma pose_track_machine:
  "accepts pose_delta (pose_mode k a) (labels pose_label k (snd (pose_track acos m tr a))) =
     Some (pose_mode k (fst (pose_track acos m tr a)))"
  using accepts_steps [where P = "\<lambda>_. True" and q = "pose_mode k" and delta = pose_delta and f = "pose_joint acos m tr",
      OF TrueI TrueI pose_joint_machine]
  by (auto simp: pose_track_def)

lemma pose_track_true:
  assumes "pa_ok c a" "e \<in> set (snd (pose_track acos m tr a))"
  shows "pose_true c e"
proof -
  have cfg: "pa_cfg a = c" using assms(1) by (simp add: pa_ok_def)
  have step: "pose_true c e" if jt: "jt \<in> set (pa_joints c)" "e \<in> set (snd (pose_joint acos m tr jt b))" for jt b e
  proof (rule pose_joint_cases [of acos m tr jt b])
    fix d ang assume "pose_joint acos m tr jt b = (b\<lparr>pa_deb := om_put (trk_id tr, jt_id jt) d (pa_deb b)\<rparr>,
        [angle_event jt tr ang (angle_raw jt ang)])"
    with jt(2) have "e = angle_event jt tr ang (angle_raw jt ang)" by simp
    with jt(1) show ?thesis using angle_event_facts [OF angle_raw_values] by (auto simp: pose_true_def)
  qed (use jt(2) in auto)
  show ?thesis
    using assms(2) steps_events [where P = "\<lambda>_. True" and Q = "pose_true c" and f = "pose_joint acos m tr" and
        xs = "pa_joints c" and e = e and s = a] step
    by (auto simp: pose_track_def cfg split: if_splits)
qed

interpretation pose: event_machine "pose_on_frame acos" pose_on_removed "pa_ok c" pa_ids
  pose_mode "\<lambda>_. pose_delta" "''in''" pose_label "\<lambda>k. Some (fst k)" for acos c
proof
  fix a m i t k and ts :: "track list" assume ok: "pa_ok c a"
  define P where "P b \<longleftrightarrow> pa_ok c b \<and> pa_ids b \<subseteq> pa_ids a \<union> trk_id ` set ts" for b
  have "P (fst (pose_track acos m tr b))" if "tr \<in> set ts" "P b" for tr :: track and b
    using pose_track_ok [of c b acos m tr] that unfolding P_def by blast
  then have "P (fst (pose_on_frame acos m ts a))"
    unfolding pose_on_frame_def by (intro steps_invariant [where P = P]) (simp_all add: P_def ok)
  then show "pa_ok c (fst (pose_on_frame acos m ts a))"
    "pa_ids (fst (pose_on_frame acos m ts a)) \<subseteq> pa_ids a \<union> trk_id ` set ts" by (simp_all add: P_def)
  show "accepts pose_delta (pose_mode k a) (labels pose_label k (snd (pose_on_frame acos m ts a))) =
      Some (pose_mode k (fst (pose_on_frame acos m ts a)))"
    unfolding pose_on_frame_def
    by (rule accepts_steps [where P = "\<lambda>_. True" and q = "pose_mode k"]) (simp_all add: pose_track_machine)
  have flt: "om_ok (filter (\<lambda>(k, d). fst k \<noteq> i) mm)" if "om_ok mm" for mm :: "(u32 \<times> string, debounce) omap"
    using that by (induction mm) (auto simp: om_ok_Cons)
  have find: "om_find k (filter (\<lambda>(k, d). fst k \<noteq> i) mm) = (if fst k = i then None else om_find k mm)"
    for mm :: "(u32 \<times> string, debounce) omap" by (induction mm) (auto split: if_splits)
  show "pa_ok c (fst (pose_on_removed i t a))" using ok by (simp add: pose_on_removed_def pa_ok_def flt)
  show "pa_ids (fst (pose_on_removed i t a)) = pa_ids a - {i}"
    by (force simp: pose_on_removed_def pa_ids_def)
  show "\<exists>q'. accepts pose_delta (pose_mode k a) (labels pose_label k (snd (pose_on_removed i t a))) = Some q' \<and>
      pose_mode k (fst (pose_on_removed i t a)) = (if Some (fst k) = Some i then ''in'' else q')"
    by (auto simp: pose_on_removed_def pose_mode_def find)
qed

section \<open>Properties\<close>

text \<open>From a successful configuration on, and whatever arc cosine the platform computes, every
  event of a track's joint changes its reported state (which goes back to in, silently, only when
  the track is removed), and every event carries the id of a configured joint and an angle that
  is out of its limits, or in, as the event says.\<close>

theorem pose_reports_changes:
  assumes "pose_configure parse text a0 = (a, Returned ())" "drive (pose_on_frame acos) pose_on_removed ins a = (a', trace)"
  shows "accepts (with_reset pose_delta ''in'') ''in'' (key_log pose_label (\<lambda>k. Some (fst k)) (tid, jid) trace) =
      Some (pose_mode (tid, jid) a') \<and> list_all (pose_true (pa_cfg a)) (all_events trace)"
proof -
  have "pa_deb a = []"
    using reconfigure_done [of pose_install "and_then (parse_text parse ''pose_angle'' text) pose_parse_cfg" a0]
      assms(1) by (auto simp: pose_configure_def pose_install_def)
  then have ok: "pa_ok (pa_cfg a) a" "pose_mode (tid, jid) a = ''in''"
    by (simp_all add: pa_ok_def pose_mode_def)
  have "pose_true (pa_cfg a) e" if "e \<in> set (all_events trace)" for e
  proof (rule pose.drive_events [OF ok(1), of e acos ins])
    show "pose_true (pa_cfg a) e" if "pa_ok (pa_cfg a) s" "e \<in> set (snd (pose_on_frame acos m ts s))" for m ts s e
      by (rule steps_events [where P = "pa_ok (pa_cfg a)" and f = "pose_track acos m" and xs = ts,
            OF that(1) pose_track_ok(1) pose_track_true])
        (use that(2) in \<open>simp_all add: pose_on_frame_def\<close>)
  qed (use that assms(2) in \<open>auto simp: pose_on_removed_def\<close>)
  moreover have "accepts (with_reset pose_delta ''in'') ''in'' (key_log pose_label (\<lambda>k. Some (fst k)) (tid, jid) trace) =
      Some (pose_mode (tid, jid) a')"
    using pose.run_accepted [OF ok(1), of "(tid, jid)" acos ins] ok(2) assms(2) by simp
  ultimately show ?thesis by (simp add: list_all_iff)
qed

text \<open>A joint limited to 90 degrees, and an arc cosine that gives two radians.\<close>

definition pose_demo_json :: json where
  "pose_demo_json = JObj [(''hold_s'', JInt 0), (''joints'', JArr [JObj
     [(''a'', JInt 0), (''b'', JInt 1), (''c'', JInt 2), (''id'', JStr ''knee''), (''max_deg'', JInt 90)]])]"

definition pose_demo :: pose_analyzer where
  "pose_demo = fst (pose_configure (\<lambda>_. Inr pose_demo_json) [] new_pose_analyzer)"

definition pose_demo_track :: track where
  "pose_demo_track = (demo_track 7 (1/2) (1/2))\<lparr>trk_kpts :=
     [\<lparr>kp_x = 0, kp_y = 0, kp_conf = 1\<rparr>, \<lparr>kp_x = 1, kp_y = 0, kp_conf = 1\<rparr>, \<lparr>kp_x = 1, kp_y = 1, kp_conf = 1\<rparr>]\<rparr>"

definition pose_demo_inputs :: "input list" where
  "pose_demo_inputs = [Frame (demo_frame (lit 1)) [pose_demo_track], Frame (demo_frame (lit 2)) [pose_demo_track],
     Removal 7 (lit 6)]"

theorem pose_reports_changes_witness:
  "let (a, trace) = drive (pose_on_frame (\<lambda>x. lit 2)) pose_on_removed pose_demo_inputs pose_demo in
   key_log pose_label (\<lambda>k. Some (fst k)) (7, ''knee'') trace = [Some ''angle_out'', None] \<and>
   pose_mode (7, ''knee'') a = ''in'' \<and> list_all (pose_true (pa_cfg pose_demo)) (all_events trace)"
proof -
  let ?c = "pose_configure (\<lambda>_. Inr pose_demo_json) [] new_pose_analyzer"
  let ?d = "drive (pose_on_frame (\<lambda>x. lit 2)) pose_on_removed pose_demo_inputs pose_demo"
  have "snd ?c = Returned ()" by code_simp
  then have c: "?c = (pose_demo, Returned ())" by (metis prod.collapse pose_demo_def)
  have "key_log pose_label (\<lambda>k. Some (fst k)) (7, ''knee'') (snd ?d) = [Some ''angle_out'', None]" by code_simp
  then show ?thesis using pose_reports_changes [OF c, of "\<lambda>x. lit 2" pose_demo_inputs "fst ?d" "snd ?d" 7 "''knee''"]
    by (simp add: case_prod_beta pose_delta_def pose_level_def)
qed

end
