(* ===== verification/Line_Cross.thy ===== *)
theory Line_Cross
  imports Motion_Facts
begin

text \<open>
  \<open>core-cpp/vb/src/analyzers/line_cross.cpp\<close>: directed crossings of configured lines, with a
  hysteresis band, a margin at the segment ends, a minimal age, a minimal travel between counts
  and the inheritance of a lost track's side and last counted direction by a new track.
\<close>

section \<open>State and configuration\<close>

record line_cfg =
  ln_id :: string
  ln_ax :: f32
  ln_ay :: f32
  ln_bx :: f32
  ln_by :: f32

record lc_config =
  lc_lines :: "line_cfg list"
  lc_band :: f32
  lc_segment_margin :: f32
  lc_min_travel :: f32
  lc_reborn_window_s :: f32
  lc_reborn_dist :: f32
  lc_min_track_frames :: int
  lc_classes :: "int list"

definition default_lc_config :: lc_config where
  "default_lc_config = \<lparr>lc_lines = [], lc_band = 0, lc_segment_margin = lit (5/100), lc_min_travel = lit (2/100),
     lc_reborn_window_s = lit (15/10), lc_reborn_dist = lit (5/100), lc_min_track_frames = 3, lc_classes = []\<rparr>"

record per_track =
  pt_side :: int
  pt_counted :: int
  pt_has_anchor :: bool
  pt_ax :: f32
  pt_ay :: f32
  pt_lx :: f32
  pt_ly :: f32
  pt_age :: u32

definition new_per_track :: per_track where
  "new_per_track = \<lparr>pt_side = 0, pt_counted = 0, pt_has_anchor = False, pt_ax = 0, pt_ay = 0, pt_lx = 0, pt_ly = 0, pt_age = 0\<rparr>"

record lost =
  lo_t :: f64
  lo_ax :: f32
  lo_ay :: f32
  lo_counted :: int
  lo_side :: int

record line_state =
  ls_st :: "(u32, per_track) omap"
  ls_lost :: "lost list"

record line_analyzer =
  lc_cfg :: lc_config
  lc_lst :: "line_state list"

definition new_line_analyzer :: line_analyzer where
  "new_line_analyzer = \<lparr>lc_cfg = default_lc_config, lc_lst = []\<rparr>"

definition read_point :: "string \<Rightarrow> json \<Rightarrow> point outcome" where
  "read_point k lj =
    and_then (get_at k lj) (\<lambda>v.
    and_then (json_at 0 v) (\<lambda>x. and_then (get_float x) (\<lambda>fx.
    and_then (json_at 1 v) (\<lambda>y. and_then (get_float y) (\<lambda>fy. Returned (fx, fy))))))"

definition parse_line :: "json \<Rightarrow> line_cfg list \<Rightarrow> line_cfg outcome" where
  "parse_line lj lines =
    and_then (check (is_object lj \<and> json_find ''id'' lj \<noteq> None \<and> json_find ''a'' lj \<noteq> None \<and> json_find ''b'' lj \<noteq> None)
      ''line_cross: each line needs id, a, b'') (\<lambda>_.
    and_then (get_at ''id'' lj) (\<lambda>idj.
    and_then (get_string idj) (\<lambda>lid.
    and_then (check (lid \<noteq> [] \<and> length lid \<le> 32) ''line_cross: line id must be 1..32 chars'') (\<lambda>_.
    and_then (check (\<not> list_ex (\<lambda>l. ln_id l = lid) lines) (''line_cross: duplicate line id '' @ lid)) (\<lambda>_.
    and_then (read_point ''a'' lj) (\<lambda>pa.
    and_then (read_point ''b'' lj) (\<lambda>pb.
    and_then (check (\<not> fhypot (fst pb - fst pa) (snd pb - snd pa) < lit (1/1000000000))
      (''line_cross: line '' @ lid @ '' is degenerate'')) (\<lambda>_.
    Returned \<lparr>ln_id = lid, ln_ax = fst pa, ln_ay = snd pa, ln_bx = fst pb, ln_by = snd pb\<rparr>))))))))"

definition line_float :: "string \<Rightarrow> f32 \<Rightarrow> f32 \<Rightarrow> f32 \<Rightarrow> json \<Rightarrow> f32 outcome" where
  "line_float k lo hi dflt j =
    (case json_find k j of
       None \<Rightarrow> Returned dflt
     | Some f \<Rightarrow>
         if \<not> is_number f then Refused (''line_cross: '' @ k @ '' must be a number'')
         else if num64 f < fconv lo \<or> num64 f > fconv hi then Refused (''line_cross: '' @ k @ '' out of range'')
         else Returned (fconv (num64 f)))"

definition line_frames :: "json \<Rightarrow> int outcome" where
  "line_frames j =
    (case json_find ''min_track_frames'' j of
       None \<Rightarrow> Returned (lc_min_track_frames default_lc_config)
     | Some f \<Rightarrow>
         if \<not> is_number_integer f \<or> int32_of f < 1
         then Refused ''line_cross: min_track_frames must be an int >= 1'' else Returned (int32_of f))"

definition line_parse_cfg :: "json \<Rightarrow> lc_config outcome" where
  "line_parse_cfg j =
    (let c = default_lc_config in
    and_then (check (is_object j) ''line_cross: config must be an object'') (\<lambda>_.
    and_then (case json_find ''lines'' j of
        None \<Rightarrow> Refused ''line_cross: lines must be a non-empty array (1..64)''
      | Some ls \<Rightarrow>
          and_then (check (is_array ls \<and> elements ls \<noteq> [] \<and> length (elements ls) \<le> 64)
            ''line_cross: lines must be a non-empty array (1..64)'')
            (\<lambda>_. collect parse_line (elements ls) [])) (\<lambda>lines.
    and_then (line_float ''band'' 0 1 (lc_band c) j) (\<lambda>band.
    and_then (line_float ''segment_margin'' 0 (lit (1/2)) (lc_segment_margin c) j) (\<lambda>margin.
    and_then (line_float ''min_travel'' 0 1 (lc_min_travel c) j) (\<lambda>travel.
    and_then (line_float ''reborn_window_s'' 0 (lit 3600) (lc_reborn_window_s c) j) (\<lambda>window.
    and_then (line_float ''reborn_dist'' 0 1 (lc_reborn_dist c) j) (\<lambda>dist.
    and_then (line_frames j) (\<lambda>frames.
    and_then (parse_classes j ''line_cross'') (\<lambda>classes.
    Returned \<lparr>lc_lines = lines, lc_band = band, lc_segment_margin = margin, lc_min_travel = travel,
      lc_reborn_window_s = window, lc_reborn_dist = dist, lc_min_track_frames = frames, lc_classes = classes\<rparr>))))))))))"

definition line_install :: "lc_config \<Rightarrow> line_analyzer \<Rightarrow> line_analyzer" where
  "line_install c a = a\<lparr>lc_cfg := c, lc_lst := replicate (length (lc_lines c)) \<lparr>ls_st = [], ls_lost = []\<rparr>\<rparr>"

definition line_configure :: "(string \<Rightarrow> string + json) \<Rightarrow> string \<Rightarrow> line_analyzer \<Rightarrow> line_analyzer \<times> unit outcome" where
  "line_configure parse text =
     reconfigure line_install (and_then (parse_text parse ''line_cross'' text) line_parse_cfg)"

section \<open>One track on one line\<close>

text \<open>The first lost track close enough in time and place, and the deque without it.\<close>

fun take_lost :: "(lost \<Rightarrow> bool) \<Rightarrow> lost list \<Rightarrow> (lost \<times> lost list) option" where
  "take_lost near [] = None"
| "take_lost near (l # ls) =
    (if near l then Some (l, ls)
     else case take_lost near ls of None \<Rightarrow> None | Some (x, rest) \<Rightarrow> Some (x, l # rest))"

definition inherit :: "lc_config \<Rightarrow> f64 \<Rightarrow> point \<Rightarrow> per_track \<times> lost list \<Rightarrow> per_track \<times> lost list" where
  "inherit c now p sl =
    (case sl of (s, ls) \<Rightarrow>
      if pt_age s \<noteq> 0 then (s, ls)
      else case take_lost (\<lambda>l. now - lo_t l \<le> fconv (lc_reborn_window_s c) \<and>
          fhypot (fst p - lo_ax l) (snd p - lo_ay l) \<le> lc_reborn_dist c) ls of
        None \<Rightarrow> (s, ls)
      | Some (l, rest) \<Rightarrow> (s\<lparr>pt_counted := lo_counted l, pt_side := lo_side l\<rparr>, rest))"

definition signed_distance :: "line_cfg \<Rightarrow> point \<Rightarrow> f32" where
  "signed_distance lin p =
    (let dx = ln_bx lin - ln_ax lin; dy = ln_by lin - ln_ay lin
     in (dx * (snd p - ln_ay lin) - dy * (fst p - ln_ax lin)) / fhypot dx dy)"

definition projection :: "line_cfg \<Rightarrow> point \<Rightarrow> f32" where
  "projection lin p =
    (let dx = ln_bx lin - ln_ax lin; dy = ln_by lin - ln_ay lin; len = fhypot dx dy
     in ((fst p - ln_ax lin) * dx + (snd p - ln_ay lin) * dy) / (len * len))"

definition side_of :: "lc_config \<Rightarrow> line_cfg \<Rightarrow> point \<Rightarrow> int" where
  "side_of c lin p =
    (let d = signed_distance lin p in if d > lc_band c then 1 else if d < - lc_band c then - 1 else 0)"

definition beside_segment :: "lc_config \<Rightarrow> line_cfg \<Rightarrow> point \<Rightarrow> bool" where
  "beside_segment c lin p \<longleftrightarrow>
     projection lin p < - lc_segment_margin c \<or> projection lin p > 1 + lc_segment_margin c"

text \<open>The result carries the direction counted: 1 is forward, -1 backward.\<close>

definition line_move :: "lc_config \<Rightarrow> line_cfg \<Rightarrow> point \<Rightarrow> per_track \<Rightarrow> per_track \<times> int option" where
  "line_move c lin p s0 =
    (let s = s0\<lparr>pt_age := pt_age s0 + 1, pt_lx := fst p, pt_ly := snd p\<rparr>;
         cur = side_of c lin p;
         dir = (if pt_side s > 0 then 1 else - 1)
     in if cur = 0 then (s, None)
        else if pt_side s = 0 then (s\<lparr>pt_side := cur\<rparr>, None)
        else if cur = pt_side s then (s, None)
        else if beside_segment c lin p then (s\<lparr>pt_side := cur\<rparr>, None)
        else if sint (pt_age s) < lc_min_track_frames c then (s\<lparr>pt_side := cur\<rparr>, None)
        else if pt_counted s = dir then (s\<lparr>pt_side := cur\<rparr>, None)
        else if pt_has_anchor s \<and> fhypot (fst p - pt_ax s) (snd p - pt_ay s) < lc_min_travel c
        then (s\<lparr>pt_side := cur\<rparr>, None)
        else (s\<lparr>pt_counted := dir, pt_ax := fst p, pt_ay := snd p, pt_has_anchor := True, pt_side := cur\<rparr>, Some dir))"

definition crossing_event :: "string \<Rightarrow> int \<Rightarrow> point \<Rightarrow> track \<Rightarrow> analyzer_event" where
  "crossing_event lid dir p tr =
     emit_event ''line_cross'' (trk_id tr) (json_obj
       [(''line_id'', JStr lid), (''direction'', JStr (if dir > 0 then ''forward'' else ''backward'')),
        (''anchor'', JArr [json_of_f32 (fst p), json_of_f32 (snd p)]),
        (''class_id'', JInt (d_class_id (trk_det tr))), (''score'', json_of_f32 (d_score (trk_det tr)))])"

definition line_at :: "frame_meta \<Rightarrow> track \<Rightarrow> point \<Rightarrow> nat \<Rightarrow> line_analyzer \<Rightarrow> line_analyzer \<times> analyzer_event list" where
  "line_at m tr p li a =
    (let c = lc_cfg a; lin = lc_lines c ! li; ls = lc_lst a ! li;
         s0 = (case om_find (trk_id tr) (ls_st ls) of None \<Rightarrow> new_per_track | Some s \<Rightarrow> s);
         (s1, lost) = inherit c (fm_t_mono_s m) p (s0, ls_lost ls);
         (s2, counted) = line_move c lin p s1
     in (a\<lparr>lc_lst := (lc_lst a)[li := \<lparr>ls_st = om_put (trk_id tr) s2 (ls_st ls), ls_lost = lost\<rparr>]\<rparr>,
         case counted of None \<Rightarrow> [] | Some dir \<Rightarrow> [crossing_event (ln_id lin) dir p tr]))"

text \<open>The anchor, extrapolated with the velocity while the track coasts.\<close>

definition line_anchor :: "frame_meta \<Rightarrow> track \<Rightarrow> point" where
  "line_anchor m tr =
    (let d = trk_det tr; mx = d_cx d; my = d_cy d + d_h d * lit (1/2);
         dts0 = fm_t_mono_s m - trk_last_seen_s tr; dts = (if dts0 < 0 then 0 else dts0)
     in if trk_misses tr > 0
        then to_source_norm (fm_geom m) (mx + fconv (fconv (trk_vx tr) * dts)) (my + fconv (fconv (trk_vy tr) * dts))
        else to_source_norm (fm_geom m) mx my)"

definition line_track :: "frame_meta \<Rightarrow> track \<Rightarrow> line_analyzer \<Rightarrow> line_analyzer \<times> analyzer_event list" where
  "line_track m tr a =
    (if \<not> class_ok (lc_classes (lc_cfg a)) (d_class_id (trk_det tr)) then (a, [])
     else steps (line_at m tr (line_anchor m tr)) [0..<length (lc_lines (lc_cfg a))] a)"

definition line_on_frame :: "frame_meta \<Rightarrow> track list \<Rightarrow> line_analyzer \<Rightarrow> line_analyzer \<times> analyzer_event list" where
  "line_on_frame m tracks = steps (line_track m) tracks"

section \<open>Removal\<close>

fun forget :: "f64 \<Rightarrow> f64 \<Rightarrow> lost list \<Rightarrow> lost list" where
  "forget t window [] = []"
| "forget t window (l # ls) = (if t - lo_t l > window then forget t window ls else l # ls)"

definition line_remove_at :: "u32 \<Rightarrow> f64 \<Rightarrow> nat \<Rightarrow> line_analyzer \<Rightarrow> line_analyzer" where
  "line_remove_at tid t li a =
    (let ls = lc_lst a ! li in
     case om_find tid (ls_st ls) of
       None \<Rightarrow> a
     | Some s \<Rightarrow>
        let lost = ls_lost ls @ (if pt_counted s \<noteq> 0
              then [\<lparr>lo_t = t, lo_ax = pt_lx s, lo_ay = pt_ly s, lo_counted = pt_counted s, lo_side = pt_side s\<rparr>] else [])
        in a\<lparr>lc_lst := (lc_lst a)[li := \<lparr>ls_st = om_del tid (ls_st ls),
              ls_lost = forget t (fconv (lc_reborn_window_s (lc_cfg a))) lost\<rparr>]\<rparr>)"

definition line_on_removed :: "u32 \<Rightarrow> f64 \<Rightarrow> line_analyzer \<Rightarrow> line_analyzer \<times> analyzer_event list" where
  "line_on_removed tid t a = (fold (line_remove_at tid t) [0..<length (lc_lines (lc_cfg a))] a, [])"

section \<open>What is counted\<close>

text \<open>The last side outside the band that a track's anchors were on.\<close>

definition last_side :: "lc_config \<Rightarrow> line_cfg \<Rightarrow> point list \<Rightarrow> int \<Rightarrow> int" where
  "last_side c lin ps s = fold (\<lambda>p s. if side_of c lin p = 0 then s else side_of c lin p) ps s"

text \<open>A history of moves; what was counted comes with its anchor.\<close>

fun line_moves :: "lc_config \<Rightarrow> line_cfg \<Rightarrow> point list \<Rightarrow> per_track \<Rightarrow> per_track \<times> (point \<times> int) list" where
  "line_moves c lin [] s = (s, [])"
| "line_moves c lin (p # ps) s =
    (let (s', d) = line_move c lin p s; (s'', ds) = line_moves c lin ps s'
     in (s'', (case d of None \<Rightarrow> ds | Some x \<Rightarrow> (p, x) # ds)))"

lemma line_moves_snoc:
  "line_moves c lin (ps @ [p]) s =
    (let (s', ds) = line_moves c lin ps s; (s'', d) = line_move c lin p s'
     in (s'', ds @ (case d of None \<Rightarrow> [] | Some x \<Rightarrow> [(p, x)])))"
  by (induction ps arbitrary: s) (auto simp: case_prod_beta Let_def split: option.split)

lemma line_move_side: "pt_side (fst (line_move c lin p s)) = (if side_of c lin p = 0 then pt_side s else side_of c lin p)"
  by (simp add: line_move_def Let_def)

lemma line_move_age: "pt_age (fst (line_move c lin p s)) = pt_age s + 1"
  by (simp add: line_move_def Let_def)

lemma line_move_counted:
  "pt_counted (fst (line_move c lin p s)) = (case snd (line_move c lin p s) of None \<Rightarrow> pt_counted s | Some d \<Rightarrow> d)"
  by (simp add: line_move_def Let_def)

lemma line_move_anchor:
  "pt_has_anchor (fst (line_move c lin p s)) = (snd (line_move c lin p s) \<noteq> None \<or> pt_has_anchor s)"
  "(pt_ax (fst (line_move c lin p s)), pt_ay (fst (line_move c lin p s))) =
     (case snd (line_move c lin p s) of None \<Rightarrow> (pt_ax s, pt_ay s) | Some d \<Rightarrow> p)"
  by (simp_all add: line_move_def Let_def)

lemma line_moves_state:
  "pt_side (fst (line_moves c lin ps s)) = last_side c lin ps (pt_side s) \<and>
   pt_counted (fst (line_moves c lin ps s)) = last (pt_counted s # map snd (snd (line_moves c lin ps s))) \<and>
   pt_age (fst (line_moves c lin ps s)) = pt_age s + of_nat (length ps) \<and>
   pt_has_anchor (fst (line_moves c lin ps s)) = (snd (line_moves c lin ps s) \<noteq> [] \<or> pt_has_anchor s) \<and>
   (snd (line_moves c lin ps s) \<noteq> [] \<longrightarrow>
     (pt_ax (fst (line_moves c lin ps s)), pt_ay (fst (line_moves c lin ps s))) = fst (last (snd (line_moves c lin ps s))))"
proof (induction ps rule: rev_induct)
  case (snoc p ps)
  then show ?case
    using line_move_anchor(2) [of c lin p "fst (line_moves c lin ps s)"]
    by (simp add: line_moves_snoc case_prod_beta Let_def line_move_side line_move_counted line_move_age line_move_anchor(1)
        last_side_def split: option.split)
qed (simp add: last_side_def)

lemma line_moves_alternate: "distinct_adj (pt_counted s # map snd (snd (line_moves c lin ps s)))"
proof (induction ps rule: rev_induct)
  case (snoc p ps)
  obtain s' ds where m: "line_moves c lin ps s = (s', ds)" by force
  have "pt_counted s' = last (pt_counted s # map snd ds)" using line_moves_state [of c lin ps s] m by simp
  moreover have "snd (line_move c lin p s') = Some d \<Longrightarrow> d \<noteq> pt_counted s'" for d
    by (auto simp: line_move_def Let_def split: if_splits)
  ultimately show ?case using snoc m
    by (auto simp: line_moves_snoc case_prod_beta Let_def distinct_adj_append_iff simp flip: append_Cons
        split: option.split)
qed simp

lemma side_of_values: "side_of c lin q \<in> {- 1, 0, 1}"
  by (simp add: side_of_def Let_def)

lemma last_side_values: "s \<in> {- 1, 0, 1} \<Longrightarrow> last_side c lin ps s \<in> {- 1, 0, 1}"
  using side_of_values [of c lin] by (induction ps rule: rev_induct) (auto simp: last_side_def)

text \<open>What a new track starts from: nothing, or the side and the last counted direction of a lost track.\<close>

lemma take_lost_Some: "take_lost near ls = Some (l, rest) \<Longrightarrow> l \<in> set ls \<and> near l \<and> set rest \<subseteq> set ls"
  by (induction near ls arbitrary: l rest rule: take_lost.induct) (auto split: if_splits option.splits)

lemma inherit_start:
  assumes "inherit c t p (new_per_track, lost) = (s0, rest)"
  shows "pt_age s0 = 0" "\<not> pt_has_anchor s0"
    "(pt_side s0 = 0 \<and> pt_counted s0 = 0) \<or>
     (\<exists>l \<in> set lost. t - lo_t l \<le> fconv (lc_reborn_window_s c) \<and> fhypot (fst p - lo_ax l) (snd p - lo_ay l) \<le> lc_reborn_dist c \<and>
        pt_side s0 = lo_side l \<and> pt_counted s0 = lo_counted l)"
  using assms by (auto simp: inherit_def new_per_track_def dest!: take_lost_Some split: option.splits)

text \<open>The sides of an analyzer's tracks and of its lost tracks are always -1, 0 or 1.\<close>

definition unit_side :: "int \<Rightarrow> bool" where
  "unit_side i \<longleftrightarrow> i \<in> {- 1, 0, 1}"

definition sides_ok :: "line_analyzer \<Rightarrow> bool" where
  "sides_ok a \<longleftrightarrow> (\<forall>ls \<in> set (lc_lst a). (\<forall>e \<in> set (ls_st ls). unit_side (pt_side (snd e))) \<and>
     (\<forall>l \<in> set (ls_lost ls). unit_side (lo_side l)))"

lemma sides_ok_install: "sides_ok (line_install c a)"
  by (auto simp: sides_ok_def line_install_def)

lemma om_put_values: "e \<in> set (om_put k v m) \<Longrightarrow> e = (k, v) \<or> e \<in> set m"
  by (induction k v m rule: om_put.induct) (auto split: if_splits)

lemma om_del_values: "e \<in> set (om_del k m) \<Longrightarrow> e \<in> set m"
  by (induction k m rule: om_del.induct) (auto split: if_splits)

lemma set_update_cases: "x \<in> set (xs[i := y]) \<Longrightarrow> x = y \<or> x \<in> set xs"
  using set_update_subset_insert by fastforce

lemma sides_ok_update:
  "sides_ok a \<Longrightarrow> (\<forall>e \<in> set (ls_st ls). unit_side (pt_side (snd e))) \<Longrightarrow> (\<forall>l \<in> set (ls_lost ls). unit_side (lo_side l)) \<Longrightarrow>
    sides_ok (a\<lparr>lc_lst := (lc_lst a)[i := ls]\<rparr>)"
  by (fastforce simp: sides_ok_def dest!: set_update_cases)

lemma forget_subset: "set (forget t w ls) \<subseteq> set ls"
  by (induction t w ls rule: forget.induct) auto

lemma inherit_sides:
  "unit_side (pt_side s) \<Longrightarrow> \<forall>l \<in> set lost. unit_side (lo_side l) \<Longrightarrow> inherit c t p (s, lost) = (s', rest) \<Longrightarrow>
    unit_side (pt_side s') \<and> (\<forall>l \<in> set rest. unit_side (lo_side l))"
  by (fastforce simp: inherit_def dest!: take_lost_Some split: if_splits option.splits)

lemma line_at_sides:
  assumes "sides_ok a" "li < length (lc_lst a)"
  shows "sides_ok (fst (line_at m tr p li a))"
proof -
  let ?ls = "lc_lst a ! li"
  define s where "s = (case om_find (trk_id tr) (ls_st ?ls) of None \<Rightarrow> new_per_track | Some s \<Rightarrow> s)"
  obtain s1 lost where i: "inherit (lc_cfg a) (fm_t_mono_s m) p (s, ls_lost ?ls) = (s1, lost)" by fastforce
  have ls: "\<forall>e \<in> set (ls_st ?ls). unit_side (pt_side (snd e))" "\<forall>l \<in> set (ls_lost ?ls). unit_side (lo_side l)"
    using assms by (auto simp: sides_ok_def)
  have "unit_side (pt_side s)"
    using ls(1) by (auto simp: s_def new_per_track_def unit_side_def dest!: om_find_in split: option.split)
  from inherit_sides [OF this ls(2) i]
  have s1: "unit_side (pt_side s1)" "\<forall>l \<in> set lost. unit_side (lo_side l)" by auto
  have "unit_side (pt_side (fst (line_move (lc_cfg a) lin p s1)))" for lin
    using s1(1) side_of_values [of "lc_cfg a" lin p] by (auto simp: line_move_side unit_side_def)
  then show ?thesis
    using ls(1) s1(2) i unfolding line_at_def Let_def s_def [symmetric]
    by (fastforce simp: case_prod_beta intro!: sides_ok_update [OF assms(1)] dest!: om_put_values)
qed

lemma line_remove_sides:
  assumes "sides_ok a" "li < length (lc_lst a)"
  shows "sides_ok (line_remove_at tid t li a)"
proof (cases "om_find tid (ls_st (lc_lst a ! li))")
  case (Some s)
  have ls: "\<forall>e \<in> set (ls_st (lc_lst a ! li)). unit_side (pt_side (snd e))" "\<forall>l \<in> set (ls_lost (lc_lst a ! li)). unit_side (lo_side l)"
    using assms by (auto simp: sides_ok_def)
  moreover have "unit_side (pt_side s)" using ls(1) om_find_in [OF Some] by auto
  ultimately show ?thesis
    using forget_subset om_del_values unfolding line_remove_at_def Let_def Some option.case
    by (intro sides_ok_update [OF assms(1)]) fastforce+
qed (simp add: line_remove_at_def assms)

lemma line_at_length: "length (lc_lst (fst (line_at m tr p li a))) = length (lc_lst a)" "lc_cfg (fst (line_at m tr p li a)) = lc_cfg a"
  by (simp_all add: line_at_def Let_def case_prod_beta)

lemma line_remove_length: "length (lc_lst (line_remove_at tid t li a)) = length (lc_lst a)" "lc_cfg (line_remove_at tid t li a) = lc_cfg a"
  by (simp_all add: line_remove_at_def Let_def split: option.split)

lemma line_move_iff:
  assumes "pt_side s \<in> {- 1, 0, 1}"
  shows "snd (line_move c lin p s) = Some d \<longleftrightarrow> (d = 1 \<or> d = - 1) \<and> pt_side s = d \<and> side_of c lin p = - d \<and>
    \<not> beside_segment c lin p \<and> lc_min_track_frames c \<le> sint (pt_age s + 1) \<and> pt_counted s \<noteq> d \<and>
    \<not> (pt_has_anchor s \<and> fhypot (fst p - pt_ax s) (snd p - pt_ay s) < lc_min_travel c)"
  using assms side_of_values [of c lin p] by (auto simp: line_move_def Let_def)

text \<open>C12: whatever anchors a track has shown since it was first seen, and whether it started with nothing or with the side and
  the last direction of a lost track close by, its next move is counted in direction d exactly when its last anchor outside the
  band (or the inherited side, when there is none) was on side d and this one is on the other side, the anchor projects inside the
  segment with its margin, the track is old enough, d is not the direction counted last, and the move is at least
  \<open>min_travel\<close> away from the anchor counted last. Counted directions therefore alternate, the inherited one included; the same
  direction may be counted again after the other one.\<close>

theorem counted_crossings_are_crossings:
  assumes "inherit c t (hd (ps @ [p])) (new_per_track, lost) = (s0, rest)" "\<forall>l \<in> set lost. lo_side l \<in> {- 1, 0, 1}"
    "line_moves c lin ps s0 = (s, cs)" "length ps < 2 ^ 31 - 1"
  shows "(snd (line_move c lin p s) = Some d) = ((d = 1 \<or> d = - 1) \<and> last_side c lin ps (pt_side s0) = d \<and> side_of c lin p = - d \<and>
     \<not> beside_segment c lin p \<and> lc_min_track_frames c \<le> int (length ps) + 1 \<and> last (pt_counted s0 # map snd cs) \<noteq> d \<and>
     (cs \<noteq> [] \<longrightarrow> \<not> fhypot (fst p - fst (fst (last cs))) (snd p - snd (fst (last cs))) < lc_min_travel c)) \<and>
   distinct_adj (pt_counted s0 # map snd cs) \<and>
   ((pt_side s0 = 0 \<and> pt_counted s0 = 0) \<or> (\<exists>l \<in> set lost. pt_side s0 = lo_side l \<and> pt_counted s0 = lo_counted l))"
proof -
  have st: "pt_side s = last_side c lin ps (pt_side s0)" "pt_counted s = last (pt_counted s0 # map snd cs)"
    "pt_age s = of_nat (length ps)" "pt_has_anchor s = (cs \<noteq> [])" "cs \<noteq> [] \<Longrightarrow> (pt_ax s, pt_ay s) = fst (last cs)"
    using line_moves_state [of c lin ps s0] assms(3) inherit_start(1,2) [OF assms(1)] by simp_all
  have start: "(pt_side s0 = 0 \<and> pt_counted s0 = 0) \<or> (\<exists>l \<in> set lost. pt_side s0 = lo_side l \<and> pt_counted s0 = lo_counted l)"
    using inherit_start(3) [OF assms(1)] by blast
  then have "pt_side s0 \<in> {- 1, 0, 1}" using assms(2) by auto
  then have vals: "pt_side s \<in> {- 1, 0, 1}" unfolding st(1) by (rule last_side_values)
  have w: "sint (word_of_int k :: u32) = k" if "0 \<le> k" "k < 2 ^ 31" for k
    using that by (simp add: sint_sbintrunc' signed_take_bit_int_eq_self)
  have age: "sint (pt_age s + 1) = int (length ps) + 1" using w [of "int (length ps) + 1"] assms(4) by (simp add: st(3))
  have far: "(pt_has_anchor s \<and> fhypot (fst p - pt_ax s) (snd p - pt_ay s) < lc_min_travel c) =
      (cs \<noteq> [] \<and> fhypot (fst p - fst (fst (last cs))) (snd p - snd (fst (last cs))) < lc_min_travel c)"
    using st(4) st(5) [symmetric] by (cases "cs = []") simp_all
  have "distinct_adj (pt_counted s0 # map snd cs)" using line_moves_alternate [of s0 c lin ps] assms(3) by simp
  with start show ?thesis unfolding line_move_iff [OF vals] far age st(1,2) by blast
qed

section \<open>Concrete instances\<close>

text \<open>The vertical line through the middle, and a track that goes right, back and right again: both
  forward crossings are counted, so a direction can be counted twice for one track.\<close>

definition demo_line :: line_cfg where
  "demo_line = \<lparr>ln_id = ''l'', ln_ax = lit (1/2), ln_ay = 0, ln_bx = lit (1/2), ln_by = 1\<rparr>"

definition demo_path :: "point list" where
  "demo_path = map (\<lambda>x. (lit x, lit (1/2))) [1/4, 1/4, 3/4, 1/4]"

lemma forward_twice:
  "map snd (snd (line_moves default_lc_config demo_line (demo_path @ [(lit (3/4), lit (1/2))]) new_per_track)) = [1, - 1, 1]"
  by code_simp

theorem counted_crossings_are_crossings_witness:
  "let (s, cs) = line_moves default_lc_config demo_line demo_path new_per_track in
   map snd cs = [1, - 1] \<and> snd (line_move default_lc_config demo_line (lit (3/4), lit (1/2)) s) = Some 1 \<and>
   last_side default_lc_config demo_line demo_path 0 = 1"
proof -
  let ?m = "line_moves default_lc_config demo_line demo_path new_per_track"
  have ds: "map snd (snd ?m) = [1, - 1]" by code_simp
  have l: "length demo_path < 2 ^ 31 - 1" by (simp add: demo_path_def)
  have i: "inherit default_lc_config 0 (hd (demo_path @ [(lit (3/4), lit (1/2))])) (new_per_track, []) = (new_per_track, [])"
    by (simp add: inherit_def)
  have "snd (line_move default_lc_config demo_line (lit (3/4), lit (1/2)) (fst ?m)) = Some 1"
    using forward_twice ds by (simp add: line_moves_snoc case_prod_beta Let_def split: option.splits)
  with counted_crossings_are_crossings [OF i _ prod.collapse [symmetric] l, of demo_line 1] ds
  show ?thesis by (simp add: case_prod_beta new_per_track_def)
qed

section \<open>The analyzer contract\<close>

definition la_ok :: "lc_config \<Rightarrow> line_analyzer \<Rightarrow> bool" where
  "la_ok c a \<longleftrightarrow> lc_cfg a = c \<and> length (lc_lst a) = length (lc_lines c) \<and> (\<forall>ls \<in> set (lc_lst a). om_ok (ls_st ls))"

definition la_ids :: "line_analyzer \<Rightarrow> u32 set" where
  "la_ids a = (\<Union>ls \<in> set (lc_lst a). fst ` set (ls_st ls))"

lemma line_at_contract:
  assumes "la_ok c a" "li < length (lc_lines c)"
  shows "la_ok c (fst (line_at m tr p li a))" "la_ids (fst (line_at m tr p li a)) \<subseteq> insert (trk_id tr) (la_ids a)"
proof -
  obtain s lo where eq: "fst (line_at m tr p li a) =
      a\<lparr>lc_lst := (lc_lst a)[li := \<lparr>ls_st = om_put (trk_id tr) s (ls_st (lc_lst a ! li)), ls_lost = lo\<rparr>]\<rparr>"
    by (simp add: line_at_def Let_def case_prod_beta)
  have nth: "lc_lst a ! li \<in> set (lc_lst a)" using assms by (simp add: la_ok_def)
  show "la_ok c (fst (line_at m tr p li a))"
    using assms(1) nth unfolding eq la_ok_def by (auto dest!: set_update_cases simp: om_ok_put)
  show "la_ids (fst (line_at m tr p li a)) \<subseteq> insert (trk_id tr) (la_ids a)"
  proof
    fix i assume "i \<in> la_ids (fst (line_at m tr p li a))"
    then obtain ls where ls: "ls \<in> set (lc_lst (fst (line_at m tr p li a)))" "i \<in> fst ` set (ls_st ls)"
      unfolding la_ids_def by blast
    from ls(1) have "ls = \<lparr>ls_st = om_put (trk_id tr) s (ls_st (lc_lst a ! li)), ls_lost = lo\<rparr> \<or> ls \<in> set (lc_lst a)"
      unfolding eq by (simp add: set_update_cases)
    then show "i \<in> insert (trk_id tr) (la_ids a)"
    proof
      assume "ls = \<lparr>ls_st = om_put (trk_id tr) s (ls_st (lc_lst a ! li)), ls_lost = lo\<rparr>"
      with ls(2) have "i = trk_id tr \<or> i \<in> fst ` set (ls_st (lc_lst a ! li))" by (simp add: fst_om_put)
      with nth show ?thesis unfolding la_ids_def by blast
    next
      assume "ls \<in> set (lc_lst a)"
      with ls(2) show ?thesis unfolding la_ids_def by blast
    qed
  qed
qed

lemma line_track_contract:
  assumes "la_ok c a"
  shows "la_ok c (fst (line_track m tr a))" "la_ids (fst (line_track m tr a)) \<subseteq> insert (trk_id tr) (la_ids a)"
proof -
  define P where "P b \<longleftrightarrow> la_ok c b \<and> la_ids b \<subseteq> insert (trk_id tr) (la_ids a)" for b
  have step: "P (fst (line_at m tr p li b))" if "li \<in> set [0..<length (lc_lines c)]" "P b" for p li b
    using line_at_contract [of c b li m tr p] that unfolding P_def by auto
  have "P (fst (steps (line_at m tr p) [0..<length (lc_lines c)] a))" for p
    by (rule steps_invariant [where P = P, OF _ step], simp add: P_def assms subset_insertI, assumption+)
  moreover have "lc_cfg a = c" "P a" using assms by (auto simp: la_ok_def P_def)
  ultimately have "P (fst (line_track m tr a))" by (simp add: line_track_def)
  then show "la_ok c (fst (line_track m tr a))" "la_ids (fst (line_track m tr a)) \<subseteq> insert (trk_id tr) (la_ids a)"
    by (simp_all add: P_def)
qed

lemma line_on_frame_sides:
  assumes "la_ok c a" "sides_ok a"
  shows "sides_ok (fst (line_on_frame m ts a))"
proof -
  have at: "la_ok c (fst (line_at m tr p li b)) \<and> sides_ok (fst (line_at m tr p li b))"
    if "li \<in> set [0..<length (lc_lines c)]" "la_ok c b \<and> sides_ok b" for tr p li b
    using that line_at_contract(1) [of c b li m tr p] line_at_sides [of b li m tr p] by (simp add: la_ok_def)
  have "la_ok c (fst (line_track m tr b)) \<and> sides_ok (fst (line_track m tr b))" if b: "la_ok c b \<and> sides_ok b" for tr b
  proof -
    have "la_ok c (fst (steps (line_at m tr p) [0..<length (lc_lines c)] b)) \<and> sides_ok (fst (steps (line_at m tr p) [0..<length (lc_lines c)] b))" for p
      by (rule steps_invariant [where P = "\<lambda>b. la_ok c b \<and> sides_ok b", OF b at])
    then show ?thesis using b by (simp add: line_track_def la_ok_def)
  qed
  then have "la_ok c (fst (line_on_frame m ts a)) \<and> sides_ok (fst (line_on_frame m ts a))"
    unfolding line_on_frame_def using assms by (intro steps_invariant [where P = "\<lambda>b. la_ok c b \<and> sides_ok b"]) simp_all
  then show ?thesis by simp
qed

lemma line_on_removed_sides:
  assumes "la_ok c a" "sides_ok a"
  shows "sides_ok (fst (line_on_removed tid t a))"
proof -
  have "sides_ok (fold (line_remove_at tid t) [0..<n] a) \<and> length (lc_lst (fold (line_remove_at tid t) [0..<n] a)) = length (lc_lst a)"
    if "n \<le> length (lc_lst a)" for n
    using that assms(2) by (induction n) (simp_all add: line_remove_sides line_remove_length)
  from this [of "length (lc_lst a)"] assms(1) show ?thesis by (simp add: line_on_removed_def la_ok_def)
qed

lemma line_removed_lst:
  "n \<le> length (lc_lst a) \<Longrightarrow>
    map ls_st (lc_lst (fold (line_remove_at i t) [0..<n] a)) =
      map (\<lambda>j. if j < n then om_del i (ls_st (lc_lst a ! j)) else ls_st (lc_lst a ! j)) [0..<length (lc_lst a)] \<and>
    lc_cfg (fold (line_remove_at i t) [0..<n] a) = lc_cfg a"
proof (induction n)
  case 0
  show ?case by (auto intro!: nth_equalityI)
next
  case (Suc n)
  define b where "b = fold (line_remove_at i t) [0..<n] a"
  have rm: "map ls_st (lc_lst (line_remove_at i t n b)) = (map ls_st (lc_lst b))[n := om_del i (map ls_st (lc_lst b) ! n)]"
    if "n < length (lc_lst b)"
    using that om_del_absent [of i "ls_st (lc_lst b ! n)"] map_update [of ls_st "lc_lst b" n "lc_lst b ! n"]
    by (auto simp: line_remove_at_def Let_def map_update split: option.split)
  have cfg: "lc_cfg (line_remove_at i t n b) = lc_cfg b"
    by (simp add: line_remove_at_def Let_def split: option.split)
  have IH: "map ls_st (lc_lst b) = map (\<lambda>j. if j < n then om_del i (ls_st (lc_lst a ! j)) else ls_st (lc_lst a ! j)) [0..<length (lc_lst a)]"
    "lc_cfg b = lc_cfg a" using Suc by (simp_all add: b_def)
  have len: "length (lc_lst b) = length (lc_lst a)" using arg_cong [OF IH(1), of length] by simp
  have "map ls_st (lc_lst (line_remove_at i t n b)) =
      map (\<lambda>j. if j < Suc n then om_del i (ls_st (lc_lst a ! j)) else ls_st (lc_lst a ! j)) [0..<length (lc_lst a)]"
    using Suc.prems rm unfolding len IH(1) by (auto intro!: nth_equalityI simp: nth_list_update)
  with cfg IH(2) show ?case by (simp add: b_def)
qed

interpretation line: analyzer line_on_frame line_on_removed "la_ok c" la_ids for c
proof
  fix a m i t and ts :: "track list" assume ok: "la_ok c a"
  define P where "P b \<longleftrightarrow> la_ok c b \<and> la_ids b \<subseteq> la_ids a \<union> trk_id ` set ts" for b
  have "P (fst (line_track m tr b))" if "tr \<in> set ts" "P b" for tr :: track and b
    using line_track_contract [of c b m tr] that unfolding P_def by blast
  then have "P (fst (line_on_frame m ts a))"
    unfolding line_on_frame_def by (intro steps_invariant [where P = P]) (simp_all add: P_def ok)
  then show "la_ok c (fst (line_on_frame m ts a))"
    "la_ids (fst (line_on_frame m ts a)) \<subseteq> la_ids a \<union> trk_id ` set ts" by (simp_all add: P_def)
  have n: "length (lc_lines (lc_cfg a)) = length (lc_lst a)" and om: "\<And>ls. ls \<in> set (lc_lst a) \<Longrightarrow> om_ok (ls_st ls)"
    using ok by (auto simp: la_ok_def)
  have st: "map ls_st (lc_lst (fst (line_on_removed i t a))) = map (\<lambda>ls. om_del i (ls_st ls)) (lc_lst a)"
    using line_removed_lst [of "length (lc_lst a)" a i t] n by (auto simp: line_on_removed_def intro!: nth_equalityI)
  have set: "ls_st ` set (lc_lst (fst (line_on_removed i t a))) = (\<lambda>ls. om_del i (ls_st ls)) ` set (lc_lst a)"
    using arg_cong [OF st, of set] by simp
  have cfg: "lc_cfg (fst (line_on_removed i t a)) = c"
    using line_removed_lst [of "length (lc_lst a)" a i t] n ok by (simp add: line_on_removed_def la_ok_def)
  have ids: "la_ids b = (\<Union>mm \<in> ls_st ` set (lc_lst b). fst ` set mm)" for b by (simp add: la_ids_def)
  show "la_ids (fst (line_on_removed i t a)) = la_ids a - {i}"
    unfolding ids set using om by (fastforce simp: set_om_del)
  have "om_ok mm" if "mm \<in> ls_st ` set (lc_lst (fst (line_on_removed i t a)))" for mm
    using that om unfolding set by (auto simp: om_ok_del)
  with arg_cong [OF st, of length] cfg ok show "la_ok c (fst (line_on_removed i t a))"
    by (simp add: la_ok_def)
qed

end
