(* ===== verification/Float_Bits.thy ===== *)
theory Float_Bits
  imports Prelude
begin

text \<open>
  The bytes of a \<open>float\<close> or a \<open>double\<close>: what \<open>memcpy\<close> into an integer of the same width gives. The
  fields are sign, biased exponent and fraction; a NaN is written as the default quiet NaN, its
  payload is not kept.
\<close>

section \<open>Bit patterns\<close>

fun fl_bits :: "('e::len, 'p::len) fl \<Rightarrow> int" where
  "fl_bits (FZero s) = (if s then 2 ^ (LENGTH('p) - 1) * 2 ^ LENGTH('e) else 0)"
| "fl_bits (FInf s) = (if s then 2 ^ (LENGTH('p) - 1) * 2 ^ LENGTH('e) else 0) + (2 ^ LENGTH('e) - 1) * 2 ^ (LENGTH('p) - 1)"
| "fl_bits FNaN = (2 ^ LENGTH('e) - 1) * 2 ^ (LENGTH('p) - 1) + 2 ^ (LENGTH('p) - 2)"
| "fl_bits (FNum q) =
    (let em = fl_emin TYPE(('e, 'p) fl); u = ulp_exp LENGTH('p) em q
     in (if q < 0 then 2 ^ (LENGTH('p) - 1) * 2 ^ LENGTH('e) else 0) + (u - em) * 2 ^ (LENGTH('p) - 1) +
        \<lfloor>\<bar>q\<bar> / 2 powi u\<rfloor>)"

definition f32_bits :: "f32 \<Rightarrow> u32" where "f32_bits x = word_of_int (fl_bits x)"

definition f64_bits :: "f64 \<Rightarrow> u64" where "f64_bits x = word_of_int (fl_bits x)"

text \<open>Reading a pattern back.\<close>

definition bits_fl :: "int \<Rightarrow> ('e::len, 'p::len) fl" where
  "bits_fl b =
    (let P = 2 ^ (LENGTH('p) - 1); E = 2 ^ LENGTH('e); s = (b div (P * E) = 1); ex = b div P mod E; fr = b mod P
     in if ex = E - 1 then (if fr = 0 then FInf s else FNaN)
        else if ex = 0 \<and> fr = 0 then FZero s
        else let v = of_int (if ex = 0 then fr else fr + P) *
               2 powi (fl_emin TYPE(('e, 'p) fl) + (if ex = 0 then 0 else ex - 1))
          in FNum (if s then - v else v))"

lemma fields_of_bits:
  fixes P E :: int
  assumes "0 < P" "0 \<le> fr" "fr < P" "0 \<le> ex" "ex < E" "b = (if s then P * E else 0) + ex * P + fr"
  shows "(b div (P * E) = 1) = s" "b div P mod E = ex" "b mod P = fr"
proof -
  have b: "b = fr + P * ((if s then E else 0) + ex)" using assms(6) by (simp add: algebra_simps)
  show "b mod P = fr" using assms(2,3) by (simp add: b)
  have d: "b div P = ex + E * (if s then 1 else 0)"
    using assms(1-3) by (simp add: b)
  then show "b div P mod E = ex" using assms(4,5) by simp
  have "b div (P * E) = (ex + E * (if s then 1 else 0)) div E"
    using d assms(4,5) by (simp add: zdiv_zmult2_eq)
  also have "\<dots> = (if s then 1 else 0)" using assms(4,5) by auto
  finally show "(b div (P * E) = 1) = s" by simp
qed

lemma bits_fl_fields:
  fixes P E :: int
  assumes "P = 2 ^ (LENGTH('p) - 1)" "E = 2 ^ LENGTH('e)" "0 \<le> fr" "fr < P" "0 \<le> ex" "ex < E"
    "b = (if s then P * E else 0) + ex * P + fr"
  shows "(bits_fl b :: ('e::len, 'p::len) fl) =
    (if ex = E - 1 then (if fr = 0 then FInf s else FNaN)
     else if ex = 0 \<and> fr = 0 then FZero s
     else let v = of_int (if ex = 0 then fr else fr + P) *
            2 powi (fl_emin TYPE(('e, 'p) fl) + (if ex = 0 then 0 else ex - 1))
       in FNum (if s then - v else v))"
proof -
  have "0 < P" by (simp add: assms(1))
  note f = fields_of_bits [OF this assms(3-7)]
  show ?thesis unfolding bits_fl_def assms(1,2) [symmetric] Let_def f ..
qed

lemma significand:
  assumes "0 < r" "repr p em r" "1 \<le> p"
  defines "u \<equiv> ulp_exp p em r" and "m \<equiv> \<lfloor>r / 2 powi ulp_exp p em r\<rfloor>"
  shows "r = of_int m * 2 powi u" "0 < m" "m < 2 ^ p" "em < u \<Longrightarrow> 2 ^ (p - 1) \<le> m"
    "em \<le> u" "u \<le> max (ilog2 r - (int p - 1)) em"
proof -
  have "rnd p em r = r" using assms(1-3) by (simp add: rnd_repr_id)
  then have r: "r = of_int (rne (r / 2 powi u)) * 2 powi u" using assms(1) by (simp add: rnd_def u_def)
  then have "r / 2 powi u = of_int (rne (r / 2 powi u))" by (simp add: field_simps)
  then have m: "m = rne (r / 2 powi u)" unfolding m_def u_def [symmetric] by (metis floor_of_int)
  show rm: "r = of_int m * 2 powi u" using r m by simp
  have pos: "(0::rat) < 2 powi u" by simp
  show "0 < m" using assms(1) rm pos by (metis of_int_0_less_iff zero_less_mult_pos2)
  show "em < u \<Longrightarrow> 2 ^ (p - 1) \<le> m"
    using rnd_pos_scale(3) [OF assms(1), of em p] assms(3) by (simp add: m u_def)
  show "em \<le> u" "u \<le> max (ilog2 r - (int p - 1)) em" using assms(1) by (simp_all add: u_def ulp_exp_def)
  have "ilog2 r + 1 \<le> int p + u" using assms(1) by (simp add: u_def ulp_exp_def)
  then have "r < of_int (2 ^ p) * 2 powi u"
    using ilog2_bounds(2) [OF assms(1)] powi2_le_iff [of "ilog2 r + 1" "int p + u"] by (simp add: power_int_add)
  then have "of_int m * 2 powi u < (of_int (2 ^ p) * 2 powi u :: rat)" using rm by simp
  then show "m < 2 ^ p" using pos by (simp only: mult_less_cancel_right_pos of_int_less_iff)
qed

lemma bits_fl_bits:
  fixes x :: "('e::len, 'p::len) fl"
  assumes ok: "fl_ok x" and p: "2 \<le> LENGTH('p)" "2 \<le> LENGTH('e)"
  shows "bits_fl (fl_bits x) = x"
proof -
  define P :: int where "P = 2 ^ (LENGTH('p) - 1)"
  define E :: int where "E = 2 ^ LENGTH('e)"
  have P: "0 < P" and E: "1 < E" and PE: "0 < P * E" by (simp_all add: P_def E_def)
  have e2: "1 < (2 ^ (LENGTH('e) - 1) :: int)" using p(2) by simp
  have e: "E = 2 * 2 ^ (LENGTH('e) - 1)" unfolding E_def by (metis One_nat_def len_gt_0 power_minus_mult mult.commute)
  have pp: "(2 ^ LENGTH('p) :: int) = 2 * P" unfolding P_def by (metis One_nat_def len_gt_0 power_minus_mult mult.commute)
  show ?thesis
  proof (cases x)
    case FNaN
    have "0 < (2 ^ (LENGTH('p) - 2) :: int)" "(2 ^ (LENGTH('p) - 2) :: int) < P" using p by (simp_all add: P_def)
    with bits_fl_fields [where s = False and ex = "E - 1" and fr = "2 ^ (LENGTH('p) - 2)", OF P_def E_def, of "fl_bits x"] E
    show ?thesis by (simp add: FNaN P_def E_def)
  next
    case (FInf s)
    then have "fl_bits x = (if s then P * E else 0) + (E - 1) * P + 0" by (simp only: fl_bits.simps P_def E_def add_0_right)
    with bits_fl_fields [where s = s and ex = "E - 1" and fr = 0, OF P_def E_def, of "fl_bits x"] E P FInf
    show ?thesis by (simp del: fl_bits.simps)
  next
    case (FZero s)
    then have "fl_bits x = (if s then P * E else 0) + 0 * P + 0" by (simp only: fl_bits.simps P_def E_def mult_zero_left add_0_right)
    with bits_fl_fields [where s = s and ex = 0 and fr = 0, OF P_def E_def, of "fl_bits x"] E P FZero
    show ?thesis by (simp del: fl_bits.simps)
  next
    case (FNum q)
    define em where "em = fl_emin TYPE(('e, 'p) fl)"
    define u where "u = ulp_exp LENGTH('p) em \<bar>q\<bar>"
    define m where "m = \<lfloor>\<bar>q\<bar> / 2 powi u\<rfloor>"
    have q: "0 < \<bar>q\<bar>" "repr LENGTH('p) em \<bar>q\<bar>" "ilog2 \<bar>q\<bar> < 2 ^ (LENGTH('e) - 1)"
      using ok FNum by (auto simp: fl_ok_def em_def fl_emax_def abs_if)
    note s = significand [OF q(1,2), folded u_def, folded m_def]
    have lim: "u - em + 1 < E - 1" "em = 3 - 2 ^ (LENGTH('e) - 1) - int LENGTH('p)"
      using s(6) q(3) e E e2 by (auto simp: em_def fl_emin_def max_def split: if_splits)
    have b: "fl_bits x = (if q < 0 then P * E else 0) + (u - em) * P + m"
      unfolding FNum by (simp add: Let_def P_def E_def u_def m_def em_def ulp_exp_def)
    have val: "x = FNum (if q < 0 then - (of_int m * 2 powi u) else of_int m * 2 powi u)" using FNum s(1) by auto
    have "bits_fl (fl_bits x) = (FNum (if q < 0 then - (of_int m * 2 powi u) else of_int m * 2 powi u) :: ('e, 'p) fl)"
    proof (cases "m < P")
      case True
      then have "u = em" using s(4,5) by (fastforce simp: P_def)
      with bits_fl_fields [where s = "q < 0" and ex = 0 and fr = m, OF P_def E_def, of "fl_bits x"] s(1,2) E b True
      show ?thesis by (simp add: Let_def flip: em_def)
    next
      case False
      have "fl_bits x = (if q < 0 then P * E else 0) + (u - em + 1) * P + (m - P)"
        by (simp add: b algebra_simps)
      with bits_fl_fields [where s = "q < 0" and ex = "u - em + 1" and fr = "m - P", OF P_def E_def, of "fl_bits x"]
        s(1,3,5) False lim pp
      show ?thesis by (simp add: Let_def flip: em_def)
    qed
    then show ?thesis by (metis val)
  qed
qed

text \<open>The pattern fits the width, so the integer types hold it.\<close>

lemma fl_bits_range:
  fixes x :: "('e::len, 'p::len) fl"
  assumes ok: "fl_ok x" and p: "2 \<le> LENGTH('p)"
  shows "0 \<le> fl_bits x" "fl_bits x < 2 ^ (LENGTH('e) + LENGTH('p))"
proof -
  define P :: int where "P = 2 ^ (LENGTH('p) - 1)"
  define E :: int where "E = 2 ^ LENGTH('e)"
  have P: "0 < P" and E: "1 < E" by (simp_all add: P_def E_def)
  have pp: "(2 ^ LENGTH('p) :: int) = 2 * P" unfolding P_def by (metis One_nat_def len_gt_0 power_minus_mult mult.commute)
  have bound: "0 \<le> b \<and> b < 2 ^ (LENGTH('e) + LENGTH('p))"
    if "b = (if s then P * E else 0) + ex * P + fr" "0 \<le> ex" "ex < E" "0 \<le> fr" "fr < P" for b s ex fr
  proof -
    have "ex * P + fr < (ex + 1) * P" using that by (simp add: algebra_simps)
    also have "\<dots> \<le> P * E" using that P by (simp add: mult.commute mult_left_mono)
    finally have "ex * P + fr < P * E" .
    moreover have "0 \<le> ex * P" using that P by simp
    moreover have "2 ^ (LENGTH('e) + LENGTH('p)) = 2 * (P * E)" using pp by (simp add: power_add E_def)
    ultimately show ?thesis using that(1,4) by (simp only: that(1) split: if_split) linarith
  qed
  have "\<exists>s ex fr. fl_bits x = (if s then P * E else 0) + ex * P + fr \<and> 0 \<le> ex \<and> ex < E \<and> 0 \<le> fr \<and> fr < P"
  proof (cases x)
    case FNaN
    with P E p show ?thesis by (intro exI [of _ False] exI [of _ "E - 1"] exI [of _ "2 ^ (LENGTH('p) - 2)"]) (simp add: P_def E_def)
  next
    case (FInf s)
    with P E show ?thesis by (intro exI [of _ s] exI [of _ "E - 1"] exI [of _ 0]) (simp add: P_def E_def)
  next
    case (FZero s)
    with P E show ?thesis by (intro exI [of _ s] exI [of _ 0]) (simp add: P_def E_def)
  next
    case (FNum q)
    define em where "em = fl_emin TYPE(('e, 'p) fl)"
    define u where "u = ulp_exp LENGTH('p) em \<bar>q\<bar>"
    define m where "m = \<lfloor>\<bar>q\<bar> / 2 powi u\<rfloor>"
    have q: "0 < \<bar>q\<bar>" "repr LENGTH('p) em \<bar>q\<bar>" "ilog2 \<bar>q\<bar> < 2 ^ (LENGTH('e) - 1)"
      using ok FNum by (auto simp: fl_ok_def em_def fl_emax_def abs_if)
    note s = significand [OF q(1,2), folded u_def, folded m_def]
    have e: "E = 2 * 2 ^ (LENGTH('e) - 1)" unfolding E_def by (metis One_nat_def len_gt_0 power_minus_mult mult.commute)
    have lim: "u - em + 1 < E" using s(6) q(3) e E by (auto simp: em_def fl_emin_def)
    have b: "fl_bits x = (if q < 0 then P * E else 0) + (u - em) * P + m"
      unfolding FNum by (simp add: Let_def P_def E_def u_def m_def em_def ulp_exp_def)
    show ?thesis
    proof (cases "m < P")
      case True
      with b s(2,5) lim show ?thesis by (intro exI [of _ "q < 0"] exI [of _ "u - em"] exI [of _ m]) simp
    next
      case False
      with b s(3,5) lim pp show ?thesis
        by (intro exI [of _ "q < 0"] exI [of _ "u - em + 1"] exI [of _ "m - P"]) (simp add: algebra_simps)
    qed
  qed
  then show "0 \<le> fl_bits x" "fl_bits x < 2 ^ (LENGTH('e) + LENGTH('p))" using bound by blast+
qed

definition bits_f32 :: "u32 \<Rightarrow> f32" where "bits_f32 w = bits_fl (uint w)"

definition bits_f64 :: "u64 \<Rightarrow> f64" where "bits_f64 w = bits_fl (uint w)"

lemma bits_f32_bits [simp]: "fl_ok x \<Longrightarrow> bits_f32 (f32_bits x) = x"
  using fl_bits_range [of x] bits_fl_bits [of x] by (simp add: bits_f32_def f32_bits_def uint_word_of_int)

lemma bits_f64_bits [simp]: "fl_ok x \<Longrightarrow> bits_f64 (f64_bits x) = x"
  using fl_bits_range [of x] bits_fl_bits [of x] by (simp add: bits_f64_def f64_bits_def uint_word_of_int)

lemma bits_examples: "f32_bits (lit (3/20)) = 0x3e19999a" "f32_bits (lit (-1)) = 0xbf800000" "f64_bits (lit (1/10)) = 0x3fb999999999999a"
  by code_simp+

end
