(* ===== verification/Stream_State.thy ===== *)
theory Stream_State
  imports Json_Value Vb_Types
begin

text \<open>
  What a stream keeps besides its tracker and analyzers: the mailbox of
  \<open>core-cpp/vb/src/latest_frame.cpp\<close>, the metrics of \<open>core-cpp/vb/src/stats.cpp\<close> and the frame
  buffer of \<open>core-cpp/vb/include/vb/backend.h\<close>. Each operation runs under one lock, so it is one
  step; the clock is an argument.
\<close>

section \<open>Frames\<close>

datatype pix_fmt = RGB888 | BGR888 | NV12

text \<open>The handles of a frame that only the backends read (memory kind, file descriptor, opaque
  pointer, crop) are left out; \<open>fb_host\<close> is the host copy of the pixels, if there is one.\<close>

record frame_buf =
  fb_stream_index :: u32
  fb_seq :: u64
  fb_wall_ms :: f64
  fb_t_mono_s :: f64
  fb_w :: int
  fb_h :: int
  fb_stride :: int
  fb_fmt :: pix_fmt
  fb_host :: "u8 list option"

record detection_result =
  dr_dets :: "detection list"
  dr_kpts :: "keypoint list"
  dr_geom :: letterbox_geom
  dr_preprocess_ms :: f32
  dr_inference_ms :: f32
  dr_postprocess_ms :: f32

section \<open>The mailbox\<close>

record latest_frame =
  lf_slot :: "frame_buf option"
  lf_dropped :: u64

definition new_latest_frame :: latest_frame where
  "new_latest_frame = \<lparr>lf_slot = None, lf_dropped = 0\<rparr>"

definition lf_put :: "frame_buf \<Rightarrow> latest_frame \<Rightarrow> latest_frame" where
  "lf_put f b = \<lparr>lf_slot = Some f, lf_dropped = (if lf_slot b \<noteq> None then lf_dropped b + 1 else lf_dropped b)\<rparr>"

definition lf_take :: "latest_frame \<Rightarrow> frame_buf option \<times> latest_frame" where
  "lf_take b = (lf_slot b, b\<lparr>lf_slot := None\<rparr>)"

text \<open>Any interleaving of puts and takes: the frames taken, in order.\<close>

datatype mailbox_op = Put frame_buf | Take

fun mailbox_run :: "mailbox_op list \<Rightarrow> latest_frame \<Rightarrow> latest_frame \<times> frame_buf list" where
  "mailbox_run [] b = (b, [])"
| "mailbox_run (Put f # ops) b = mailbox_run ops (lf_put f b)"
| "mailbox_run (Take # ops) b =
    (let (r, b') = lf_take b; (b'', fs) = mailbox_run ops b' in (b'', (case r of None \<Rightarrow> fs | Some f \<Rightarrow> f # fs)))"

fun puts_of :: "mailbox_op list \<Rightarrow> frame_buf list" where
  "puts_of [] = []"
| "puts_of (Put f # ops) = f # puts_of ops"
| "puts_of (Take # ops) = puts_of ops"

lemma mailbox_run_conserves:
  "mailbox_run ops b = (b', taken) \<Longrightarrow> length (puts_of ops) < 2 ^ 64 \<Longrightarrow>
     \<exists>dropped. length dropped < 2 ^ 64 \<and> lf_dropped b' = lf_dropped b + of_nat (length dropped) \<and>
       mset (case lf_slot b of None \<Rightarrow> puts_of ops | Some f \<Rightarrow> f # puts_of ops) =
         mset taken + mset dropped + (case lf_slot b' of None \<Rightarrow> {#} | Some f \<Rightarrow> {#f#}) \<and>
       length dropped \<le> length (puts_of ops)"
proof (induction ops arbitrary: b taken)
  case Nil
  then show ?case by (intro exI [of _ "[]"]) (auto split: option.splits)
next
  case (Cons op ops)
  show ?case
  proof (cases op)
    case (Put f)
    with Cons.prems have "mailbox_run ops (lf_put f b) = (b', taken)" "length (puts_of ops) < 2 ^ 64" by simp_all
    from Cons.IH [OF this] obtain dropped where d: "length dropped < 2 ^ 64"
      "lf_dropped b' = lf_dropped (lf_put f b) + of_nat (length dropped)"
      "mset (f # puts_of ops) = mset taken + mset dropped + (case lf_slot b' of None \<Rightarrow> {#} | Some f \<Rightarrow> {#f#})"
      "length dropped \<le> length (puts_of ops)" by (auto simp: lf_put_def)
    show ?thesis
    proof (cases "lf_slot b")
      case None
      with d Put show ?thesis by (intro exI [of _ dropped]) (auto simp: lf_put_def)
    next
      case (Some g)
      have "length (g # dropped) < 2 ^ 64" using d(4) Cons.prems(2) Put by simp
      with d Put Some show ?thesis
        by (intro exI [of _ "g # dropped"]) (auto simp: lf_put_def algebra_simps)
    qed
  next
    case Take
    define rest where "rest = snd (mailbox_run ops (snd (lf_take b)))"
    have r: "mailbox_run ops (snd (lf_take b)) = (b', rest)"
      "taken = (case lf_slot b of None \<Rightarrow> rest | Some f \<Rightarrow> f # rest)"
      using Cons.prems(1) Take by (auto simp: rest_def lf_take_def case_prod_beta Let_def split: option.split)
    from Cons.IH [OF r(1)] Cons.prems(2) Take obtain dropped where d: "length dropped < 2 ^ 64"
      "lf_dropped b' = lf_dropped b + of_nat (length dropped)"
      "mset (puts_of ops) = mset rest + mset dropped + (case lf_slot b' of None \<Rightarrow> {#} | Some f \<Rightarrow> {#f#})"
      "length dropped \<le> length (puts_of ops)" by (auto simp: lf_take_def)
    with r(2) Take show ?thesis by (intro exI [of _ dropped]) (auto split: option.splits)
  qed
qed

section \<open>Metrics\<close>

record stream_metrics =
  sm_state :: string
  sm_error :: string
  sm_decode :: string
  sm_processed :: u64
  sm_dropped :: u64
  sm_rate_skipped :: u64
  sm_inf_ms :: "f32 list"
  sm_qd_ms :: "f32 list"
  sm_frame_walls :: "f64 list"
  sm_last_wall :: f64

definition new_stream_metrics :: stream_metrics where
  "new_stream_metrics = \<lparr>sm_state = ''starting'', sm_error = [], sm_decode = [], sm_processed = 0, sm_dropped = 0,
     sm_rate_skipped = 0, sm_inf_ms = [], sm_qd_ms = [], sm_frame_walls = [], sm_last_wall = 0\<rparr>"

definition fps_window_ms :: f64 where "fps_window_ms = lit 1000"

definition set_decode_path :: "string \<Rightarrow> stream_metrics \<Rightarrow> stream_metrics" where
  "set_decode_path p sm = sm\<lparr>sm_decode := p\<rparr>"

definition record_state :: "string \<Rightarrow> string \<Rightarrow> stream_metrics \<Rightarrow> stream_metrics" where
  "record_state state error sm = sm\<lparr>sm_state := state, sm_error := error\<rparr>"

definition push_capped :: "nat \<Rightarrow> 'a \<Rightarrow> 'a list \<Rightarrow> 'a list" where
  "push_capped n x xs = (let ys = xs @ [x] in if length ys > n then tl ys else ys)"

fun drop_older :: "f64 \<Rightarrow> f64 list \<Rightarrow> f64 list" where
  "drop_older now [] = []"
| "drop_older now (w # ws) = (if now - w > fps_window_ms then drop_older now ws else w # ws)"

definition record_frame :: "f32 \<Rightarrow> f32 \<Rightarrow> f64 \<Rightarrow> stream_metrics \<Rightarrow> stream_metrics" where
  "record_frame inference_ms queue_delay_ms wall_ms sm =
     sm\<lparr>sm_processed := sm_processed sm + 1,
        sm_inf_ms := push_capped 256 inference_ms (sm_inf_ms sm),
        sm_qd_ms := push_capped 256 queue_delay_ms (sm_qd_ms sm),
        sm_frame_walls := drop_older wall_ms (sm_frame_walls sm @ [wall_ms]),
        sm_last_wall := wall_ms\<rparr>"

definition add_dropped :: "u64 \<Rightarrow> stream_metrics \<Rightarrow> stream_metrics" where
  "add_dropped n sm = sm\<lparr>sm_dropped := sm_dropped sm + n\<rparr>"

definition add_rate_skipped :: "u64 \<Rightarrow> stream_metrics \<Rightarrow> stream_metrics" where
  "add_rate_skipped n sm = sm\<lparr>sm_rate_skipped := sm_rate_skipped sm + n\<rparr>"

text \<open>\<open>std::sort\<close> on floats: equal elements are interchangeable, so any stable order is the result
  (a NaN would break the comparator's contract).\<close>

definition percentile :: "f32 list \<Rightarrow> f64 \<Rightarrow> f64" where
  "percentile xs p =
    (if xs = [] then 0
     else
       let sorted = stable_sort (\<lambda>a b. a < b) xs;
           idx = p * fl_of_int (int (length sorted) - 1);
           lo = nat (fl_to_int idx);
           hi = min (lo + 1) (length sorted - 1);
           frac = idx - fl_of_int (int lo)
       in fconv (sorted ! lo) + fconv (sorted ! hi - sorted ! lo) * frac)"

definition frames_per_second :: "f64 \<Rightarrow> f64 list \<Rightarrow> f64" where
  "frames_per_second now walls =
    (if walls = [] then 0
     else
       let span = (now - hd walls) / lit 1000; n = fl_of_int (int (length walls))
       in if span > lit (5/100) then n / span else n)"

text \<open>The statistics entry of a stream at a time, and the pruned metrics.\<close>

definition metrics_to_json :: "u32 \<Rightarrow> f64 \<Rightarrow> stream_metrics \<Rightarrow> stream_metrics \<times> json" where
  "metrics_to_json stream_index now sm =
    (let walls = drop_older now (sm_frame_walls sm)
     in (sm\<lparr>sm_frame_walls := walls\<rparr>,
         json_obj ([(''stream_index'', JInt (uint stream_index)), (''state'', JStr (sm_state sm)),
           (''fps'', JNum (frames_per_second now walls)), (''decode'', JStr (sm_decode sm)),
           (''inference_ms_p50'', JNum (percentile (sm_inf_ms sm) (lit (50/100)))),
           (''inference_ms_p95'', JNum (percentile (sm_inf_ms sm) (lit (95/100)))),
           (''queue_delay_ms_p95'', JNum (percentile (sm_qd_ms sm) (lit (95/100)))),
           (''dropped_frames'', JInt (uint (sm_dropped sm))), (''event_backpressure'', JInt 0),
           (''rate_skipped'', JInt (uint (sm_rate_skipped sm))), (''stage2_backend'', JStr []),
           (''stage2_ms_p95'', JNum 0), (''stage2_errors'', JInt 0)] @
           (if sm_error sm \<noteq> [] then [(''error'', JStr (sm_error sm))] else []))))"

section \<open>Facts\<close>

text \<open>The capped deques hold the latest samples.\<close>

lemma push_capped_last: "0 < n \<Longrightarrow> fold (push_capped n) xs [] = drop (length xs - n) xs"
proof (induction xs rule: rev_induct)
  case (snoc x xs)
  then show ?case by (cases "length xs < n") (auto simp: push_capped_def Let_def Suc_diff_le drop_Suc tl_drop)
qed simp

lemma drop_older_suffix: "\<exists>k. drop_older now ws = drop k ws \<and> (\<forall>w \<in> set (take k ws). now - w > fps_window_ms)"
proof (induction now ws rule: drop_older.induct)
  case (2 now w ws)
  show ?case
  proof (cases "now - w > fps_window_ms")
    case True
    with 2 obtain k where "drop_older now ws = drop k ws" "\<forall>w \<in> set (take k ws). now - w > fps_window_ms" by blast
    with True show ?thesis by (intro exI [of _ "Suc k"]) simp
  qed (auto intro: exI [of _ 0])
qed simp

end
