(* ===== verification/Analyzer_Chain.thy ===== *)
theory Analyzer_Chain
  imports Zone_Facts Dwell_Analyzer Direction_Analyzer Speed_Analyzer Count_Threshold
    Pose_Angle Line_Cross
begin

text \<open>
  The built-in analyzers behind the \<open>Analyzer\<close> interface: the factory \<open>create_analyzer\<close> of
  \<open>core-cpp/vb/src/analyzers/plugin_loader.cpp\<close>, the virtual calls as one function each, and the chain of a
  stream, a list of analyzers. Plugins are shared libraries and not modelled. The two functions
  of the math library that analyzers call are parameters.
\<close>

section \<open>The virtual calls\<close>

datatype builtin =
    Line_An line_analyzer
  | Zone_An zone_analyzer
  | Dwell_An dwell_analyzer
  | Speed_An speed_analyzer
  | Direction_An direction_analyzer
  | Count_An count_analyzer
  | Pose_An pose_analyzer

definition create_analyzer :: "string \<Rightarrow> string + builtin" where
  "create_analyzer name =
    (if name = ''line_cross'' then Inr (Line_An new_line_analyzer)
     else if name = ''zone'' then Inr (Zone_An new_zone_analyzer)
     else if name = ''dwell'' then Inr (Dwell_An new_dwell_analyzer)
     else if name = ''speed'' then Inr (Speed_An new_speed_analyzer)
     else if name = ''direction'' then Inr (Direction_An new_direction_analyzer)
     else if name = ''count_threshold'' then Inr (Count_An new_count_analyzer)
     else if name = ''pose_angle'' then Inr (Pose_An new_pose_analyzer)
     else Inl (''unknown analyzer: '' @ name))"

fun an_name :: "builtin \<Rightarrow> string" where
  "an_name (Line_An _) = ''line_cross''"
| "an_name (Zone_An _) = ''zone''"
| "an_name (Dwell_An _) = ''dwell''"
| "an_name (Speed_An _) = ''speed''"
| "an_name (Direction_An _) = ''direction''"
| "an_name (Count_An _) = ''count_threshold''"
| "an_name (Pose_An _) = ''pose_angle''"

text \<open>No built-in analyzer overrides \<open>attr_count\<close>, only one \<open>needs_tracks\<close> and one \<open>min_keypoints\<close>.\<close>

definition an_attr_count :: "builtin \<Rightarrow> nat" where
  "an_attr_count a = 0"

fun an_needs_tracks :: "builtin \<Rightarrow> bool" where
  "an_needs_tracks (Count_An _) = False"
| "an_needs_tracks _ = True"

fun an_min_keypoints :: "builtin \<Rightarrow> u32" where
  "an_min_keypoints (Pose_An a) = pose_min_keypoints a"
| "an_min_keypoints _ = 0"

fun an_configure :: "(string \<Rightarrow> string + json) \<Rightarrow> string \<Rightarrow> builtin \<Rightarrow> builtin \<times> unit outcome" where
  "an_configure parse text (Line_An a) = apfst Line_An (line_configure parse text a)"
| "an_configure parse text (Zone_An a) = apfst Zone_An (zone_configure parse text a)"
| "an_configure parse text (Dwell_An a) = apfst Dwell_An (dwell_configure parse text a)"
| "an_configure parse text (Speed_An a) = apfst Speed_An (speed_configure parse text a)"
| "an_configure parse text (Direction_An a) = apfst Direction_An (direction_configure parse text a)"
| "an_configure parse text (Count_An a) = apfst Count_An (count_configure parse text a)"
| "an_configure parse text (Pose_An a) = apfst Pose_An (pose_configure parse text a)"

record libm =
  lm_atan2 :: "f64 \<Rightarrow> f64 \<Rightarrow> f64"
  lm_acos :: "f64 \<Rightarrow> f64"

fun an_on_frame :: "libm \<Rightarrow> frame_meta \<Rightarrow> track list \<Rightarrow> builtin \<Rightarrow> builtin \<times> analyzer_event list" where
  "an_on_frame lm m ts (Line_An a) = apfst Line_An (line_on_frame m ts a)"
| "an_on_frame lm m ts (Zone_An a) = apfst Zone_An (zone_on_frame m ts a)"
| "an_on_frame lm m ts (Dwell_An a) = apfst Dwell_An (dwell_on_frame m ts a)"
| "an_on_frame lm m ts (Speed_An a) = apfst Speed_An (speed_on_frame m ts a)"
| "an_on_frame lm m ts (Direction_An a) = apfst Direction_An (direction_on_frame (lm_atan2 lm) m ts a)"
| "an_on_frame lm m ts (Count_An a) = apfst Count_An (count_on_frame m ts a)"
| "an_on_frame lm m ts (Pose_An a) = apfst Pose_An (pose_on_frame (lm_acos lm) m ts a)"

fun an_on_removed :: "u32 \<Rightarrow> f64 \<Rightarrow> builtin \<Rightarrow> builtin \<times> analyzer_event list" where
  "an_on_removed i t (Line_An a) = apfst Line_An (line_on_removed i t a)"
| "an_on_removed i t (Zone_An a) = apfst Zone_An (zone_on_removed i t a)"
| "an_on_removed i t (Dwell_An a) = apfst Dwell_An (dwell_on_removed i t a)"
| "an_on_removed i t (Speed_An a) = apfst Speed_An (speed_on_removed i t a)"
| "an_on_removed i t (Direction_An a) = apfst Direction_An (direction_on_removed i t a)"
| "an_on_removed i t (Count_An a) = apfst Count_An (count_on_removed i t a)"
| "an_on_removed i t (Pose_An a) = apfst Pose_An (pose_on_removed i t a)"

section \<open>The contract\<close>

text \<open>The well-formed states of each analyzer and the tracks each keeps something about.\<close>

fun an_ok :: "builtin \<Rightarrow> bool" where
  "an_ok (Line_An a) = la_ok (lc_cfg a) a"
| "an_ok (Zone_An a) = za_ok (za_cfg a) a"
| "an_ok (Dwell_An a) = om_ok (da_st a)"
| "an_ok (Speed_An a) = speed_ok (sp_cfg a) a"
| "an_ok (Direction_An a) = direction_ok a"
| "an_ok (Count_An a) = ct_ok (ct_cfg a) a"
| "an_ok (Pose_An a) = pa_ok (pa_cfg a) a"

fun an_ids :: "builtin \<Rightarrow> u32 set" where
  "an_ids (Line_An a) = la_ids a"
| "an_ids (Zone_An a) = za_ids a"
| "an_ids (Dwell_An a) = fst ` set (da_st a)"
| "an_ids (Speed_An a) = fst ` set (sp_map a)"
| "an_ids (Direction_An a) = fst ` set (di_map a)"
| "an_ids (Count_An a) = {}"
| "an_ids (Pose_An a) = pa_ids a"

lemma ok_self:
  "la_ok c a \<Longrightarrow> la_ok (lc_cfg a) a" "za_ok d z \<Longrightarrow> za_ok (za_cfg z) z" "speed_ok e s \<Longrightarrow> speed_ok (sp_cfg s) s"
  "ct_ok f n \<Longrightarrow> ct_ok (ct_cfg n) n" "pa_ok g p \<Longrightarrow> pa_ok (pa_cfg p) p"
  by (simp_all add: la_ok_def za_ok_def speed_ok_def ct_ok_def pa_ok_def)

interpretation builtin: analyzer "an_on_frame lm" an_on_removed an_ok an_ids for lm
proof
  fix a m ts i t assume ok: "an_ok a"
  show "an_ok (fst (an_on_frame lm m ts a))"
    using ok ok_self(1) [OF line.frame_ok] ok_self(2) [OF zone.frame_ok] dwell.frame_ok ok_self(3) [OF speed.frame_ok]
      direction.frame_ok ok_self(4) [OF count.frame_ok] ok_self(5) [OF pose.frame_ok] by (cases a) auto
  show "an_ok (fst (an_on_removed i t a))"
    using ok ok_self(1) [OF line.removed_ok] ok_self(2) [OF zone.removed_ok] dwell.removed_ok ok_self(3) [OF speed.removed_ok]
      direction.removed_ok ok_self(4) [OF count.removed_ok] ok_self(5) [OF pose.removed_ok] by (cases a) auto
  show "an_ids (fst (an_on_frame lm m ts a)) \<subseteq> an_ids a \<union> trk_id ` set ts"
    using ok line.frame_ids zone.frame_ids dwell.frame_ids speed.frame_ids direction.frame_ids pose.frame_ids
    by (cases a) auto
  show "an_ids (fst (an_on_removed i t a)) = an_ids a - {i}"
    using ok line.removed_ids zone.removed_ids dwell.removed_ids speed.removed_ids direction.removed_ids
      pose.removed_ids by (cases a) auto
qed

section \<open>Configuration\<close>

lemma configure_failed:
  "snd (an_configure parse text a) \<noteq> Returned () \<Longrightarrow> fst (an_configure parse text a) = a"
  by (cases a) (simp_all add: line_configure_def zone_configure_def dwell_configure_def speed_configure_def
      direction_configure_def count_configure_def pose_configure_def reconfigure_failed)

lemma configured_ok:
  assumes "snd (an_configure parse text a) = Returned ()"
  shows "an_ok (fst (an_configure parse text a)) \<and> an_ids (fst (an_configure parse text a)) = {}"
proof (cases a)
  case (Line_An x)
  with assms reconfigure_done [of line_install "and_then (parse_text parse ''line_cross'' text) line_parse_cfg" x]
  show ?thesis by (auto simp: line_configure_def line_install_def la_ok_def la_ids_def)
next
  case (Zone_An x)
  with assms reconfigure_done [of zone_install "and_then (parse_text parse ''zone'' text) zone_parse_cfg" x]
  obtain j c where "zone_parse_cfg j = Returned c" "fst (an_configure parse text a) = Zone_An (zone_install c x)"
    by (auto simp: zone_configure_def outcome_elims)
  with zone_install_ok(1) [of j c x] show ?thesis by (auto simp: zone_install_def za_ids_def)
next
  case (Dwell_An x)
  with assms reconfigure_done [of dwell_install "and_then (parse_text parse ''dwell'' text) dwell_parse_cfg" x]
  show ?thesis by (auto simp: dwell_configure_def dwell_install_def)
next
  case (Speed_An x)
  with assms reconfigure_done [of speed_install "and_then (parse_text parse ''speed'' text) speed_parse_cfg" x]
  show ?thesis by (auto simp: speed_configure_def speed_install_def speed_ok_def)
next
  case (Direction_An x)
  with assms reconfigure_done [of direction_install "and_then (parse_text parse ''direction'' text) direction_parse_cfg" x]
  show ?thesis by (auto simp: direction_configure_def direction_install_def direction_ok_def)
next
  case (Count_An x)
  have "om_ok (fold (keep_zone x) zs m)" if "om_ok m" for zs m
    using that by (induction zs arbitrary: m) (auto simp: keep_zone_def om_ok_put split: option.split)
  with Count_An assms reconfigure_done [of count_install "and_then (parse_text parse ''count_threshold'' text) count_parse_cfg" x]
  show ?thesis by (auto simp: count_configure_def count_install_def ct_ok_def)
next
  case (Pose_An x)
  with assms reconfigure_done [of pose_install "and_then (parse_text parse ''pose_angle'' text) pose_parse_cfg" x]
  show ?thesis by (auto simp: pose_configure_def pose_install_def pa_ok_def pa_ids_def)
qed

end
