(* ===== verification/Dev_Tensor.thy ===== *)
theory Dev_Tensor
  imports Wire Json_Value Float_Bits
begin

text \<open>
  \<open>core-cpp/vb/src/dev_tensor.h\<close> and \<open>core-cpp/vb/src/dev_tensor.cpp\<close>: the raw tensor records of
  development mode, their rate limiter and their configuration. The readers state what a consumer
  of the format in the header comment gets.
\<close>

section \<open>Records\<close>

record dev_tensor =
  dt_dtype :: u8
  dt_nhwc :: bool
  dt_dims :: "int list"
  dt_scale :: f32
  dt_zero_point :: int
  dt_name :: "u8 list"
  dt_data :: "u8 list"

record dev_tensor_frame =
  df_stream_index :: u32
  df_seq :: u64
  df_wall_ms :: f64
  df_src_w :: int
  df_src_h :: int
  df_model_w :: int
  df_model_h :: int
  df_scale :: f32
  df_pad_x :: f32
  df_pad_y :: f32
  df_align :: u8
  df_tensors :: "dev_tensor list"

definition dev_tensor_max_record :: nat where
  "dev_tensor_max_record = 16 * 1024 * 1024"

section \<open>Encoder\<close>

definition put_i32 :: "int \<Rightarrow> u8 list" where "put_i32 v = put_u32 (word_of_int v)"

definition put_f32 :: "f32 \<Rightarrow> u8 list" where "put_f32 v = put_u32 (f32_bits v)"

definition put_f64 :: "f64 \<Rightarrow> u8 list" where "put_f64 v = put_u64 (f64_bits v)"

definition tensor_ok :: "dev_tensor \<Rightarrow> string + unit" where
  "tensor_ok t =
    (if length (dt_dims t) > 4 then Inl (''VBT1 tensor has more than 4 dims: '' @ dec_digits (length (dt_dims t)))
     else if length (dt_name t) > 0xFFFF then Inl (''VBT1 tensor name too long: '' @ dec_digits (length (dt_name t)))
     else if length (dt_data t) > 0xFFFFFFFF then Inl (''VBT1 tensor data too large: '' @ dec_digits (length (dt_data t)))
     else Inr ())"

fun tensors_ok :: "dev_tensor list \<Rightarrow> string + unit" where
  "tensors_ok [] = Inr ()"
| "tensors_ok (t # ts) = (case tensor_ok t of Inl e \<Rightarrow> Inl e | Inr _ \<Rightarrow> tensors_ok ts)"

definition put_tensor :: "dev_tensor \<Rightarrow> u8 list" where
  "put_tensor t =
     [dt_dtype t, of_nat (length (dt_dims t)), if dt_nhwc t then 1 else 0, 0] @
     concat (map (\<lambda>i. put_i32 (if i < length (dt_dims t) then dt_dims t ! i else 0)) [0..<4]) @
     put_f32 (dt_scale t) @ put_i32 (dt_zero_point t) @
     put_u16 (of_nat (length (dt_name t))) @ dt_name t @
     put_u32 (of_nat (length (dt_data t))) @ dt_data t"

definition vbt1_head :: "dev_tensor_frame \<Rightarrow> u8 list" where
  "vbt1_head f =
     put_u32 (df_stream_index f) @ put_u64 (df_seq f) @ put_f64 (df_wall_ms f) @
     put_i32 (df_src_w f) @ put_i32 (df_src_h f) @ put_i32 (df_model_w f) @ put_i32 (df_model_h f) @
     put_f32 (df_scale f) @ put_f32 (df_pad_x f) @ put_f32 (df_pad_y f) @
     [df_align f, 0, 0, 0] @ put_u16 (of_nat (length (df_tensors f))) @ put_u16 0"

definition wire_encode_vbt1 :: "dev_tensor_frame \<Rightarrow> u8 list \<Rightarrow> string + u8 list" where
  "wire_encode_vbt1 f out =
    (if length (df_tensors f) > 0xFFFF then Inl (''VBT1 too many tensors: '' @ dec_digits (length (df_tensors f)))
     else case tensors_ok (df_tensors f) of
       Inl e \<Rightarrow> Inl e
     | Inr _ \<Rightarrow>
         let body = vbt1_head f @ concat (map put_tensor (df_tensors f))
         in if 8 + length body > dev_tensor_max_record then Inl ''dev tensor record exceeds 16 MiB''
            else Inr (out @ put_header ''VBT1'' (of_nat (length body)) @ body))"

section \<open>Rate limiter\<close>

record dev_rate_limiter =
  rl_min_interval_s :: f64
  rl_last_sent_s :: f64

definition set_max_fps :: "f64 \<Rightarrow> dev_rate_limiter \<Rightarrow> dev_rate_limiter" where
  "set_max_fps max_fps l = l\<lparr>rl_min_interval_s := (if max_fps > 0 then lit 1 / max_fps else 0)\<rparr>"

definition new_rate_limiter :: "f64 \<Rightarrow> dev_rate_limiter" where
  "new_rate_limiter max_fps = set_max_fps max_fps \<lparr>rl_min_interval_s = lit 1, rl_last_sent_s = lit (-1)\<rparr>"

definition try_send :: "f64 \<Rightarrow> dev_rate_limiter \<Rightarrow> dev_rate_limiter \<times> bool" where
  "try_send now l =
    (if rl_last_sent_s l \<ge> 0 \<and> now - rl_last_sent_s l < rl_min_interval_s l then (l, False)
     else (l\<lparr>rl_last_sent_s := now\<rparr>, True))"

section \<open>Configuration\<close>

record dev_config =
  dv_raw_tensors :: bool
  dv_max_fps :: f64
  dv_max_streams :: int

definition default_dev_config :: dev_config where
  "default_dev_config = \<lparr>dv_raw_tensors = False, dv_max_fps = lit 1, dv_max_streams = 1\<rparr>"

text \<open>A field that is present and not null.\<close>

definition given :: "string \<Rightarrow> json \<Rightarrow> json option" where
  "given k j = (case json_find k j of None \<Rightarrow> None | Some v \<Rightarrow> if v = JNull then None else Some v)"

fun dev_raw_tensors :: "json option \<Rightarrow> dev_config \<Rightarrow> string + dev_config" where
  "dev_raw_tensors None c = Inr c"
| "dev_raw_tensors (Some (JBool b)) c = Inr (c\<lparr>dv_raw_tensors := b\<rparr>)"
| "dev_raw_tensors (Some _) c = Inl ''dev.raw_tensors must be a boolean''"

definition dev_max_fps :: "json option \<Rightarrow> dev_config \<Rightarrow> string + dev_config" where
  "dev_max_fps v c =
    (case v of
       None \<Rightarrow> Inr c
     | Some x \<Rightarrow>
         if \<not> is_number x then Inl ''dev.max_fps must be a number in (0, 2]''
         else if \<not> num64 x > 0 \<or> num64 x > lit 2 then Inl ''dev.max_fps must be in (0, 2]''
         else Inr (c\<lparr>dv_max_fps := num64 x\<rparr>))"

definition dev_max_streams :: "json option \<Rightarrow> dev_config \<Rightarrow> string + dev_config" where
  "dev_max_streams v c =
    (case v of
       None \<Rightarrow> Inr c
     | Some x \<Rightarrow>
         if \<not> is_number_integer x then Inl ''dev.max_streams must be 1''
         else if int32_of x \<noteq> 1 then Inl ''dev.max_streams must be 1''
         else Inr (c\<lparr>dv_max_streams := int32_of x\<rparr>))"

fun bind_err :: "string + 'a \<Rightarrow> ('a \<Rightarrow> string + 'b) \<Rightarrow> string + 'b" where
  "bind_err (Inl e) f = Inl e"
| "bind_err (Inr x) f = f x"

definition dev_config_from_json :: "json \<Rightarrow> bool \<Rightarrow> dev_config \<Rightarrow> string + dev_config" where
  "dev_config_from_json config allow_dev out =
    (case given ''dev'' config of
       None \<Rightarrow> Inr out
     | Some d \<Rightarrow>
         if \<not> is_object d then Inl ''dev must be an object''
         else
           bind_err (dev_raw_tensors (given ''raw_tensors'' d) default_dev_config) (\<lambda>c.
           bind_err (dev_max_fps (given ''max_fps'' d) c) (\<lambda>c.
           bind_err (dev_max_streams (given ''max_streams'' d) c) (\<lambda>c.
             if dv_raw_tensors c \<and> \<not> allow_dev
             then Inl ''dev.raw_tensors is not allowed in production configs'' else Inr c))))"

section \<open>Facts\<close>

lemma bind_err_Inr: "bind_err r f = Inr y \<longleftrightarrow> (\<exists>x. r = Inr x \<and> f x = Inr y)"
  by (cases r) auto

lemma put_fixed_lengths [simp]:
  "length (put_i32 i) = 4" "length (put_f32 x) = 4" "length (put_f64 y) = 8" "length (vbt1_head f) = 56"
  by (simp_all add: put_i32_def put_f32_def put_f64_def vbt1_head_def)

definition tensor_fits :: "dev_tensor \<Rightarrow> bool" where
  "tensor_fits t \<longleftrightarrow> length (dt_dims t) \<le> 4 \<and> length (dt_name t) \<le> 65535 \<and> length (dt_data t) \<le> 4294967295"

lemma tensors_ok_iff: "tensors_ok ts = Inr () \<longleftrightarrow> list_all tensor_fits ts"
  by (induction ts) (auto simp: tensor_ok_def tensor_fits_def)

lemma put_tensor_length: "length (put_tensor t) = 34 + length (dt_name t) + length (dt_data t)"
  by (simp add: put_tensor_def upt_rec)

text \<open>Reading one tensor and what follows.\<close>

definition get_i32 :: "u8 list \<Rightarrow> int" where
  "get_i32 bs = sint (of_nat (get_le (take 4 bs)) :: u32)"

definition get_tensor :: "u8 list \<Rightarrow> dev_tensor \<times> u8 list" where
  "get_tensor bs =
    (let n = get_le (take 2 (drop 28 bs)); r = drop (30 + n) bs; k = get_le (take 4 r)
     in (\<lparr>dt_dtype = bs ! 0, dt_nhwc = (bs ! 2 \<noteq> 0),
          dt_dims = map (\<lambda>i. get_i32 (drop (4 + 4 * i) bs)) [0..<unat (bs ! 1)],
          dt_scale = bits_f32 (of_nat (get_le (take 4 (drop 20 bs)))),
          dt_zero_point = get_i32 (drop 24 bs),
          dt_name = take n (drop 30 bs), dt_data = take k (drop 4 r)\<rparr>,
         drop k (drop 4 r)))"

fun get_tensors :: "nat \<Rightarrow> u8 list \<Rightarrow> dev_tensor list" where
  "get_tensors 0 bs = []"
| "get_tensors (Suc n) bs = (let (t, rest) = get_tensor bs in t # get_tensors n rest)"

definition tensor_typed :: "dev_tensor \<Rightarrow> bool" where
  "tensor_typed t \<longleftrightarrow> fl_ok (dt_scale t) \<and> list_all (\<lambda>i. - (2 ^ 31) \<le> i \<and> i < 2 ^ 31) (dt_zero_point t # dt_dims t)"

lemma get_i32_put: "- (2 ^ 31) \<le> i \<Longrightarrow> i < 2 ^ 31 \<Longrightarrow> get_i32 (put_i32 i @ X) = i"
proof -
  assume "- (2 ^ 31) \<le> i" "i < 2 ^ 31"
  then have "sint (word_of_int i :: u32) = i"
    by (simp add: sint_uint uint_word_of_int_eq signed_take_bit_take_bit signed_take_bit_int_eq_self)
  then show ?thesis by (simp add: get_i32_def put_i32_def)
qed

lemma get_put_tensor:
  assumes "tensor_fits t" "tensor_typed t" shows "get_tensor (put_tensor t @ X) = (t, X)"
proof -
  define P where "P = [dt_dtype t, of_nat (length (dt_dims t)), if dt_nhwc t then 1 else 0, 0] @
     concat (map (\<lambda>i. put_i32 (if i < length (dt_dims t) then dt_dims t ! i else 0)) [0..<4]) @
     put_f32 (dt_scale t) @ put_i32 (dt_zero_point t) @ put_u16 (of_nat (length (dt_name t))) @ dt_name t"
  have pt: "put_tensor t @ X = P @ put_u32 (of_nat (length (dt_data t))) @ dt_data t @ X" "length P = 30 + length (dt_name t)"
    by (simp_all add: put_tensor_def P_def upt_rec)
  then have d: "drop (30 + length (dt_name t)) (put_tensor t @ X) = put_u32 (of_nat (length (dt_data t))) @ dt_data t @ X"
    by (metis append_eq_conv_conj)
  have n: "get_le (take 2 (drop 28 (put_tensor t @ X))) = length (dt_name t)"
    using assms(1) by (simp add: put_tensor_def upt_rec tensor_fits_def unat_of_nat drop_append)
  have k: "get_le (take 4 (put_u32 (of_nat (length (dt_data t))) @ dt_data t @ X)) = length (dt_data t)"
    using assms(1) by (simp add: tensor_fits_def unat_of_nat)
  have b: "(put_tensor t @ X) ! 0 = dt_dtype t" "((put_tensor t @ X) ! 2 \<noteq> 0) = dt_nhwc t"
    "unat ((put_tensor t @ X) ! 1) = length (dt_dims t)"
    using assms(1) by (simp_all add: put_tensor_def tensor_fits_def unat_of_nat)
  have s: "bits_f32 (of_nat (get_le (take 4 (drop 20 (put_tensor t @ X))))) = dt_scale t"
    "get_i32 (drop 24 (put_tensor t @ X)) = dt_zero_point t" "take (length (dt_name t)) (drop 30 (put_tensor t @ X)) = dt_name t"
    using assms(2) by (simp_all add: put_tensor_def upt_rec drop_append tensor_typed_def put_f32_def get_i32_put)
  have i: "get_i32 (drop (4 + 4 * i) (put_tensor t @ X)) = dt_dims t ! i" if "i < length (dt_dims t)" for i
  proof -
    have "i = 0 \<or> i = Suc 0 \<or> i = Suc (Suc 0) \<or> i = Suc (Suc (Suc 0))" using that assms(1) by (auto simp: tensor_fits_def)
    moreover have "- (2 ^ 31) \<le> dt_dims t ! i" "dt_dims t ! i < 2 ^ 31"
      using assms(2) that by (auto simp: tensor_typed_def list_all_length)
    ultimately show ?thesis using that by (elim disjE) (simp_all add: put_tensor_def upt_rec drop_append get_i32_put)
  qed
  then have m: "map (\<lambda>i. get_i32 (drop (4 + 4 * i) (put_tensor t @ X))) [0..<length (dt_dims t)] = dt_dims t"
    by (intro nth_equalityI) simp_all
  show ?thesis by (simp only: get_tensor_def Let_def n d k b s m) simp
qed

lemma get_put_tensors:
  "list_all tensor_fits ts \<Longrightarrow> list_all tensor_typed ts \<Longrightarrow>
     get_tensors (length ts) (concat (map put_tensor ts) @ X) = ts"
  by (induction ts) (simp_all add: get_put_tensor)

text \<open>A frame of one tensor.\<close>

definition demo_tensor_frame :: dev_tensor_frame where
  "demo_tensor_frame = \<lparr>df_stream_index = 1, df_seq = 2, df_wall_ms = 0, df_src_w = 4, df_src_h = 3,
     df_model_w = 2, df_model_h = 2, df_scale = 1, df_pad_x = 0, df_pad_y = 0, df_align = 0,
     df_tensors = [\<lparr>dt_dtype = 0, dt_nhwc = False, dt_dims = [1, -2], dt_scale = 1, dt_zero_point = -3,
       dt_name = [7, 8], dt_data = [9]\<rparr>]\<rparr>"

section \<open>Properties\<close>

text \<open>C13: a raw tensor record that is accepted carries its tensors exactly: a reader of the stream that
  finds the record gets the tensor count of the header, and reading that many tensors after the
  56-byte head gives back every tensor, whatever follows the record. What is refused is refused for a count a length field
  cannot hold or for the 16 MiB cap.\<close>

theorem vbt1_roundtrip:
  assumes "list_all tensor_typed (df_tensors f)"
  shows "case wire_encode_vbt1 f [] of
      Inl e \<Rightarrow> 65535 < length (df_tensors f) \<or> list_ex (\<lambda>t. \<not> tensor_fits t) (df_tensors f) \<or>
        dev_tensor_max_record < 64 + sum_list (map (length \<circ> put_tensor) (df_tensors f))
    | Inr bs \<Rightarrow> \<exists>body. read_record (bs @ rest) = Some (ascii ''VBT1'', body, rest) \<and>
        length bs \<le> dev_tensor_max_record \<and> get_le (take 2 (drop 52 body)) = length (df_tensors f) \<and>
        get_tensors (length (df_tensors f)) (drop 56 body) = df_tensors f"
proof -
  define body where "body = vbt1_head f @ concat (map put_tensor (df_tensors f))"
  have len: "length body = 56 + sum_list (map (length \<circ> put_tensor) (df_tensors f))"
    by (simp add: body_def length_concat)
  show ?thesis
  proof (cases "wire_encode_vbt1 f []")
    case (Inl e)
    then show ?thesis using tensors_ok_iff [of "df_tensors f"] len
      by (auto simp: wire_encode_vbt1_def Let_def body_def list_all_iff list_ex_iff split: if_splits sum.splits)
  next
    case (Inr bs)
    then have ok: "length (df_tensors f) \<le> 65535" "tensors_ok (df_tensors f) = Inr ()"
      "8 + length body \<le> dev_tensor_max_record" "bs = put_header ''VBT1'' (of_nat (length body)) @ body"
      by (auto simp: wire_encode_vbt1_def Let_def body_def split: if_splits sum.splits)
    have r: "read_record (bs @ rest) = Some (ascii ''VBT1'', body, rest)"
      using read_record_put [of "''VBT1''" body rest] ok(3,4) by (simp add: dev_tensor_max_record_def)
    have n: "get_le (take 2 (drop 52 body)) = length (df_tensors f)"
      using ok(1) by (simp add: body_def vbt1_head_def drop_append unat_of_nat put_f64_def put_f32_def put_i32_def)
    have t: "get_tensors (length (df_tensors f)) (drop 56 body) = df_tensors f"
      using get_put_tensors [of "df_tensors f" "[]"] ok(2) assms by (simp add: tensors_ok_iff body_def)
    from Inr ok(3,4) r n t show ?thesis by (simp add: put_header_def ascii_def)
  qed
qed

text \<open>The times a sequence of frames is sent at.\<close>

fun sent_times :: "f64 list \<Rightarrow> dev_rate_limiter \<Rightarrow> f64 list" where
  "sent_times [] l = []"
| "sent_times (t # ts) l = (let (l', ok) = try_send t l in if ok then t # sent_times ts l' else sent_times ts l')"

text \<open>Development records never exceed the rate: between two frames of a stream that are sent, with the clock never
  running backwards, lies at least the configured interval, and the first frame is always sent.\<close>

theorem sent_times_spaced:
  assumes "list_all (\<lambda>t. t \<ge> 0) ts"
  shows "(case ts of [] \<Rightarrow> sent_times ts (new_rate_limiter fps) = []
      | t # _ \<Rightarrow> \<exists>rest. sent_times ts (new_rate_limiter fps) = t # rest) \<and>
    successively (\<lambda>a b. \<not> b - a < rl_min_interval_s (new_rate_limiter fps)) (sent_times ts (new_rate_limiter fps))"
proof -
  have run: "successively (\<lambda>a b. \<not> b - a < rl_min_interval_s l) (rl_last_sent_s l # sent_times ts l)"
    if "list_all (\<lambda>t. t \<ge> 0) ts" "rl_last_sent_s l \<ge> 0" for ts l
    using that
  proof (induction ts arbitrary: l)
    case (Cons t ts)
    show ?case
    proof (cases "t - rl_last_sent_s l < rl_min_interval_s l")
      case True
      with Cons.prems have "sent_times (t # ts) l = sent_times ts l" by (simp add: try_send_def)
      with Cons show ?thesis by simp
    next
      case False
      then have "sent_times (t # ts) l = t # sent_times ts (l\<lparr>rl_last_sent_s := t\<rparr>)" by (simp add: try_send_def)
      with Cons.IH [of "l\<lparr>rl_last_sent_s := t\<rparr>"] Cons.prems False show ?thesis by simp
    qed
  qed simp
  show ?thesis
  proof (cases ts)
    case (Cons t ts')
    define l where "l = (new_rate_limiter fps)\<lparr>rl_last_sent_s := t\<rparr>"
    have "\<not> rl_last_sent_s (new_rate_limiter fps) \<ge> 0"
      by (simp add: new_rate_limiter_def set_max_fps_def) code_simp
    then have "sent_times ts (new_rate_limiter fps) = t # sent_times ts' l"
      by (simp add: Cons try_send_def l_def)
    with run [of ts' l] assms Cons show ?thesis by (simp add: l_def)
  qed simp
qed

section \<open>Concrete instances\<close>

theorem vbt1_roundtrip_witness:
  "case wire_encode_vbt1 demo_tensor_frame [] of Inl e \<Rightarrow> False
    | Inr bs \<Rightarrow> \<exists>body. read_record (bs @ [5]) = Some (ascii ''VBT1'', body, [5]) \<and>
        length bs \<le> dev_tensor_max_record \<and> get_le (take 2 (drop 52 body)) = 1 \<and>
        get_tensors 1 (drop 56 body) = df_tensors demo_tensor_frame"
proof -
  have "list_all tensor_typed (df_tensors demo_tensor_frame)" by (simp add: demo_tensor_frame_def tensor_typed_def)
  from vbt1_roundtrip [OF this, of "[5]"] show ?thesis
    by (simp add: demo_tensor_frame_def tensor_fits_def put_tensor_length dev_tensor_max_record_def split: sum.splits)
qed

theorem sent_times_spaced_witness:
  "sent_times [0, lit (1/4), lit 1] (new_rate_limiter (lit 2)) = [0, lit 1] \<and>
   \<not> lit 1 - 0 < rl_min_interval_s (new_rate_limiter (lit 2))"
proof -
  have "list_all (\<lambda>t. t \<ge> 0) [0, lit (1/4), lit 1 :: f64]" by code_simp
  moreover have "sent_times [0, lit (1/4), lit 1] (new_rate_limiter (lit 2)) = [0, lit 1]" by code_simp
  ultimately show ?thesis using sent_times_spaced [of "[0, lit (1/4), lit 1]" "lit 2"] by simp
qed

end
