(* ===== verification/Writer.thy ===== *)
theory Writer
  imports Prelude "HOL-Library.Multiset" "HOL-Library.Sublist"
begin

text \<open>
  \<open>core-cpp/vb/src/writer.cpp\<close>: the queue between the context threads and the output. Frame records
  push out the oldest frame when the queue is full, event records wait for room. Each critical
  section is one function; the step relation interleaves them. A producer that waits on
  \<open>cv_full_\<close> is a parked record, and \<open>sent\<close> is what the sink was given, in order.
\<close>

section \<open>State and operations\<close>

record entry =
  en_is_frame :: bool
  en_bytes :: "u8 list"

record writer =
  wr_frame_queue :: nat
  wr_event_limit :: nat
  wr_flush_ms :: int
  wr_q :: "entry list"
  wr_frames_queued :: nat
  wr_events_queued :: nat
  wr_frames_dropped :: u64
  wr_backpressure :: u64
  wr_running :: bool
  wr_stopping :: bool
  wr_deadline_ms :: u64

definition new_writer :: "nat \<Rightarrow> nat \<Rightarrow> int \<Rightarrow> writer" where
  "new_writer frame_queue event_limit flush_ms =
     \<lparr>wr_frame_queue = frame_queue, wr_event_limit = event_limit, wr_flush_ms = flush_ms, wr_q = [],
      wr_frames_queued = 0, wr_events_queued = 0, wr_frames_dropped = 0, wr_backpressure = 0,
      wr_running = False, wr_stopping = False, wr_deadline_ms = 0\<rparr>"

definition wr_start :: "writer \<Rightarrow> writer" where
  "wr_start w = w\<lparr>wr_running := True, wr_stopping := False, wr_deadline_ms := 0\<rparr>"

definition request_stop :: "u64 \<Rightarrow> writer \<Rightarrow> writer" where
  "request_stop now w =
    w\<lparr>wr_stopping := True,
      wr_deadline_ms := (if wr_deadline_ms w = 0 then now + word_of_int (max 0 (wr_flush_ms w)) else wr_deadline_ms w)\<rparr>"

definition flush_expired :: "u64 \<Rightarrow> writer \<Rightarrow> bool" where
  "flush_expired now w \<longleftrightarrow> wr_deadline_ms w \<noteq> 0 \<and> now \<ge> wr_deadline_ms w"

fun erase_first_frame :: "entry list \<Rightarrow> entry list option" where
  "erase_first_frame [] = None"
| "erase_first_frame (e # es) = (if en_is_frame e then Some es else map_option ((#) e) (erase_first_frame es))"

lemma erase_first_frame_length: "erase_first_frame es = Some es' \<Longrightarrow> length es = Suc (length es')"
  by (induction es arbitrary: es') (auto split: if_splits)

text \<open>The \<open>while\<close> loop of \<open>push_frame\<close>: it ends because every round but the last erases an entry.\<close>

function make_room :: "writer \<Rightarrow> writer" where
  "make_room w =
    (if wr_frames_queued w \<ge> wr_frame_queue w then
       case erase_first_frame (wr_q w) of
         None \<Rightarrow> w
       | Some q \<Rightarrow> make_room (w\<lparr>wr_q := q, wr_frames_queued := wr_frames_queued w - 1,
                             wr_frames_dropped := wr_frames_dropped w + 1\<rparr>)
     else w)"
  by pat_completeness auto
termination by (relation "measure (\<lambda>w. length (wr_q w))") (auto dest: erase_first_frame_length)
declare make_room.simps [simp del]

definition push_frame :: "u8 list \<Rightarrow> writer \<Rightarrow> writer" where
  "push_frame b w =
    (if \<not> wr_running w then w
     else let w = make_room w
       in w\<lparr>wr_frames_queued := wr_frames_queued w + 1, wr_q := wr_q w @ [\<lparr>en_is_frame = True, en_bytes = b\<rparr>]\<rparr>)"

definition enqueue_event :: "u8 list \<Rightarrow> writer \<Rightarrow> writer" where
  "enqueue_event b w =
     w\<lparr>wr_events_queued := wr_events_queued w + 1, wr_q := wr_q w @ [\<lparr>en_is_frame = False, en_bytes = b\<rparr>]\<rparr>"

text \<open>\<open>push_event\<close> up to its wait, and what the wait does when it is woken: \<open>None\<close> is to wait on.\<close>

datatype pushed = Ignored | Queued | Parked

definition push_event :: "u8 list \<Rightarrow> writer \<Rightarrow> writer \<times> pushed" where
  "push_event b w =
    (if \<not> wr_running w then (w, Ignored)
     else if wr_events_queued w \<ge> wr_event_limit w then (w\<lparr>wr_backpressure := wr_backpressure w + 1\<rparr>, Parked)
     else (enqueue_event b w, Queued))"

definition wake_event :: "u8 list \<Rightarrow> writer \<Rightarrow> (writer \<times> pushed) option" where
  "wake_event b w =
    (if wr_stopping w then Some (w, Ignored)
     else if wr_events_queued w < wr_event_limit w then Some (enqueue_event b w, Queued)
     else None)"

text \<open>One round of the writer thread.\<close>

definition pop_entry :: "writer \<Rightarrow> (writer \<times> entry) option" where
  "pop_entry w =
    (case wr_q w of
       [] \<Rightarrow> None
     | e # q \<Rightarrow>
         Some (if en_is_frame e then w\<lparr>wr_q := q, wr_frames_queued := wr_frames_queued w - 1\<rparr>
               else w\<lparr>wr_q := q, wr_events_queued := wr_events_queued w - 1\<rparr>, e))"

text \<open>The end of \<open>stop\<close>, after the writer thread was joined: what is left goes to the sink.\<close>

definition drain :: "writer \<Rightarrow> writer \<times> entry list" where
  "drain w = (w\<lparr>wr_q := [], wr_running := False\<rparr>, wr_q w)"

section \<open>Steps\<close>

record system =
  sy_writer :: writer
  sy_parked :: "u8 list multiset"
  sy_sent :: "entry list"

datatype action =
    Frame_Pushed "u8 list" | Frame_Ignored "u8 list" | Event_Queued "u8 list" | Event_Woken "u8 list" | Event_Parked "u8 list" | Event_Ignored "u8 list"
  | Gave_Up "u8 list" | Sent entry | Stop_Asked | Drained

inductive wr_step :: "system \<Rightarrow> action \<Rightarrow> system \<Rightarrow> bool" where
  frame: "wr_running (sy_writer s) \<Longrightarrow>
    wr_step s (Frame_Pushed b) (s\<lparr>sy_writer := push_frame b (sy_writer s)\<rparr>)"
| frame_ignored: "\<not> wr_running (sy_writer s) \<Longrightarrow>
    wr_step s (Frame_Ignored b) (s\<lparr>sy_writer := push_frame b (sy_writer s)\<rparr>)"
| queued: "push_event b (sy_writer s) = (w, Queued) \<Longrightarrow> wr_step s (Event_Queued b) (s\<lparr>sy_writer := w\<rparr>)"
| parked: "push_event b (sy_writer s) = (w, Parked) \<Longrightarrow>
    wr_step s (Event_Parked b) (s\<lparr>sy_writer := w, sy_parked := sy_parked s + {#b#}\<rparr>)"
| ignored: "push_event b (sy_writer s) = (w, Ignored) \<Longrightarrow> wr_step s (Event_Ignored b) (s\<lparr>sy_writer := w\<rparr>)"
| woken: "b \<in># sy_parked s \<Longrightarrow> wake_event b (sy_writer s) = Some (w, Queued) \<Longrightarrow>
    wr_step s (Event_Woken b) (s\<lparr>sy_writer := w, sy_parked := sy_parked s - {#b#}\<rparr>)"
| gave_up: "b \<in># sy_parked s \<Longrightarrow> wake_event b (sy_writer s) = Some (w, Ignored) \<Longrightarrow>
    wr_step s (Gave_Up b) (s\<lparr>sy_writer := w, sy_parked := sy_parked s - {#b#}\<rparr>)"
| sent: "pop_entry (sy_writer s) = Some (w, e) \<Longrightarrow>
    wr_step s (Sent e) (s\<lparr>sy_writer := w, sy_sent := sy_sent s @ [e]\<rparr>)"
| stop_asked: "wr_step s Stop_Asked (s\<lparr>sy_writer := request_stop now (sy_writer s)\<rparr>)"
| drained: "wr_stopping (sy_writer s) \<Longrightarrow> wr_running (sy_writer s) \<Longrightarrow> drain (sy_writer s) = (w, es) \<Longrightarrow>
    wr_step s Drained (s\<lparr>sy_writer := w, sy_sent := sy_sent s @ es\<rparr>)"

inductive_cases wr_stepE [elim!]: "wr_step s a s'"

inductive wr_runs :: "system \<Rightarrow> action list \<Rightarrow> system \<Rightarrow> bool" where
  none: "wr_runs s [] s"
| more: "wr_runs s tr s' \<Longrightarrow> wr_step s' a s'' \<Longrightarrow> wr_runs s (tr @ [a]) s''"

definition started :: "nat \<Rightarrow> nat \<Rightarrow> int \<Rightarrow> system" where
  "started frame_queue event_limit flush_ms =
     \<lparr>sy_writer = wr_start (new_writer frame_queue event_limit flush_ms), sy_parked = {#}, sy_sent = []\<rparr>"

section \<open>What the queue holds\<close>

definition event_bytes :: "entry list \<Rightarrow> u8 list list" where
  "event_bytes es = map en_bytes (filter (\<lambda>e. \<not> en_is_frame e) es)"

definition frame_bytes :: "entry list \<Rightarrow> u8 list list" where
  "frame_bytes es = map en_bytes (filter en_is_frame es)"

lemma event_bytes_simps [simp]: "event_bytes [] = []" "event_bytes (a @ b) = event_bytes a @ event_bytes b"
  "event_bytes (e # es) = (if en_is_frame e then event_bytes es else en_bytes e # event_bytes es)"
  by (simp_all add: event_bytes_def)

lemma frame_bytes_simps [simp]: "frame_bytes [] = []" "frame_bytes (a @ b) = frame_bytes a @ frame_bytes b"
  "frame_bytes (e # es) = (if en_is_frame e then en_bytes e # frame_bytes es else frame_bytes es)"
  by (simp_all add: frame_bytes_def)

definition counts_ok :: "writer \<Rightarrow> bool" where
  "counts_ok w \<longleftrightarrow> wr_frames_queued w = length (frame_bytes (wr_q w)) \<and> wr_events_queued w = length (event_bytes (wr_q w))"

lemma erase_first_frame_Some:
  "erase_first_frame es = Some es' \<Longrightarrow> event_bytes es' = event_bytes es \<and> frame_bytes es' = tl (frame_bytes es) \<and> frame_bytes es \<noteq> []"
  by (induction es arbitrary: es') (auto split: if_splits)

lemma erase_first_frame_None: "erase_first_frame es = None \<longleftrightarrow> frame_bytes es = []"
  by (induction es) auto

text \<open>What the loop leaves: the events, a suffix of the frames, and room for one frame.\<close>

lemma make_room_keeps:
  "counts_ok w \<Longrightarrow> \<exists>k. counts_ok (make_room w) \<and> event_bytes (wr_q (make_room w)) = event_bytes (wr_q w) \<and>
     frame_bytes (wr_q (make_room w)) = drop k (frame_bytes (wr_q w)) \<and> k \<le> length (frame_bytes (wr_q w)) \<and>
     wr_frames_dropped (make_room w) = wr_frames_dropped w + of_nat k \<and>
     wr_frames_queued (make_room w) \<le> wr_frame_queue w - 1 \<and>
     wr_event_limit (make_room w) = wr_event_limit w \<and> wr_frame_queue (make_room w) = wr_frame_queue w \<and>
     wr_stopping (make_room w) = wr_stopping w \<and> wr_running (make_room w) = wr_running w \<and>
     wr_events_queued (make_room w) = wr_events_queued w"
proof (induction w rule: make_room.induct)
  case (1 w)
  show ?case
  proof (cases "wr_frames_queued w \<ge> wr_frame_queue w \<and> erase_first_frame (wr_q w) \<noteq> None")
    case False
    then have r: "make_room w = w" by (subst make_room.simps) auto
    have "wr_frames_queued w \<le> wr_frame_queue w - 1"
      using False 1(2) by (auto simp: erase_first_frame_None counts_ok_def)
    with r 1(2) show ?thesis by (intro exI [of _ 0]) simp
  next
    case True
    then obtain q where q: "erase_first_frame (wr_q w) = Some q" by auto
    define w' where "w' = w\<lparr>wr_q := q, wr_frames_queued := wr_frames_queued w - 1,
      wr_frames_dropped := wr_frames_dropped w + 1\<rparr>"
    have r: "make_room w = make_room w'" using True q by (subst make_room.simps) (simp add: w'_def)
    note e = erase_first_frame_Some [OF q]
    have "counts_ok w'" using 1(2) e by (simp add: counts_ok_def w'_def)
    with 1(1) True q obtain k where k: "counts_ok (make_room w')" "event_bytes (wr_q (make_room w')) = event_bytes (wr_q w')"
      "frame_bytes (wr_q (make_room w')) = drop k (frame_bytes (wr_q w'))" "k \<le> length (frame_bytes (wr_q w'))"
      "wr_frames_dropped (make_room w') = wr_frames_dropped w' + of_nat k"
      "wr_frames_queued (make_room w') \<le> wr_frame_queue w' - 1"
      "wr_event_limit (make_room w') = wr_event_limit w'" "wr_frame_queue (make_room w') = wr_frame_queue w'"
      "wr_stopping (make_room w') = wr_stopping w'" "wr_running (make_room w') = wr_running w'"
      "wr_events_queued (make_room w') = wr_events_queued w'" unfolding w'_def by blast
    moreover from k(4) e have "Suc k \<le> length (frame_bytes (wr_q w))"
      by (cases "frame_bytes (wr_q w)") (auto simp: w'_def)
    ultimately show ?thesis using e unfolding r by (intro exI [of _ "Suc k"]) (auto simp: w'_def drop_Suc)
  qed
qed

section \<open>Histories\<close>

fun act_event :: "action \<Rightarrow> u8 list option" where
  "act_event (Event_Queued b) = Some b"
| "act_event (Event_Woken b) = Some b"
| "act_event _ = None"

fun act_frame :: "action \<Rightarrow> u8 list option" where
  "act_frame (Frame_Pushed b) = Some b"
| "act_frame _ = None"

fun act_parked :: "action \<Rightarrow> u8 list option" where
  "act_parked (Event_Parked b) = Some b"
| "act_parked _ = None"

fun act_unparked :: "action \<Rightarrow> u8 list option" where
  "act_unparked (Event_Woken b) = Some b"
| "act_unparked (Gave_Up b) = Some b"
| "act_unparked _ = None"

fun act_lost :: "action \<Rightarrow> u8 list option" where
  "act_lost (Event_Ignored b) = Some b"
| "act_lost (Gave_Up b) = Some b"
| "act_lost _ = None"

lemma map_filter_snoc [simp]:
  "List.map_filter f (xs @ [x]) = List.map_filter f xs @ (case f x of None \<Rightarrow> [] | Some y \<Rightarrow> [y])"
  by (simp add: List.map_filter_def split: option.split)

lemma map_filter_Nil [simp]: "List.map_filter f [] = []"
  by (simp add: List.map_filter_def)

definition events_kept :: "action list \<Rightarrow> system \<Rightarrow> bool" where
  "events_kept tr s \<longleftrightarrow> event_bytes (sy_sent s @ wr_q (sy_writer s)) = List.map_filter act_event tr \<and>
     mset (List.map_filter act_parked tr) = sy_parked s + mset (List.map_filter act_unparked tr) \<and>
     (List.map_filter act_lost tr \<noteq> [] \<longrightarrow> wr_stopping (sy_writer s)) \<and>
     (wr_stopping (sy_writer s) \<longleftrightarrow> Stop_Asked \<in> set tr) \<and> (\<not> wr_running (sy_writer s) \<longrightarrow> wr_stopping (sy_writer s))"

definition frames_kept :: "action list \<Rightarrow> system \<Rightarrow> bool" where
  "frames_kept tr s \<longleftrightarrow> (let fs = frame_bytes (sy_sent s @ wr_q (sy_writer s)); pushed = List.map_filter act_frame tr
     in subseq fs pushed \<and> (\<exists>d. length pushed = length fs + d \<and> wr_frames_dropped (sy_writer s) = of_nat d))"

definition queue_bounded :: "nat \<Rightarrow> nat \<Rightarrow> system \<Rightarrow> bool" where
  "queue_bounded cap limit s \<longleftrightarrow> (let w = sy_writer s in
     wr_frame_queue w = cap \<and> wr_event_limit w = limit \<and>
     (wr_running w \<longrightarrow> counts_ok w \<and> wr_frames_queued w \<le> max 1 cap \<and> wr_events_queued w \<le> limit) \<and>
     (\<not> wr_running w \<longrightarrow> wr_q w = [] \<and> wr_stopping w))"

lemma push_frame_stopped [simp]: "\<not> wr_running w \<Longrightarrow> push_frame b w = w"
  by (simp add: push_frame_def)

lemmas event_op_defs = push_event_def wake_event_def enqueue_event_def pop_entry_def drain_def request_stop_def

lemma queue_bounded_step:
  "wr_step s a s' \<Longrightarrow> queue_bounded cap limit s \<Longrightarrow> queue_bounded cap limit s'"
proof (induction rule: wr_step.induct)
  case (frame s b)
  define w where "w = sy_writer s"
  from frame have "counts_ok w" by (simp add: queue_bounded_def w_def Let_def)
  from make_room_keeps [OF this] frame show ?case
    by (auto simp: queue_bounded_def push_frame_def Let_def counts_ok_def simp flip: w_def)
next
  case (sent s w e)
  then show ?case
    by (cases "wr_q (sy_writer s)") (auto simp: queue_bounded_def event_op_defs counts_ok_def Let_def split: if_splits)
qed (auto simp: queue_bounded_def event_op_defs counts_ok_def Let_def split: if_splits)

lemma events_kept_step:
  "wr_step s a s' \<Longrightarrow> queue_bounded cap limit s \<Longrightarrow> events_kept tr s \<Longrightarrow> events_kept (tr @ [a]) s'"
proof (induction rule: wr_step.induct)
  case (frame s b)
  define w where "w = sy_writer s"
  from frame have "counts_ok w" by (simp add: queue_bounded_def w_def Let_def)
  from make_room_keeps [OF this] frame show ?case
    by (auto simp: events_kept_def push_frame_def Let_def simp flip: w_def)
next
  case (sent s w e)
  then show ?case
    by (cases "wr_q (sy_writer s)") (auto simp: events_kept_def event_op_defs split: if_splits)
qed (auto simp: events_kept_def event_op_defs split: if_splits dest!: multi_member_split)

lemma frames_kept_step:
  "wr_step s a s' \<Longrightarrow> queue_bounded cap limit s \<Longrightarrow> frames_kept tr s \<Longrightarrow> frames_kept (tr @ [a]) s'"
proof (induction rule: wr_step.induct)
  case (frame s b)
  define w where "w = sy_writer s"
  define pushed where "pushed = List.map_filter act_frame tr"
  from frame have "counts_ok w" by (simp add: queue_bounded_def w_def Let_def)
  from make_room_keeps [OF this] obtain k where
    k: "frame_bytes (wr_q (make_room w)) = drop k (frame_bytes (wr_q w))" "k \<le> length (frame_bytes (wr_q w))"
      "wr_frames_dropped (make_room w) = wr_frames_dropped w + of_nat k" by blast
  from frame obtain d where d: "subseq (frame_bytes (sy_sent s) @ frame_bytes (wr_q w)) pushed"
    "length pushed = length (frame_bytes (sy_sent s)) + length (frame_bytes (wr_q w)) + d" "wr_frames_dropped w = of_nat d"
    by (auto simp: frames_kept_def Let_def w_def pushed_def)
  have "subseq (frame_bytes (sy_sent s) @ drop k (frame_bytes (wr_q w))) (frame_bytes (sy_sent s) @ frame_bytes (wr_q w))"
    by (intro list_emb_append_mono suffix_imp_subseq suffix_drop) simp
  with d(1) have "subseq (frame_bytes (sy_sent s) @ drop k (frame_bytes (wr_q w))) pushed"
    using subseq_order.order_trans by blast
  then have "subseq ((frame_bytes (sy_sent s) @ drop k (frame_bytes (wr_q w))) @ [b]) (pushed @ [b])"
    by (rule list_emb_append_mono) simp
  with k d(2,3) frame(1) show ?case
    by (auto simp: frames_kept_def push_frame_def Let_def simp flip: w_def pushed_def intro!: exI [of _ "d + k"])
next
  case (sent s w e)
  then show ?case
    by (cases "wr_q (sy_writer s)") (auto simp: frames_kept_def event_op_defs Let_def split: if_splits)
qed (auto simp: frames_kept_def event_op_defs Let_def split: if_splits)

lemma runs_invariants:
  assumes "wr_runs s tr s'" "queue_bounded cap limit s" "events_kept [] s" "frames_kept [] s"
  shows "queue_bounded cap limit s' \<and> events_kept tr s' \<and> frames_kept tr s'"
  using assms
proof (induction rule: wr_runs.induct)
  case (more s tr s' a s'')
  then have i: "queue_bounded cap limit s'" "events_kept tr s'" "frames_kept tr s'" by simp_all
  show ?case using queue_bounded_step [OF more(2) i(1)] events_kept_step [OF more(2) i(1,2)]
      frames_kept_step [OF more(2) i(1,3)] by simp
qed simp

lemma started_ok: "queue_bounded cap limit (started cap limit flush)" "events_kept [] (started cap limit flush)"
  "frames_kept [] (started cap limit flush)"
  by (auto simp: queue_bounded_def events_kept_def frames_kept_def started_def wr_start_def new_writer_def counts_ok_def Let_def)

section \<open>Properties\<close>

text \<open>C14: whatever the producers, the writer thread and the stop do in whatever order, no event is ever lost
  before a stop is asked for: what the sink was given followed by what is queued is exactly the sequence
  of accepted events, every event that had to wait is accepted, still waiting or gave up, and an event is refused or gives up only
  after a stop was asked. While the writer runs its counters are the true counts, at most the limit
  of events is queued and at most the capacity of frames (or one).\<close>

theorem writer_keeps_events:
  assumes "wr_runs (started cap limit flush) tr s"
  shows "let w = sy_writer s in
    event_bytes (sy_sent s @ wr_q w) = List.map_filter act_event tr \<and>
    mset (List.map_filter act_parked tr) = sy_parked s + mset (List.map_filter act_unparked tr) \<and>
    (Stop_Asked \<in> set tr \<or> List.map_filter act_lost tr = []) \<and>
    (if wr_running w
     then wr_frames_queued w = length (frame_bytes (wr_q w)) \<and> wr_frames_queued w \<le> max 1 cap \<and>
       wr_events_queued w = length (event_bytes (wr_q w)) \<and> wr_events_queued w \<le> limit
     else wr_q w = [])"
  using runs_invariants [OF assms started_ok]
  by (auto simp: queue_bounded_def events_kept_def Let_def counts_ok_def)

text \<open>C15: the frames that reach the sink are pushed frames in their order, and the drop counter accounts
  for every frame that is neither sent nor queued. Frames pushed after the writer has stopped are neither queued
  nor counted.\<close>

theorem writer_drops_frames_in_order:
  assumes "wr_runs (started cap limit flush) tr s"
  shows "subseq (frame_bytes (sy_sent s @ wr_q (sy_writer s))) (List.map_filter act_frame tr) \<and>
    (of_nat (length (List.map_filter act_frame tr)) :: u64) =
      of_nat (length (frame_bytes (sy_sent s @ wr_q (sy_writer s)))) + wr_frames_dropped (sy_writer s)"
  using runs_invariants [OF assms started_ok] by (auto simp: frames_kept_def Let_def)

section \<open>Concrete instances\<close>

text \<open>Two frames into a queue for one, an event that waits for room, and the sink.\<close>

lemma demo_run:
  "\<exists>s :: system. wr_runs (started 1 1 0) [Frame_Pushed [1], Frame_Pushed [2], Event_Queued [3], Event_Parked [4],
      Sent \<lparr>en_is_frame = True, en_bytes = [2]\<rparr>, Sent \<lparr>en_is_frame = False, en_bytes = [3]\<rparr>, Event_Woken [4]] s \<and>
    sy_sent s = [\<lparr>en_is_frame = True, en_bytes = [2]\<rparr>, \<lparr>en_is_frame = False, en_bytes = [3]\<rparr>] \<and>
    wr_q (sy_writer s) = [\<lparr>en_is_frame = False, en_bytes = [4]\<rparr>] \<and> wr_frames_dropped (sy_writer s) = 1 \<and>
    sy_parked s = {#} \<and> wr_running (sy_writer s)"
proof -
  define s0 where "s0 = started 1 1 0"
  define s1 where "s1 = s0\<lparr>sy_writer := push_frame [1] (sy_writer s0)\<rparr>"
  define s2 where "s2 = s1\<lparr>sy_writer := push_frame [2] (sy_writer s1)\<rparr>"
  define s3 where "s3 = s2\<lparr>sy_writer := fst (push_event [3] (sy_writer s2))\<rparr>"
  define s4 where "s4 = s3\<lparr>sy_writer := fst (push_event [4] (sy_writer s3)), sy_parked := {#[4]#}\<rparr>"
  define s5 where "s5 = s4\<lparr>sy_writer := fst (the (pop_entry (sy_writer s4))), sy_sent := [snd (the (pop_entry (sy_writer s4)))]\<rparr>"
  define s6 where "s6 = s5\<lparr>sy_writer := fst (the (pop_entry (sy_writer s5))),
    sy_sent := sy_sent s5 @ [snd (the (pop_entry (sy_writer s5)))]\<rparr>"
  define s7 where "s7 = s6\<lparr>sy_writer := fst (the (wake_event [4] (sy_writer s6))), sy_parked := {#}\<rparr>"
  note d = s0_def s1_def s2_def s3_def s4_def s5_def s6_def s7_def started_def wr_start_def new_writer_def
    push_frame_def make_room.simps event_op_defs
  have "wr_runs s0 [] s0" by (rule wr_runs.none)
  moreover have "wr_step s0 (Frame_Pushed [1]) s1" unfolding s1_def by (rule wr_step.frame) (simp add: d)
  moreover have "wr_step s1 (Frame_Pushed [2]) s2" unfolding s2_def by (rule wr_step.frame) (simp add: d)
  moreover have "wr_step s2 (Event_Queued [3]) s3" unfolding s3_def by (rule wr_step.queued) (simp add: d)
  moreover have "wr_step s3 (Event_Parked [4]) s4"
    using wr_step.parked [of "[4]" s3 "fst (push_event [4] (sy_writer s3))"] by (simp add: d)
  moreover have "wr_step s4 (Sent \<lparr>en_is_frame = True, en_bytes = [2]\<rparr>) s5"
    using wr_step.sent [of s4 "fst (the (pop_entry (sy_writer s4)))" "\<lparr>en_is_frame = True, en_bytes = [2]\<rparr>"] by (simp add: d)
  moreover have "wr_step s5 (Sent \<lparr>en_is_frame = False, en_bytes = [3]\<rparr>) s6"
    using wr_step.sent [of s5 "fst (the (pop_entry (sy_writer s5)))" "\<lparr>en_is_frame = False, en_bytes = [3]\<rparr>"] by (simp add: d)
  moreover have "wr_step s6 (Event_Woken [4]) s7"
    using wr_step.woken [of "[4]" s6 "fst (the (wake_event [4] (sy_writer s6)))"] by (simp add: d)
  ultimately have "wr_runs s0 ([] @ [Frame_Pushed [1]] @ [Frame_Pushed [2]] @ [Event_Queued [3]] @ [Event_Parked [4]] @
      [Sent \<lparr>en_is_frame = True, en_bytes = [2]\<rparr>] @ [Sent \<lparr>en_is_frame = False, en_bytes = [3]\<rparr>] @ [Event_Woken [4]]) s7"
    unfolding append_assoc [symmetric] by (intro wr_runs.more)
  moreover have "sy_sent s7 = [\<lparr>en_is_frame = True, en_bytes = [2]\<rparr>, \<lparr>en_is_frame = False, en_bytes = [3]\<rparr>]"
    "wr_q (sy_writer s7) = [\<lparr>en_is_frame = False, en_bytes = [4]\<rparr>]" "wr_frames_dropped (sy_writer s7) = 1"
    "sy_parked s7 = {#}" "wr_running (sy_writer s7)" by (simp_all add: d)
  ultimately show ?thesis unfolding s0_def by auto
qed

theorem writer_keeps_events_witness:
  "\<exists>s :: system. event_bytes (sy_sent s @ wr_q (sy_writer s)) = [[3], [4]] \<and> wr_frames_queued (sy_writer s) = 0 \<and>
    wr_events_queued (sy_writer s) = 1"
proof -
  obtain s where r: "wr_runs (started 1 1 0) [Frame_Pushed [1], Frame_Pushed [2], Event_Queued [3], Event_Parked [4],
      Sent \<lparr>en_is_frame = True, en_bytes = [2]\<rparr>, Sent \<lparr>en_is_frame = False, en_bytes = [3]\<rparr>, Event_Woken [4]] s"
    "wr_q (sy_writer s) = [\<lparr>en_is_frame = False, en_bytes = [4]\<rparr>]" "wr_running (sy_writer s)"
    using demo_run by blast
  note k = writer_keeps_events [OF r(1), unfolded Let_def]
  show ?thesis
  proof (intro exI [of _ s] conjI)
    from k show "event_bytes (sy_sent s @ wr_q (sy_writer s)) = [[3], [4]]"
      by (simp only: List.map_filter_simps act_event.simps option.case)
    from k r(2,3) show "wr_frames_queued (sy_writer s) = 0" "wr_events_queued (sy_writer s) = 1" by simp_all
  qed
qed

theorem writer_drops_frames_in_order_witness:
  "\<exists>s :: system. frame_bytes (sy_sent s @ wr_q (sy_writer s)) = [[2]] \<and> subseq [[2]] [[1], [2 :: u8]] \<and>
    wr_frames_dropped (sy_writer s) = 1"
proof -
  obtain s where r: "wr_runs (started 1 1 0) [Frame_Pushed [1], Frame_Pushed [2], Event_Queued [3], Event_Parked [4],
      Sent \<lparr>en_is_frame = True, en_bytes = [2]\<rparr>, Sent \<lparr>en_is_frame = False, en_bytes = [3]\<rparr>, Event_Woken [4]] s"
    "sy_sent s = [\<lparr>en_is_frame = True, en_bytes = [2]\<rparr>, \<lparr>en_is_frame = False, en_bytes = [3]\<rparr>]"
    "wr_q (sy_writer s) = [\<lparr>en_is_frame = False, en_bytes = [4]\<rparr>]"
    using demo_run by blast
  have c: "List.map_filter act_frame [Frame_Pushed [1], Frame_Pushed [2], Event_Queued [3], Event_Parked [4],
      Sent \<lparr>en_is_frame = True, en_bytes = [2]\<rparr>, Sent \<lparr>en_is_frame = False, en_bytes = [3]\<rparr>, Event_Woken [4]] =
      [[1], [2]]" by (simp add: List.map_filter_simps)
  have f: "frame_bytes (sy_sent s @ wr_q (sy_writer s)) = [[2]]" by (simp add: r(2,3))
  from writer_drops_frames_in_order [OF r(1), unfolded c f]
  have "subseq [[2]] [[1], [2 :: u8]]" "(2 :: u64) = 1 + wr_frames_dropped (sy_writer s)" by simp_all
  moreover from this(2) have "wr_frames_dropped (sy_writer s) = 2 - 1" by (metis add_diff_cancel_left')
  ultimately show ?thesis using f by (intro exI [of _ s]) simp
qed

end
