(* ===== verification/Plugins.thy ===== *)
theory Plugins
  imports Analyzer_Chain Text_Format
begin

text \<open>
  Analyzer plugins: the function table of \<open>core-cpp/vb/include/vb/vb_analyzer_abi.h\<close> and its checks and
  its wrapper in \<open>core-cpp/vb/src/analyzers/plugin_loader.cpp\<close>. The callbacks belong to the shared
  library, so they are fields of the table: functions on the instance state \<open>'p\<close>. A null pointer is
  \<open>None\<close>. With the built-in analyzers the wrapped plugins make up the chain of a stream.
\<close>

section \<open>The table\<close>

record vb_track =
  vk_track_id :: u32
  vk_box :: "f32 list"
  vk_score :: f32
  vk_class_id :: int
  vk_v :: "f32 \<times> f32"
  vk_hits :: u32
  vk_misses :: u32
  vk_kpts :: "f32 list option"
  vk_kpt_count :: u32

record vb_frame_meta =
  vm_stream_index :: u32
  vm_seq :: u64
  vm_wall_ms :: f64
  vm_t_mono_s :: f64
  vm_src_w :: int
  vm_src_h :: int
  vm_model_w :: int
  vm_model_h :: int
  vm_scale :: f32
  vm_pad_x :: f32
  vm_pad_y :: f32
  vm_align :: u8

type_synonym emitted = "string option \<times> u32 \<times> string option"

record 'p vb_analyzer_api =
  va_abi :: u32
  va_name :: "string option"
  va_attr_count :: u32
  va_attr_names :: "string list option"
  va_create :: "(string \<Rightarrow> string + 'p) option"
  va_destroy :: "('p \<Rightarrow> unit) option"
  va_on_frame :: "('p \<Rightarrow> vb_frame_meta \<Rightarrow> vb_track list \<Rightarrow> f32 list \<Rightarrow> 'p \<times> f32 list \<times> emitted list) option"
  va_on_track_removed :: "('p \<Rightarrow> u32 \<Rightarrow> f64 \<Rightarrow> 'p) option"

definition validate_plugin_api :: "'p vb_analyzer_api \<Rightarrow> string + unit" where
  "validate_plugin_api api =
    (if Option.is_none (va_create api) then Inl ''plugin api: create is null''
     else if Option.is_none (va_destroy api) then Inl ''plugin api: destroy is null''
     else if Option.is_none (va_on_frame api) then Inl ''plugin api: on_frame is null''
     else if Option.is_none (va_on_track_removed api) then Inl ''plugin api: on_track_removed is null''
     else if va_name api = None \<or> va_name api = Some [] then Inl ''plugin api: name is empty''
     else if va_attr_count api > 0 \<and> va_attr_names api = None then
       Inl (''plugin api: attr_names is null with attr_count '' @ dec_digits (unat (va_attr_count api)))
     else if va_attr_count api > 255 then
       Inl (''plugin api: attr_count '' @ dec_digits (unat (va_attr_count api)) @ '' exceeds the 255 cap of VBR1'')
     else Inr ())"

definition vb_analyzer_abi :: u32 where "vb_analyzer_abi = 1"

text \<open>\<open>load_plugin_api\<close>: \<open>open_lib\<close> and \<open>entry\<close> stand for the dynamic linker: the library or its
  error, and the table the entry symbol returns (\<open>None\<close> is a null table), or the error of \<open>dlsym\<close>.\<close>

definition load_plugin_api ::
  "(string \<Rightarrow> string + 'h) \<Rightarrow> ('h \<Rightarrow> string + 'p vb_analyzer_api option) \<Rightarrow> string \<Rightarrow> string + 'p vb_analyzer_api" where
  "load_plugin_api open_lib entry path =
    (case open_lib path of
       Inl e \<Rightarrow> Inl (''plugin load failed: '' @ e)
     | Inr h \<Rightarrow>
         (case entry h of
            Inl e \<Rightarrow> Inl (''plugin has no vb_analyzer_entry: '' @ e)
          | Inr None \<Rightarrow> Inl (''plugin abi mismatch: expected 1, got null'')
          | Inr (Some t) \<Rightarrow>
              if va_abi t \<noteq> vb_analyzer_abi
              then Inl (''plugin abi mismatch: expected 1, got '' @ dec_digits (unat (va_abi t)))
              else case validate_plugin_api t of Inl e \<Rightarrow> Inl (path @ '': '' @ e) | Inr _ \<Rightarrow> Inr t))"

section \<open>The wrapper\<close>

record text_event =
  te_type :: string
  te_track_id :: u32
  te_fields :: string

definition emit_cb :: "emitted \<Rightarrow> text_event" where
  "emit_cb e = (case e of (ty, i, fj) \<Rightarrow>
     \<lparr>te_type = (case ty of None \<Rightarrow> [] | Some s \<Rightarrow> s), te_track_id = i,
      te_fields = (case fj of None \<Rightarrow> ''{}'' | Some s \<Rightarrow> s)\<rparr>)"

definition align_code :: "align \<Rightarrow> u8" where
  "align_code a = (case a of Align_Center \<Rightarrow> 0 | Align_TopLeft \<Rightarrow> 1)"

definition to_vb_track :: "track \<Rightarrow> vb_track" where
  "to_vb_track t =
    (let d = trk_det t in
     \<lparr>vk_track_id = trk_id t, vk_box = [d_cx d, d_cy d, d_w d, d_h d], vk_score = d_score d,
      vk_class_id = d_class_id d, vk_v = (trk_vx t, trk_vy t), vk_hits = trk_hits t, vk_misses = trk_misses t,
      vk_kpts = (if trk_kpts t = [] then None
        else Some (concat (map (\<lambda>k. [kp_x k, kp_y k, kp_conf k]) (trk_kpts t)))),
      vk_kpt_count = of_nat (length (trk_kpts t))\<rparr>)"

definition to_vb_meta :: "frame_meta \<Rightarrow> vb_frame_meta" where
  "to_vb_meta m =
    (let g = fm_geom m in
     \<lparr>vm_stream_index = fm_stream_index m, vm_seq = fm_seq m, vm_wall_ms = fm_wall_ms m,
      vm_t_mono_s = fm_t_mono_s m, vm_src_w = lg_src_w g, vm_src_h = lg_src_h g, vm_model_w = lg_model_w g,
      vm_model_h = lg_model_h g, vm_scale = lg_scale g, vm_pad_x = lg_pad_x g, vm_pad_y = lg_pad_y g,
      vm_align = align_code (lg_align g)\<rparr>)"

text \<open>A callback that is null is never reached: only validated tables are wrapped.\<close>

definition plugin_configure :: "'p vb_analyzer_api \<Rightarrow> string \<Rightarrow> 'p option \<Rightarrow> 'p option \<times> unit outcome" where
  "plugin_configure api text self =
    (case va_create api of
       None \<Rightarrow> (self, Thrown)
     | Some create \<Rightarrow>
         (case create text of
            Inl e \<Rightarrow> (self, Refused (if e \<noteq> [] then e else ''plugin create failed''))
          | Inr p \<Rightarrow> (Some p, Returned ())))"

definition plugin_on_frame ::
  "'p vb_analyzer_api \<Rightarrow> frame_meta \<Rightarrow> track list \<Rightarrow> f32 list \<Rightarrow> 'p option \<Rightarrow> 'p option \<times> f32 list \<times> text_event list" where
  "plugin_on_frame api m ts attrs self =
    (case (self, va_on_frame api) of
       (Some p, Some call) \<Rightarrow>
         (case call p (to_vb_meta m) (map to_vb_track ts) attrs of (p', attrs', es) \<Rightarrow> (Some p', attrs', map emit_cb es))
     | _ \<Rightarrow> (self, attrs, []))"

definition plugin_on_removed :: "'p vb_analyzer_api \<Rightarrow> u32 \<Rightarrow> f64 \<Rightarrow> 'p option \<Rightarrow> 'p option" where
  "plugin_on_removed api i t self =
    (case (self, va_on_track_removed api) of (Some p, Some call) \<Rightarrow> Some (call p i t) | _ \<Rightarrow> self)"

section \<open>Chain elements\<close>

datatype 'p chained = Built builtin | Plugin "'p vb_analyzer_api" "'p option"

fun ca_name :: "'p chained \<Rightarrow> string" where
  "ca_name (Built a) = an_name a"
| "ca_name (Plugin api p) = (case va_name api of None \<Rightarrow> ''plugin'' | Some s \<Rightarrow> s)"

fun ca_attr_count :: "'p chained \<Rightarrow> nat" where
  "ca_attr_count (Built a) = an_attr_count a"
| "ca_attr_count (Plugin api p) = unat (va_attr_count api)"

fun ca_needs_tracks :: "'p chained \<Rightarrow> bool" where
  "ca_needs_tracks (Built a) = an_needs_tracks a"
| "ca_needs_tracks (Plugin api p) = True"

fun ca_min_keypoints :: "'p chained \<Rightarrow> u32" where
  "ca_min_keypoints (Built a) = an_min_keypoints a"
| "ca_min_keypoints (Plugin api p) = 0"

text \<open>The library functions the code calls: parsing and printing of JSON, and the math library.\<close>

record libs =
  lb_parse :: "string \<Rightarrow> string + json"
  lb_dump :: "json \<Rightarrow> string"
  lb_math :: libm

fun ca_configure :: "libs \<Rightarrow> string \<Rightarrow> 'p chained \<Rightarrow> 'p chained \<times> unit outcome" where
  "ca_configure lb text (Built a) = apfst Built (an_configure (lb_parse lb) text a)"
| "ca_configure lb text (Plugin api p) = apfst (Plugin api) (plugin_configure api text p)"

definition text_of :: "libs \<Rightarrow> analyzer_event \<Rightarrow> text_event" where
  "text_of lb e = \<lparr>te_type = ae_type e, te_track_id = ae_track_id e, te_fields = lb_dump lb (ae_fields e)\<rparr>"

fun ca_on_frame :: "libs \<Rightarrow> frame_meta \<Rightarrow> track list \<Rightarrow> f32 list \<Rightarrow> 'p chained \<Rightarrow> 'p chained \<times> f32 list \<times> text_event list" where
  "ca_on_frame lb m ts attrs (Built a) =
    (let (a', es) = an_on_frame (lb_math lb) m ts a in (Built a', attrs, map (text_of lb) es))"
| "ca_on_frame lb m ts attrs (Plugin api p) = apfst (Plugin api) (plugin_on_frame api m ts attrs p)"

fun ca_on_removed :: "libs \<Rightarrow> u32 \<Rightarrow> f64 \<Rightarrow> 'p chained \<Rightarrow> 'p chained \<times> text_event list" where
  "ca_on_removed lb i t (Built a) = (let (a', es) = an_on_removed i t a in (Built a', map (text_of lb) es))"
| "ca_on_removed lb i t (Plugin api p) = (Plugin api (plugin_on_removed api i t p), [])"

text \<open>The tracks a chain element keeps something about, as far as the program sees.\<close>

fun ca_ok :: "'p chained \<Rightarrow> bool" where
  "ca_ok (Built a) = an_ok a"
| "ca_ok (Plugin api p) = True"

fun ca_ids :: "'p chained \<Rightarrow> u32 set" where
  "ca_ids (Built a) = an_ids a"
| "ca_ids (Plugin api p) = {}"

lemma ca_on_frame_ok: "ca_ok a \<Longrightarrow> ca_ok (fst (ca_on_frame lb m ts attrs a))"
  using builtin.frame_ok by (cases a) (auto simp: case_prod_beta)

lemma ca_on_removed_ok: "ca_ok a \<Longrightarrow> ca_ok (fst (ca_on_removed lb i t a))"
  using builtin.removed_ok by (cases a) (auto simp: case_prod_beta)

lemma ca_on_frame_ids: "ca_ok a \<Longrightarrow> ca_ids (fst (ca_on_frame lb m ts attrs a)) \<subseteq> ca_ids a \<union> trk_id ` set ts"
  using builtin.frame_ids by (cases a) (auto simp: case_prod_beta)

lemma ca_on_removed_ids: "ca_ok a \<Longrightarrow> ca_ids (fst (ca_on_removed lb i t a)) = ca_ids a - {i}"
  using builtin.removed_ids by (cases a) (auto simp: case_prod_beta)

lemma ca_configured: "snd (ca_configure lb text a) = Returned () \<Longrightarrow>
    ca_ok (fst (ca_configure lb text a)) \<and> ca_ids (fst (ca_configure lb text a)) = {}"
  using configured_ok by (cases a) auto

lemma ca_configure_failed: "snd (ca_configure lb text a) \<noteq> Returned () \<Longrightarrow> fst (ca_configure lb text a) = a"
  using configure_failed by (cases a) (auto simp: plugin_configure_def split: option.splits sum.splits)

text \<open>A table that loads has every callback the wrapper calls, and attributes that a frame record can hold.\<close>

lemma loaded_api_complete:
  "load_plugin_api open_lib entry path = Inr api \<Longrightarrow>
     va_create api \<noteq> None \<and> va_destroy api \<noteq> None \<and> va_on_frame api \<noteq> None \<and> va_on_track_removed api \<noteq> None \<and>
     (\<exists>n. va_name api = Some n \<and> n \<noteq> []) \<and> va_abi api = 1 \<and> unat (va_attr_count api) \<le> 255"
  by (auto simp: load_plugin_api_def validate_plugin_api_def vb_analyzer_abi_def word_le_nat_alt not_less
      Option.is_none_def split: sum.splits option.splits if_splits)

end
