(* ===== verification/Pool.thy ===== *)
theory Pool
  imports Plugins Stream_State Dev_Tensor
begin

text \<open>
  One frame of one stream in a context thread: \<open>core-cpp/vb/src/pool.cpp\<close> and the stream state of
  \<open>core-cpp/vb/include/vb/runtime.h\<close>. \<open>process\<close> is a function of the stream state; what it hands to the writer
  is the list of pushes, in order. The inference result, the clock readings and the JSON and
  math libraries are arguments. An exception that leaves the thread function, which ends the program, is \<open>Thrown\<close>.
\<close>

section \<open>Stream state\<close>

record stream_spec =
  ssp_index :: u32
  ssp_id :: string
  ssp_url :: string
  ssp_name :: string
  ssp_transport :: string
  ssp_score_threshold :: f32
  ssp_options_json :: string

record pending_cfg =
  pc_name :: string
  pc_json :: string
  pc_done :: bool
  pc_ok :: bool
  pc_err :: string

record snap_box =
  sb_track_id :: u32
  sb_x0 :: f32
  sb_y0 :: f32
  sb_x1 :: f32
  sb_y1 :: f32

record ring_entry =
  re_seq :: u64
  re_w :: int
  re_h :: int
  re_pixels :: "u8 list"
  re_boxes :: "snap_box list"

record 'p stream_state =
  ss_index :: u32
  ss_spec :: stream_spec
  ss_latest :: latest_frame
  ss_tracker :: vb_tracker
  ss_track_enabled :: bool
  ss_chain :: "(string \<times> 'p chained) list"
  ss_metrics :: stream_metrics
  ss_pending_score :: "f32 option"
  ss_pending_cfg :: "pending_cfg option"
  ss_drop_baseline :: u64
  ss_ring_cap :: int
  ss_ring :: "ring_entry list"
  ss_got_first_frame :: bool
  ss_limiter :: dev_rate_limiter
  ss_source_alive :: bool

text \<open>What goes to the writer; \<open>Frame_Hook\<close> is the call of \<open>on_frame_rec\<close>, if one is set.\<close>

datatype push = Push_Frame "u8 list" | Push_Event "u8 list" | Frame_Hook wire_frame_rec

section \<open>Pending controls\<close>

text \<open>The loop keeps the last analyzer with the name.\<close>

fun configure_last :: "libs \<Rightarrow> string \<Rightarrow> string \<Rightarrow> (string \<times> 'p chained) list \<Rightarrow>
    ((string \<times> 'p chained) list \<times> unit outcome) option" where
  "configure_last lb name text [] = None"
| "configure_last lb name text ((n, a) # rest) =
    (case configure_last lb name text rest of
       Some (rest', r) \<Rightarrow> Some ((n, a) # rest', r)
     | None \<Rightarrow>
         if n = name then let (a', r) = ca_configure lb text a in Some ((n, a') # rest, r)
         else None)"

definition apply_pending_score :: "'p stream_state \<Rightarrow> 'p stream_state" where
  "apply_pending_score s =
    (case ss_pending_score s of
       None \<Rightarrow> s
     | Some v \<Rightarrow> s\<lparr>ss_spec := (ss_spec s)\<lparr>ssp_score_threshold := v\<rparr>, ss_pending_score := None\<rparr>)"

definition apply_pending_cfg :: "libs \<Rightarrow> 'p stream_state \<Rightarrow> 'p stream_state outcome" where
  "apply_pending_cfg lb s =
    (case ss_pending_cfg s of
       None \<Rightarrow> Returned s
     | Some c \<Rightarrow>
         if pc_done c then Returned s
         else
           (case configure_last lb (pc_name c) (pc_json c) (ss_chain s) of
              None \<Rightarrow> Returned (s\<lparr>ss_pending_cfg := Some (c\<lparr>pc_done := True, pc_ok := False,
                pc_err := ''no analyzer '' @ pc_name c @ '' on stream '' @ dec_digits (unat (ss_index s))\<rparr>)\<rparr>)
            | Some (chain, Returned _) \<Rightarrow>
                Returned (s\<lparr>ss_chain := chain, ss_pending_cfg := Some (c\<lparr>pc_done := True, pc_ok := True\<rparr>)\<rparr>)
            | Some (chain, Refused e) \<Rightarrow>
                Returned (s\<lparr>ss_chain := chain, ss_pending_cfg := Some (c\<lparr>pc_done := True, pc_ok := False, pc_err := e\<rparr>)\<rparr>)
            | Some (chain, Thrown) \<Rightarrow> Thrown))"

definition apply_pending_controls :: "libs \<Rightarrow> 'p stream_state \<Rightarrow> 'p stream_state outcome" where
  "apply_pending_controls lb s = apply_pending_cfg lb (apply_pending_score s)"

section \<open>Raw tensors\<close>

definition dev_frame_of :: "'p stream_state \<Rightarrow> frame_buf \<Rightarrow> detection_result \<Rightarrow> dev_tensor list \<Rightarrow> dev_tensor_frame" where
  "dev_frame_of s f res tensors =
    (let g = dr_geom res in
     \<lparr>df_stream_index = ss_index s, df_seq = fb_seq f, df_wall_ms = fb_wall_ms f, df_src_w = fb_w f, df_src_h = fb_h f,
      df_model_w = lg_model_w g, df_model_h = lg_model_h g, df_scale = lg_scale g, df_pad_x = lg_pad_x g,
      df_pad_y = lg_pad_y g, df_align = align_code (lg_align g), df_tensors = tensors\<rparr>)"

text \<open>\<open>raw\<close> is \<open>None\<close> when the backend does not expose raw outputs or has none. The counter of
  oversized records belongs to the runtime.\<close>

definition maybe_send_dev_tensors :: "bool \<Rightarrow> f64 \<Rightarrow> dev_tensor list option \<Rightarrow> frame_buf \<Rightarrow> detection_result \<Rightarrow>
    'p stream_state \<Rightarrow> u64 \<Rightarrow> 'p stream_state \<times> u64 \<times> push list" where
  "maybe_send_dev_tensors dev_active now raw f res s oversize =
    (if \<not> dev_active then (s, oversize, [])
     else
       let (l, ok) = try_send now (ss_limiter s); s' = s\<lparr>ss_limiter := l\<rparr>
       in if \<not> ok then (s', oversize, [])
          else
            (case raw of
               None \<Rightarrow> (s', oversize, [])
             | Some ts \<Rightarrow>
                 (case wire_encode_vbt1 (dev_frame_of s f res ts) [] of
                    Inl _ \<Rightarrow> (s', oversize + 1, [])
                  | Inr rec \<Rightarrow> (s', oversize, [Push_Event rec]))))"

section \<open>Tracks of a frame\<close>

definition untracked_of :: "keypoint list \<Rightarrow> detection \<Rightarrow> track" where
  "untracked_of kpts d =
    \<lparr>trk_id = 0, trk_det = d\<lparr>d_track_id := 0\<rparr>, trk_kpts = assign_kpts kpts d, trk_vx = 0, trk_vy = 0,
     trk_hits = 1, trk_misses = 0, trk_first_seen_s = 0, trk_last_seen_s = 0\<rparr>"

definition track_frame :: "detection_result \<Rightarrow> f64 \<Rightarrow> 'p stream_state \<Rightarrow> 'p stream_state \<times> track list \<times> u32 list" where
  "track_frame res t s =
    (if ss_track_enabled s
     then case vt_update (dr_dets res) (dr_kpts res) t (ss_tracker s) of
            (v, _, removed) \<Rightarrow> (s\<lparr>ss_tracker := v\<rparr>, vt_alive v, removed)
     else (s, map (untracked_of (dr_kpts res)) (dr_dets res), []))"

section \<open>The analyzer chain\<close>

definition interleave_attrs :: "f32 list \<Rightarrow> nat \<Rightarrow> nat \<Rightarrow> nat \<Rightarrow> nat \<Rightarrow> f32 list \<Rightarrow> f32 list" where
  "interleave_attrs scratch n_tracks n_attr total_attrs attr_off out =
     fold (\<lambda>t out. let p = t * total_attrs + attr_off
         in take p out @ take n_attr (drop (t * n_attr) scratch) @ drop (p + n_attr) out)
       [0..<n_tracks] out"

definition event_json :: "libs \<Rightarrow> u32 \<Rightarrow> frame_meta \<Rightarrow> string \<Rightarrow> text_event \<Rightarrow> json" where
  "event_json lb index m an ev =
     json_obj [(''stream_index'', JInt (uint index)), (''seq'', JInt (uint (fm_seq m))), (''wall_ms'', JNum (fm_wall_ms m)),
       (''analyzer'', JStr an), (''type'', JStr (te_type ev)), (''track_id'', JInt (uint (te_track_id ev))),
       (''fields'', case lb_parse lb (te_fields ev) of Inl _ \<Rightarrow> JStr (te_fields ev) | Inr j \<Rightarrow> j)]"

definition emit_events :: "libs \<Rightarrow> u32 \<Rightarrow> frame_meta \<Rightarrow> string \<Rightarrow> text_event list \<Rightarrow> push list" where
  "emit_events lb index m an evs =
     map (\<lambda>ev. Push_Event (wire_encode_json_record ''VBE1'' (ascii (lb_dump lb (event_json lb index m an ev))) [])) evs"

definition total_attr_count :: "(string \<times> 'p chained) list \<Rightarrow> nat" where
  "total_attr_count chain = sum_list (map (ca_attr_count \<circ> snd) chain)"

fun chain_on_frame :: "libs \<Rightarrow> u32 \<Rightarrow> frame_meta \<Rightarrow> track list \<Rightarrow> nat \<Rightarrow> nat \<Rightarrow> (string \<times> 'p chained) list \<Rightarrow> f32 list \<Rightarrow>
    (string \<times> 'p chained) list \<times> f32 list \<times> push list" where
  "chain_on_frame lb index m alive width off [] attrs = ([], attrs, [])"
| "chain_on_frame lb index m alive width off ((n, a) # rest) attrs =
    (let k = ca_attr_count a; nt = length alive;
         (a', scratch, evs) = ca_on_frame lb m alive (replicate (nt * k) 0) a;
         attrs' = (if k = 0 then attrs else interleave_attrs scratch nt k width off attrs);
         out = emit_events lb index m (ca_name a) evs;
         (rest', attrs'', out') = chain_on_frame lb index m alive width (off + k) rest attrs'
     in ((n, a') # rest', attrs'', out @ out'))"

fun chain_on_removed :: "libs \<Rightarrow> u32 \<Rightarrow> frame_meta \<Rightarrow> f64 \<Rightarrow> u32 \<Rightarrow> (string \<times> 'p chained) list \<Rightarrow>
    (string \<times> 'p chained) list \<times> push list" where
  "chain_on_removed lb index m t i [] = ([], [])"
| "chain_on_removed lb index m t i ((n, a) # rest) =
    (let (a', evs) = ca_on_removed lb i t a; (rest', out') = chain_on_removed lb index m t i rest
     in ((n, a') # rest', emit_events lb index m (ca_name a) evs @ out'))"

section \<open>The frame record\<close>

definition vbr1_counts_ok :: "nat \<Rightarrow> nat \<Rightarrow> string + unit" where
  "vbr1_counts_ok kpt_per_det attr_per_det =
    (if kpt_per_det > 255 then Inl (''keypoint count '' @ dec_digits kpt_per_det @ '' exceeds the 255 cap of VBR1'')
     else if attr_per_det > 255 then Inl (''attribute count '' @ dec_digits attr_per_det @ '' exceeds the 255 cap of VBR1'')
     else Inr ())"

text \<open>The common keypoint count: \<open>None\<close> stands for \<open>size_t(-1)\<close>, mixed counts.\<close>

fun scan_kpts :: "track list \<Rightarrow> nat option \<Rightarrow> nat option" where
  "scan_kpts [] k = k"
| "scan_kpts (t # ts) k =
    (if trk_kpts t = [] then scan_kpts ts k
     else if k = Some 0 then scan_kpts ts (Some (length (trk_kpts t)))
     else if k \<noteq> Some (length (trk_kpts t)) then scan_kpts ts None
     else scan_kpts ts k)"

definition common_kpts :: "track list \<Rightarrow> nat" where
  "common_kpts ts = (case scan_kpts ts (Some 0) of None \<Rightarrow> 0 | Some k \<Rightarrow> k)"

definition wire_det_of :: "track \<Rightarrow> wire_det" where
  "wire_det_of t =
    (let d = trk_det t in
     \<lparr>wd_cx = f32_bits (d_cx d), wd_cy = f32_bits (d_cy d), wd_w = f32_bits (d_w d), wd_h = f32_bits (d_h d),
      wd_score = f32_bits (d_score d), wd_class_id = word_of_int (d_class_id d), wd_track_id = trk_id t\<rparr>)"

definition kpt_words :: "nat \<Rightarrow> track \<Rightarrow> u32 list" where
  "kpt_words n t =
    (if n > 0 \<and> length (trk_kpts t) = n
     then concat (map (\<lambda>k. [f32_bits (kp_x k), f32_bits (kp_y k), f32_bits (kp_conf k)]) (trk_kpts t)) else [])"

definition frame_record :: "u32 \<Rightarrow> f64 \<Rightarrow> frame_buf \<Rightarrow> detection_result \<Rightarrow> track list \<Rightarrow> f32 list \<Rightarrow> nat \<Rightarrow> wire_frame_rec" where
  "frame_record index now f res alive attrs attr_total =
    (let g = dr_geom res; n = common_kpts alive in
     \<lparr>wf_stream_index = index, wf_seq = fb_seq f, wf_wall_ms = f64_bits (fb_wall_ms f),
      wf_src_w = word_of_int (fb_w f), wf_src_h = word_of_int (fb_h f), wf_model_w = word_of_int (lg_model_w g),
      wf_model_h = word_of_int (lg_model_h g), wf_scale = f32_bits (lg_scale g), wf_pad_x = f32_bits (lg_pad_x g),
      wf_pad_y = f32_bits (lg_pad_y g), wf_align = align_code (lg_align g), wf_kpt_per_det = of_nat n,
      wf_inference_ms = f32_bits (dr_preprocess_ms res + dr_inference_ms res + dr_postprocess_ms res),
      wf_queue_delay_ms = f32_bits (fconv ((now - fb_t_mono_s f) * lit 1000)), wf_attr_per_det = of_nat attr_total,
      wf_dets = map wire_det_of alive, wf_kpts = concat (map (kpt_words n) alive), wf_attrs = map f32_bits attrs\<rparr>)"

definition encode_frame_record :: "u32 \<Rightarrow> f64 \<Rightarrow> frame_buf \<Rightarrow> detection_result \<Rightarrow> track list \<Rightarrow> f32 list \<Rightarrow> nat \<Rightarrow>
    string + push list" where
  "encode_frame_record index now f res alive attrs attr_total =
    (case vbr1_counts_ok (common_kpts alive) attr_total of
       Inl e \<Rightarrow> Inl e
     | Inr _ \<Rightarrow>
         let r = frame_record index now f res alive attrs attr_total
         in case wire_encode_vbr1 r [] of Inl e \<Rightarrow> Inl e | Inr rec \<Rightarrow> Inr [Push_Frame rec, Frame_Hook r])"

section \<open>The snapshot ring\<close>

definition snap_box_of :: "letterbox_geom \<Rightarrow> frame_buf \<Rightarrow> track \<Rightarrow> snap_box" where
  "snap_box_of g f t =
    (case box_to_source_norm g (d_cx (trk_det t)) (d_cy (trk_det t)) (d_w (trk_det t)) (d_h (trk_det t)) of
       (scx, scy, sw, sh) \<Rightarrow>
         \<lparr>sb_track_id = trk_id t, sb_x0 = (scx - sw / lit 2) * fl_of_int (fb_w f), sb_y0 = (scy - sh / lit 2) * fl_of_int (fb_h f),
          sb_x1 = (scx + sw / lit 2) * fl_of_int (fb_w f), sb_y1 = (scy + sh / lit 2) * fl_of_int (fb_h f)\<rparr>)"

definition push_ring :: "frame_buf \<Rightarrow> letterbox_geom \<Rightarrow> track list \<Rightarrow> 'p stream_state \<Rightarrow> 'p stream_state" where
  "push_ring f g alive s =
    (case fb_host f of
       Some host \<Rightarrow>
         if ss_ring_cap s > 0 \<and> fb_fmt f = RGB888 then
           let e = \<lparr>re_seq = fb_seq f, re_w = fb_w f, re_h = fb_h f,
                    re_pixels = take (nat (fb_h f * fb_stride f)) host, re_boxes = map (snap_box_of g f) alive\<rparr>;
               ring = ss_ring s @ [e]
           in s\<lparr>ss_ring := drop (length ring - nat (ss_ring_cap s)) ring\<rparr>
         else s
     | None \<Rightarrow> s)"

section \<open>One frame\<close>

record clock =
  ck_infer_s :: f64
  ck_dev_s :: f64
  ck_encode_s :: f64

definition finish_frame :: "clock \<Rightarrow> frame_buf \<Rightarrow> detection_result \<Rightarrow> 'p stream_state \<Rightarrow> 'p stream_state" where
  "finish_frame ck f res s =
    (let inference_ms = dr_preprocess_ms res + dr_inference_ms res + dr_postprocess_ms res;
         queue_delay_ms = fconv ((ck_infer_s ck - fb_t_mono_s f) * lit 1000);
         sm = record_frame inference_ms queue_delay_ms (fb_wall_ms f) (ss_metrics s);
         dropped = lf_dropped (ss_latest s)
     in if dropped > ss_drop_baseline s
        then s\<lparr>ss_metrics := add_dropped (dropped - ss_drop_baseline s) sm, ss_drop_baseline := dropped\<rparr>
        else s\<lparr>ss_metrics := sm\<rparr>)"

definition frame_meta_of :: "'p stream_state \<Rightarrow> frame_buf \<Rightarrow> detection_result \<Rightarrow> frame_meta" where
  "frame_meta_of s f res = \<lparr>fm_stream_index = ss_index s, fm_seq = fb_seq f, fm_wall_ms = fb_wall_ms f,
     fm_t_mono_s = fb_t_mono_s f, fm_geom = dr_geom res\<rparr>"

text \<open>After the inference: tracker, chain, frame record, snapshot ring. The inference itself is a function
  of the frame, the score threshold and the suppression threshold.\<close>

definition analyze_frame :: "libs \<Rightarrow> clock \<Rightarrow> frame_buf \<Rightarrow> detection_result \<Rightarrow> 'p stream_state \<Rightarrow> 'p stream_state \<times> push list" where
  "analyze_frame lb ck f res s =
    (let (s1, alive, removed) = track_frame res (fb_t_mono_s f) s;
         m = frame_meta_of s f res; width = total_attr_count (ss_chain s1);
         (chain1, attrs, out1) = chain_on_frame lb (ss_index s) m alive width 0 (ss_chain s1) (replicate (length alive * width) 0);
         (chain2, out2) = steps (chain_on_removed lb (ss_index s) m (fb_t_mono_s f)) removed chain1;
         s2 = s1\<lparr>ss_chain := chain2\<rparr>;
         (s3, out3) = (case encode_frame_record (ss_index s) (ck_encode_s ck) f res alive attrs width of
            Inl e \<Rightarrow> (s2\<lparr>ss_metrics := record_state ''error'' e (ss_metrics s2)\<rparr>, [])
          | Inr out \<Rightarrow> (s2, out))
     in (push_ring f (dr_geom res) alive s3, out1 @ out2 @ out3))"

definition process :: "libs \<Rightarrow> bool \<Rightarrow> clock \<Rightarrow>
    (frame_buf \<Rightarrow> f32 \<Rightarrow> f32 \<Rightarrow> string + detection_result \<times> dev_tensor list option) \<Rightarrow> frame_buf \<Rightarrow>
    'p stream_state \<Rightarrow> u64 \<Rightarrow> ('p stream_state \<times> u64 \<times> push list) outcome" where
  "process lb dev_active ck infer f s oversize =
     and_then (apply_pending_controls lb s) (\<lambda>s0.
       case infer f (ssp_score_threshold (ss_spec s0)) (lit (45/100)) of
         Inl e \<Rightarrow> Returned (s0\<lparr>ss_metrics := record_state ''error'' e (ss_metrics s0)\<rparr>, oversize, [])
       | Inr (res, raw) \<Rightarrow>
           let (s1, oversize', dev) = maybe_send_dev_tensors dev_active (ck_dev_s ck) raw f res s0 oversize;
               (s2, out) = analyze_frame lb ck f res s1
           in Returned (finish_frame ck f res s2, oversize', dev @ out))"

end
