(* ===== verification/Pool_Facts.thy ===== *)
theory Pool_Facts
  imports Pool Vb_Tracker_Facts
begin

text \<open>
  What one frame guarantees: the frame record carries every live track or is refused for a count,
  the attribute block is the row of every track, and the analyzers forget the tracks the tracker removes.
\<close>

section \<open>Keypoint counts\<close>

lemma scan_kpts_None: "scan_kpts ts None = None"
  by (induction ts) auto

lemma scan_kpts_Suc:
  "scan_kpts ts (Some (Suc k)) =
    (if list_all (\<lambda>t. trk_kpts t = [] \<or> length (trk_kpts t) = Suc k) ts then Some (Suc k) else None)"
  by (induction ts) (auto simp: scan_kpts_None)

lemma scan_kpts_0: "scan_kpts ts (Some 0) = Some (Suc k) \<Longrightarrow> list_all (\<lambda>t. trk_kpts t = [] \<or> length (trk_kpts t) = Suc k) ts"
proof (induction ts)
  case (Cons t ts)
  then show ?case
    by (cases "trk_kpts t") (auto simp: scan_kpts_Suc split: if_splits)
qed simp

lemma common_kpts_pos:
  "0 < common_kpts ts \<Longrightarrow> list_all (\<lambda>t. trk_kpts t = [] \<or> length (trk_kpts t) = common_kpts ts) ts"
  using scan_kpts_0 [of ts "common_kpts ts - 1"] by (auto simp: common_kpts_def split: option.splits)

text \<open>The common keypoint count is positive exactly when some track has keypoints and all that have any have equally many.\<close>

lemma scan_kpts_0_iff:
  "scan_kpts ts (Some 0) = Some (Suc k) \<longleftrightarrow>
     (\<exists>t \<in> set ts. trk_kpts t \<noteq> []) \<and> (\<forall>t \<in> set ts. trk_kpts t = [] \<or> length (trk_kpts t) = Suc k)"
proof (induction ts)
  case (Cons t ts)
  show ?case
  proof (cases "trk_kpts t")
    case (Cons x xs)
    then show ?thesis by (auto simp: scan_kpts_Suc list_all_iff)
  qed (use Cons in simp)
qed simp

lemma common_kpts_iff:
  "0 < k \<Longrightarrow> common_kpts ts = k \<longleftrightarrow>
     (\<exists>t \<in> set ts. trk_kpts t \<noteq> []) \<and> (\<forall>t \<in> set ts. trk_kpts t = [] \<or> length (trk_kpts t) = k)"
  using scan_kpts_0_iff [of ts "k - 1"] by (auto simp: common_kpts_def split: option.split)

lemma length_kpt_words: "length (kpt_words n t) = (if length (trk_kpts t) = n then 3 * n else 0)"
  by (auto simp: kpt_words_def length_concat comp_def sum_list_triv)

lemma sum_list_eq_bound:
  "(\<And>x. x \<in> set xs \<Longrightarrow> f x \<le> (k :: nat)) \<Longrightarrow> sum_list (map f xs) \<le> length xs * k \<and>
     (sum_list (map f xs) = length xs * k \<longleftrightarrow> (\<forall>x \<in> set xs. f x = k))"
proof (induction xs)
  case (Cons x xs)
  then have "f x \<le> k" "sum_list (map f xs) \<le> length xs * k"
    "sum_list (map f xs) = length xs * k \<longleftrightarrow> (\<forall>x \<in> set xs. f x = k)" by simp_all
  then show ?case by auto
qed simp

lemma kpts_total:
  assumes "k = common_kpts ts"
  shows "length (concat (map (kpt_words k) ts)) = length ts * k * 3 \<longleftrightarrow> k = 0 \<or> list_all (\<lambda>t. trk_kpts t \<noteq> []) ts"
proof (cases "k = 0")
  case True
  then have "kpt_words k t = []" for t by (simp add: kpt_words_def)
  with True show ?thesis by simp
next
  case False
  with common_kpts_pos [of ts] assms have c: "t \<in> set ts \<Longrightarrow> trk_kpts t = [] \<or> length (trk_kpts t) = k" for t
    by (auto simp: list_all_iff)
  have "length (kpt_words k t) = 3 * k \<longleftrightarrow> trk_kpts t \<noteq> []" if "t \<in> set ts" for t
    using c [OF that] False by (auto simp: length_kpt_words)
  moreover have "sum_list (map (\<lambda>t. length (kpt_words k t)) ts) = length ts * (3 * k) \<longleftrightarrow>
      (\<forall>t \<in> set ts. length (kpt_words k t) = 3 * k)"
    using sum_list_eq_bound [of ts "\<lambda>t. length (kpt_words k t)" "3 * k"] by (simp add: length_kpt_words)
  ultimately show ?thesis using False by (auto simp: length_concat comp_def list_all_iff mult.commute mult.left_commute)
qed

section \<open>The attribute block\<close>

definition put_row :: "f32 list \<Rightarrow> nat \<Rightarrow> nat \<Rightarrow> nat \<Rightarrow> nat \<Rightarrow> f32 list \<Rightarrow> f32 list" where
  "put_row scratch k width off t out =
     (let p = t * width + off in take p out @ take k (drop (t * k) scratch) @ drop (p + k) out)"

lemma interleave_fold: "interleave_attrs scratch nt k width off out = fold (put_row scratch k width off) [0..<nt] out"
  unfolding interleave_attrs_def put_row_def [abs_def] Let_def ..

lemma put_row:
  assumes "length out = nt * width" "length scratch = nt * k" "off + k \<le> width" "t < nt"
  shows "length (put_row scratch k width off t out) = nt * width"
    "u < nt \<Longrightarrow> j < width \<Longrightarrow> put_row scratch k width off t out ! (u * width + j) =
      (if u = t \<and> off \<le> j \<and> j < off + k then scratch ! (t * k + (j - off)) else out ! (u * width + j))"
proof -
  have tw: "(t + 1) * width \<le> nt * width" "(t + 1) * k \<le> nt * k"
    using mult_le_mono1 [of "t + 1" nt width] mult_le_mono1 [of "t + 1" nt k] assms(4) by simp_all
  have p: "t * width + off + k \<le> length out" "t * k + k \<le> length scratch" using assms(1-3) tw by simp_all
  then show "length (put_row scratch k width off t out) = nt * width"
    using assms(1) by (simp add: put_row_def Let_def)
  assume u: "u < nt" "j < width"
  have out: "u * width + j < length out"
  proof -
    have "u * width + j < (u + 1) * width" using u(2) by simp
    also have "\<dots> \<le> nt * width" using u(1) by (intro mult_le_mono1) simp
    finally show ?thesis using assms(1) by simp
  qed
  consider "u < t" | "u = t" | "t < u" by linarith
  then show "put_row scratch k width off t out ! (u * width + j) =
      (if u = t \<and> off \<le> j \<and> j < off + k then scratch ! (t * k + (j - off)) else out ! (u * width + j))"
  proof cases
    case 1
    then have "(u + 1) * width \<le> t * width" by (intro mult_le_mono1) simp
    then have "u * width + j < t * width + off" using u(2) by simp
    with 1 p show ?thesis by (simp add: put_row_def Let_def nth_append)
  next
    case 2
    with p show ?thesis by (auto simp: put_row_def Let_def nth_append not_less add.commute)
  next
    case 3
    then have "(t + 1) * width \<le> u * width" by (intro mult_le_mono1) simp
    then have "t * width + off + k \<le> u * width + j" using assms(3) by simp
    moreover from this have "\<not> u * width + j - (t * width + off) < k" by linarith
    ultimately show ?thesis using 3 p out by (simp add: put_row_def Let_def nth_append)
  qed
qed

lemma interleave_nth:
  assumes "length out = nt * width" "length scratch = nt * k" "off + k \<le> width"
  shows "length (interleave_attrs scratch nt k width off out) = nt * width"
    "u < nt \<Longrightarrow> j < width \<Longrightarrow> interleave_attrs scratch nt k width off out ! (u * width + j) =
      (if off \<le> j \<and> j < off + k then scratch ! (u * k + (j - off)) else out ! (u * width + j))"
proof -
  have "length (fold (put_row scratch k width off) [0..<n] out) = nt * width \<and>
      (\<forall>u < nt. \<forall>j < width. fold (put_row scratch k width off) [0..<n] out ! (u * width + j) =
        (if u < n \<and> off \<le> j \<and> j < off + k then scratch ! (u * k + (j - off)) else out ! (u * width + j)))" if "n \<le> nt" for n
    using that
  proof (induction n)
    case 0
    with assms show ?case by simp
  next
    case (Suc n)
    then have ih: "length (fold (put_row scratch k width off) [0..<n] out) = nt * width"
      "u < nt \<Longrightarrow> j < width \<Longrightarrow> fold (put_row scratch k width off) [0..<n] out ! (u * width + j) =
        (if u < n \<and> off \<le> j \<and> j < off + k then scratch ! (u * k + (j - off)) else out ! (u * width + j))" for u j
      by simp_all
    have n: "n < nt" using Suc.prems by simp
    show ?case using put_row [OF ih(1) assms(2,3) n] ih(2) n by (auto simp: less_Suc_eq)
  qed
  from this [of nt] show "length (interleave_attrs scratch nt k width off out) = nt * width"
    "u < nt \<Longrightarrow> j < width \<Longrightarrow> interleave_attrs scratch nt k width off out ! (u * width + j) =
      (if off \<le> j \<and> j < off + k then scratch ! (u * k + (j - off)) else out ! (u * width + j))"
    by (simp_all add: interleave_fold)
qed

text \<open>The reference: for every track, the analyzers' values for it in chain order.\<close>

definition chain_blocks :: "libs \<Rightarrow> frame_meta \<Rightarrow> track list \<Rightarrow> (string \<times> 'p chained) list \<Rightarrow> (nat \<times> f32 list) list" where
  "chain_blocks lb m alive chain =
     map (\<lambda>(n, a). let k = ca_attr_count a in (k, fst (snd (ca_on_frame lb m alive (replicate (length alive * k) 0) a)))) chain"

definition attr_row :: "nat \<Rightarrow> (nat \<times> f32 list) list \<Rightarrow> f32 list" where
  "attr_row t blocks = concat (map (\<lambda>(k, scratch). take k (drop (t * k) scratch)) blocks)"

definition blocks_ok :: "nat \<Rightarrow> (nat \<times> f32 list) list \<Rightarrow> bool" where
  "blocks_ok nt blocks \<longleftrightarrow> list_all (\<lambda>(k, scratch). length scratch = nt * k) blocks"

lemma length_attr_row: "blocks_ok nt blocks \<Longrightarrow> t < nt \<Longrightarrow> length (attr_row t blocks) = sum_list (map fst blocks)"
proof (induction blocks)
  case (Cons b blocks)
  obtain k scratch where b: "b = (k, scratch)" by fastforce
  have "(t + 1) * k \<le> nt * k" using Cons.prems(2) by (intro mult_le_mono1) simp
  with Cons b show ?case by (simp add: attr_row_def blocks_ok_def)
qed (simp add: attr_row_def)

lemma chain_attrs:
  assumes "blocks_ok (length alive) (chain_blocks lb m alive chain)" "length attrs = length alive * width"
    "off + total_attr_count chain \<le> width"
  shows "length (fst (snd (chain_on_frame lb i m alive width off chain attrs))) = length alive * width \<and>
    (\<forall>u < length alive. \<forall>j < width. fst (snd (chain_on_frame lb i m alive width off chain attrs)) ! (u * width + j) =
      (if off \<le> j \<and> j < off + total_attr_count chain then attr_row u (chain_blocks lb m alive chain) ! (j - off)
       else attrs ! (u * width + j)))"
  using assms
proof (induction chain arbitrary: off attrs)
  case (Cons c chain)
  obtain n a where c: "c = (n, a)" by fastforce
  define k where "k = ca_attr_count a"
  define r where "r = ca_on_frame lb m alive (replicate (length alive * k) 0) a"
  define attrs' where "attrs' = (if k = 0 then attrs else interleave_attrs (fst (snd r)) (length alive) k width off attrs)"
  have blocks: "chain_blocks lb m alive (c # chain) = (k, fst (snd r)) # chain_blocks lb m alive chain"
    by (simp add: chain_blocks_def c k_def r_def Let_def)
  have lr: "length (fst (snd r)) = length alive * k" and ok: "blocks_ok (length alive) (chain_blocks lb m alive chain)"
    using Cons.prems(1) unfolding blocks by (simp_all add: blocks_ok_def)
  have tot: "total_attr_count (c # chain) = k + total_attr_count chain" by (simp add: total_attr_count_def c k_def)
  have w: "off + k \<le> width" "off + k + total_attr_count chain \<le> width" using Cons.prems(3) tot by simp_all
  have l': "length attrs' = length alive * width" and
    n': "u < length alive \<Longrightarrow> j < width \<Longrightarrow> attrs' ! (u * width + j) =
      (if off \<le> j \<and> j < off + k then fst (snd r) ! (u * k + (j - off)) else attrs ! (u * width + j))" for u j
    using interleave_nth [OF Cons.prems(2) lr w(1)] Cons.prems(2) by (auto simp: attrs'_def)
  have s: "fst (snd (chain_on_frame lb i m alive width off (c # chain) attrs)) =
      fst (snd (chain_on_frame lb i m alive width (off + k) chain attrs'))"
    by (simp add: c Let_def case_prod_beta k_def r_def attrs'_def)
  have row: "attr_row u (chain_blocks lb m alive (c # chain)) ! j =
      (if j < k then fst (snd r) ! (u * k + j) else attr_row u (chain_blocks lb m alive chain) ! (j - k))"
    if "u < length alive" for u j
  proof -
    have "(u + 1) * k \<le> length alive * k" using that by (intro mult_le_mono1) simp
    then have "length (take k (drop (u * k) (fst (snd r)))) = k" using lr by simp
    moreover have "u * k \<le> length (fst (snd r))" using that by (simp add: lr)
    ultimately show ?thesis unfolding blocks by (simp add: attr_row_def nth_append)
  qed
  note ih = Cons.IH [OF ok l' w(2)]
  show ?case unfolding s
  proof (intro conjI allI impI)
    show "length (fst (snd (chain_on_frame lb i m alive width (off + k) chain attrs'))) = length alive * width" using ih ..
    fix u j assume u: "u < length alive" "j < width"
    consider "j < off" | "off \<le> j" "j < off + k" | "off + k \<le> j" by linarith
    then show "fst (snd (chain_on_frame lb i m alive width (off + k) chain attrs')) ! (u * width + j) =
      (if off \<le> j \<and> j < off + total_attr_count (c # chain) then attr_row u (chain_blocks lb m alive (c # chain)) ! (j - off)
       else attrs ! (u * width + j))"
      using ih u n' [OF u] row [OF u(1), of "j - off"] tot by cases auto
  qed
qed (auto simp: total_attr_count_def)

lemma concat_rows_nth:
  assumes "\<And>t. t < n \<Longrightarrow> length (f t) = w" "t < n" "j < w"
  shows "concat (map f [0..<n]) ! (t * w + j) = f t ! j"
  using assms
proof (induction n)
  case (Suc n)
  have len: "length (concat (map f [0..<k])) = k * w" if "k \<le> n" for k
    using that Suc.prems(1) by (induction k) simp_all
  show ?case
  proof (cases "t = n")
    case True
    with len [of n] Suc.prems show ?thesis by (simp add: nth_append)
  next
    case False
    then have "(t + 1) * w \<le> n * w" using Suc.prems(2) by (intro mult_le_mono1) simp
    then have "t * w + j < n * w" using Suc.prems(3) by simp
    with False Suc len [of n] show ?thesis by (simp add: nth_append)
  qed
qed simp

lemma length_concat_rows: "(\<And>t. t < n \<Longrightarrow> length (f t) = w) \<Longrightarrow> length (concat (map f [0..<n])) = n * w"
  by (induction n) simp_all

section \<open>Tracks the analyzers remember\<close>

definition leak_free :: "'p stream_state \<Rightarrow> bool" where
  "leak_free s \<longleftrightarrow> list_all (\<lambda>(n, a). ca_ok a \<and> ca_ids a \<subseteq> trk_id ` set (vt_tracks (ss_tracker s))) (ss_chain s)"

lemma chain_on_frame_ids:
  "list_all (\<lambda>(n, a). ca_ok a \<and> ca_ids a \<subseteq> I) chain \<Longrightarrow>
     list_all (\<lambda>(n, a). ca_ok a \<and> ca_ids a \<subseteq> I \<union> trk_id ` set alive) (fst (chain_on_frame lb i m alive width off chain attrs))"
proof (induction chain arbitrary: off attrs)
  case (Cons c chain)
  obtain n a where c: "c = (n, a)" by fastforce
  have "ca_ids (fst (ca_on_frame lb m alive buf a)) \<subseteq> I \<union> trk_id ` set alive" "ca_ok (fst (ca_on_frame lb m alive buf a))" for buf
    using ca_on_frame_ids [of a lb m alive buf] ca_on_frame_ok [of a lb m alive buf] Cons.prems c by auto
  with Cons c show ?case by (simp add: case_prod_beta Let_def)
qed simp

lemma chain_on_removed_ids:
  "list_all (\<lambda>(n, a). ca_ok a \<and> ca_ids a \<subseteq> I) chain \<Longrightarrow>
     list_all (\<lambda>(n, a). ca_ok a \<and> ca_ids a \<subseteq> I - {i}) (fst (chain_on_removed lb x m t i chain))"
proof (induction chain)
  case (Cons c chain)
  obtain n a where c: "c = (n, a)" by fastforce
  have "ca_ids (fst (ca_on_removed lb i t a)) \<subseteq> I - {i}" "ca_ok (fst (ca_on_removed lb i t a))"
    using ca_on_removed_ids [of a lb i t] ca_on_removed_ok [of a lb i t] Cons.prems c by auto
  with Cons c show ?case by (simp add: case_prod_beta Let_def)
qed simp

lemma removals_ids:
  "list_all (\<lambda>(n, a). ca_ok a \<and> ca_ids a \<subseteq> I) chain \<Longrightarrow>
     list_all (\<lambda>(n, a). ca_ok a \<and> ca_ids a \<subseteq> I - set rm) (fst (steps (chain_on_removed lb x m t) rm chain))"
proof (induction rm arbitrary: chain I)
  case (Cons i rm)
  have s: "fst (steps (chain_on_removed lb x m t) (i # rm) chain) =
      fst (steps (chain_on_removed lb x m t) rm (fst (chain_on_removed lb x m t i chain)))"
    by (simp add: case_prod_beta Let_def)
  have e: "I - set (i # rm) = I - {i} - set rm" by auto
  show ?case unfolding s e by (rule Cons.IH [OF chain_on_removed_ids [OF Cons.prems]])
qed simp

lemma update_covers:
  assumes "vt_update dets kpts t v = (v', dets', removed)"
  shows "trk_id ` set (vt_tracks v) \<subseteq> trk_id ` set (vt_tracks v') \<union> set removed" "set (vt_alive v') \<subseteq> set (vt_tracks v')"
proof -
  obtain ms used where m: "tk_match (vt_cfg v) t (vt_tracks v) dets = (ms, used)" by fastforce
  note o = update_outcome(1,2) [OF m assms]
  show "trk_id ` set (vt_tracks v) \<subseteq> trk_id ` set (vt_tracks v') \<union> set removed"
  proof
    fix i assume "i \<in> trk_id ` set (vt_tracks v)"
    then obtain k where k: "k < length (vt_tracks v)" "i = trk_id (vt_tracks v ! k)" by (auto simp: in_set_conv_nth)
    then show "i \<in> trk_id ` set (vt_tracks v') \<union> set removed" unfolding o
      by (cases "gone v t ms k") (auto simp: image_image image_Un)
  qed
  show "set (vt_alive v') \<subseteq> set (vt_tracks v')"
    using assms by (auto simp: vt_update_def Let_def split: prod.splits)
qed

text \<open>Pending configurations start an analyzer afresh; what \<open>process\<close> does around the tracked part leaves chain and
  tracker alone.\<close>

lemma configure_last_ids:
  "list_all (\<lambda>(n, a). ca_ok a \<and> ca_ids a \<subseteq> I) chain \<Longrightarrow> configure_last lb name text chain = Some (chain', r) \<Longrightarrow>
     list_all (\<lambda>(n, a). ca_ok a \<and> ca_ids a \<subseteq> I) chain'"
proof (induction chain arbitrary: chain')
  case (Cons c chain)
  obtain n a where c: "c = (n, a)" by fastforce
  have "ca_ok (fst (ca_configure lb text a)) \<and> ca_ids (fst (ca_configure lb text a)) \<subseteq> I"
    using ca_configured [of lb "text" a] ca_configure_failed [of lb "text" a] Cons.prems(1) c by (cases "snd (ca_configure lb text a) = Returned ()") auto
  with Cons c show ?case by (auto simp: case_prod_beta split: option.splits if_splits)
qed simp

lemma apply_pending_cfg_cases:
  assumes "apply_pending_cfg lb s = Returned s'"
  shows "ss_tracker s' = ss_tracker s \<and> ss_track_enabled s' = ss_track_enabled s \<and>
    (ss_chain s' = ss_chain s \<or> (\<exists>name cfg r. configure_last lb name cfg (ss_chain s) = Some (ss_chain s', r)))"
proof (cases "ss_pending_cfg s")
  case None
  with assms show ?thesis by (simp add: apply_pending_cfg_def)
next
  case (Some c)
  show ?thesis
  proof (cases "configure_last lb (pc_name c) (pc_json c) (ss_chain s)")
    case None
    with assms Some show ?thesis by (auto simp: apply_pending_cfg_def split: if_splits)
  next
    case (Some cr)
    obtain chain r where cr: "cr = (chain, r)" by fastforce
    with assms Some \<open>ss_pending_cfg s = Some c\<close> show ?thesis
      by (cases r) (auto simp: apply_pending_cfg_def split: if_splits)
  qed
qed

lemma controls_leak_free:
  assumes "apply_pending_controls lb s = Returned s'"
  shows "ss_track_enabled s' = ss_track_enabled s" "leak_free s \<Longrightarrow> leak_free s'"
proof -
  have p: "ss_chain (apply_pending_score s) = ss_chain s" "ss_tracker (apply_pending_score s) = ss_tracker s"
    "ss_track_enabled (apply_pending_score s) = ss_track_enabled s"
    by (simp_all add: apply_pending_score_def split: option.split)
  note c = apply_pending_cfg_cases [OF assms [unfolded apply_pending_controls_def]]
  show "ss_track_enabled s' = ss_track_enabled s" using c p by simp
  assume "leak_free s"
  then have l: "list_all (\<lambda>(n, a). ca_ok a \<and> ca_ids a \<subseteq> trk_id ` set (vt_tracks (ss_tracker s))) (ss_chain s)"
    by (simp add: leak_free_def)
  have "list_all (\<lambda>(n, a). ca_ok a \<and> ca_ids a \<subseteq> trk_id ` set (vt_tracks (ss_tracker s))) (ss_chain s')"
  proof (cases "ss_chain s' = ss_chain s")
    case False
    then obtain name cfg r where "configure_last lb name cfg (ss_chain s) = Some (ss_chain s', r)" using c p by auto
    from configure_last_ids [OF l this] show ?thesis .
  qed (simp add: l)
  then show "leak_free s'" using c p by (simp add: leak_free_def)
qed

lemma push_ring_simps [simp]: "ss_chain (push_ring f g ts s) = ss_chain s" "ss_tracker (push_ring f g ts s) = ss_tracker s"
  "ss_track_enabled (push_ring f g ts s) = ss_track_enabled s"
  by (simp_all add: push_ring_def Let_def split: option.split)

lemma finish_frame_simps [simp]: "ss_chain (finish_frame ck f res s) = ss_chain s"
  "ss_tracker (finish_frame ck f res s) = ss_tracker s" "ss_track_enabled (finish_frame ck f res s) = ss_track_enabled s"
  by (simp_all add: finish_frame_def Let_def)

lemma dev_tensors_simps:
  "maybe_send_dev_tensors dev now raw f res s n = (s', n', out) \<Longrightarrow>
     ss_chain s' = ss_chain s \<and> ss_tracker s' = ss_tracker s \<and> ss_track_enabled s' = ss_track_enabled s"
  by (auto simp: maybe_send_dev_tensors_def Let_def split: if_splits prod.splits option.splits sum.splits)

lemma analyze_frame_leak_free:
  assumes "ss_track_enabled s" "leak_free s"
  shows "leak_free (fst (analyze_frame lb ck f res s)) \<and> ss_track_enabled (fst (analyze_frame lb ck f res s))"
proof -
  obtain v dets removed where u: "vt_update (dr_dets res) (dr_kpts res) (fb_t_mono_s f) (ss_tracker s) = (v, dets, removed)"
    by (metis prod_cases3)
  define I where "I = trk_id ` set (vt_tracks (ss_tracker s))"
  define J where "J = trk_id ` set (vt_tracks v)"
  define m where "m = frame_meta_of s f res"
  define width where "width = total_attr_count (ss_chain s)"
  obtain chain1 attrs out1 where c1: "chain_on_frame lb (ss_index s) m (vt_alive v) width 0 (ss_chain s)
      (replicate (length (vt_alive v) * width) 0) = (chain1, attrs, out1)" by (metis prod_cases3)
  obtain chain2 out2 where c2: "steps (chain_on_removed lb (ss_index s) m (fb_t_mono_s f)) removed chain1 = (chain2, out2)"
    by fastforce
  have "list_all (\<lambda>(n, a). ca_ok a \<and> ca_ids a \<subseteq> I) (ss_chain s)" using assms(2) by (simp add: leak_free_def I_def)
  from chain_on_frame_ids [OF this, where lb = lb and i = "ss_index s" and m = m and alive = "vt_alive v" and width = width
      and off = 0 and attrs = "replicate (length (vt_alive v) * width) 0"]
  have "list_all (\<lambda>(n, a). ca_ok a \<and> ca_ids a \<subseteq> I \<union> trk_id ` set (vt_alive v)) chain1" by (simp add: c1)
  from removals_ids [OF this, where lb = lb and x = "ss_index s" and m = m and t = "fb_t_mono_s f" and rm = removed]
  have "list_all (\<lambda>(n, a). ca_ok a \<and> ca_ids a \<subseteq> I \<union> trk_id ` set (vt_alive v) - set removed) chain2" by (simp add: c2)
  moreover have "I \<union> trk_id ` set (vt_alive v) - set removed \<subseteq> J"
    using update_covers [OF u] by (auto simp: I_def J_def)
  ultimately have "list_all (\<lambda>(n, a). ca_ok a \<and> ca_ids a \<subseteq> J) chain2" by (fastforce simp: list_all_iff)
  then show ?thesis using assms(1)
    by (simp add: analyze_frame_def track_frame_def u leak_free_def J_def Let_def c1 [unfolded m_def width_def]
        c2 [unfolded m_def] split: sum.split)
qed

lemma process_leak_free:
  assumes "process lb dev ck infer f s n = Returned (s', n', out)" "ss_track_enabled s" "leak_free s"
  shows "ss_track_enabled s' \<and> leak_free s'"
proof -
  obtain s0 where s0: "apply_pending_controls lb s = Returned s0" using assms(1)
    by (auto simp: process_def and_then_Returned)
  with controls_leak_free [OF s0] assms(2,3) have i: "ss_track_enabled s0" "leak_free s0" by simp_all
  show ?thesis
  proof (cases "infer f (ssp_score_threshold (ss_spec s0)) (lit (45/100))")
    case (Inl e)
    with assms(1) s0 i show ?thesis by (auto simp: process_def leak_free_def)
  next
    case (Inr r)
    obtain res raw where r: "r = (res, raw)" by fastforce
    obtain s1 n1 dv where d: "maybe_send_dev_tensors dev (ck_dev_s ck) raw f res s0 n = (s1, n1, dv)" by (metis prod_cases3)
    have "ss_track_enabled s1" "leak_free s1" using dev_tensors_simps [OF d] i by (simp_all add: leak_free_def)
    from analyze_frame_leak_free [OF this, of lb ck f res] assms(1) s0 Inr r d show ?thesis
      by (auto simp: process_def leak_free_def split: prod.splits)
  qed
qed

text \<open>A stream over time: what the control thread leaves for it, and its frames.\<close>

datatype stream_input = Ask_Score f32 | Ask_Config string string | Take_Frame clock frame_buf

fun stream_run :: "libs \<Rightarrow> bool \<Rightarrow> (frame_buf \<Rightarrow> f32 \<Rightarrow> f32 \<Rightarrow> string + detection_result \<times> dev_tensor list option) \<Rightarrow>
    stream_input list \<Rightarrow> 'p stream_state \<Rightarrow> u64 \<Rightarrow> ('p stream_state \<times> u64 \<times> push list) outcome" where
  "stream_run lb dev infer [] s n = Returned (s, n, [])"
| "stream_run lb dev infer (Ask_Score v # ins) s n = stream_run lb dev infer ins (s\<lparr>ss_pending_score := Some v\<rparr>) n"
| "stream_run lb dev infer (Ask_Config name text # ins) s n =
    stream_run lb dev infer ins (s\<lparr>ss_pending_cfg := Some \<lparr>pc_name = name, pc_json = text, pc_done = False, pc_ok = False, pc_err = []\<rparr>\<rparr>) n"
| "stream_run lb dev infer (Take_Frame ck f # ins) s n =
    and_then (process lb dev ck infer f s n) (\<lambda>(s', n', out).
      and_then (stream_run lb dev infer ins s' n') (\<lambda>(s'', n'', out'). Returned (s'', n'', out @ out')))"

lemma stream_run_leak_free:
  "stream_run lb dev infer ins s n = Returned (s', n', out) \<Longrightarrow> ss_track_enabled s \<Longrightarrow> leak_free s \<Longrightarrow> leak_free s'"
proof (induction ins arbitrary: s n out)
  case (Cons i ins)
  show ?case
  proof (cases i)
    case (Take_Frame ck f)
    with Cons.prems(1) obtain s1 n1 o1 o2 where p: "process lb dev ck infer f s n = Returned (s1, n1, o1)"
      "stream_run lb dev infer ins s1 n1 = Returned (s', n', o2)" by (auto simp: and_then_Returned)
    with process_leak_free [OF p(1) Cons.prems(2,3)] Cons.IH [OF p(2)] show ?thesis by simp
  qed (use Cons in \<open>auto simp: leak_free_def\<close>)
qed (simp add: leak_free_def)

section \<open>The frame record\<close>

definition seen_det :: "wire_det \<Rightarrow> u32 \<times> int \<times> f32 list" where
  "seen_det d = (wd_track_id d, sint (wd_class_id d),
     map bits_f32 [wd_cx d, wd_cy d, wd_w d, wd_h d, wd_score d])"

definition shown_track :: "track \<Rightarrow> u32 \<times> int \<times> f32 list" where
  "shown_track t = (let d = trk_det t in (trk_id t, d_class_id d, [d_cx d, d_cy d, d_w d, d_h d, d_score d]))"

text \<open>The keypoints of a track as they follow each other in the record: x, y and confidence of each.\<close>

definition kpt_values :: "track \<Rightarrow> f32 list" where
  "kpt_values t = concat (map (\<lambda>k. [kp_x k, kp_y k, kp_conf k]) (trk_kpts t))"

definition det_typed :: "track \<Rightarrow> bool" where
  "det_typed t = (let d = trk_det t in list_all fl_ok [d_cx d, d_cy d, d_w d, d_h d, d_score d] \<and>
     - (2 ^ 31) \<le> d_class_id d \<and> d_class_id d < 2 ^ 31 \<and> list_all fl_ok (kpt_values t))"

lemma seen_det_of: "det_typed t \<Longrightarrow> seen_det (wire_det_of t) = shown_track t"
  by (simp add: seen_det_def wire_det_of_def shown_track_def det_typed_def Let_def sint_uint uint_word_of_int_eq
      signed_take_bit_take_bit signed_take_bit_int_eq_self)

lemma kpt_words_values:
  assumes "0 < n" "length (trk_kpts t) = n" "det_typed t"
  shows "map bits_f32 (kpt_words n t) = kpt_values t"
proof -
  have "kpt_words n t = map f32_bits (kpt_values t)"
    using assms(1,2) by (simp add: kpt_words_def kpt_values_def map_concat comp_def)
  moreover have "list_all fl_ok (kpt_values t)" using assms(3) by (simp add: det_typed_def Let_def)
  ultimately show ?thesis by (auto simp: list_all_iff intro!: map_idI)
qed

text \<open>One keypoint count, not 0, for all the live tracks of a frame.\<close>

definition same_kpt_count :: "track list \<Rightarrow> bool" where
  "same_kpt_count ts \<longleftrightarrow> ts \<noteq> [] \<and> trk_kpts (hd ts) \<noteq> [] \<and> list_all (\<lambda>t. length (trk_kpts t) = length (trk_kpts (hd ts))) ts"

definition frame_refused :: "track list \<Rightarrow> nat \<Rightarrow> bool" where
  "frame_refused alive attr_total \<longleftrightarrow> 255 < attr_total \<or> 65535 < length alive \<or> 255 < common_kpts alive \<or>
     (0 < common_kpts alive \<and> list_ex (\<lambda>t. trk_kpts t = []) alive)"

text \<open>The keypoints of a record that is not refused.\<close>

lemma record_kpts:
  assumes "\<not> frame_refused alive attr_total" "list_all det_typed alive" "r = frame_record i now f res alive attrs attr_total"
  shows "if same_kpt_count alive then unat (wf_kpt_per_det r) = length (trk_kpts (hd alive)) \<and>
      map bits_f32 (wf_kpts r) = concat (map kpt_values alive)
    else wf_kpt_per_det r = 0 \<and> wf_kpts r = []"
proof (cases "common_kpts alive")
  case 0
  have "\<not> same_kpt_count alive"
  proof
    assume s: "same_kpt_count alive"
    then have h: "hd alive \<in> set alive" "trk_kpts (hd alive) \<noteq> []" "\<forall>t \<in> set alive. length (trk_kpts t) = length (trk_kpts (hd alive))"
      unfolding same_kpt_count_def list_all_iff using hd_in_set by blast+
    have p: "0 < length (trk_kpts (hd alive))" using h(2) by simp
    have "common_kpts alive = length (trk_kpts (hd alive))"
      unfolding common_kpts_iff [OF p] using h by blast
    with 0 p show False by simp
  qed
  then show ?thesis by (simp add: assms(3) frame_record_def Let_def 0 kpt_words_def)
next
  case (Suc k)
  then have c: "(\<exists>t \<in> set alive. trk_kpts t \<noteq> []) \<and> (\<forall>t \<in> set alive. trk_kpts t = [] \<or> length (trk_kpts t) = Suc k)"
    using common_kpts_iff [of "Suc k" alive] by simp
  moreover have "\<forall>t \<in> set alive. trk_kpts t \<noteq> []" "Suc k \<le> 255"
    using assms(1) Suc by (auto simp: frame_refused_def list_ex_iff)
  ultimately have l: "\<forall>t \<in> set alive. length (trk_kpts t) = Suc k" "alive \<noteq> []" by auto
  then have hd: "length (trk_kpts (hd alive)) = Suc k" using hd_in_set by blast
  then have "trk_kpts (hd alive) \<noteq> []" by auto
  have "same_kpt_count alive" using l hd \<open>trk_kpts (hd alive) \<noteq> []\<close> unfolding same_kpt_count_def list_all_iff hd by blast
  moreover have "map bits_f32 (kpt_words (Suc k) t) = kpt_values t" if "t \<in> set alive" for t
    using that l(1) assms(2) by (intro kpt_words_values) (auto simp: list_all_iff)
  then have "map bits_f32 (wf_kpts r) = concat (map kpt_values alive)"
    by (simp add: assms(3) frame_record_def Let_def Suc map_concat comp_def cong: map_cong)
  moreover have "unat (of_nat (Suc k) :: u8) = Suc k" using \<open>Suc k \<le> 255\<close> by (simp add: unat_of_nat del: of_nat_Suc)
  then have "unat (wf_kpt_per_det r) = Suc k"
    by (simp add: assms(3) frame_record_def Let_def Suc del: of_nat_Suc)
  ultimately show ?thesis using hd by simp
qed

lemma frame_record_ok:
  assumes "common_kpts alive \<le> 255" "attr_total \<le> 255" "length attrs = length alive * attr_total"
  shows "vbr1_ok (frame_record i now f res alive attrs attr_total) \<longleftrightarrow> \<not> frame_refused alive attr_total"
proof -
  have "unat (of_nat (common_kpts alive) :: u8) = common_kpts alive" "unat (of_nat attr_total :: u8) = attr_total"
    using assms(1,2) by (simp_all add: unat_of_nat)
  with kpts_total [of "common_kpts alive" alive] assms show ?thesis
    by (auto simp: vbr1_ok_def frame_record_def Let_def frame_refused_def list_all_iff list_ex_iff)
qed

section \<open>Properties\<close>

text \<open>C16: a frame is sent exactly when its counts fit the record, and then a reader of the stream finds every live
  track, in the tracker's order, with its id, class, box and score bit for bit, and the attribute block. When all live tracks have
  the same number of keypoints, not 0, the record has that number and, track after track, the x, y and confidence of each keypoint
  bit for bit; when none has keypoints, or two of those that have some have different numbers, it has none.
  A frame in which some live tracks have keypoints, equally many, and others have none is refused.\<close>

theorem frame_record_delivers:
  assumes "length attrs = length alive * attr_total" "list_all det_typed alive" "list_all fl_ok attrs"
  shows "case encode_frame_record i now f res alive attrs attr_total of
      Inl e \<Rightarrow> frame_refused alive attr_total
    | Inr out \<Rightarrow> \<not> frame_refused alive attr_total \<and>
        (\<exists>bs body r. out = [Push_Frame bs, Frame_Hook r] \<and>
          read_record (bs @ rest) = Some (ascii ''VBR1'', body, rest) \<and> read_frame body = r \<and>
          wf_stream_index r = i \<and> wf_seq r = fb_seq f \<and> map seen_det (wf_dets r) = map shown_track alive \<and>
          map bits_f32 (wf_attrs r) = attrs \<and>
          (if same_kpt_count alive then unat (wf_kpt_per_det r) = length (trk_kpts (hd alive)) \<and>
             map bits_f32 (wf_kpts r) = concat (map kpt_values alive)
           else wf_kpt_per_det r = 0 \<and> wf_kpts r = []))"
proof (cases "vbr1_counts_ok (common_kpts alive) attr_total")
  case (Inl e)
  then have "encode_frame_record i now f res alive attrs attr_total = Inl e" by (simp add: encode_frame_record_def)
  moreover have "frame_refused alive attr_total"
    using Inl by (auto simp: vbr1_counts_ok_def frame_refused_def split: if_splits)
  ultimately show ?thesis by simp
next
  case (Inr u)
  then have c: "common_kpts alive \<le> 255" "attr_total \<le> 255" by (auto simp: vbr1_counts_ok_def split: if_splits)
  define r where "r = frame_record i now f res alive attrs attr_total"
  have ok: "vbr1_ok r \<longleftrightarrow> \<not> frame_refused alive attr_total"
    unfolding r_def by (rule frame_record_ok [OF c assms(1)])
  show ?thesis
  proof (cases "vbr1_ok r")
    case True
    note v = True [folded vbr1_validate_ok]
    define bs where "bs = put_header ''VBR1'' (of_nat (length (vbr1_body r))) @ vbr1_body r"
    have "encode_frame_record i now f res alive attrs attr_total = Inr [Push_Frame bs, Frame_Hook r]"
      using Inr v True by (simp add: encode_frame_record_def Let_def wire_encode_vbr1_def vbr1_body_length bs_def flip: r_def)
    moreover have "read_record (bs @ rest) = Some (ascii ''VBR1'', vbr1_body r, rest)"
      using read_record_put [of "''VBR1''" "vbr1_body r" rest] True vbr1_body_bound by (simp add: vbr1_body_length bs_def)
    moreover have "read_frame (vbr1_body r) = r" by (rule read_frame_body [OF True])
    moreover have "map seen_det (wf_dets r) = map shown_track alive" "map bits_f32 (wf_attrs r) = attrs"
      "wf_stream_index r = i" "wf_seq r = fb_seq f"
      using assms(2,3) by (auto simp: r_def frame_record_def Let_def list_all_iff seen_det_of intro!: map_idI)
    moreover note record_kpts [of alive attr_total, OF _ assms(2) r_def]
    ultimately show ?thesis using ok True assms(2) by simp
  next
    case False
    then obtain e where "vbr1_validate r = Inl e" by (cases "vbr1_validate r") (auto simp flip: vbr1_validate_ok)
    with Inr have "encode_frame_record i now f res alive attrs attr_total = Inl e"
      by (simp add: encode_frame_record_def Let_def wire_encode_vbr1_def flip: r_def)
    with ok False show ?thesis by simp
  qed
qed

text \<open>C17: the interleaved attribute block is the row of every track in turn, a row being the values of the analyzers for
  that track in chain order, provided every analyzer leaves its buffer at its length.\<close>

theorem attrs_are_rows:
  assumes "blocks_ok (length alive) (chain_blocks lb m alive chain)"
  shows "fst (snd (chain_on_frame lb i m alive (total_attr_count chain) 0 chain (replicate (length alive * total_attr_count chain) 0))) =
    concat (map (\<lambda>t. attr_row t (chain_blocks lb m alive chain)) [0..<length alive])"
proof -
  define w where "w = total_attr_count chain"
  define bl where "bl = chain_blocks lb m alive chain"
  have sum: "sum_list (map fst bl) = w"
    by (simp add: bl_def w_def chain_blocks_def total_attr_count_def comp_def case_prod_beta Let_def)
  have row: "length (attr_row t bl) = w" if "t < length alive" for t
    using length_attr_row [of "length alive" bl t] assms that sum by (simp add: bl_def)
  note c = chain_attrs [OF assms, of "replicate (length alive * w) 0" w 0 i, folded w_def bl_def]
  show ?thesis unfolding w_def [symmetric] bl_def [symmetric]
  proof (rule nth_equalityI)
    show "length (fst (snd (chain_on_frame lb i m alive w 0 chain (replicate (length alive * w) 0)))) =
        length (concat (map (\<lambda>t. attr_row t bl) [0..<length alive]))"
      using c length_concat_rows [of "length alive" "\<lambda>t. attr_row t bl" w] row by simp
    fix k assume "k < length (fst (snd (chain_on_frame lb i m alive w 0 chain (replicate (length alive * w) 0))))"
    then have k: "k < length alive * w" using c by simp
    then have "0 < w" by (cases w) auto
    define t j where "t = k div w" and "j = k mod w"
    have tj: "t < length alive" "j < w" "k = t * w + j"
      using k \<open>0 < w\<close> by (simp_all add: t_def j_def less_mult_imp_div_less)
    have "concat (map (\<lambda>t. attr_row t bl) [0..<length alive]) ! (t * w + j) = attr_row t bl ! j"
      by (rule concat_rows_nth [OF row tj(1,2)])
    moreover have "fst (snd (chain_on_frame lb i m alive w 0 chain (replicate (length alive * w) 0))) ! (t * w + j) =
        attr_row t bl ! j" using c tj(1,2) by simp
    ultimately show "fst (snd (chain_on_frame lb i m alive w 0 chain (replicate (length alive * w) 0))) ! k =
        concat (map (\<lambda>t. attr_row t bl) [0..<length alive]) ! k" by (simp only: tj(3))
  qed
qed

text \<open>C18: whatever frames, threshold changes and configurations a tracked stream goes through, each built-in
  analyzer is well formed and remembers only tracks that are in the tracker's table, so what is kept per
  track is bounded by the live tracks: the removals of an update reach every analyzer.\<close>

theorem analyzers_remember_live_tracks:
  assumes "stream_run lb dev infer ins s n = Returned (s', n', out)" "ss_track_enabled s"
    "list_all (\<lambda>(name, a). ca_ok a \<and> ca_ids a = {}) (ss_chain s)"
  shows "list_all (\<lambda>(name, a). ca_ok a \<and> ca_ids a \<subseteq> trk_id ` set (vt_tracks (ss_tracker s'))) (ss_chain s')"
proof -
  have "leak_free s" using assms(3) by (auto simp: leak_free_def list_all_iff)
  from stream_run_leak_free [OF assms(1,2) this] show ?thesis by (simp add: leak_free_def)
qed

text \<open>The only thing that makes the handling of a frame end the program is a pending configuration whose
  checks throw; a failed inference, a refused frame record and a refused configuration are all
  recorded and the stream goes on.\<close>

theorem process_throws_for_configuration:
  "process lb dev ck infer f s n = Thrown \<longleftrightarrow>
     (\<exists>c chain. ss_pending_cfg s = Some c \<and> \<not> pc_done c \<and>
        configure_last lb (pc_name c) (pc_json c) (ss_chain s) = Some (chain, Thrown))"
proof -
  have p: "ss_chain (apply_pending_score s) = ss_chain s" "ss_pending_cfg (apply_pending_score s) = ss_pending_cfg s"
    by (simp_all add: apply_pending_score_def split: option.split)
  have "process lb dev ck infer f s n = Thrown \<longleftrightarrow> apply_pending_controls lb s = Thrown"
    by (auto simp: process_def and_then_Thrown case_prod_beta Let_def split: sum.splits) (metis obj_sumE surj_pair)
  also have "\<dots> \<longleftrightarrow> (\<exists>c chain. ss_pending_cfg s = Some c \<and> \<not> pc_done c \<and>
        configure_last lb (pc_name c) (pc_json c) (ss_chain s) = Some (chain, Thrown))"
    by (auto simp: apply_pending_controls_def apply_pending_cfg_def p split: option.splits prod.splits outcome.splits)
  finally show ?thesis .
qed

section \<open>Concrete instances\<close>

definition demo_libs :: libs where
  "demo_libs = \<lparr>lb_parse = (\<lambda>s. Inr (json_obj [(''zones'', JArr [json_obj [(''id'', JInt 7), (''polygon'', JArr [])]])])),
     lb_dump = (\<lambda>j. []), lb_math = \<lparr>lm_atan2 = (\<lambda>y x. 0), lm_acos = (\<lambda>x. 0)\<rparr>\<rparr>"

definition demo_buf :: frame_buf where
  "demo_buf = \<lparr>fb_stream_index = 3, fb_seq = 5, fb_wall_ms = 0, fb_t_mono_s = 0, fb_w = 4, fb_h = 3, fb_stride = 12,
     fb_fmt = RGB888, fb_host = None\<rparr>"

definition demo_result :: detection_result where
  "demo_result = \<lparr>dr_dets = [no_detection], dr_kpts = [], dr_geom = no_geom, dr_preprocess_ms = 0, dr_inference_ms = 0,
     dr_postprocess_ms = 0\<rparr>"

definition demo_live :: track where
  "demo_live = untracked_of [] no_detection"

definition demo_stream :: "(string \<times> unit chained) list \<Rightarrow> unit stream_state" where
  "demo_stream chain = \<lparr>ss_index = 3, ss_spec = \<lparr>ssp_index = 3, ssp_id = [], ssp_url = [], ssp_name = [], ssp_transport = [],
       ssp_score_threshold = 0, ssp_options_json = []\<rparr>,
     ss_latest = new_latest_frame, ss_tracker = new_vb_tracker default_tk_config, ss_track_enabled = True, ss_chain = chain,
     ss_metrics = new_stream_metrics, ss_pending_score = None, ss_pending_cfg = None, ss_drop_baseline = 0, ss_ring_cap = 2,
     ss_ring = [], ss_got_first_frame = False, ss_limiter = new_rate_limiter 1, ss_source_alive = True\<rparr>"

text \<open>A zone whose id is a number: the check of the id throws, in the context thread.\<close>

lemma number_as_zone_id_ends_the_program:
  "process demo_libs False ck infer f
     ((demo_stream [(''zone'', Built (Zone_An new_zone_analyzer))])\<lparr>ss_pending_cfg :=
        Some \<lparr>pc_name = ''zone'', pc_json = [], pc_done = False, pc_ok = False, pc_err = []\<rparr>\<rparr>) n = Thrown"
proof -
  have "snd (zone_configure (lb_parse demo_libs) [] new_zone_analyzer) = Thrown"
    by (simp add: demo_libs_def zone_configure_def parse_text_def) code_simp
  then obtain a where "zone_configure (lb_parse demo_libs) [] new_zone_analyzer = (a, Thrown)" by (metis surj_pair snd_conv)
  then show ?thesis
    by (simp add: process_throws_for_configuration demo_stream_def)
qed

definition demo_posed :: track where
  "demo_posed = demo_live\<lparr>trk_kpts := [\<lparr>kp_x = 1, kp_y = 0, kp_conf = 1\<rparr>]\<rparr>"

theorem frame_record_delivers_witness:
  "(\<exists>bs body. encode_frame_record 3 0 demo_buf demo_result [demo_posed] [1] 1 = Inr [Push_Frame bs, Frame_Hook (read_frame body)] \<and>
     read_record (bs @ [9]) = Some (ascii ''VBR1'', body, [9]) \<and> map seen_det (wf_dets (read_frame body)) = [(0, 0, [0, 0, 0, 0, 0])] \<and>
     map bits_f32 (wf_kpts (read_frame body)) = [1, 0, 1])"
proof -
  have l: "shown_track demo_posed = (0, 0, [0, 0, 0, 0, 0])" "length (trk_kpts demo_posed) = 1" "trk_kpts demo_posed \<noteq> []"
    "kpt_values demo_posed = [1, 0, 1]" "det_typed demo_posed"
    by (simp_all add: shown_track_def demo_posed_def demo_live_def untracked_of_def no_detection_def Let_def kpt_values_def det_typed_def)
  have "\<not> frame_refused [demo_posed] 1" "same_kpt_count [demo_posed]" by (simp_all add: frame_refused_def common_kpts_def same_kpt_count_def l)
  with frame_record_delivers [where attrs = "[1]" and alive = "[demo_posed]" and attr_total = 1 and i = 3 and now = 0
      and f = demo_buf and res = demo_result and rest = "[9]"] l show ?thesis
    by (auto split: sum.splits)
qed

definition demo_plugin :: "u32 \<Rightarrow> f32 \<Rightarrow> unit vb_analyzer_api" where
  "demo_plugin k x = \<lparr>va_abi = 1, va_name = Some ''p'', va_attr_count = k, va_attr_names = Some [], va_create = Some (\<lambda>_. Inr ()),
     va_destroy = Some (\<lambda>_. ()), va_on_frame = Some (\<lambda>p m ts attrs. (p, replicate (length attrs) x, [])),
     va_on_track_removed = Some (\<lambda>p i t. p)\<rparr>"

theorem attrs_are_rows_witness:
  "fst (snd (chain_on_frame demo_libs 3 \<lparr>fm_stream_index = 3, fm_seq = 0, fm_wall_ms = 0, fm_t_mono_s = 0, fm_geom = no_geom\<rparr>
     [demo_live, demo_live] 3 0 [(''a'', Plugin (demo_plugin 1 1) (Some ())), (''b'', Plugin (demo_plugin 2 (lit 2)) (Some ()))]
     (replicate 6 0))) = [1, lit 2, lit 2, 1, lit 2, lit 2]"
proof -
  define chain where "chain = [(''a'', Plugin (demo_plugin 1 1) (Some ())), (''b'', Plugin (demo_plugin 2 (lit 2)) (Some ()))]"
  define m where "m = \<lparr>fm_stream_index = 3, fm_seq = 0, fm_wall_ms = 0, fm_t_mono_s = 0, fm_geom = no_geom\<rparr>"
  have r: "replicate 2 x = [x, x]" "replicate 4 x = [x, x, x, x]" for x :: f32 by (simp_all add: numeral_eq_Suc)
  have b: "chain_blocks demo_libs m [demo_live, demo_live] chain = [(1, [1, 1]), (2, [lit 2, lit 2, lit 2, lit 2])]"
    by (simp add: chain_blocks_def chain_def demo_plugin_def plugin_on_frame_def Let_def r)
  have t: "total_attr_count chain = 3" by (simp add: total_attr_count_def chain_def demo_plugin_def)
  have "blocks_ok (length [demo_live, demo_live]) (chain_blocks demo_libs m [demo_live, demo_live] chain)"
    by (simp add: b blocks_ok_def)
  from attrs_are_rows [OF this, of 3, unfolded t b] show ?thesis
    unfolding chain_def [symmetric] m_def [symmetric] by (simp add: attr_row_def upt_rec)
qed

theorem analyzers_remember_live_tracks_witness:
  "\<exists>s' n' out. stream_run demo_libs False (\<lambda>f a b. Inr (demo_result, None)) [Ask_Score 1, Take_Frame \<lparr>ck_infer_s = 0, ck_dev_s = 0, ck_encode_s = 0\<rparr> demo_buf]
     (demo_stream [(''dwell'', Built (Dwell_An new_dwell_analyzer))]) 0 = Returned (s', n', out) \<and>
   list_all (\<lambda>(name, a). ca_ids a \<subseteq> trk_id ` set (vt_tracks (ss_tracker s'))) (ss_chain s')"
proof -
  define s where "s = demo_stream [(''dwell'', Built (Dwell_An new_dwell_analyzer))]"
  define ins where "ins = [Ask_Score 1, Take_Frame \<lparr>ck_infer_s = 0, ck_dev_s = 0, ck_encode_s = 0\<rparr> demo_buf]"
  have "stream_run demo_libs False (\<lambda>f a b. Inr (demo_result, None)) ins s 0 \<noteq> Thrown \<and>
      (\<forall>e. stream_run demo_libs False (\<lambda>f a b. Inr (demo_result, None)) ins s 0 \<noteq> Refused e)"
    by (simp add: ins_def s_def demo_stream_def process_def apply_pending_controls_def apply_pending_cfg_def
        apply_pending_score_def case_prod_beta Let_def)
  then obtain s' n' out where r: "stream_run demo_libs False (\<lambda>f a b. Inr (demo_result, None)) ins s 0 = Returned (s', n', out)"
    by (metis outcome.exhaust prod_cases3)
  have "list_all (\<lambda>(name, a). ca_ok a \<and> ca_ids a \<subseteq> trk_id ` set (vt_tracks (ss_tracker s'))) (ss_chain s')"
    by (rule analyzers_remember_live_tracks [OF r]) (simp_all add: s_def demo_stream_def new_dwell_analyzer_def om_ok_def)
  then show ?thesis using r unfolding s_def ins_def by (auto simp: list_all_iff)
qed

end
