(* ===== verification/Scheduling.thy ===== *)
theory Scheduling
  imports Prelude
begin

text \<open>
  Who works on a stream when: the worker loop of \<open>core-cpp/vb/src/pool.cpp\<close>, the removal of a
  stream and the thread that reads its source in \<open>core-cpp/vb/src/runtime.cpp\<close>. First the choice of a
  batch, a function of the shared cursor and of what can be claimed, then the handshake between the
  workers, one removal and the source thread as a step relation on one stream.
\<close>

section \<open>One polling round\<close>

text \<open>\<open>claimable i\<close> stands for \<open>try_lock\<close>, the flags and a frame in the mailbox of stream \<open>i\<close> of the round's copy of the
  stream list. The cursor is a \<open>size_t\<close> that all workers share: it is read under the lock before the round and
  advanced under the lock after it, when other workers may have moved it to \<open>later\<close>.\<close>

fun claim_from :: "(nat \<Rightarrow> bool) \<Rightarrow> nat \<Rightarrow> nat \<Rightarrow> u64 \<Rightarrow> nat list \<Rightarrow> nat list \<Rightarrow> nat list" where
  "claim_from claimable n max_batch start [] batch = batch"
| "claim_from claimable n max_batch start (k # ks) batch =
    (if length batch < max_batch then
       let i = unat (start + of_nat k) mod n
       in claim_from claimable n max_batch start ks (if claimable i then batch @ [i] else batch)
     else batch)"

definition poll_round :: "(nat \<Rightarrow> bool) \<Rightarrow> nat \<Rightarrow> nat \<Rightarrow> u64 \<Rightarrow> u64 \<Rightarrow> u64 \<times> nat list" where
  "poll_round claimable n max_batch cursor later =
    (if n = 0 then (later, [])
     else let batch = claim_from claimable n max_batch cursor [0..<n] []
       in (later + of_nat (length batch) + 1, batch))"

text \<open>The positions in polling order.\<close>

definition polled :: "u64 \<Rightarrow> nat \<Rightarrow> nat list" where
  "polled cursor n = map (\<lambda>k. unat (cursor + of_nat k) mod n) [0..<n]"

lemma claim_from_eq:
  "length batch \<le> max_batch \<Longrightarrow> claim_from claimable n max_batch start ks batch =
     batch @ take (max_batch - length batch) (filter claimable (map (\<lambda>k. unat (start + of_nat k) mod n) ks))"
proof (induction ks arbitrary: batch)
  case (Cons k ks)
  show ?case
  proof (cases "length batch < max_batch")
    case True
    then obtain d where "max_batch - length batch = Suc d" by (metis Suc_diff_Suc)
    moreover from this have "max_batch - Suc (length batch) = d" by simp
    ultimately show ?thesis using Cons True by (simp add: Let_def)
  next
    case False
    with Cons.prems show ?thesis by simp
  qed
qed simp

text \<open>Without wrap-around of the cursor the round visits every stream once.\<close>

lemma polled_perm:
  assumes "unat cursor + n \<le> 2 ^ 64" "0 < n"
  shows "distinct (polled cursor n)" "set (polled cursor n) = {..<n}"
proof -
  have u: "unat (cursor + of_nat k) = unat cursor + k" if "k < n" for k
    using that assms(1) by (simp add: unat_word_ariths unat_of_nat)
  then have p: "polled cursor n = map (\<lambda>k. (unat cursor + k) mod n) [0..<n]" by (simp add: polled_def)
  have inj: "inj_on (\<lambda>k. (unat cursor + k) mod n) {..<n}"
  proof (rule inj_onI)
    fix x y assume "x \<in> {..<n}" "y \<in> {..<n}" "(unat cursor + x) mod n = (unat cursor + y) mod n"
    then show "x = y"
    proof (induction x y rule: linorder_wlog)
      case (le x y)
      then have "n dvd (unat cursor + y) - (unat cursor + x)" by (metis add_le_mono le_refl mod_eq_dvd_iff_nat)
      then have "n dvd y - x" by simp
      moreover have "y - x < n" using le by auto
      ultimately show ?case using le by (metis diff_is_0_eq dvd_imp_le le_antisym not_gr_zero not_le)
    qed auto
  qed
  then show d: "distinct (polled cursor n)" by (simp add: p distinct_map lessThan_atLeast0)
  have "set (polled cursor n) \<subseteq> {..<n}" using assms(2) by (auto simp: p)
  moreover have "card (set (polled cursor n)) = n" using d by (simp add: distinct_card) (simp add: polled_def)
  ultimately show "set (polled cursor n) = {..<n}" by (simp add: card_subset_eq)
qed

section \<open>The handshake\<close>

text \<open>Where a worker stands with the stream: holding the lock before and after the check of the flags, with the
  frame claimed, past the check before its turn, inside \<open>process\<close> with the lock, done with its turn.
  Every test of a flag and every \<open>lock\<close> is a move of its own; \<open>busy\<close> changes only under the lock.\<close>

datatype phase = Away | Holding | Checked | Claimed | Passed | Processing | Turn_Over

datatype remover = Not_Removing | Waiting | Released | Detached | Timed_Out

record life =
  li_in_map :: bool
  li_removing :: bool
  li_busy :: bool
  li_phase :: "nat \<Rightarrow> phase"
  li_remover :: remover
  li_source :: bool
  li_has_frame :: bool

fun has_lock :: "phase \<Rightarrow> bool" where
  "has_lock p \<longleftrightarrow> p \<in> {Holding, Checked, Processing}"

fun in_batch :: "phase \<Rightarrow> bool" where
  "in_batch p \<longleftrightarrow> p \<in> {Claimed, Passed, Processing, Turn_Over}"

fun engaged :: "phase \<Rightarrow> bool" where
  "engaged p \<longleftrightarrow> p \<notin> {Away, Holding}"

definition locked :: "life \<Rightarrow> bool" where
  "locked s \<longleftrightarrow> (\<exists>w. has_lock (li_phase s w))"

definition new_life :: life where
  "new_life = \<lparr>li_in_map = True, li_removing = False, li_busy = False, li_phase = (\<lambda>_. Away), li_remover = Not_Removing,
     li_source = True, li_has_frame = False\<rparr>"

datatype move = Lock nat | Leave nat | Check nat | Pass nat | Claim nat | Look nat | Begin nat | Skip nat
  | Finish nat | Let_Go nat
  | Remove_Asked | Remove_Released | Remove_Detached | Remove_Timed_Out | Frame_Read | Source_Ends

inductive life_step :: "life \<Rightarrow> move \<Rightarrow> life \<Rightarrow> bool" where
  lock: "\<not> locked s \<Longrightarrow> li_phase s w = Away \<Longrightarrow>
    life_step s (Lock w) (s\<lparr>li_phase := (li_phase s)(w := Holding)\<rparr>)"
| leave: "li_phase s w = Holding \<Longrightarrow> li_busy s \<or> li_removing s \<Longrightarrow>
    life_step s (Leave w) (s\<lparr>li_phase := (li_phase s)(w := Away)\<rparr>)"
| check: "li_phase s w = Holding \<Longrightarrow> \<not> li_busy s \<Longrightarrow> \<not> li_removing s \<Longrightarrow>
    life_step s (Check w) (s\<lparr>li_phase := (li_phase s)(w := Checked)\<rparr>)"
| no_frame: "li_phase s w = Checked \<Longrightarrow> \<not> li_has_frame s \<Longrightarrow>
    life_step s (Pass w) (s\<lparr>li_phase := (li_phase s)(w := Away)\<rparr>)"
| claim: "li_phase s w = Checked \<Longrightarrow> li_has_frame s \<Longrightarrow>
    life_step s (Claim w) (s\<lparr>li_phase := (li_phase s)(w := Claimed), li_busy := True, li_has_frame := False\<rparr>)"
| look: "li_phase s w = Claimed \<Longrightarrow> \<not> li_removing s \<Longrightarrow>
    life_step s (Look w) (s\<lparr>li_phase := (li_phase s)(w := Passed)\<rparr>)"
| skip: "li_phase s w = Claimed \<Longrightarrow> li_removing s \<Longrightarrow>
    life_step s (Skip w) (s\<lparr>li_phase := (li_phase s)(w := Turn_Over)\<rparr>)"
| enter: "li_phase s w = Passed \<Longrightarrow> \<not> locked s \<Longrightarrow>
    life_step s (Begin w) (s\<lparr>li_phase := (li_phase s)(w := Processing)\<rparr>)"
| finish: "li_phase s w = Processing \<Longrightarrow>
    life_step s (Finish w) (s\<lparr>li_phase := (li_phase s)(w := Turn_Over)\<rparr>)"
| let_go: "li_phase s w = Turn_Over \<Longrightarrow> \<not> locked s \<Longrightarrow>
    life_step s (Let_Go w) (s\<lparr>li_phase := (li_phase s)(w := Away), li_busy := False\<rparr>)"
| remove_asked: "li_in_map s \<Longrightarrow> li_remover s \<in> {Not_Removing, Timed_Out} \<Longrightarrow>
    life_step s Remove_Asked (s\<lparr>li_removing := True, li_remover := Waiting\<rparr>)"
| remove_released: "li_remover s = Waiting \<Longrightarrow> \<not> locked s \<Longrightarrow> \<not> li_busy s \<Longrightarrow>
    life_step s Remove_Released (s\<lparr>li_remover := Released\<rparr>)"
| remove_timed_out: "li_remover s = Waiting \<Longrightarrow>
    life_step s Remove_Timed_Out (s\<lparr>li_removing := False, li_remover := Timed_Out\<rparr>)"
| remove_detached: "li_remover s = Released \<Longrightarrow> \<not> li_source s \<Longrightarrow>
    life_step s Remove_Detached (s\<lparr>li_in_map := False, li_remover := Detached\<rparr>)"
| frame_read: "li_source s \<Longrightarrow> life_step s Frame_Read (s\<lparr>li_has_frame := True\<rparr>)"
| source_ends: "li_source s \<Longrightarrow> li_removing s \<Longrightarrow> life_step s Source_Ends (s\<lparr>li_source := False\<rparr>)"

inductive_cases life_stepE: "life_step s m s'"
inductive_simps life_step_simps: "life_step s (Begin w) s'" "life_step s (Claim w) s'" "life_step s Frame_Read s'"

inductive life_run :: "life \<Rightarrow> move list \<Rightarrow> life \<Rightarrow> bool" where
  stay: "life_run s [] s"
| go: "life_step s m s' \<Longrightarrow> life_run s' ms s'' \<Longrightarrow> life_run s (m # ms) s''"

definition at_most_one :: "(phase \<Rightarrow> bool) \<Rightarrow> life \<Rightarrow> bool" where
  "at_most_one P s \<longleftrightarrow> (\<forall>v w. P (li_phase s v) \<longrightarrow> P (li_phase s w) \<longrightarrow> v = w)"

definition life_inv :: "life \<Rightarrow> bool" where
  "life_inv s \<longleftrightarrow> at_most_one engaged s \<and> at_most_one has_lock s \<and>
     (li_busy s \<longleftrightarrow> (\<exists>w. in_batch (li_phase s w))) \<and>
     (li_removing s \<longleftrightarrow> li_remover s \<in> {Waiting, Released, Detached}) \<and>
     (li_remover s \<in> {Released, Detached} \<longrightarrow> (\<forall>w. \<not> engaged (li_phase s w))) \<and>
     (li_in_map s \<longleftrightarrow> li_remover s \<noteq> Detached) \<and> (li_remover s = Detached \<longrightarrow> \<not> li_source s) \<and>
     (li_source s \<or> li_remover s \<noteq> Not_Removing)"

lemma life_inv_new: "life_inv new_life"
  by (simp add: life_inv_def new_life_def at_most_one_def)

text \<open>A move of worker \<open>w\<close>: what it takes part in, no other worker does.\<close>

lemma at_most_one_move:
  "at_most_one P s \<Longrightarrow> (P p \<Longrightarrow> P (li_phase s w) \<or> (\<forall>v. \<not> P (li_phase s v))) \<Longrightarrow>
   at_most_one P (s\<lparr>li_phase := (li_phase s)(w := p), li_busy := b, li_has_frame := h\<rparr>)"
  unfolding at_most_one_def by simp blast

lemma life_inv_move:
  assumes "life_inv s"
    "engaged p \<Longrightarrow> engaged (li_phase s w) \<or> (\<forall>v. \<not> engaged (li_phase s v)) \<and> \<not> li_removing s"
    "has_lock p \<Longrightarrow> has_lock (li_phase s w) \<or> (\<forall>v. \<not> has_lock (li_phase s v))"
    "b \<longleftrightarrow> in_batch p \<or> (li_busy s \<and> \<not> in_batch (li_phase s w))"
    "s' = s\<lparr>li_phase := (li_phase s)(w := p), li_busy := b, li_has_frame := h\<rparr>"
  shows "life_inv s'"
proof -
  have e: "at_most_one engaged s" and l: "at_most_one has_lock s"
    and bz: "li_busy s \<longleftrightarrow> (\<exists>v. in_batch (li_phase s v))" using assms(1) by (simp_all add: life_inv_def)
  have "at_most_one engaged s'" unfolding assms(5) by (rule at_most_one_move [OF e]) (use assms(2) in blast)
  moreover have "at_most_one has_lock s'" unfolding assms(5) by (rule at_most_one_move [OF l]) (use assms(3) in blast)
  moreover have "li_busy s' \<longleftrightarrow> (\<exists>v. in_batch (li_phase s' v))"
  proof -
    have "(\<exists>v. v \<noteq> w \<and> in_batch (li_phase s v)) \<longleftrightarrow> li_busy s \<and> \<not> in_batch (li_phase s w)"
    proof
      assume "\<exists>v. v \<noteq> w \<and> in_batch (li_phase s v)"
      then obtain v where v: "v \<noteq> w" "in_batch (li_phase s v)" by blast
      have "\<not> in_batch (li_phase s w)"
      proof
        assume "in_batch (li_phase s w)"
        with v have "engaged (li_phase s w)" "engaged (li_phase s v)" by auto
        with e v(1) show False unfolding at_most_one_def by blast
      qed
      with v bz show "li_busy s \<and> \<not> in_batch (li_phase s w)" by blast
    next
      assume "li_busy s \<and> \<not> in_batch (li_phase s w)"
      with bz obtain v where "in_batch (li_phase s v)" "\<not> in_batch (li_phase s w)" by blast
      then have "v \<noteq> w" by metis
      with \<open>in_batch (li_phase s v)\<close> show "\<exists>v. v \<noteq> w \<and> in_batch (li_phase s v)" by blast
    qed
    then show ?thesis using assms(4) unfolding assms(5) by (auto simp del: in_batch.simps)
  qed
  moreover have "li_remover s \<in> {Released, Detached} \<longrightarrow> (\<forall>v. \<not> engaged (li_phase s' v))"
  proof (intro impI allI)
    fix v assume r: "li_remover s \<in> {Released, Detached}"
    then have n: "\<not> engaged (li_phase s u)" "li_removing s" for u using assms(1) by (auto simp: life_inv_def simp del: engaged.simps)
    with assms(2) have "\<not> engaged p" by blast
    with n(1) show "\<not> engaged (li_phase s' v)" unfolding assms(5) by (simp del: engaged.simps)
  qed
  ultimately show ?thesis using assms(1) unfolding life_inv_def by (simp add: assms(5) del: engaged.simps has_lock.simps in_batch.simps)
qed

text \<open>The checker holds the lock and the stream is not busy: nobody is engaged.\<close>

lemma nobody_engaged:
  assumes "life_inv s" "li_phase s w = Holding" "\<not> li_busy s" shows "\<not> engaged (li_phase s v)"
proof
  assume e: "engaged (li_phase s v)"
  then have "v \<noteq> w" using assms(2) by auto
  have "\<not> in_batch (li_phase s v)" using assms(1,3) by (auto simp: life_inv_def simp del: in_batch.simps)
  with e have "li_phase s v = Checked" by (cases "li_phase s v") auto
  then have "has_lock (li_phase s v)" "has_lock (li_phase s w)" using assms(2) by simp_all
  with \<open>v \<noteq> w\<close> assms(1) show False by (auto simp: life_inv_def at_most_one_def simp del: has_lock.simps)
qed

lemma free_not_engaged:
  assumes "life_inv s" "\<not> locked s" "\<not> li_busy s" shows "\<not> engaged (li_phase s v)"
  using assms by (cases "li_phase s v") (auto simp: life_inv_def locked_def)

lemma life_inv_busy: "life_inv s \<Longrightarrow> in_batch (li_phase s w) \<Longrightarrow> li_busy s"
  by (auto simp: life_inv_def simp del: in_batch.simps)

lemma life_inv_idle:
  assumes "life_inv s" "li_phase s w = Checked" shows "\<not> li_busy s"
proof
  assume "li_busy s"
  then obtain v where v: "in_batch (li_phase s v)" using assms(1) by (auto simp: life_inv_def simp del: in_batch.simps)
  then have "engaged (li_phase s v)" "engaged (li_phase s w)" using assms(2) by auto
  then have "v = w" using assms(1) unfolding life_inv_def at_most_one_def by blast
  with v assms(2) show False by simp
qed

lemma life_inv_step: "life_step s m s' \<Longrightarrow> life_inv s \<Longrightarrow> life_inv s'"
proof (induction rule: life_step.induct)
  case (lock s w)
  show ?case by (rule life_inv_move [OF lock(3), where w = w and p = Holding and b = "li_busy s" and h = "li_has_frame s"])
    (use lock in \<open>auto simp: locked_def\<close>)
next
  case (leave s w)
  show ?case by (rule life_inv_move [OF leave(3), where w = w and p = Away and b = "li_busy s" and h = "li_has_frame s"])
    (use leave in auto)
next
  case (check s w)
  show ?case by (rule life_inv_move [OF check(4), where w = w and p = Checked and b = "li_busy s" and h = "li_has_frame s"])
    (use check nobody_engaged [OF check(4,1,2)] in \<open>auto simp del: engaged.simps\<close>)
next
  case (no_frame s w)
  show ?case by (rule life_inv_move [OF no_frame(3), where w = w and p = Away and b = "li_busy s" and h = "li_has_frame s"])
    (use no_frame in auto)
next
  case (claim s w)
  show ?case by (rule life_inv_move [OF claim(3), where w = w and p = Claimed and b = True and h = False])
    (use claim in auto)
next
  case (look s w)
  show ?case by (rule life_inv_move [OF look(3), where w = w and p = Passed and b = "li_busy s" and h = "li_has_frame s"])
    (use look life_inv_busy [OF look(3), of w] in auto)
next
  case (skip s w)
  show ?case by (rule life_inv_move [OF skip(3), where w = w and p = Turn_Over and b = "li_busy s" and h = "li_has_frame s"])
    (use skip life_inv_busy [OF skip(3), of w] in auto)
next
  case (enter s w)
  show ?case by (rule life_inv_move [OF enter(3), where w = w and p = Processing and b = "li_busy s" and h = "li_has_frame s"])
    (use enter life_inv_busy [OF enter(3), of w] in \<open>auto simp: locked_def\<close>)
next
  case (finish s w)
  show ?case by (rule life_inv_move [OF finish(2), where w = w and p = Turn_Over and b = "li_busy s" and h = "li_has_frame s"])
    (use finish life_inv_busy [OF finish(2), of w] in auto)
next
  case (let_go s w)
  show ?case by (rule life_inv_move [OF let_go(3), where w = w and p = Away and b = False and h = "li_has_frame s"])
    (use let_go in auto)
next
  case (remove_released s)
  have "\<not> engaged (li_phase s v)" for v using free_not_engaged [OF remove_released(4,2,3)] .
  with remove_released show ?case by (simp add: life_inv_def at_most_one_def)
qed (auto simp: life_inv_def at_most_one_def)

lemma life_inv_run: "life_run s ms s' \<Longrightarrow> life_inv s \<Longrightarrow> life_inv s'"
  by (induction rule: life_run.induct) (auto dest: life_inv_step)

text \<open>Once a removal has seen the stream free, nobody works on it again.\<close>

lemma released_not_engaged:
  "life_inv s \<Longrightarrow> li_remover s \<in> {Released, Detached} \<Longrightarrow> \<not> engaged (li_phase s w)"
  unfolding life_inv_def by blast

lemma released_stays:
  "life_step s m s' \<Longrightarrow> life_inv s \<Longrightarrow> li_remover s \<in> {Released, Detached} \<Longrightarrow>
     li_remover s' \<in> {Released, Detached} \<and> (\<forall>w. m \<noteq> Claim w \<and> m \<noteq> Begin w \<and> m \<noteq> Check w)"
proof (induction rule: life_step.induct)
  case (claim s w)
  then show ?case using released_not_engaged [of s w] by simp
next
  case (enter s w)
  then show ?case using released_not_engaged [of s w] by simp
qed (auto simp: life_inv_def)

lemma released_run:
  "life_run s ms s' \<Longrightarrow> life_inv s \<Longrightarrow> li_remover s \<in> {Released, Detached} \<Longrightarrow>
     \<forall>w. Claim w \<notin> set ms \<and> Begin w \<notin> set ms"
proof (induction rule: life_run.induct)
  case (go s m s' ms s'')
  with released_stays [OF go(1,4,5)] life_inv_step [OF go(1,4)] show ?case by auto
qed simp

lemma life_run_append: "life_run s ms s' \<Longrightarrow> life_run s' ms' s'' \<Longrightarrow> life_run s (ms @ ms') s''"
  by (induction rule: life_run.induct) (auto intro: life_run.intros)

lemma sourceless_run:
  "life_run s ms s' \<Longrightarrow> \<not> li_source s \<Longrightarrow> \<not> li_source s' \<and> Frame_Read \<notin> set ms"
proof (induction rule: life_run.induct)
  case (go s m s' ms s'')
  from go(1,4) have "\<not> li_source s' \<and> m \<noteq> Frame_Read" by (auto elim!: life_stepE)
  with go show ?case by auto
qed simp

text \<open>Two streams that always have a frame, one worker and batches of one: the cursor advances by two every
  round, and the second stream is never claimed.\<close>

fun busy_rounds :: "nat \<Rightarrow> u64 \<Rightarrow> nat list list" where
  "busy_rounds 0 c = []"
| "busy_rounds (Suc k) c = (let (c', b) = poll_round (\<lambda>_. True) 2 1 c c in b # busy_rounds k c')"

lemma poll_two: "even (unat c) \<Longrightarrow> poll_round (\<lambda>_. True) 2 1 c c = (c + 2, [0])"
  by (simp add: poll_round_def claim_from_eq upt_rec even_iff_mod_2_eq_zero)

lemma second_stream_starves: "busy_rounds k 0 = replicate k [0]"
proof -
  have "even (unat c) \<Longrightarrow> busy_rounds k c = replicate k [0]" for c
  proof (induction k arbitrary: c)
    case (Suc k)
    have "unat (c + 2) mod 2 = unat c mod 2" by (simp add: unat_word_ariths mod_mod_cancel)
    with Suc show ?case by (simp add: poll_two [simplified] even_iff_mod_2_eq_zero)
  qed simp
  then show ?thesis by simp
qed

text \<open>Moves of one worker on a stream that is otherwise free, and a removal that runs into a long frame: it is
  reported failed and the stream stays in the map, but its source thread has ended, so it never
  gets a frame again.\<close>

definition at_phase :: "phase \<Rightarrow> bool \<Rightarrow> remover \<Rightarrow> bool \<Rightarrow> life" where
  "at_phase p rm r src = \<lparr>li_in_map = (r \<noteq> Detached), li_removing = rm, li_busy = in_batch p,
     li_phase = (\<lambda>_. Away)(0 := p), li_remover = r, li_source = src, li_has_frame = (p \<in> {Holding, Checked})\<rparr>"

lemma at_phase_locked: "locked (at_phase p rm r src) \<longleftrightarrow> p \<in> {Holding, Checked, Processing}"
  by (auto simp: locked_def at_phase_def)

lemma into_frame: "life_run new_life [Frame_Read, Lock 0, Check 0, Claim 0, Look 0, Begin 0, Remove_Asked, Source_Ends]
    (at_phase Processing True Waiting False)"
proof -
  define s1 where "s1 = new_life\<lparr>li_has_frame := True\<rparr>"
  have u: "\<not> locked s1" by (simp add: s1_def locked_def new_life_def)
  have a: "life_step new_life Frame_Read s1" unfolding s1_def by (rule life_step.frame_read) (simp add: new_life_def)
  have b: "life_step s1 (Lock 0) (at_phase Holding False Not_Removing True)"
    using life_step.lock [OF u, of 0] by (simp add: s1_def new_life_def at_phase_def)
  have b': "life_step (at_phase Holding False Not_Removing True) (Check 0) (at_phase Checked False Not_Removing True)"
    using life_step.check [of "at_phase Holding False Not_Removing True" 0] by (simp add: at_phase_def)
  have c: "life_step (at_phase Checked False Not_Removing True) (Claim 0) (at_phase Claimed False Not_Removing True)"
    using life_step.claim [of "at_phase Checked False Not_Removing True" 0] by (simp add: at_phase_def)
  have c': "life_step (at_phase Claimed False Not_Removing True) (Look 0) (at_phase Passed False Not_Removing True)"
    using life_step.look [of "at_phase Claimed False Not_Removing True" 0] by (simp add: at_phase_def)
  have d: "life_step (at_phase Passed False Not_Removing True) (Begin 0) (at_phase Processing False Not_Removing True)"
    using life_step.enter [of "at_phase Passed False Not_Removing True" 0]
    by (simp add: at_phase_locked del: fun_upd_apply) (simp add: at_phase_def)
  have e: "life_step (at_phase Processing False Not_Removing True) Remove_Asked (at_phase Processing True Waiting True)"
    using life_step.remove_asked [of "at_phase Processing False Not_Removing True"] by (simp add: at_phase_def)
  have f: "life_step (at_phase Processing True Waiting True) Source_Ends (at_phase Processing True Waiting False)"
    using life_step.source_ends [of "at_phase Processing True Waiting True"] by (simp add: at_phase_def)
  show ?thesis by (intro life_run.intros(2) [OF a] life_run.intros(2) [OF b] life_run.intros(2) [OF b']
        life_run.intros(2) [OF c] life_run.intros(2) [OF c'] life_run.intros(2) [OF d] life_run.intros(2) [OF e]
        life_run.intros(2) [OF f] life_run.intros(1))
qed

lemma failed_removal_stops_the_source:
  "\<exists>ms (s :: life). life_run new_life ms s \<and> li_remover s = Timed_Out \<and> li_in_map s \<and> \<not> li_removing s \<and>
     (\<forall>ms' s'. life_run s ms' s' \<longrightarrow> Frame_Read \<notin> set ms')"
proof -
  define s where "s = at_phase Processing False Timed_Out False"
  have "life_step (at_phase Processing True Waiting False) Remove_Timed_Out s"
    using life_step.remove_timed_out [of "at_phase Processing True Waiting False"] by (simp add: s_def at_phase_def)
  then have "life_run (at_phase Processing True Waiting False) [Remove_Timed_Out] s"
    by (rule life_run.intros(2) [OF _ life_run.intros(1)])
  then have r: "life_run new_life ([Frame_Read, Lock 0, Check 0, Claim 0, Look 0, Begin 0, Remove_Asked, Source_Ends] @ [Remove_Timed_Out]) s"
    by (rule life_run_append [OF into_frame])
  have "\<not> li_source s" "li_remover s = Timed_Out" "li_in_map s" "\<not> li_removing s" by (simp_all add: s_def at_phase_def)
  with r sourceless_run show ?thesis by blast
qed

section \<open>Properties\<close>

text \<open>C19: a polling round claims, in cyclic order from the cursor, the first streams that can be claimed, up to the batch
  size; as long as the cursor does not wrap it visits every stream exactly once, so with room in the batch
  every claimable stream is claimed. Afterwards the cursor, wherever other workers moved it, advances by one more than the
  batch.\<close>

theorem round_claims_in_order:
  assumes "poll_round claimable n max_batch cursor later = (cursor', batch)" "0 < n" "unat cursor + n \<le> 2 ^ 64"
  shows "batch = take max_batch (filter claimable (polled cursor n)) \<and> distinct (polled cursor n) \<and>
    set (polled cursor n) = {..<n} \<and> cursor' = later + of_nat (length batch) + 1 \<and>
    (n \<le> max_batch \<longrightarrow> set batch = {i. i < n \<and> claimable i})"
proof -
  have "cursor' = later + of_nat (length batch) + 1" "batch = claim_from claimable n max_batch cursor [0..<n] []"
    using assms(1,2) by (auto simp: poll_round_def Let_def)
  then have b: "batch = take max_batch (filter claimable (polled cursor n))" "cursor' = later + of_nat (length batch) + 1"
    by (simp_all add: polled_def claim_from_eq)
  note p = polled_perm [OF assms(3,2)]
  have "set batch = {i. i < n \<and> claimable i}" if "n \<le> max_batch"
  proof -
    have "length (filter claimable (polled cursor n)) \<le> max_batch"
      using that length_filter_le [of claimable "polled cursor n"] by (simp add: polled_def)
    then show ?thesis using b(1) p(2) by auto
  qed
  with b p show ?thesis by blast
qed

text \<open>C20: at most one worker is anywhere between its check of a stream and letting it go, the busy flag says so from the claim on, at
  most one worker holds the stream's lock, and once a removal has found the stream free no worker claims it or starts a frame of it, whatever
  happens next; a detached stream is out of the map and its source thread has ended.\<close>

theorem removed_stream_is_left_alone:
  assumes "life_run new_life ms s" "life_run s ms' s'"
  shows "(\<forall>v w. li_phase s v \<in> {Away, Holding} \<or> li_phase s w \<in> {Away, Holding} \<or> v = w) \<and>
    (\<forall>v w. li_phase s v \<notin> {Holding, Checked, Processing} \<or> li_phase s w \<notin> {Holding, Checked, Processing} \<or> v = w) \<and>
    (li_busy s \<longleftrightarrow> (\<exists>w. li_phase s w \<in> {Claimed, Passed, Processing, Turn_Over})) \<and>
    (li_remover s \<notin> {Released, Detached} \<or>
       (\<forall>w. li_phase s w \<in> {Away, Holding} \<and> Claim w \<notin> set ms' \<and> Begin w \<notin> set ms')) \<and>
    (li_remover s \<noteq> Detached \<or> (\<not> li_in_map s \<and> \<not> li_source s))"
proof -
  have inv: "life_inv s" by (rule life_inv_run [OF assms(1) life_inv_new])
  then have "at_most_one engaged s" "at_most_one has_lock s" "li_busy s \<longleftrightarrow> (\<exists>w. in_batch (li_phase s w))"
    "li_remover s = Detached \<longrightarrow> \<not> li_in_map s \<and> \<not> li_source s"
    by (simp_all add: life_inv_def del: in_batch.simps)
  moreover have "\<not> engaged (li_phase s w) \<and> Claim w \<notin> set ms' \<and> Begin w \<notin> set ms'"
    if "li_remover s \<in> {Released, Detached}" for w
    using released_run [OF assms(2) inv that] released_not_engaged [OF inv that] by blast
  ultimately show ?thesis unfolding at_most_one_def engaged.simps has_lock.simps in_batch.simps by blast
qed

section \<open>Concrete instances\<close>

theorem round_claims_in_order_witness:
  "poll_round (\<lambda>i. i \<noteq> 1) 3 8 4 9 = (12, [2, 0]) \<and> set [2, 0] = {i. i < 3 \<and> i \<noteq> (1 :: nat)}"
proof -
  have r: "poll_round (\<lambda>i. i \<noteq> 1) 3 8 4 9 = (12, [2, 0])" by (simp add: poll_round_def claim_from_eq upt_rec)
  have h: "(0 :: nat) < 3" "unat (4 :: u64) + 3 \<le> 2 ^ 64" by simp_all
  have "(3 :: nat) \<le> 8 \<longrightarrow> set [2, 0] = {i. i < 3 \<and> i \<noteq> (1 :: nat)}"
    using round_claims_in_order [OF r h] by (elim conjE)
  with r show ?thesis by simp
qed

theorem removed_stream_is_left_alone_witness:
  "\<exists>s :: life. li_remover s = Detached \<and> \<not> li_in_map s \<and> \<not> li_source s"
proof -
  define s where "s = at_phase Away True Detached False"
  have a: "life_step (at_phase Processing True Waiting False) (Finish 0) (at_phase Turn_Over True Waiting False)"
    using life_step.finish [of "at_phase Processing True Waiting False" 0] by (simp add: at_phase_def)
  have b: "life_step (at_phase Turn_Over True Waiting False) (Let_Go 0) (at_phase Away True Waiting False)"
    using life_step.let_go [of "at_phase Turn_Over True Waiting False" 0]
    by (simp add: at_phase_locked del: fun_upd_apply) (simp add: at_phase_def)
  have c: "life_step (at_phase Away True Waiting False) Remove_Released (at_phase Away True Released False)"
    using life_step.remove_released [of "at_phase Away True Waiting False"]
    by (simp add: at_phase_locked del: fun_upd_apply) (simp add: at_phase_def)
  have d: "life_step (at_phase Away True Released False) Remove_Detached s"
    using life_step.remove_detached [of "at_phase Away True Released False"] by (simp add: s_def at_phase_def)
  have "life_run (at_phase Processing True Waiting False) [Finish 0, Let_Go 0, Remove_Released, Remove_Detached] s"
    by (intro life_run.intros(2) [OF a] life_run.intros(2) [OF b] life_run.intros(2) [OF c]
        life_run.intros(2) [OF d] life_run.intros(1))
  from removed_stream_is_left_alone [OF life_run_append [OF into_frame this] life_run.intros(1)]
  show ?thesis by (intro exI [of _ s]) (simp add: s_def at_phase_def)
qed

end
