(* ===== verification/Runtime_Config.thy ===== *)
theory Runtime_Config
  imports Pool
begin

text \<open>
  The configuration of the runtime and the checked access to the fields of a control line:
  the first part of \<open>core-cpp/vb/src/runtime.cpp\<close>. An accessor either gives the value or the error text of
  the reply. A conversion that throws is caught by \<open>from_json\<close>, which reports it.
\<close>

section \<open>Field access\<close>

definition json_get_str :: "json \<Rightarrow> string \<Rightarrow> string \<Rightarrow> string" where
  "json_get_str j key dflt = (case json_find key j of Some (JStr s) \<Rightarrow> s | _ \<Rightarrow> dflt)"

definition missing :: "string \<Rightarrow> string" where
  "missing key = ''missing or invalid field: '' @ key"

definition out_of_range :: "string \<Rightarrow> string" where
  "out_of_range key = ''out of range field: '' @ key"

definition need_object :: "json \<Rightarrow> string \<Rightarrow> string + json" where
  "need_object j key =
    (case json_find key j of None \<Rightarrow> Inl (missing key) | Some v \<Rightarrow> if is_object v then Inr v else Inl (missing key))"

definition need_u32 :: "json \<Rightarrow> string \<Rightarrow> string + u32" where
  "need_u32 j key =
    (case json_find key j of
       None \<Rightarrow> Inl (missing key)
     | Some v \<Rightarrow>
         if \<not> is_number_integer v then Inl (missing key)
         else if int64_of v < 0 \<or> int64_of v > 4294967295 then Inl (out_of_range key)
         else Inr (word_of_int (int64_of v)))"

definition need_u64 :: "json \<Rightarrow> string \<Rightarrow> string + u64" where
  "need_u64 j key =
    (case json_find key j of
       None \<Rightarrow> Inl (missing key)
     | Some v \<Rightarrow>
         if \<not> is_number_integer v then Inl (missing key)
         else if int64_of v < 0 then Inl (out_of_range key)
         else Inr (word_of_int (int64_of v)))"

definition need_int :: "json \<Rightarrow> string \<Rightarrow> string + int" where
  "need_int j key =
    (case json_find key j of
       None \<Rightarrow> Inl (missing key)
     | Some v \<Rightarrow> if \<not> is_number_integer v then Inl (missing key) else Inr (int32_of v))"

definition need_number :: "json \<Rightarrow> string \<Rightarrow> string + f64" where
  "need_number j key =
    (case json_find key j of
       None \<Rightarrow> Inl (missing key)
     | Some v \<Rightarrow> if \<not> is_number v then Inl (missing key) else Inr (num64 v))"

definition need_string :: "json \<Rightarrow> string \<Rightarrow> string + string" where
  "need_string j key = (case json_find key j of Some (JStr s) \<Rightarrow> Inr s | _ \<Rightarrow> Inl (missing key))"

definition need_bool :: "json \<Rightarrow> string \<Rightarrow> string + bool" where
  "need_bool j key = (case json_find key j of Some (JBool b) \<Rightarrow> Inr b | _ \<Rightarrow> Inl (missing key))"

text \<open>An optional field: absent or null is the default.\<close>

definition opt_u64 :: "json \<Rightarrow> string \<Rightarrow> u64 \<Rightarrow> string + u64" where
  "opt_u64 j key dflt = (case given key j of None \<Rightarrow> Inr dflt | Some _ \<Rightarrow> need_u64 j key)"

definition opt_u32 :: "json \<Rightarrow> string \<Rightarrow> u32 \<Rightarrow> string + u32" where
  "opt_u32 j key dflt = (case given key j of None \<Rightarrow> Inr dflt | Some _ \<Rightarrow> need_u32 j key)"

definition opt_int :: "json \<Rightarrow> string \<Rightarrow> int \<Rightarrow> string + int" where
  "opt_int j key dflt = (case given key j of None \<Rightarrow> Inr dflt | Some _ \<Rightarrow> need_int j key)"

definition opt_bool :: "json \<Rightarrow> string \<Rightarrow> bool \<Rightarrow> string + bool" where
  "opt_bool j key dflt = (case given key j of None \<Rightarrow> Inr dflt | Some _ \<Rightarrow> need_bool j key)"

definition has_so_suffix :: "string \<Rightarrow> bool" where
  "has_so_suffix name \<longleftrightarrow> length name > 3 \<and> drop (length name - 3) name = ''.so''"

section \<open>Configuration\<close>

record caps =
  cp_max_contexts :: int
  cp_max_batch :: int
  cp_keypoints :: int
  cp_exclusive_device :: bool

record runtime_config =
  rc_backend_name :: string
  rc_backend_json :: string
  rc_contexts :: int
  rc_open_timeout_s :: f64
  rc_reconnect_delay_s :: f64
  rc_status_interval_s :: f64
  rc_tracker :: tk_config
  rc_tracker_enabled :: bool
  rc_plugin_paths :: "string list"
  rc_snapshot_ring :: int
  rc_dev :: dev_config

definition default_runtime_config :: runtime_config where
  "default_runtime_config = \<lparr>rc_backend_name = ''synthetic'', rc_backend_json = ''{}'', rc_contexts = 1,
     rc_open_timeout_s = lit 5, rc_reconnect_delay_s = lit 1, rc_status_interval_s = lit 1, rc_tracker = default_tk_config,
     rc_tracker_enabled = True, rc_plugin_paths = [], rc_snapshot_ring = 2, rc_dev = default_dev_config\<rparr>"

definition py_repr :: "libs \<Rightarrow> json \<Rightarrow> string" where
  "py_repr lb v = (case v of JStr s \<Rightarrow> [CHR 0x27] @ s @ [CHR 0x27] | _ \<Rightarrow> lb_dump lb v)"

definition unsupported :: "libs \<Rightarrow> string \<Rightarrow> string \<Rightarrow> json \<Rightarrow> string" where
  "unsupported lb what only v = what @ '': '' @ py_repr lb v @ '' is not supported by this vb-runtime (only '' @ only @ '')''"

definition check_value :: "libs \<Rightarrow> string \<Rightarrow> string \<Rightarrow> (json \<Rightarrow> bool) \<Rightarrow> json option \<Rightarrow> unit outcome" where
  "check_value lb what only good v =
    (case v of None \<Rightarrow> Returned () | Some x \<Rightarrow> check (good x) (unsupported lb what only x))"

definition check_supported_values :: "libs \<Rightarrow> json \<Rightarrow> unit outcome" where
  "check_supported_values lb j =
    and_then (get_at ''backend'' j) (\<lambda>backend.
    and_then (if is_object backend then
        and_then (check_value lb ''backend.align'' [CHR 0x27, CHR ''c'', CHR ''e'', CHR ''n'', CHR ''t'', CHR ''e'', CHR ''r'', CHR 0x27]
          (\<lambda>v. v = JStr ''center'') (given ''align'' backend)) (\<lambda>_.
        check_value lb ''backend.nms_threshold'' ''0.45''
          (\<lambda>v. is_number v \<and> feq (num64 v) (lit (45/100))) (given ''nms_threshold'' backend))
      else Returned ()) (\<lambda>_.
    case json_find ''native'' j of
      None \<Rightarrow> Returned ()
    | Some native \<Rightarrow>
        if is_object native then
          check_value lb ''native.jpeg_quality'' ''85'' (\<lambda>v. is_number v \<and> feq (num64 v) (lit 85)) (given ''jpeg_quality'' native)
        else Returned ()))"

text \<open>\<open>get<int>()\<close>: a floating-point value is truncated (a value outside \<open>int\<close> is undefined in C++ and 0
  here), a boolean is 0 or 1.\<close>

fun get_int :: "json \<Rightarrow> int outcome" where
  "get_int (JInt i) = Returned (int32_of (JInt i))"
| "get_int (JNum x) = Returned (fl_to_int x)"
| "get_int (JBool b) = Returned (if b then 1 else 0)"
| "get_int _ = Thrown"

definition read_int :: "json \<Rightarrow> string \<Rightarrow> int \<Rightarrow> int outcome" where
  "read_int j key dflt =
    (case given key j of
       Some v \<Rightarrow> get_int v
     | None \<Rightarrow>
         (case json_find ''runtime'' j of
            None \<Rightarrow> Returned dflt
          | Some rt \<Rightarrow>
              if is_object rt then (case given key rt of Some v \<Rightarrow> get_int v | None \<Rightarrow> Returned dflt)
              else Returned dflt))"

text \<open>A null at the top level is the default at once, another value that is not a number is passed over.\<close>

definition read_dbl :: "json \<Rightarrow> string \<Rightarrow> f64 \<Rightarrow> f64" where
  "read_dbl j key dflt =
    (if json_find key j = Some JNull then dflt
     else
       case json_find key j of
         Some (JInt i) \<Rightarrow> num64 (JInt i)
       | Some (JNum x) \<Rightarrow> num64 (JNum x)
       | _ \<Rightarrow>
           (case json_find ''runtime'' j of
              None \<Rightarrow> dflt
            | Some rt \<Rightarrow>
                if is_object rt then
                  (case json_find key rt of None \<Rightarrow> dflt | Some v \<Rightarrow> if is_number v then num64 v else dflt)
                else dflt))"

definition num_or :: "json \<Rightarrow> string \<Rightarrow> f64 \<Rightarrow> f64" where
  "num_or tr k d = (case json_find k tr of Some v \<Rightarrow> if is_number v then num64 v else d | None \<Rightarrow> d)"

definition int_or :: "json \<Rightarrow> string \<Rightarrow> int \<Rightarrow> int outcome" where
  "int_or tr k d = (case json_find k tr of Some v \<Rightarrow> if is_number v then get_int v else Returned d | None \<Rightarrow> Returned d)"

fun tracker_enabled_of :: "json option \<Rightarrow> bool outcome" where
  "tracker_enabled_of None = Returned True"
| "tracker_enabled_of (Some (JBool b)) = Returned b"
| "tracker_enabled_of (Some _) = Refused ''tracker.enabled: must be a boolean''"

definition read_tracker :: "json \<Rightarrow> runtime_config \<Rightarrow> runtime_config outcome" where
  "read_tracker tr c =
    and_then (tracker_enabled_of (given ''enabled'' tr)) (\<lambda>en.
    and_then (int_or tr ''max_misses'' 15) (\<lambda>misses.
    and_then (int_or tr ''min_hits'' 1) (\<lambda>hits.
    and_then (int_or tr ''class_aware'' 1) (\<lambda>aware.
    Returned (c\<lparr>rc_tracker_enabled := en, rc_tracker :=
      \<lparr>tk_iou_threshold = fconv (num_or tr ''iou_threshold'' (lit (2/10))),
       tk_dist_threshold = fconv (num_or tr ''dist_threshold'' (lit (15/100))), tk_max_misses = misses,
       tk_max_lost_s = fconv (num_or tr ''max_lost_s'' 0), tk_min_hits = hits, tk_class_aware = (aware \<noteq> 0),
       tk_anchor = (if json_get_str tr ''anchor'' ''center'' = ''bottom_center'' then Anchor_BottomCenter else Anchor_Center)\<rparr>\<rparr>)))))"

text \<open>\<open>std::stoi\<close>: leading white space, a sign, digits, the rest ignored; no digits or a value outside \<open>int\<close> throw.\<close>

definition is_space :: "char \<Rightarrow> bool" where
  "is_space ch \<longleftrightarrow> ch = CHR '' '' \<or> (9 \<le> (of_char ch :: nat) \<and> (of_char ch :: nat) \<le> 13)"

definition is_digit :: "char \<Rightarrow> bool" where
  "is_digit ch \<longleftrightarrow> 48 \<le> (of_char ch :: nat) \<and> (of_char ch :: nat) \<le> 57"

definition stoi :: "string \<Rightarrow> int outcome" where
  "stoi s =
    (let t = dropWhile is_space s;
         (neg, u) = (case t of [] \<Rightarrow> (False, []) | ch # rest \<Rightarrow>
            if ch = CHR ''-'' then (True, rest) else if ch = CHR ''+'' then (False, rest) else (False, t));
         ds = takeWhile is_digit u;
         v = foldl (\<lambda>a ch. 10 * a + (of_char ch - 48)) 0 ds; w = (if neg then - v else v)
     in if ds = [] \<or> w < - (2 ^ 31) \<or> w \<ge> 2 ^ 31 then Thrown else Returned w)"

fun ring_frames :: "json \<Rightarrow> int \<Rightarrow> int outcome" where
  "ring_frames (JStr s) dflt = and_then (stoi s) (\<lambda>k. Returned (max 0 k))"
| "ring_frames (JInt i) dflt = and_then (get_int (JInt i)) (\<lambda>k. Returned (max 0 k))"
| "ring_frames (JNum x) dflt = and_then (get_int (JNum x)) (\<lambda>k. Returned (max 0 k))"
| "ring_frames _ dflt = Returned dflt"

definition read_ring :: "json option \<Rightarrow> int outcome" where
  "read_ring v =
    (case v of
       None \<Rightarrow> Returned 2
     | Some ring \<Rightarrow>
         if is_object ring
         then (case json_find ''frames'' ring of None \<Rightarrow> Returned 2 | Some fr \<Rightarrow> ring_frames fr 2)
         else ring_frames ring 2)"

definition read_plugins :: "json \<Rightarrow> string list outcome" where
  "read_plugins j =
    (case json_find ''analyzers'' j of
       None \<Rightarrow> Returned []
     | Some an \<Rightarrow>
         (case (if is_object an then json_find ''plugins'' an else None) of
            None \<Rightarrow> Returned []
          | Some pl \<Rightarrow> if is_array pl then collect (\<lambda>p _. get_string p) (elements pl) [] else Returned []))"

definition lift_err :: "string + 'a \<Rightarrow> 'a outcome" where
  "lift_err r = (case r of Inl e \<Rightarrow> Refused e | Inr x \<Rightarrow> Returned x)"

text \<open>The body of the \<open>try\<close>.\<close>

definition config_body :: "libs \<Rightarrow> json \<Rightarrow> bool \<Rightarrow> runtime_config outcome" where
  "config_body lb j allow_dev =
    and_then (lift_err (dev_config_from_json j allow_dev default_dev_config)) (\<lambda>dev.
    and_then (get_at ''backend'' j) (\<lambda>backend.
    and_then (check_supported_values lb j) (\<lambda>_.
    and_then (get_at ''name'' backend) (\<lambda>nm.
    and_then (get_string nm) (\<lambda>name.
    and_then (read_int j ''contexts_per_worker'' 1) (\<lambda>contexts.
    and_then (let c = default_runtime_config\<lparr>rc_dev := dev, rc_backend_name := name, rc_backend_json := lb_dump lb backend,
          rc_contexts := max 1 contexts, rc_open_timeout_s := read_dbl j ''open_timeout_s'' (lit 5),
          rc_reconnect_delay_s := std_max 0 (read_dbl j ''reconnect_delay_s'' (lit 1)),
          rc_status_interval_s := std_max (lit (2/10)) (read_dbl j ''status_interval_s'' (lit 1))\<rparr>
        in case json_find ''tracker'' j of
             None \<Rightarrow> Returned c
           | Some tr \<Rightarrow> if is_object tr then read_tracker tr c else Returned c) (\<lambda>c.
    and_then (read_plugins j) (\<lambda>paths.
    and_then (read_ring (json_find ''snapshot_ring'' j)) (\<lambda>ring.
    Returned (c\<lparr>rc_plugin_paths := paths, rc_snapshot_ring := ring\<rparr>))))))))))"

definition from_json :: "libs \<Rightarrow> string \<Rightarrow> json \<Rightarrow> bool \<Rightarrow> string + runtime_config" where
  "from_json lb what j allow_dev =
    (case config_body lb j allow_dev of
       Returned c \<Rightarrow> Inr c
     | Refused e \<Rightarrow> Inl e
     | Thrown \<Rightarrow> Inl (''runtime config: '' @ what))"

section \<open>Facts\<close>

definition config_ok :: "bool \<Rightarrow> runtime_config \<Rightarrow> bool" where
  "config_ok allow_dev c \<longleftrightarrow> 1 \<le> rc_contexts c \<and> 0 \<le> rc_snapshot_ring c \<and> \<not> rc_reconnect_delay_s c < 0 \<and>
     \<not> rc_status_interval_s c < lit (2/10) \<and> (allow_dev \<or> \<not> dv_raw_tensors (rc_dev c)) \<and>
     dv_max_streams (rc_dev c) = 1 \<and> dv_max_fps (rc_dev c) > 0 \<and> \<not> dv_max_fps (rc_dev c) > lit 2"

lemma std_max_not_less: "\<not> std_max a b < (a :: ('e::len, 'p::len) fl)"
  by (simp add: std_max_def fl_less_asym)

lemma dev_config_ok:
  assumes "dev_config_from_json j allow_dev default_dev_config = Inr d"
  shows "(allow_dev \<or> \<not> dv_raw_tensors d) \<and> dv_max_streams d = 1 \<and> dv_max_fps d > 0 \<and> \<not> dv_max_fps d > lit 2"
proof -
  have dflt: "dv_max_fps default_dev_config > 0" "\<not> dv_max_fps default_dev_config > lit 2" by code_simp+
  have raw: "dev_raw_tensors v c = Inr c' \<Longrightarrow> dv_max_fps c' = dv_max_fps c \<and> dv_max_streams c' = dv_max_streams c" for v c c'
    by (cases "(v, c)" rule: dev_raw_tensors.cases) auto
  show ?thesis using assms dflt
    by (auto simp: dev_config_from_json_def bind_err_Inr dev_max_fps_def dev_max_streams_def default_dev_config_def
        split: option.splits if_splits dest!: raw)
qed

lemma ring_frames_nonneg: "ring_frames v d = Returned k \<Longrightarrow> 0 \<le> d \<Longrightarrow> 0 \<le> k"
  by (cases "(v, d)" rule: ring_frames.cases) (auto simp: and_then_Returned)

lemma read_ring_nonneg: "read_ring v = Returned k \<Longrightarrow> 0 \<le> k"
  by (auto simp: read_ring_def split: option.splits if_splits dest: ring_frames_nonneg)

lemma read_tracker_frame:
  "read_tracker tr c = Returned c' \<Longrightarrow> rc_contexts c' = rc_contexts c \<and> rc_dev c' = rc_dev c \<and>
     rc_reconnect_delay_s c' = rc_reconnect_delay_s c \<and> rc_status_interval_s c' = rc_status_interval_s c"
  by (auto simp: read_tracker_def and_then_Returned)

section \<open>Properties\<close>

text \<open>Whatever the text of a configuration holds, loading it ends with a configuration or an error text, never
  an exception, and an accepted configuration is within its bounds: at least one context, a
  snapshot ring that is not negative, delays and intervals not below their floors, and raw
  tensors only when the process was started for development, at most two frames per second and for one stream.\<close>

theorem accepted_config_is_bounded:
  assumes "from_json lb what j allow_dev = Inr c"
  shows "config_ok allow_dev c"
proof -
  obtain d c1 paths ring where h: "dev_config_from_json j allow_dev default_dev_config = Inr d"
    "read_ring (json_find ''snapshot_ring'' j) = Returned ring" "c = c1\<lparr>rc_plugin_paths := paths, rc_snapshot_ring := ring\<rparr>"
    and c1: "1 \<le> rc_contexts c1" "rc_dev c1 = d" "\<not> rc_reconnect_delay_s c1 < 0" "\<not> rc_status_interval_s c1 < lit (2/10)"
    using assms
    by (auto simp: from_json_def config_body_def and_then_Returned lift_err_def Let_def std_max_not_less
        split: outcome.splits sum.splits option.splits if_splits dest!: read_tracker_frame)
  with dev_config_ok [OF h(1)] read_ring_nonneg [OF h(2)] show ?thesis by (simp add: config_ok_def)
qed

section \<open>Concrete instances\<close>

definition cfg_libs :: libs where
  "cfg_libs = \<lparr>lb_parse = (\<lambda>s. Inl s), lb_dump = (\<lambda>j. []), lb_math = \<lparr>lm_atan2 = (\<lambda>y x. 0), lm_acos = (\<lambda>x. 0)\<rparr>\<rparr>"

definition cfg_json :: json where
  "cfg_json = json_obj [(''backend'', json_obj [(''name'', JStr ''cpu'')]), (''contexts_per_worker'', JInt (- 4)),
     (''snapshot_ring'', JStr '' 3x''), (''reconnect_delay_s'', JNum (lit (-1)))]"

theorem accepted_config_is_bounded_witness:
  "(case from_json cfg_libs [] cfg_json False of Inl e \<Rightarrow> False
    | Inr c \<Rightarrow> config_ok False c \<and> rc_contexts c = 1 \<and> rc_snapshot_ring c = 3 \<and> rc_backend_name c = ''cpu'')"
proof -
  have "(case from_json cfg_libs [] cfg_json False of Inl e \<Rightarrow> False
    | Inr c \<Rightarrow> rc_contexts c = 1 \<and> rc_snapshot_ring c = 3 \<and> rc_backend_name c = ''cpu'')" by code_simp
  then show ?thesis using accepted_config_is_bounded [of cfg_libs "[]" cfg_json False] by (auto split: sum.splits)
qed

end
