(* ===== verification/Runtime_Control.thy ===== *)
theory Runtime_Control
  imports Runtime_Config
begin

text \<open>
  The control operations of \<open>core-cpp/vb/src/runtime.cpp\<close>. The runtime is a record with the map of
  streams; an operation takes the parsed control line and gives the runtime, the records it sends and how it
  ended. What the operation meets outside, the backend, the source, the JPEG encoder and whether a context
  thread got to the stream in time, is in an environment record.
\<close>

section \<open>State\<close>

record 'p plugin_entry =
  pe_id :: string
  pe_path :: string
  pe_api :: "'p vb_analyzer_api"

record 'p runtime =
  rt_cfg :: runtime_config
  rt_caps :: caps
  rt_max_batch :: int
  rt_streams :: "(u32, 'p stream_state) omap"
  rt_plugins :: "'p plugin_entry list"
  rt_dev_active :: bool
  rt_oversize :: u64
  rt_stop_requested :: bool

definition decoder_is_raw :: "libs \<Rightarrow> string \<Rightarrow> bool" where
  "decoder_is_raw lb backend_json =
    (case lb_parse lb backend_json of
       Inl _ \<Rightarrow> False
     | Inr bj \<Rightarrow>
         (case json_find ''decoder'' bj of
            None \<Rightarrow> False
          | Some d \<Rightarrow> is_object d \<and> json_find ''type'' d = Some (JStr ''raw'')))"

definition new_runtime :: "libs \<Rightarrow> caps \<Rightarrow> runtime_config \<Rightarrow> 'p runtime" where
  "new_runtime lb cp cfg =
     \<lparr>rt_cfg = cfg\<lparr>rc_contexts := min (rc_contexts cfg) (max 1 (cp_max_contexts cp))\<rparr>, rt_caps = cp,
      rt_max_batch = max 1 (cp_max_batch cp), rt_streams = [], rt_plugins = [],
      rt_dev_active = (dv_raw_tensors (rc_dev cfg) \<and> decoder_is_raw lb (rc_backend_json cfg)),
      rt_oversize = 0, rt_stop_requested = False\<rparr>"

text \<open>\<open>load\<close> is \<open>load_plugin_api\<close> on the dynamic linker at hand.\<close>

fun load_configured_plugins :: "(string \<Rightarrow> string + 'p vb_analyzer_api) \<Rightarrow> string list \<Rightarrow> 'p plugin_entry list \<Rightarrow>
    string + 'p plugin_entry list" where
  "load_configured_plugins load [] ps = Inr ps"
| "load_configured_plugins load (path # rest) ps =
    (case load path of
       Inl e \<Rightarrow> Inl e
     | Inr api \<Rightarrow>
         let pid = (case va_name api of None \<Rightarrow> [] | Some n \<Rightarrow> n) in
         case find (\<lambda>e. pe_id e = pid) ps of
           Some e \<Rightarrow> Inl (''duplicate analyzer plugin id '' @ [CHR 0x27] @ pid @ [CHR 0x27] @ '' ('' @ pe_path e @ '', '' @ path @ '')'')
         | None \<Rightarrow> load_configured_plugins load rest (ps @ [\<lparr>pe_id = pid, pe_path = path, pe_api = api\<rparr>]))"

definition make_stream_analyzer :: "'p plugin_entry list \<Rightarrow> string \<Rightarrow> string + 'p chained" where
  "make_stream_analyzer ps name =
    (if CHR ''/'' \<in> set name \<or> has_so_suffix name then Inl (''analyzer name must not be a path: '' @ name)
     else if take 7 name = ''plugin:'' then
       let pid = drop 7 name in
       (case find (\<lambda>p. pe_id p = pid) ps of
          Some p \<Rightarrow> Inr (Plugin (pe_api p) None)
        | None \<Rightarrow> Inl (''unknown plugin: '' @ pid @ '' (not registered in analyzers.plugins)''))
     else map_sum (\<lambda>e. e) Built (create_analyzer name))"

section \<open>Records\<close>

text \<open>What an operation sends; control records are encoded by \<open>push_reply_record\<close>.\<close>

datatype sent_record = Control json | Snapshot json "u8 list"

fun encode_sent :: "libs \<Rightarrow> sent_record \<Rightarrow> push" where
  "encode_sent lb (Control j) = Push_Event (wire_encode_json_record ''VBC1'' (ascii (lb_dump lb j)) [])"
| "encode_sent lb (Snapshot meta jpeg) = Push_Event (wire_encode_vbs1 (ascii (lb_dump lb meta)) jpeg [])"

definition reply_ok :: "string \<Rightarrow> json \<Rightarrow> sent_record" where
  "reply_ok req applied = Control (json_obj [(''op'', JStr ''reply''), (''req'', JStr req), (''ok'', JBool True), (''applied'', applied)])"

definition reply_err :: "string \<Rightarrow> string \<Rightarrow> sent_record" where
  "reply_err req e = Control (json_obj [(''op'', JStr ''reply''), (''req'', JStr req), (''ok'', JBool False), (''error'', JStr e)])"

definition stream_state_record :: "u32 \<Rightarrow> string \<Rightarrow> string \<Rightarrow> sent_record" where
  "stream_state_record index state e = Control (json_obj ([(''op'', JStr ''stream_state''), (''stream_index'', JInt (uint index)),
     (''state'', JStr state)] @ (if e \<noteq> [] then [(''error'', JStr e)] else [])))"

definition emit_stream_state :: "'p stream_state \<Rightarrow> string \<Rightarrow> string \<Rightarrow> 'p stream_state \<times> sent_record" where
  "emit_stream_state s state e =
     (s\<lparr>ss_metrics := record_state state e (ss_metrics s)\<rparr>, stream_state_record (ss_index s) state e)"

text \<open>How an operation ended: normally, by an exception that \<open>handle_line\<close> catches, or with the program.\<close>

datatype op_end = Done | Threw | Terminated

section \<open>Adding a stream\<close>

record backend_env =
  be_create_source :: "stream_spec \<Rightarrow> string + string"
  be_opens :: "(string + unit) list"
  be_stopping :: bool

fun build_chain :: "libs \<Rightarrow> 'p runtime \<Rightarrow> json list \<Rightarrow> (string \<times> 'p chained) list \<Rightarrow> (string \<times> 'p chained) list outcome" where
  "build_chain lb rt [] acc = Returned acc"
| "build_chain lb rt (aj # rest) acc =
    and_then (check (is_object aj) ''analyzer entry must be an object'') (\<lambda>_.
    and_then (lift_err (need_string aj ''name'')) (\<lambda>name.
    and_then (case given ''config'' aj of
        None \<Rightarrow> Returned ''{}''
      | Some cj \<Rightarrow> and_then (check (is_object cj) ''analyzer config must be an object'') (\<lambda>_. Returned (lb_dump lb cj))) (\<lambda>cfg.
    and_then (lift_err (make_stream_analyzer (rt_plugins rt) name)) (\<lambda>a.
    and_then (check (rc_tracker_enabled (rt_cfg rt) \<or> \<not> ca_needs_tracks a) (name @ '' requires tracks (tracker.enabled=false)'')) (\<lambda>_.
    case ca_configure lb cfg a of (a', r) \<Rightarrow>
    and_then r (\<lambda>_.
    and_then (check (\<not> (ca_min_keypoints a' > 0 \<and> (word_of_int (cp_keypoints (rt_caps rt)) :: u32) < ca_min_keypoints a'))
        (name @ '' requires keypoints'')) (\<lambda>_.
    build_chain lb rt rest (acc @ [(name, a')]))))))))"

text \<open>The open loop as the list of its attempts: the last one is the one at the deadline or the stop.\<close>

fun open_loop :: "(string + unit) list \<Rightarrow> string + unit" where
  "open_loop [] = Inl []"
| "open_loop (Inr u # rest) = Inr ()"
| "open_loop (Inl e # rest) = (if rest = [] then Inl e else open_loop rest)"

definition fresh_stream :: "'p runtime \<Rightarrow> stream_spec \<Rightarrow> string \<Rightarrow> (string \<times> 'p chained) list \<Rightarrow> 'p stream_state" where
  "fresh_stream rt spec decode chain =
    (let cfg = rt_cfg rt in
     \<lparr>ss_index = ssp_index spec, ss_spec = spec, ss_latest = new_latest_frame, ss_tracker = new_vb_tracker (rc_tracker cfg),
      ss_track_enabled = rc_tracker_enabled cfg, ss_chain = chain,
      ss_metrics = set_decode_path decode (record_state ''starting'' [] new_stream_metrics), ss_pending_score = None,
      ss_pending_cfg = None, ss_drop_baseline = 0, ss_ring_cap = rc_snapshot_ring cfg, ss_ring = [],
      ss_got_first_frame = False, ss_limiter = set_max_fps (dv_max_fps (rc_dev cfg)) (new_rate_limiter (lit 1)),
      ss_source_alive = True\<rparr>)"

definition add_stream_locked :: "libs \<Rightarrow> backend_env \<Rightarrow> stream_spec \<Rightarrow> json list \<Rightarrow> 'p runtime \<Rightarrow>
    'p runtime \<times> sent_record list \<times> unit outcome" where
  "add_stream_locked lb env spec analyzers rt =
    (if om_find (ssp_index spec) (rt_streams rt) \<noteq> None then
       (rt, [], Refused (''stream index already in use: '' @ dec_digits (unat (ssp_index spec))))
     else if dv_raw_tensors (rc_dev (rt_cfg rt)) \<and> int (length (rt_streams rt)) \<ge> dv_max_streams (rc_dev (rt_cfg rt)) then
       (rt, [], Refused (''dev mode allows '' @ dec_digits (nat (dv_max_streams (rc_dev (rt_cfg rt)))) @ '' stream''))
     else
       case be_create_source env spec of
         Inl e \<Rightarrow> (rt, [], Refused e)
       | Inr decode \<Rightarrow>
           (case build_chain lb rt analyzers [] of
              Refused e \<Rightarrow> (rt, [], Refused e)
            | Thrown \<Rightarrow> (rt, [], Thrown)
            | Returned chain \<Rightarrow>
                let (s, starting) = emit_stream_state (fresh_stream rt spec decode chain) ''starting'' [] in
                (case open_loop (be_opens env) of
                   Inl e \<Rightarrow> (rt, [starting], Refused e)
                 | Inr _ \<Rightarrow>
                     if be_stopping env then (rt, [starting], Refused ''runtime stopping'')
                     else (rt\<lparr>rt_streams := om_put (ssp_index spec) s (rt_streams rt)\<rparr>, [starting], Returned ()))))"

definition stream_spec_of :: "libs \<Rightarrow> json \<Rightarrow> stream_spec outcome" where
  "stream_spec_of lb sj =
    and_then (lift_err (need_u32 sj ''index'')) (\<lambda>index.
    and_then (lift_err (need_string sj ''url'')) (\<lambda>url.
    and_then (case given ''score_threshold'' sj of
        None \<Rightarrow> Returned (lit (35/100))
      | Some v \<Rightarrow> and_then (check (is_number v) ''invalid field: score_threshold'') (\<lambda>_. Returned (num32 v))) (\<lambda>score.
    Returned \<lparr>ssp_index = index, ssp_id = json_get_str sj ''id'' [], ssp_url = url, ssp_name = json_get_str sj ''name'' [],
      ssp_transport = json_get_str sj ''transport'' ''tcp'', ssp_score_threshold = score,
      ssp_options_json = (case given ''options'' sj of None \<Rightarrow> ''{}'' | Some o' \<Rightarrow> lb_dump lb o')\<rparr>)))"

definition op_add :: "libs \<Rightarrow> backend_env \<Rightarrow> json \<Rightarrow> 'p runtime \<Rightarrow> 'p runtime \<times> sent_record list \<times> op_end" where
  "op_add lb env line rt =
    (let req = json_get_str line ''req'' [] in
     case and_then (lift_err (need_object line ''stream'')) (\<lambda>sj. and_then (stream_spec_of lb sj) (\<lambda>spec.
         let an = (case json_find ''analyzers'' line of None \<Rightarrow> JArr [] | Some v \<Rightarrow> v)
         in and_then (check (is_array an) ''invalid field: analyzers'') (\<lambda>_. Returned (spec, elements an)))) of
       Refused e \<Rightarrow> (rt, [reply_err req e], Done)
     | Thrown \<Rightarrow> (rt, [], Threw)
     | Returned (spec, analyzers) \<Rightarrow>
         (case add_stream_locked lb env spec analyzers rt of
            (rt', out, Refused e) \<Rightarrow> (rt', out @ [reply_err req e], Done)
          | (rt', out, Thrown) \<Rightarrow> (rt', out, Threw)
          | (rt', out, Returned _) \<Rightarrow>
              (rt', out @ [reply_ok req (json_obj [(''stream_index'', JInt (uint (ssp_index spec)))])], Done)))"

section \<open>Removing a stream\<close>

text \<open>
  How the wait for the stream ended (the handshake itself is in \<open>Scheduling\<close>): it was seen free before the deadline, or it
  was not. In the second case \<open>removing\<close> is taken back, but while it was set the source thread may have seen it and ended (first
  flag), and a context thread may have skipped the frame it had claimed (second flag).
\<close>

datatype remove_wait = Seen_Free | Kept_Busy bool bool

definition remove_timeout :: "bool \<Rightarrow> bool \<Rightarrow> 'p stream_state \<Rightarrow> 'p stream_state" where
  "remove_timeout ended skipped s =
    (let s1 = (if skipped then s\<lparr>ss_latest := snd (lf_take (ss_latest s))\<rparr> else s)
     in if ended then s1\<lparr>ss_source_alive := False\<rparr> else s1)"

definition op_remove :: "remove_wait \<Rightarrow> json \<Rightarrow> 'p runtime \<Rightarrow> 'p runtime \<times> sent_record list \<times> op_end" where
  "op_remove w line rt =
    (let req = json_get_str line ''req'' [] in
     case need_u32 line ''stream_index'' of
       Inl e \<Rightarrow> (rt, [reply_err req e], Done)
     | Inr idx \<Rightarrow>
         (case om_find idx (rt_streams rt) of
            None \<Rightarrow> (rt, [reply_err req (''no stream '' @ dec_digits (unat idx))], Done)
          | Some s \<Rightarrow>
              (case w of
                 Kept_Busy ended skipped \<Rightarrow>
                   (rt\<lparr>rt_streams := om_put idx (remove_timeout ended skipped s) (rt_streams rt)\<rparr>,
                    [reply_err req (''remove timeout: stream '' @ dec_digits (unat idx) @ '' still busy'')], Done)
               | Seen_Free \<Rightarrow>
                   (rt\<lparr>rt_streams := om_del idx (rt_streams rt)\<rparr>,
                    [snd (emit_stream_state s ''stopped'' []), reply_ok req (json_obj [(''stream_index'', JInt (uint idx))])], Done))))"

section \<open>Threshold and analyzer configuration\<close>

text \<open>\<open>taken\<close>: a context thread reached the stream within the wait and applied what was pending.\<close>

definition op_set_threshold :: "bool \<Rightarrow> json \<Rightarrow> 'p runtime \<Rightarrow> 'p runtime \<times> sent_record list \<times> op_end" where
  "op_set_threshold taken line rt =
    (let req = json_get_str line ''req'' [] in
     case bind_err (need_u32 line ''stream_index'') (\<lambda>idx. bind_err (need_number line ''value'') (\<lambda>v. Inr (idx, v))) of
       Inl e \<Rightarrow> (rt, [reply_err req e], Done)
     | Inr (idx, v) \<Rightarrow>
         (case om_find idx (rt_streams rt) of
            None \<Rightarrow> (rt, [reply_err req (''no stream '' @ dec_digits (unat idx))], Done)
          | Some s \<Rightarrow>
              if taken then
                let s' = apply_pending_score (s\<lparr>ss_pending_score := Some (fconv v)\<rparr>)
                in (rt\<lparr>rt_streams := om_put idx s' (rt_streams rt)\<rparr>,
                    [reply_ok req (json_obj [(''stream_index'', JInt (uint (ss_index s))),
                       (''value'', json_of_f32 (ssp_score_threshold (ss_spec s')))])], Done)
              else
                (rt\<lparr>rt_streams := om_put idx (s\<lparr>ss_pending_score := None\<rparr>) (rt_streams rt)\<rparr>,
                 [reply_err req ''stream has no frames; threshold not applied''], Done)))"

definition configure_text :: "libs \<Rightarrow> json \<Rightarrow> string + string" where
  "configure_text lb line =
    (case given ''config'' line of
       None \<Rightarrow> Inr ''{}''
     | Some cj \<Rightarrow> if is_object cj then Inr (lb_dump lb cj) else Inl ''invalid field: config'')"

text \<open>With no frame in time the configuration is applied here; if its checks throw then, what is pending stays.\<close>

definition op_configure_analyzer :: "libs \<Rightarrow> bool \<Rightarrow> json \<Rightarrow> 'p runtime \<Rightarrow> 'p runtime \<times> sent_record list \<times> op_end" where
  "op_configure_analyzer lb taken line rt =
    (let req = json_get_str line ''req'' [] in
     case bind_err (need_u32 line ''stream_index'') (\<lambda>idx. bind_err (need_string line ''name'') (\<lambda>name. Inr (idx, name))) of
       Inl e \<Rightarrow> (rt, [reply_err req e], Done)
     | Inr (idx, name) \<Rightarrow>
         (case om_find idx (rt_streams rt) of
            None \<Rightarrow> (rt, [reply_err req (''no stream '' @ dec_digits (unat idx))], Done)
          | Some s \<Rightarrow>
              (case configure_text lb line of
                 Inl e \<Rightarrow> (rt, [reply_err req e], Done)
               | Inr cfg \<Rightarrow>
                   let s1 = s\<lparr>ss_pending_cfg := Some \<lparr>pc_name = name, pc_json = cfg, pc_done = False, pc_ok = False, pc_err = []\<rparr>\<rparr>;
                       back = (\<lambda>s'. rt\<lparr>rt_streams := om_put idx s' (rt_streams rt)\<rparr>);
                       good = reply_ok req (json_obj [(''stream_index'', JInt (uint (ss_index s))), (''name'', JStr name)])
                   in case configure_last lb name cfg (ss_chain s) of
                        None \<Rightarrow>
                          (back (s\<lparr>ss_pending_cfg := None\<rparr>),
                           [reply_err req (''no analyzer '' @ name @ '' on stream '' @ dec_digits (unat (ss_index s)))], Done)
                      | Some (chain, Returned _) \<Rightarrow> (back (s\<lparr>ss_chain := chain, ss_pending_cfg := None\<rparr>), [good], Done)
                      | Some (chain, Refused e) \<Rightarrow> (back (s\<lparr>ss_chain := chain, ss_pending_cfg := None\<rparr>), [reply_err req e], Done)
                      | Some (chain, Thrown) \<Rightarrow> (back s1, [], if taken then Terminated else Threw))))"

section \<open>Snapshots and stop\<close>

definition pick_entry :: "u64 \<Rightarrow> ring_entry list \<Rightarrow> ring_entry option" where
  "pick_entry seq ring =
    (if ring = [] then None
     else if seq = 0 then Some (last ring)
     else case filter (\<lambda>e. re_seq e = seq) ring of [] \<Rightarrow> Some (last ring) | es \<Rightarrow> Some (last es))"

definition op_snapshot :: "(ring_entry \<Rightarrow> u32 \<Rightarrow> bool \<Rightarrow> int \<Rightarrow> string + u8 list \<times> int \<times> int) \<Rightarrow> json \<Rightarrow> 'p runtime \<Rightarrow>
    'p runtime \<times> sent_record list \<times> op_end" where
  "op_snapshot jpeg_of line rt =
    (let req = json_get_str line ''req'' [] in
     case bind_err (need_u32 line ''stream_index'') (\<lambda>idx. bind_err (opt_u64 line ''seq'' 0) (\<lambda>seq.
          bind_err (opt_u32 line ''track_id'' 0) (\<lambda>tid. bind_err (opt_bool line ''crop'' True) (\<lambda>crop.
          bind_err (opt_int line ''max_side'' 640) (\<lambda>side. Inr (idx, seq, tid, crop, side)))))) of
       Inl e \<Rightarrow> (rt, [reply_err req e], Done)
     | Inr (idx, seq, tid, crop, side) \<Rightarrow>
         (case om_find idx (rt_streams rt) of
            None \<Rightarrow> (rt, [reply_err req (''no stream '' @ dec_digits (unat idx))], Done)
          | Some s \<Rightarrow>
              (case pick_entry seq (ss_ring s) of
                 None \<Rightarrow> (rt, [reply_err req ''no frame available''], Done)
               | Some e \<Rightarrow>
                   (case jpeg_of e tid crop side of
                      Inl err \<Rightarrow> (rt, [reply_err req (if err = [] then ''snapshot unsupported'' else err)], Done)
                    | Inr (jpeg, w, h) \<Rightarrow>
                        (rt, [Snapshot (json_obj [(''req'', JStr req), (''stream_index'', JInt (uint (ss_index s))),
                           (''seq'', JInt (uint (re_seq e))), (''track_id'', JInt (uint tid)), (''w'', JInt w), (''h'', JInt h),
                           (''mime'', JStr ''image/jpeg'')]) jpeg], Done)))))"

definition op_stop :: "json \<Rightarrow> 'p runtime \<Rightarrow> 'p runtime \<times> sent_record list \<times> op_end" where
  "op_stop line rt =
     (rt\<lparr>rt_stop_requested := True\<rparr>, [reply_ok (json_get_str line ''req'' []) (json_obj [(''stopped'', JBool True)])], Done)"

section \<open>One control line\<close>

record control_env =
  ce_backend :: backend_env
  ce_removal :: remove_wait
  ce_taken :: bool
  ce_jpeg :: "ring_entry \<Rightarrow> u32 \<Rightarrow> bool \<Rightarrow> int \<Rightarrow> string + u8 list \<times> int \<times> int"
  ce_what :: string

definition run_op :: "libs \<Rightarrow> control_env \<Rightarrow> string \<Rightarrow> json \<Rightarrow> 'p runtime \<Rightarrow> 'p runtime \<times> sent_record list \<times> op_end" where
  "run_op lb env op line rt =
    (if op = ''add'' then op_add lb (ce_backend env) line rt
     else if op = ''remove'' then op_remove (ce_removal env) line rt
     else if op = ''set_threshold'' then op_set_threshold (ce_taken env) line rt
     else if op = ''configure_analyzer'' then op_configure_analyzer lb (ce_taken env) line rt
     else if op = ''snapshot'' then op_snapshot (ce_jpeg env) line rt
     else if op = ''stop'' then op_stop line rt
     else (rt, [reply_err (json_get_str line ''req'' []) (''unknown op: '' @ (if op = [] then ''?'' else op))], Done))"

text \<open>The result is the runtime, the records and whether a stop was asked; \<open>None\<close> is the end of the program.\<close>

definition handle_line :: "libs \<Rightarrow> control_env \<Rightarrow> json \<Rightarrow> 'p runtime \<Rightarrow> ('p runtime \<times> sent_record list \<times> bool) option" where
  "handle_line lb env line rt =
    (let op = json_get_str line ''op'' [] in
     case run_op lb env op line rt of
       (rt', out, Done) \<Rightarrow> Some (rt', out, op = ''stop'')
     | (rt', out, Threw) \<Rightarrow>
         Some (rt', out @ [reply_err (json_get_str line ''req'' [])
           (''bad '' @ (if op = [] then ''command'' else op) @ '': '' @ ce_what env)], False)
     | (rt', out, Terminated) \<Rightarrow> None)"

section \<open>The source thread\<close>

text \<open>Once the thread has ended on \<open>removing\<close> it reads nothing for the stream any more.\<close>

datatype source_read = Got frame_buf | Timeout | Lost

definition source_step :: "source_read \<Rightarrow> 'p stream_state \<Rightarrow> 'p stream_state \<times> sent_record list" where
  "source_step r s =
    (if \<not> ss_source_alive s then (s, [])
     else case r of
       Got f \<Rightarrow>
         let f' = f\<lparr>fb_stream_index := ss_index s\<rparr>;
             (s', out) = (if \<not> ss_got_first_frame s
               then (s\<lparr>ss_got_first_frame := True, ss_metrics := record_state ''running'' [] (ss_metrics s)\<rparr>,
                     [stream_state_record (ss_index s) ''running'' []])
               else (s, []))
         in (s'\<lparr>ss_latest := lf_put f' (ss_latest s')\<rparr>, out)
     | Timeout \<Rightarrow> (s, [])
     | Lost \<Rightarrow>
         (s\<lparr>ss_got_first_frame := False, ss_metrics := record_state ''reconnecting'' ''read failed'' (ss_metrics s)\<rparr>,
          [stream_state_record (ss_index s) ''reconnecting'' ''read failed'']))"

end
