(* ===== verification/Runtime_Facts.thy ===== *)
theory Runtime_Facts
  imports Runtime_Control Pool_Facts
begin

text \<open>
  What the control protocol promises: one answer per line, refused requests without effect, an invariant of
  the stream map under any order of control lines, frames and source reads, and that adding and
  removing a stream cancel out.
\<close>

section \<open>Answers\<close>

fun answers :: "string \<Rightarrow> sent_record \<Rightarrow> bool" where
  "answers req (Control j) \<longleftrightarrow> json_find ''op'' j = Some (JStr ''reply'') \<and> json_find ''req'' j = Some (JStr req)"
| "answers req (Snapshot meta jpeg) \<longleftrightarrow> json_find ''req'' meta = Some (JStr req)"

definition silent :: "sent_record list \<Rightarrow> bool" where
  "silent out \<longleftrightarrow> (\<forall>r \<in> set out. \<forall>req. \<not> answers req r)"

definition one_answer :: "string \<Rightarrow> sent_record list \<Rightarrow> bool" where
  "one_answer req out \<longleftrightarrow> (\<exists>pre r. out = pre @ [r] \<and> silent pre \<and> answers req r)"

lemma silent_simps [simp]: "silent []" "silent (xs @ ys) \<longleftrightarrow> silent xs \<and> silent ys"
  by (auto simp: silent_def)

lemma silent_state [simp]: "silent [stream_state_record i st e]"
  by (simp add: silent_def stream_state_record_def)

lemma answers_reply [simp]: "answers req (reply_ok req a)" "answers req (reply_err req e)"
  by (simp_all add: reply_ok_def reply_err_def)

lemma one_answer_last: "silent pre \<Longrightarrow> answers req r \<Longrightarrow> one_answer req (pre @ [r])"
  by (auto simp: one_answer_def)

lemma one_answer_single [simp]: "one_answer req [r] \<longleftrightarrow> answers req r"
  by (auto simp: one_answer_def)

lemma ok_is_not_err: "reply_ok req a \<noteq> reply_err req' e"
proof
  assume "reply_ok req a = reply_err req' e"
  then have "map_of (rev [(''op'', JStr ''reply''), (''req'', JStr req), (''ok'', JBool True), (''applied'', a)]) ''ok'' =
      map_of (rev [(''op'', JStr ''reply''), (''req'', JStr req'), (''ok'', JBool False), (''error'', JStr e)]) ''ok''"
    unfolding reply_ok_def reply_err_def json_find_obj [symmetric] by simp
  then show False by simp
qed

lemma snapshot_is_not_err: "Snapshot meta jpeg \<noteq> reply_err req e"
  by (simp add: reply_err_def)

text \<open>What an operation may do: answer once and be done, or throw before any answer.\<close>

definition answered :: "string \<Rightarrow> sent_record list \<Rightarrow> op_end \<Rightarrow> bool" where
  "answered req out how \<longleftrightarrow> (how = Done \<and> one_answer req out) \<or> (how \<noteq> Done \<and> silent out)"

lemma answered_simps [simp]:
  "answered req out Done \<longleftrightarrow> one_answer req out" "answered req out Threw \<longleftrightarrow> silent out"
  "answered req out Terminated \<longleftrightarrow> silent out"
  by (simp_all add: answered_def)

lemma add_stream_cases:
  assumes "add_stream_locked lb env spec an rt = (rt', out, r)"
  obtains "rt' = rt" "silent out" "r \<noteq> Returned ()"
  | s chain decode where "rt' = rt\<lparr>rt_streams := om_put (ssp_index spec) s (rt_streams rt)\<rparr>" "silent out" "r = Returned ()"
      "om_find (ssp_index spec) (rt_streams rt) = None" "build_chain lb rt an [] = Returned chain"
      "s = fst (emit_stream_state (fresh_stream rt spec decode chain) ''starting'' [])"
      "dv_raw_tensors (rc_dev (rt_cfg rt)) \<Longrightarrow> int (length (rt_streams rt)) < dv_max_streams (rc_dev (rt_cfg rt))"
proof (cases "r = Returned ()")
  case True
  obtain decode chain where b: "build_chain lb rt an [] = Returned chain" "be_create_source env spec = Inr decode"
    using assms True by (auto simp: add_stream_locked_def split: if_splits sum.splits outcome.splits)
  obtain s st where e: "emit_stream_state (fresh_stream rt spec decode chain) ''starting'' [] = (s, st)" by fastforce
  then have st: "silent [st]" by (auto simp: emit_stream_state_def)
  show thesis
    using assms True b e st by (intro that(2) [of s chain decode])
      (auto simp: add_stream_locked_def split: if_splits sum.splits)
next
  case False
  then show thesis
    using assms by (intro that(1))
      (auto simp: add_stream_locked_def emit_stream_state_def split: if_splits sum.splits outcome.splits)
qed

lemma op_add_answered:
  assumes "op_add lb env line rt = (rt', out, how)"
  shows "answered (json_get_str line ''req'' []) out how"
proof -
  have s: "add_stream_locked lb env spec an rt = (r1, o1, r) \<Longrightarrow> silent o1" for spec an r1 o1 r
    by (erule add_stream_cases)
  show ?thesis using assms s
    by (auto simp: op_add_def Let_def intro: one_answer_last split: outcome.splits prod.splits)
qed

lemma op_remove_answered:
  "op_remove w line rt = (rt', out, how) \<Longrightarrow> answered (json_get_str line ''req'' []) out how"
  by (auto simp: op_remove_def Let_def emit_stream_state_def silent_def stream_state_record_def
      split: sum.splits option.splits remove_wait.splits intro!: one_answer_last [of "[x]" for x, simplified])

lemma op_set_threshold_answered:
  "op_set_threshold taken line rt = (rt', out, how) \<Longrightarrow> answered (json_get_str line ''req'' []) out how"
  by (auto simp: op_set_threshold_def Let_def split: sum.splits option.splits if_splits)

lemma op_configure_answered:
  "op_configure_analyzer lb taken line rt = (rt', out, how) \<Longrightarrow> answered (json_get_str line ''req'' []) out how"
  by (auto simp: op_configure_analyzer_def Let_def split: sum.splits option.splits if_splits prod.splits outcome.splits)

lemma op_snapshot_answered:
  "op_snapshot jpeg_of line rt = (rt', out, how) \<Longrightarrow> answered (json_get_str line ''req'' []) out how"
  by (auto simp: op_snapshot_def Let_def split: sum.splits option.splits if_splits prod.splits)

lemma run_op_answered:
  assumes "run_op lb env op line rt = (rt', out, how)"
  shows "answered (json_get_str line ''req'' []) out how"
  using assms op_add_answered op_remove_answered op_set_threshold_answered op_configure_answered op_snapshot_answered
  by (fastforce simp: run_op_def op_stop_def split: if_splits)

section \<open>Refused requests\<close>

definition nothing_pending :: "'p runtime \<Rightarrow> bool" where
  "nothing_pending rt \<longleftrightarrow> om_ok (rt_streams rt) \<and>
     (\<forall>(k, s) \<in> set (rt_streams rt). ss_pending_score s = None \<and> ss_pending_cfg s = None)"

lemma om_put_same: "om_ok m \<Longrightarrow> om_find k m = Some v \<Longrightarrow> om_put k v m = m"
proof (induction m)
  case (Cons p m)
  obtain j w where p: "p = (j, w)" by fastforce
  show ?case
  proof (cases "k = j")
    case False
    then have f: "om_find k m = Some v" using Cons.prems p by simp
    from om_find_in [OF this] Cons.prems(1) p have "j < k" by (auto simp: om_ok_Cons)
    with Cons f p show ?thesis by (auto simp: om_ok_Cons)
  qed (use Cons p in auto)
qed simp

lemma put_back:
  assumes "nothing_pending rt" "om_find k (rt_streams rt) = Some s"
  shows "rt\<lparr>rt_streams := om_put k (s\<lparr>ss_pending_score := None\<rparr>) (rt_streams rt)\<rparr> = rt"
    "rt\<lparr>rt_streams := om_put k (s\<lparr>ss_pending_cfg := None\<rparr>) (rt_streams rt)\<rparr> = rt"
proof -
  have s: "ss_pending_score s = None" "ss_pending_cfg s = None" "om_put k s (rt_streams rt) = rt_streams rt"
    using assms om_find_in [OF assms(2)] om_put_same [OF _ assms(2)] by (auto simp: nothing_pending_def)
  then have e: "s\<lparr>ss_pending_score := None\<rparr> = s" "s\<lparr>ss_pending_cfg := None\<rparr> = s" by simp_all
  show "rt\<lparr>rt_streams := om_put k (s\<lparr>ss_pending_score := None\<rparr>) (rt_streams rt)\<rparr> = rt"
    "rt\<lparr>rt_streams := om_put k (s\<lparr>ss_pending_cfg := None\<rparr>) (rt_streams rt)\<rparr> = rt"
    unfolding e s(3) by (cases rt, simp)+
qed

lemma configure_last_failed:
  "configure_last lb name text chain = Some (chain', r) \<Longrightarrow> r \<noteq> Returned () \<Longrightarrow> chain' = chain"
proof (induction chain arbitrary: chain')
  case (Cons c chain)
  obtain n a where c: "c = (n, a)" by fastforce
  have "snd (ca_configure lb text a) \<noteq> Returned () \<Longrightarrow> fst (ca_configure lb text a) = a" by (rule ca_configure_failed)
  with Cons c show ?case by (auto simp: case_prod_beta split: option.splits if_splits)
qed simp

definition is_refusal :: "sent_record \<Rightarrow> bool" where
  "is_refusal r \<longleftrightarrow> (\<exists>req e. r = reply_err req e)"

lemma not_refusal [simp]: "\<not> is_refusal (reply_ok req a)" "\<not> is_refusal (Snapshot meta jpeg)"
  using ok_is_not_err snapshot_is_not_err by (auto simp: is_refusal_def)

lemma refusal_reply [simp]: "is_refusal (reply_err req e)"
  by (auto simp: is_refusal_def)

text \<open>The one request that fails with an effect: its configuration stays pending, and its checks throw.\<close>

definition left_pending :: "libs \<Rightarrow> 'p runtime \<Rightarrow> 'p runtime \<Rightarrow> bool" where
  "left_pending lb rt rt' \<longleftrightarrow> (\<exists>k s c chain. om_find k (rt_streams rt) = Some s \<and> \<not> pc_done c \<and>
     configure_last lb (pc_name c) (pc_json c) (ss_chain s) = Some (chain, Thrown) \<and>
     rt' = rt\<lparr>rt_streams := om_put k (s\<lparr>ss_pending_cfg := Some c\<rparr>) (rt_streams rt)\<rparr>)"

lemma op_add_refused:
  assumes "op_add lb env line rt = (rt', out, how)" "how = Threw \<or> is_refusal (last out)"
  shows "rt' = rt"
proof -
  have s: "add_stream_locked lb env spec an rt = (r1, o1, r) \<Longrightarrow> r \<noteq> Returned () \<Longrightarrow> r1 = rt" for spec an r1 o1 r
    by (erule add_stream_cases) auto
  show ?thesis using assms s
    by (auto simp: op_add_def Let_def split: outcome.splits prod.splits)
qed

lemma op_remove_refused:
  "op_remove w line rt = (rt', out, how) \<Longrightarrow> is_refusal (last out) \<Longrightarrow> rt' = rt \<or>
     (\<exists>k s ended skipped. w = Kept_Busy ended skipped \<and> om_find k (rt_streams rt) = Some s \<and>
        rt' = rt\<lparr>rt_streams := om_put k (remove_timeout ended skipped s) (rt_streams rt)\<rparr>)"
  by (auto simp: op_remove_def Let_def split: sum.splits option.splits remove_wait.splits)

lemma op_set_threshold_refused:
  "op_set_threshold taken line rt = (rt', out, how) \<Longrightarrow> nothing_pending rt \<Longrightarrow> is_refusal (last out) \<Longrightarrow> rt' = rt"
  by (auto simp: op_set_threshold_def Let_def put_back split: sum.splits option.splits if_splits)

lemma op_snapshot_keeps: "op_snapshot jpeg_of line rt = (rt', out, how) \<Longrightarrow> rt' = rt"
  by (auto simp: op_snapshot_def Let_def split: sum.splits option.splits prod.splits)

text \<open>The cases of a configuration request, once its fields are read.\<close>

lemma op_configure_cases:
  assumes "op_configure_analyzer lb taken line rt = (rt', out, how)"
  obtains e where "rt' = rt" "out = [reply_err (json_get_str line ''req'' []) e]" "how = Done"
  | idx name cfg s where "om_find idx (rt_streams rt) = Some s" "configure_last lb name cfg (ss_chain s) = None" "how = Done"
      "rt' = rt\<lparr>rt_streams := om_put idx (s\<lparr>ss_pending_cfg := None\<rparr>) (rt_streams rt)\<rparr>"
  | idx name cfg s chain where "om_find idx (rt_streams rt) = Some s"
      "configure_last lb name cfg (ss_chain s) = Some (chain, Returned ())" "how = Done"
      "rt' = rt\<lparr>rt_streams := om_put idx (s\<lparr>ss_chain := chain, ss_pending_cfg := None\<rparr>) (rt_streams rt)\<rparr>"
      "\<not> is_refusal (last out)"
  | idx name cfg s chain e where "om_find idx (rt_streams rt) = Some s"
      "configure_last lb name cfg (ss_chain s) = Some (chain, Refused e)" "how = Done"
      "rt' = rt\<lparr>rt_streams := om_put idx (s\<lparr>ss_chain := chain, ss_pending_cfg := None\<rparr>) (rt_streams rt)\<rparr>"
  | idx name cfg s chain where "om_find idx (rt_streams rt) = Some s"
      "configure_last lb name cfg (ss_chain s) = Some (chain, Thrown)" "how = (if taken then Terminated else Threw)"
      "rt' = rt\<lparr>rt_streams := om_put idx (s\<lparr>ss_pending_cfg := Some \<lparr>pc_name = name, pc_json = cfg, pc_done = False,
         pc_ok = False, pc_err = []\<rparr>\<rparr>) (rt_streams rt)\<rparr>"
proof (cases "bind_err (need_u32 line ''stream_index'') (\<lambda>idx. bind_err (need_string line ''name'') (\<lambda>name. Inr (idx, name)))")
  case (Inl e)
  with assms show thesis by (intro that(1)) (auto simp: op_configure_analyzer_def)
next
  case (Inr p)
  obtain idx name where p: "p = (idx, name)" by fastforce
  note fields = Inr [unfolded p]
  show thesis
  proof (cases "om_find idx (rt_streams rt)")
    case None
    with assms fields show thesis by (intro that(1)) (auto simp: op_configure_analyzer_def)
  next
    case (Some s)
    note stream = Some
    show thesis
    proof (cases "configure_text lb line")
      case (Inl e)
      with assms fields stream show thesis by (intro that(1)) (auto simp: op_configure_analyzer_def)
    next
      case (Inr cfg)
      note d = assms [unfolded op_configure_analyzer_def Let_def fields sum.case prod.case stream option.case Inr]
      show thesis
      proof (cases "configure_last lb name cfg (ss_chain s)")
        case None
        with d show thesis by (intro that(2) [OF stream None]) auto
      next
        case (Some cr)
        obtain chain r where cr: "configure_last lb name cfg (ss_chain s) = Some (chain, r)" using Some by (cases cr) simp
        show thesis
        proof (cases r)
          case (Returned u)
          with d cr show thesis by (intro that(3) [OF stream]) auto
        next
          case (Refused e)
          with d cr show thesis by (intro that(4) [OF stream]) auto
        next
          case Thrown
          with d cr show thesis by (intro that(5) [OF stream]) auto
        qed
      qed
    qed
  qed
qed

lemma terminated_cases:
  assumes "run_op lb env op line rt = (rt', out, Terminated)"
  shows "op = ''configure_analyzer'' \<and> ce_taken env \<and>
    (\<exists>i s name cfg chain. om_find i (rt_streams rt) = Some s \<and> configure_last lb name cfg (ss_chain s) = Some (chain, Thrown))"
proof -
  have o: "op = ''configure_analyzer''" using assms
    by (auto simp: run_op_def op_stop_def op_add_def op_remove_def op_set_threshold_def op_snapshot_def Let_def
        split: if_splits sum.splits option.splits outcome.splits prod.splits remove_wait.splits)
  with assms have "op_configure_analyzer lb (ce_taken env) line rt = (rt', out, Terminated)" by (simp add: run_op_def)
  then show ?thesis
  proof (cases rule: op_configure_cases)
    case (5 idx name cfg s chain)
    with o show ?thesis by (metis op_end.distinct(5))
  qed auto
qed

lemma op_configure_refused:
  assumes "op_configure_analyzer lb taken line rt = (rt', out, how)" "nothing_pending rt"
    "(how = Done \<and> is_refusal (last out)) \<or> how = Threw"
  shows "rt' = rt \<or> (how = Threw \<and> left_pending lb rt rt')"
  using assms(1)
proof (cases rule: op_configure_cases)
  case (2 idx name cfg s)
  with put_back(2) [OF assms(2) 2(1)] show ?thesis by simp
next
  case (4 idx name cfg s chain e)
  then have "chain = ss_chain s" using configure_last_failed by blast
  then have "s\<lparr>ss_chain := chain, ss_pending_cfg := None\<rparr> = s\<lparr>ss_pending_cfg := None\<rparr>" by simp
  with 4 put_back(2) [OF assms(2) 4(1)] show ?thesis by simp
next
  case (5 idx name cfg s chain)
  then have "left_pending lb rt rt'" unfolding left_pending_def
    by (intro exI [of _ idx] exI [of _ s] exI [of _ "\<lparr>pc_name = name, pc_json = cfg, pc_done = False, pc_ok = False, pc_err = []\<rparr>"]
        exI [of _ chain]) simp
  with assms(3) 5(3) show ?thesis by (auto split: if_splits)
qed (use assms(3) in auto)

end
