(* ===== verification/Runtime_Runs.thy ===== *)
theory Runtime_Runs
  imports Runtime_Facts
begin

text \<open>
  The runtime over time: control lines, turns of the context threads and reads of the source threads in any
  order, and the invariant of the stream map that they keep.
\<close>

section \<open>What stays with a chain\<close>

text \<open>Whether an analyzer needs tracks, and the API table of a plugin.\<close>

fun ca_kind :: "'p chained \<Rightarrow> bool \<times> 'p vb_analyzer_api option" where
  "ca_kind (Built a) = (an_needs_tracks a, None)"
| "ca_kind (Plugin api p) = (True, Some api)"

definition kinds :: "(string \<times> 'p chained) list \<Rightarrow> (string \<times> bool \<times> 'p vb_analyzer_api option) list" where
  "kinds chain = map (apsnd ca_kind) chain"

lemma kinds_simps [simp]: "kinds [] = []" "kinds ((n, a) # chain) = (n, ca_kind a) # kinds chain"
  "kinds (xs @ ys) = kinds xs @ kinds ys"
  by (simp_all add: kinds_def)

lemma needs_tracks_kind: "ca_needs_tracks a = fst (ca_kind a)"
  by (cases a) simp_all

lemma kind_configure [simp]: "ca_kind (fst (ca_configure lb text a)) = ca_kind a"
proof (cases a)
  case (Built b)
  then show ?thesis by (cases b) simp_all
qed simp

lemma kind_on_frame [simp]: "ca_kind (fst (ca_on_frame lb m ts attrs a)) = ca_kind a"
proof (cases a)
  case (Built b)
  then show ?thesis by (cases b) (simp_all add: case_prod_beta)
qed simp

lemma kind_on_removed [simp]: "ca_kind (fst (ca_on_removed lb i t a)) = ca_kind a"
proof (cases a)
  case (Built b)
  then show ?thesis by (cases b) (simp_all add: case_prod_beta)
qed simp

lemma kinds_on_frame [simp]: "kinds (fst (chain_on_frame lb i m alive width off chain attrs)) = kinds chain"
  by (induction chain arbitrary: off attrs) (auto simp: case_prod_beta Let_def)

lemma kinds_on_removed [simp]: "kinds (fst (chain_on_removed lb x m t i chain)) = kinds chain"
  by (induction chain) (auto simp: case_prod_beta Let_def)

lemma kinds_removals [simp]: "kinds (fst (steps (chain_on_removed lb x m t) rm chain)) = kinds chain"
  by (induction rm arbitrary: chain) (simp_all add: case_prod_beta Let_def)

lemma kinds_configure_last: "configure_last lb name text chain = Some (chain', r) \<Longrightarrow> kinds chain' = kinds chain"
proof (induction chain arbitrary: chain')
  case (Cons c chain)
  obtain n a where c: "c = (n, a)" by fastforce
  have "ca_kind (fst (ca_configure lb text a)) = ca_kind a" by simp
  with Cons c show ?case by (auto simp: case_prod_beta split: option.splits if_splits)
qed simp

text \<open>The parts of a stream that nothing changes once it is added.\<close>

definition fixed_part :: "'p stream_state \<Rightarrow> u32 \<times> u32 \<times> bool \<times> (string \<times> bool \<times> 'p vb_analyzer_api option) list \<times> int" where
  "fixed_part s = (ss_index s, ssp_index (ss_spec s), ss_track_enabled s, kinds (ss_chain s), ss_ring_cap s)"

lemma fixed_part_updates [simp]:
  "fixed_part (s\<lparr>ss_metrics := sm\<rparr>) = fixed_part s" "fixed_part (s\<lparr>ss_latest := l\<rparr>) = fixed_part s"
  "fixed_part (s\<lparr>ss_pending_cfg := c\<rparr>) = fixed_part s" "fixed_part (s\<lparr>ss_pending_score := v\<rparr>) = fixed_part s"
  "fixed_part (s\<lparr>ss_limiter := r\<rparr>) = fixed_part s" "fixed_part (s\<lparr>ss_got_first_frame := b\<rparr>) = fixed_part s"
  "fixed_part (s\<lparr>ss_drop_baseline := n\<rparr>) = fixed_part s" "fixed_part (s\<lparr>ss_tracker := v'\<rparr>) = fixed_part s"
  "fixed_part (s\<lparr>ss_ring := ring\<rparr>) = fixed_part s" "fixed_part (s\<lparr>ss_source_alive := b\<rparr>) = fixed_part s"
  by (simp_all add: fixed_part_def)

lemma fixed_part_score [simp]: "fixed_part (apply_pending_score s) = fixed_part s"
  by (simp add: apply_pending_score_def fixed_part_def split: option.split)

lemma fixed_part_controls: "apply_pending_controls lb s = Returned s' \<Longrightarrow> fixed_part s' = fixed_part s"
proof -
  have "apply_pending_cfg lb s0 = Returned s' \<Longrightarrow> fixed_part s' = fixed_part s0" for s0 :: "'a stream_state"
    by (auto simp: apply_pending_cfg_def fixed_part_def split: option.splits if_splits prod.splits outcome.splits
        dest!: kinds_configure_last)
  from this [of "apply_pending_score s"] show "apply_pending_controls lb s = Returned s' \<Longrightarrow> fixed_part s' = fixed_part s"
    by (simp add: apply_pending_controls_def)
qed

lemma fixed_part_dev: "maybe_send_dev_tensors dev now raw f res s n = (s', n', out) \<Longrightarrow> fixed_part s' = fixed_part s"
  by (auto simp: maybe_send_dev_tensors_def Let_def split: if_splits prod.splits option.splits sum.splits)

lemma fixed_part_ring [simp]: "fixed_part (push_ring f g ts s) = fixed_part s"
  by (simp add: push_ring_def Let_def split: option.split)

lemma fixed_part_finish [simp]: "fixed_part (finish_frame ck f res s) = fixed_part s"
  by (simp add: finish_frame_def Let_def)

lemma fixed_part_track: "fixed_part (fst (track_frame res t s)) = fixed_part s" "ss_chain (fst (track_frame res t s)) = ss_chain s"
  by (simp_all add: track_frame_def Let_def split: prod.split)

lemma fixed_part_analyze [simp]: "fixed_part (fst (analyze_frame lb ck f res s)) = fixed_part s"
proof -
  obtain s1 alive removed where t: "track_frame res (fb_t_mono_s f) s = (s1, alive, removed)" by (metis prod_cases3)
  have s1: "fixed_part s1 = fixed_part s" "ss_chain s1 = ss_chain s" using fixed_part_track [of res "fb_t_mono_s f" s] t by simp_all
  define m where "m = frame_meta_of s f res"
  define width where "width = total_attr_count (ss_chain s)"
  obtain chain1 attrs out1 where c1: "chain_on_frame lb (ss_index s) m alive width 0 (ss_chain s)
      (replicate (length alive * width) 0) = (chain1, attrs, out1)" by (metis prod_cases3)
  obtain chain2 out2 where c2: "steps (chain_on_removed lb (ss_index s) m (fb_t_mono_s f)) removed chain1 = (chain2, out2)"
    by fastforce
  have "kinds chain1 = kinds (ss_chain s)"
    using kinds_on_frame [of lb "ss_index s" m alive width 0 "ss_chain s" "replicate (length alive * width) 0"] by (simp add: c1)
  moreover have "kinds chain2 = kinds chain1"
    using kinds_removals [of lb "ss_index s" m "fb_t_mono_s f" removed chain1] by (simp add: c2)
  ultimately have "fixed_part (s1\<lparr>ss_chain := chain2\<rparr>) = fixed_part s" using s1 by (simp add: fixed_part_def)
  then show ?thesis
    by (simp add: analyze_frame_def t s1(2) Let_def c1 [unfolded m_def width_def] c2 [unfolded m_def] split: sum.split)
qed

lemma fixed_part_process: "process lb dev ck infer f s n = Returned (s', n', out) \<Longrightarrow> fixed_part s' = fixed_part s"
proof -
  assume p: "process lb dev ck infer f s n = Returned (s', n', out)"
  then obtain s0 where s0: "apply_pending_controls lb s = Returned s0" by (auto simp: process_def and_then_Returned)
  show "fixed_part s' = fixed_part s"
  proof (cases "infer f (ssp_score_threshold (ss_spec s0)) (lit (45/100))")
    case (Inl e)
    with p s0 fixed_part_controls [OF s0] show ?thesis by (auto simp: process_def)
  next
    case (Inr r)
    obtain res raw where r: "r = (res, raw)" by fastforce
    obtain s1 n1 dv where d: "maybe_send_dev_tensors dev (ck_dev_s ck) raw f res s0 n = (s1, n1, dv)" by (metis prod_cases3)
    obtain s2 out2 where a: "analyze_frame lb ck f res s1 = (s2, out2)" by fastforce
    have "fixed_part s2 = fixed_part s1" using fixed_part_analyze [of lb ck f res s1] a by simp
    with p s0 Inr r d a fixed_part_dev [OF d] fixed_part_controls [OF s0] show ?thesis by (auto simp: process_def)
  qed
qed

lemma fixed_part_source [simp]: "fixed_part (fst (source_step r s)) = fixed_part s"
  by (cases r) (auto simp: source_step_def Let_def split: if_splits)

section \<open>Chains that are built\<close>

definition entry_ok :: "'p runtime \<Rightarrow> string \<times> bool \<times> 'p vb_analyzer_api option \<Rightarrow> bool" where
  "entry_ok rt e \<longleftrightarrow> (case e of (n, needs, api) \<Rightarrow>
     CHR ''/'' \<notin> set n \<and> \<not> has_so_suffix n \<and> (rc_tracker_enabled (rt_cfg rt) \<or> \<not> needs) \<and>
     (case api of None \<Rightarrow> True | Some t \<Rightarrow> t \<in> pe_api ` set (rt_plugins rt)))"

lemma made_analyzer:
  assumes "make_stream_analyzer ps name = Inr a"
  shows "CHR ''/'' \<notin> set name \<and> \<not> has_so_suffix name \<and>
    (case snd (ca_kind a) of None \<Rightarrow> True | Some t \<Rightarrow> t \<in> pe_api ` set ps)"
proof -
  have f: "find (\<lambda>p. pe_id p = i) ps = Some p \<Longrightarrow> pe_api p \<in> pe_api ` set ps" for p i
    by (auto simp: find_Some_iff)
  show ?thesis using assms f
    by (cases "create_analyzer name") (auto simp: make_stream_analyzer_def Let_def split: if_splits option.splits)
qed

lemma build_chain_ok:
  "build_chain lb rt an acc = Returned chain \<Longrightarrow> \<forall>e \<in> set (kinds acc). entry_ok rt e \<Longrightarrow>
     list_all (\<lambda>(n, a). ca_ok a \<and> ca_ids a = {}) acc \<Longrightarrow>
     (\<forall>e \<in> set (kinds chain). entry_ok rt e) \<and> list_all (\<lambda>(n, a). ca_ok a \<and> ca_ids a = {}) chain"
proof (induction an arbitrary: acc)
  case (Cons aj an)
  from Cons.prems(1) obtain name cfg a where
    a: "make_stream_analyzer (rt_plugins rt) name = Inr a" "rc_tracker_enabled (rt_cfg rt) \<or> \<not> ca_needs_tracks a"
      "snd (ca_configure lb cfg a) = Returned ()"
    and b: "build_chain lb rt an (acc @ [(name, fst (ca_configure lb cfg a))]) = Returned chain"
    by (auto simp: and_then_Returned lift_err_def case_prod_beta split: sum.splits)
  have "entry_ok rt (name, ca_kind (fst (ca_configure lb cfg a)))"
    using made_analyzer [OF a(1)] a(2) by (auto simp: entry_ok_def needs_tracks_kind case_prod_beta)
  with Cons.prems(2) have e: "\<forall>e \<in> set (kinds (acc @ [(name, fst (ca_configure lb cfg a))])). entry_ok rt e"
    by (simp del: kind_configure)
  have "list_all (\<lambda>(n, a). ca_ok a \<and> ca_ids a = {}) (acc @ [(name, fst (ca_configure lb cfg a))])"
    using ca_configured [OF a(3)] Cons.prems(3) by simp
  from Cons.IH [OF b e this] show ?case .
qed simp

section \<open>The invariant\<close>

definition stream_ok :: "'p runtime \<Rightarrow> u32 \<Rightarrow> 'p stream_state \<Rightarrow> bool" where
  "stream_ok rt k s \<longleftrightarrow> ss_index s = k \<and> ssp_index (ss_spec s) = k \<and> ss_track_enabled s = rc_tracker_enabled (rt_cfg rt) \<and>
     ss_ring_cap s = rc_snapshot_ring (rt_cfg rt) \<and> (\<forall>e \<in> set (kinds (ss_chain s)). entry_ok rt e) \<and>
     (ss_track_enabled s \<longrightarrow> leak_free s)"

definition rt_ok :: "'p runtime \<Rightarrow> bool" where
  "rt_ok rt \<longleftrightarrow> om_ok (rt_streams rt) \<and> (\<forall>(k, s) \<in> set (rt_streams rt). stream_ok rt k s) \<and>
     (dv_raw_tensors (rc_dev (rt_cfg rt)) \<longrightarrow> int (length (rt_streams rt)) \<le> max 0 (dv_max_streams (rc_dev (rt_cfg rt))))"

lemma stream_ok_fixed:
  assumes "stream_ok rt k s" "fixed_part s' = fixed_part s" "ss_track_enabled s \<Longrightarrow> leak_free s \<Longrightarrow> leak_free s'"
  shows "stream_ok rt k s'"
proof -
  have "ss_index s' = ss_index s" "ssp_index (ss_spec s') = ssp_index (ss_spec s)" "ss_track_enabled s' = ss_track_enabled s"
    "kinds (ss_chain s') = kinds (ss_chain s)" "ss_ring_cap s' = ss_ring_cap s"
    using assms(2) by (simp_all only: fixed_part_def prod.inject)
  with assms show ?thesis unfolding stream_ok_def by metis
qed

lemma stream_ok_cong:
  assumes "rt_cfg rt' = rt_cfg rt" "rt_plugins rt' = rt_plugins rt" shows "stream_ok rt' k s \<longleftrightarrow> stream_ok rt k s"
  unfolding stream_ok_def entry_ok_def assms ..

lemma stream_ok_rt [simp]: "stream_ok (rt\<lparr>rt_streams := m\<rparr>) k s = stream_ok rt k s"
  "stream_ok (rt\<lparr>rt_stop_requested := b\<rparr>) k s = stream_ok rt k s" "stream_ok (rt\<lparr>rt_oversize := n\<rparr>) k s = stream_ok rt k s"
  by (rule stream_ok_cong; simp)+

lemma rt_ok_find: "rt_ok rt \<Longrightarrow> om_find k (rt_streams rt) = Some s \<Longrightarrow> stream_ok rt k s"
  using om_find_in [of k "rt_streams rt" s] by (auto simp: rt_ok_def)

lemma om_put_set: "om_ok m \<Longrightarrow> set (om_put k v m) \<subseteq> insert (k, v) (set m)"
  by (induction k v m rule: om_put.induct) (auto simp: om_ok_Cons split: if_splits)

lemma om_put_length: "om_ok m \<Longrightarrow> length (om_put k v m) = length m + (if om_find k m = None then 1 else 0)"
proof -
  assume ok: "om_ok m"
  have c: "length m = card (set (om_keys m))" if "om_ok m" for m :: "('a \<times> 'b) list"
    using distinct_card [OF om.keys_distinct [OF that]] by (simp add: om_keys_def)
  have "set (om_keys (om_put k v m)) = insert k (set (om_keys m))" using om.set_keys_put [OF ok] .
  with c [OF ok] c [OF om_ok_put [OF ok, of k v]] om.keys_find [OF ok, of k] show ?thesis
    by (simp add: insert_absorb)
qed

lemma om_del_length: "length (om_del k m) \<le> length m"
  by (induction k m rule: om_del.induct) auto

lemma rt_ok_put:
  assumes "rt_ok rt" "stream_ok rt k s"
    "om_find k (rt_streams rt) = None \<Longrightarrow> dv_raw_tensors (rc_dev (rt_cfg rt)) \<Longrightarrow>
       int (length (rt_streams rt)) < dv_max_streams (rc_dev (rt_cfg rt))"
  shows "rt_ok (rt\<lparr>rt_streams := om_put k s (rt_streams rt)\<rparr>)"
proof -
  have ok: "om_ok (rt_streams rt)" using assms(1) by (simp add: rt_ok_def)
  have "\<forall>p \<in> set (om_put k s (rt_streams rt)). case p of (k, s) \<Rightarrow> stream_ok rt k s"
    using om_put_set [OF ok, of k s] assms(1,2) by (auto simp: rt_ok_def)
  then show ?thesis using om_ok_put [OF ok, of k s] om_put_length [OF ok, of k s] assms(1,3) by (auto simp: rt_ok_def)
qed

lemma rt_ok_del: "rt_ok rt \<Longrightarrow> rt_ok (rt\<lparr>rt_streams := om_del k (rt_streams rt)\<rparr>)"
  using om_del_length [of k "rt_streams rt"] by (auto simp: rt_ok_def om_ok_del set_om_del)

lemma rt_ok_changed:
  assumes "rt_ok rt" "om_find k (rt_streams rt) = Some s" "fixed_part s' = fixed_part s"
    "ss_track_enabled s \<Longrightarrow> leak_free s \<Longrightarrow> leak_free s'"
  shows "rt_ok (rt\<lparr>rt_streams := om_put k s' (rt_streams rt)\<rparr>)"
  using rt_ok_put [OF assms(1) stream_ok_fixed [OF rt_ok_find [OF assms(1,2)] assms(3,4)]] assms(2) by simp

lemma rt_ok_stop [simp]: "rt_ok (rt\<lparr>rt_stop_requested := b\<rparr>) = rt_ok rt" "rt_ok (rt\<lparr>rt_oversize := n\<rparr>) = rt_ok rt"
  by (simp_all add: rt_ok_def)

lemma fresh_stream_ok:
  assumes "build_chain lb rt an [] = Returned chain"
  shows "stream_ok rt (ssp_index spec) (fst (emit_stream_state (fresh_stream rt spec decode chain) st e))"
  using build_chain_ok [OF assms] by (auto simp: stream_ok_def emit_stream_state_def fresh_stream_def Let_def leak_free_def
      list_all_iff)

lemma op_add_ok: "op_add lb env line rt = (rt', out, how) \<Longrightarrow> rt_ok rt \<Longrightarrow> rt_ok rt'"
proof -
  have s: "add_stream_locked lb env spec an rt = (r1, o1, r) \<Longrightarrow> rt_ok rt \<Longrightarrow> rt_ok r1" for spec an r1 o1 r
    by (erule add_stream_cases) (auto intro: rt_ok_put fresh_stream_ok)
  then show "op_add lb env line rt = (rt', out, how) \<Longrightarrow> rt_ok rt \<Longrightarrow> rt_ok rt'"
    by (auto simp: op_add_def Let_def split: outcome.splits prod.splits)
qed

lemma fixed_part_timeout [simp]: "fixed_part (remove_timeout ended skipped s) = fixed_part s"
  by (simp add: remove_timeout_def Let_def)

lemma leak_free_timeout: "leak_free s \<Longrightarrow> leak_free (remove_timeout ended skipped s)"
  by (simp add: remove_timeout_def leak_free_def Let_def)

lemma op_remove_ok: "op_remove w line rt = (rt', out, how) \<Longrightarrow> rt_ok rt \<Longrightarrow> rt_ok rt'"
  by (auto simp: op_remove_def Let_def rt_ok_del rt_ok_changed leak_free_timeout split: sum.splits option.splits remove_wait.splits)

lemma op_set_threshold_ok:
  assumes "op_set_threshold taken line rt = (rt', out, how)" "rt_ok rt"
  shows "rt_ok rt'"
proof (cases "rt' = rt")
  case False
  then obtain k s s' where s: "om_find k (rt_streams rt) = Some s" "rt' = rt\<lparr>rt_streams := om_put k s' (rt_streams rt)\<rparr>"
    "(\<exists>v. s' = apply_pending_score (s\<lparr>ss_pending_score := v\<rparr>)) \<or> s' = s\<lparr>ss_pending_score := None\<rparr>"
    using assms(1) by (auto simp: op_set_threshold_def Let_def split: sum.splits option.splits if_splits) blast+
  then have f: "fixed_part s' = fixed_part s" by auto
  have l: "leak_free s \<Longrightarrow> leak_free s'" using s(3) by (auto simp: leak_free_def apply_pending_score_def split: option.split)
  show ?thesis unfolding s(2) using f l by (intro rt_ok_changed [OF assms(2) s(1)])
qed (use assms(2) in simp)

lemma op_configure_ok:
  assumes "op_configure_analyzer lb taken line rt = (rt', out, how)" "rt_ok rt"
  shows "rt_ok rt'"
proof -
  have keep: "rt_ok (rt\<lparr>rt_streams := om_put i (s\<lparr>ss_chain := chain, ss_pending_cfg := c\<rparr>) (rt_streams rt)\<rparr>)"
    if "om_find i (rt_streams rt) = Some s" "chain = ss_chain s \<or> configure_last lb name cfg (ss_chain s) = Some (chain, r)"
    for i s name cfg chain r c
  proof (rule rt_ok_changed [OF assms(2) that(1)])
    show "fixed_part (s\<lparr>ss_chain := chain, ss_pending_cfg := c\<rparr>) = fixed_part s"
      using that(2) kinds_configure_last by (auto simp: fixed_part_def)
    assume "leak_free s"
    then show "leak_free (s\<lparr>ss_chain := chain, ss_pending_cfg := c\<rparr>)"
      using that(2) configure_last_ids [of _ "ss_chain s" lb name cfg chain r] by (auto simp: leak_free_def)
  qed
  have same: "s\<lparr>ss_chain := ss_chain s, ss_pending_cfg := c\<rparr> = s\<lparr>ss_pending_cfg := c\<rparr>" for s :: "'a stream_state" and c by simp
  show ?thesis using assms(1)
  proof (cases rule: op_configure_cases)
    case (2 idx name cfg s)
    with keep [OF 2(1), of "ss_chain s"] show ?thesis by (simp add: same)
  next
    case (5 idx name cfg s chain)
    with keep [OF 5(1), of "ss_chain s"] show ?thesis by (simp add: same)
  qed (use assms(2) keep in \<open>blast+\<close>)
qed

lemma run_op_ok: "run_op lb env op line rt = (rt', out, how) \<Longrightarrow> rt_ok rt \<Longrightarrow> rt_ok rt'"
  using op_add_ok op_remove_ok op_set_threshold_ok op_configure_ok op_snapshot_keeps
  by (fastforce simp: run_op_def op_stop_def split: if_splits)

section \<open>Runs\<close>

text \<open>A control line with what it meets, the turn of a stream in a context thread, or a read of its source.\<close>

datatype rt_move =
    Control_Line control_env json
  | Frame_Turn u32 clock "frame_buf \<Rightarrow> f32 \<Rightarrow> f32 \<Rightarrow> string + detection_result \<times> dev_tensor list option"
  | Source_Read u32 source_read

definition frame_turn :: "libs \<Rightarrow> clock \<Rightarrow> (frame_buf \<Rightarrow> f32 \<Rightarrow> f32 \<Rightarrow> string + detection_result \<times> dev_tensor list option) \<Rightarrow>
    u32 \<Rightarrow> 'p runtime \<Rightarrow> 'p runtime option" where
  "frame_turn lb ck infer k rt =
    (case om_find k (rt_streams rt) of
       None \<Rightarrow> Some rt
     | Some s \<Rightarrow>
         (case lf_take (ss_latest s) of
            (None, l) \<Rightarrow> Some rt
          | (Some f, l) \<Rightarrow>
              (case process lb (rt_dev_active rt) ck infer f (s\<lparr>ss_latest := l\<rparr>) (rt_oversize rt) of
                 Returned (s', n, out) \<Rightarrow> Some (rt\<lparr>rt_streams := om_put k s' (rt_streams rt), rt_oversize := n\<rparr>)
               | _ \<Rightarrow> None)))"

fun rt_step :: "libs \<Rightarrow> rt_move \<Rightarrow> 'p runtime \<Rightarrow> 'p runtime option" where
  "rt_step lb (Control_Line env line) rt = map_option fst (handle_line lb env line rt)"
| "rt_step lb (Frame_Turn k ck infer) rt = frame_turn lb ck infer k rt"
| "rt_step lb (Source_Read k r) rt =
    (case om_find k (rt_streams rt) of
       None \<Rightarrow> Some rt
     | Some s \<Rightarrow> Some (rt\<lparr>rt_streams := om_put k (fst (source_step r s)) (rt_streams rt)\<rparr>))"

fun rt_run :: "libs \<Rightarrow> rt_move list \<Rightarrow> 'p runtime \<Rightarrow> 'p runtime option" where
  "rt_run lb [] rt = Some rt"
| "rt_run lb (m # ms) rt = (case rt_step lb m rt of None \<Rightarrow> None | Some rt' \<Rightarrow> rt_run lb ms rt')"

lemma leak_free_source: "leak_free s \<Longrightarrow> leak_free (fst (source_step r s))"
  by (cases r) (auto simp: source_step_def leak_free_def Let_def split: if_splits)

lemma handle_line_ok:
  assumes "handle_line lb env line rt = Some (rt', out, stop)" "rt_ok rt"
  shows "rt_ok rt'"
proof -
  obtain r o' how where "run_op lb env (json_get_str line ''op'' []) line rt = (r, o', how)" by (metis prod_cases3)
  with run_op_ok [OF this assms(2)] assms(1) show ?thesis by (auto simp: handle_line_def Let_def split: op_end.splits)
qed

lemma frame_turn_ok:
  assumes "frame_turn lb ck infer k rt = Some rt'" "rt_ok rt"
  shows "rt_ok rt'"
proof (cases "rt' = rt")
  case False
  then obtain s f l s' n out where s: "om_find k (rt_streams rt) = Some s"
    "process lb (rt_dev_active rt) ck infer f (s\<lparr>ss_latest := l\<rparr>) (rt_oversize rt) = Returned (s', n, out)"
    "rt' = rt\<lparr>rt_streams := om_put k s' (rt_streams rt), rt_oversize := n\<rparr>"
    using assms(1) by (auto simp: frame_turn_def split: option.splits prod.splits outcome.splits)
  have f: "fixed_part s' = fixed_part s" using fixed_part_process [OF s(2)] by simp
  have "leak_free s'" if "ss_track_enabled s" "leak_free s"
    using process_leak_free [OF s(2)] that by (simp add: leak_free_def)
  from rt_ok_changed [OF assms(2) s(1) f this] show ?thesis by (simp add: s(3))
qed (use assms(2) in simp)

lemma rt_step_ok: "rt_step lb m rt = Some rt' \<Longrightarrow> rt_ok rt \<Longrightarrow> rt_ok rt'"
proof (cases m)
  case (Source_Read k r)
  assume a: "rt_step lb m rt = Some rt'" "rt_ok rt"
  show ?thesis
  proof (cases "om_find k (rt_streams rt)")
    case (Some s)
    from rt_ok_changed [OF a(2) Some fixed_part_source leak_free_source] a(1) Source_Read Some show ?thesis by auto
  qed (use a Source_Read in simp)
qed (auto intro: handle_line_ok frame_turn_ok)

lemma rt_run_ok: "rt_run lb ms rt = Some rt' \<Longrightarrow> rt_ok rt \<Longrightarrow> rt_ok rt'"
  by (induction ms arbitrary: rt) (auto split: option.splits dest: rt_step_ok)

end
