(* ===== verification/Runtime_Properties.thy ===== *)
theory Runtime_Properties
  imports Runtime_Runs
begin

text \<open>
  The properties of the control protocol and of the runtime over time, with instances.
\<close>

section \<open>Shared steps\<close>



lemma om_del_put: "om_ok m \<Longrightarrow> om_find k m = None \<Longrightarrow> om_del k (om_put k v m) = m"
  by (induction k v m rule: om_put.induct) (auto simp: om_ok_Cons split: if_splits)

section \<open>Properties\<close>

text \<open>C21: a control line that the program survives is answered exactly once, by the last record it sends and under the
  request's id (for a snapshot the answer is the image record); a stop is reported exactly for the operation that asks
  for one. The program does not survive only a configuration that a context thread applies and whose checks
  throw.\<close>

theorem every_line_is_answered_once:
  "(case handle_line lb env line rt of
      Some (rt', out, stop) \<Rightarrow>
        one_answer (json_get_str line ''req'' []) out \<and> (stop \<longleftrightarrow> json_get_str line ''op'' [] = ''stop'')
    | None \<Rightarrow> json_get_str line ''op'' [] = ''configure_analyzer'' \<and> ce_taken env \<and>
        (\<exists>i s name cfg chain. om_find i (rt_streams rt) = Some s \<and> configure_last lb name cfg (ss_chain s) = Some (chain, Thrown)))"
proof -
  obtain r o' how where h: "run_op lb env (json_get_str line ''op'' []) line rt = (r, o', how)" by (metis prod_cases3)
  note a = run_op_answered [OF h]
  show ?thesis
  proof (cases how)
    case Done
    with h a show ?thesis by (simp add: handle_line_def)
  next
    case Threw
    then have "json_get_str line ''op'' [] \<noteq> ''stop''" using h by (auto simp: run_op_def op_stop_def)
    with Threw h a show ?thesis by (simp add: handle_line_def Let_def one_answer_last)
  next
    case Terminated
    with h terminated_cases [OF h [unfolded Terminated]] show ?thesis by (simp add: handle_line_def)
  qed
qed



text \<open>C23: whatever control lines, frames and source reads come in whatever order, the streams stay sorted by index and
  filed under their own index, a runtime without a tracker runs no analyzer that needs tracks, every plugin that runs is
  a table registered at the start, whatever names the lines carry, development mode keeps its limit of streams, and
  the analyzers of tracked streams remember only live tracks.\<close>

theorem runtime_invariant:
  assumes "rt_run lb ms rt = Some rt'" "rt_streams rt = []"
  shows "sorted_wrt (<) (map fst (rt_streams rt')) \<and>
    (\<forall>(k, s) \<in> set (rt_streams rt'). ss_index s = k \<and>
       (\<forall>(n, a) \<in> set (ss_chain s). (rc_tracker_enabled (rt_cfg rt') \<or> \<not> ca_needs_tracks a) \<and>
          (case a of Built b \<Rightarrow> True | Plugin api p \<Rightarrow> api \<in> pe_api ` set (rt_plugins rt'))) \<and>
       (rc_tracker_enabled (rt_cfg rt') \<longrightarrow> leak_free s)) \<and>
    (dv_raw_tensors (rc_dev (rt_cfg rt')) \<longrightarrow>
       int (length (rt_streams rt')) \<le> max 0 (dv_max_streams (rc_dev (rt_cfg rt'))))"
proof -
  have "rt_ok rt" using assms(2) by (simp add: rt_ok_def)
  with assms(1) have ok: "rt_ok rt'" by (rule rt_run_ok)
  have e: "(rc_tracker_enabled (rt_cfg rt') \<or> \<not> ca_needs_tracks a) \<and>
      (case a of Built b \<Rightarrow> True | Plugin api p \<Rightarrow> api \<in> pe_api ` set (rt_plugins rt'))"
    if "(k, s) \<in> set (rt_streams rt')" "(n, a) \<in> set (ss_chain s)" for k s n a
  proof -
    have "(n, ca_kind a) \<in> set (kinds (ss_chain s))" using that(2) by (force simp: kinds_def)
    with ok that(1) have "entry_ok rt' (n, ca_kind a)" by (auto simp: rt_ok_def stream_ok_def)
    then show ?thesis by (cases a) (auto simp: entry_ok_def)
  qed
  have "sorted_wrt (<) (map fst (rt_streams rt'))" using ok by (simp add: rt_ok_def om_ok_def)
  moreover have "ss_index s = k" "rc_tracker_enabled (rt_cfg rt') \<Longrightarrow> leak_free s" if "(k, s) \<in> set (rt_streams rt')" for k s
    using ok that by (auto simp: rt_ok_def stream_ok_def)
  ultimately show ?thesis using ok e unfolding rt_ok_def by blast
qed

text \<open>C24: removing a stream undoes adding it: after an accepted add, a remove of the same index that finds the stream free
  gives back the runtime from before, sends the stopped record and answers ok.\<close>

theorem removing_undoes_adding:
  assumes "op_add lb env line rt = (rt', out, Done)" "\<not> is_refusal (last out)" "om_ok (rt_streams rt)"
    "need_object line ''stream'' = Inr sj" "need_u32 sj ''index'' = Inr i" "need_u32 line' ''stream_index'' = Inr i"
  shows "om_find i (rt_streams rt) = None \<and> om_find i (rt_streams rt') \<noteq> None \<and>
    op_remove Seen_Free line' rt' = (rt, [stream_state_record i ''stopped'' [],
      reply_ok (json_get_str line' ''req'' []) (json_obj [(''stream_index'', JInt (uint i))])], Done)"
proof -
  obtain spec an o1 where a: "add_stream_locked lb env spec an rt = (rt', o1, Returned ())" "ssp_index spec = i"
    using assms(1,2,4,5)
    by (auto simp: op_add_def Let_def lift_err_def stream_spec_of_def and_then_Returned
        split: outcome.splits prod.splits sum.splits)
  from a(1) show ?thesis
  proof (cases rule: add_stream_cases)
    case (2 s chain decode)
    have "ss_index s = i" using a(2) 2(6) by (simp add: emit_stream_state_def fresh_stream_def Let_def)
    with 2 a(2) om_del_put [OF assms(3), of i s] assms(6) show ?thesis
      by (simp add: op_remove_def emit_stream_state_def)
  qed simp
qed

section \<open>Concrete instances\<close>

definition demo_runtime :: "unit runtime" where
  "demo_runtime = new_runtime demo_libs \<lparr>cp_max_contexts = 1, cp_max_batch = 1, cp_keypoints = 0, cp_exclusive_device = False\<rparr>
     default_runtime_config"

definition demo_env :: control_env where
  "demo_env = \<lparr>ce_backend = \<lparr>be_create_source = (\<lambda>_. Inr ''test''), be_opens = [Inr ()], be_stopping = False\<rparr>,
     ce_removal = Seen_Free, ce_taken = False, ce_jpeg = (\<lambda>_ _ _ _. Inl []), ce_what = ''type must be string''\<rparr>"

definition add_line :: json where
  "add_line = json_obj [(''op'', JStr ''add''), (''req'', JStr ''1''),
     (''stream'', json_obj [(''index'', JInt 4), (''url'', JStr ''rtsp'')])]"

definition demo_spec :: stream_spec where
  "demo_spec = \<lparr>ssp_index = 4, ssp_id = [], ssp_url = ''rtsp'', ssp_name = [], ssp_transport = ''tcp'',
     ssp_score_threshold = lit (35/100), ssp_options_json = ''{}''\<rparr>"

definition demo_added :: "unit stream_state" where
  "demo_added = fst (emit_stream_state (fresh_stream demo_runtime demo_spec ''test'' []) ''starting'' [])"

lemma add_line_adds:
  "op_add demo_libs (ce_backend demo_env) add_line demo_runtime =
     (demo_runtime\<lparr>rt_streams := [(4, demo_added)]\<rparr>,
      [stream_state_record 4 ''starting'' [], reply_ok ''1'' (json_obj [(''stream_index'', JInt 4)])], Done)"
proof -
  have s: "stream_spec_of demo_libs (json_obj [(''index'', JInt 4), (''url'', JStr ''rtsp'')]) = Returned demo_spec"
    by (simp add: stream_spec_of_def need_u32_def need_string_def json_get_str_def given_def lift_err_def demo_spec_def)
  have o: "need_object add_line ''stream'' = Inr (json_obj [(''index'', JInt 4), (''url'', JStr ''rtsp'')])"
    by (simp add: need_object_def add_line_def) (simp add: json_obj_def)
  have i: "ssp_index demo_spec = 4" by (simp add: demo_spec_def)
  have a: "add_stream_locked demo_libs (ce_backend demo_env) demo_spec [] demo_runtime =
      (demo_runtime\<lparr>rt_streams := [(4, demo_added)]\<rparr>, [stream_state_record 4 ''starting'' []], Returned ())"
    by (simp add: add_stream_locked_def demo_env_def demo_added_def emit_stream_state_def case_prod_beta fresh_stream_def
        Let_def i) (simp add: demo_runtime_def new_runtime_def default_runtime_config_def default_dev_config_def)
  have r: "json_get_str add_line ''req'' [] = ''1''" "json_find ''analyzers'' add_line = None"
    by (simp_all add: add_line_def json_get_str_def)
  show ?thesis unfolding op_add_def Let_def o
    by (simp add: lift_err_def s check_def a i r)
qed

lemma add_line_step: "rt_step demo_libs (Control_Line demo_env add_line) demo_runtime =
    Some (demo_runtime\<lparr>rt_streams := [(4, demo_added)]\<rparr>)"
proof -
  have o: "json_get_str add_line ''op'' [] = ''add''" by (simp add: add_line_def json_get_str_def)
  show ?thesis by (simp add: handle_line_def o run_op_def add_line_adds)
qed

lemma demo_runtime_empty: "rt_streams demo_runtime = []"
  by (simp add: demo_runtime_def new_runtime_def)


theorem runtime_invariant_witness:
  "ss_index demo_added = 4 \<and> leak_free demo_added"
proof -
  have r: "rt_run demo_libs [Control_Line demo_env add_line] demo_runtime = Some (demo_runtime\<lparr>rt_streams := [(4, demo_added)]\<rparr>)"
    by (simp add: add_line_step del: rt_step.simps)
  have "rc_tracker_enabled (rt_cfg demo_runtime)"
    by (simp add: demo_runtime_def new_runtime_def default_runtime_config_def)
  with runtime_invariant [OF r demo_runtime_empty] show ?thesis by simp
qed

theorem removing_undoes_adding_witness:
  "op_remove Seen_Free (json_obj [(''stream_index'', JInt 4)]) (demo_runtime\<lparr>rt_streams := [(4, demo_added)]\<rparr>) =
     (demo_runtime, [stream_state_record 4 ''stopped'' [], reply_ok [] (json_obj [(''stream_index'', JInt 4)])], Done)"
proof -
  have o: "need_object add_line ''stream'' = Inr (json_obj [(''index'', JInt 4), (''url'', JStr ''rtsp'')])"
    by (simp add: need_object_def add_line_def) (simp add: json_obj_def)
  have i: "need_u32 (json_obj [(''index'', JInt 4), (''url'', JStr ''rtsp'')]) ''index'' = Inr 4"
    "need_u32 (json_obj [(''stream_index'', JInt 4)]) ''stream_index'' = Inr 4" by (simp_all add: need_u32_def)
  have r: "json_get_str (json_obj [(''stream_index'', JInt 4)]) ''req'' [] = []" by (simp add: json_get_str_def)
  have m: "om_ok (rt_streams demo_runtime)" by (simp add: demo_runtime_empty)
  have l: "\<not> is_refusal (last [stream_state_record 4 ''starting'' [], reply_ok ''1'' (json_obj [(''stream_index'', JInt 4)])])" by simp
  from removing_undoes_adding [OF add_line_adds l m o i] show ?thesis by (simp add: r)
qed

end
