(* ===== verification/Control_Lines.thy ===== *)
theory Control_Lines
  imports Runtime_Control
begin

text \<open>
  The edges of the runtime in \<open>core-cpp/vb/src/runtime.cpp\<close>: loading its configuration file, the start,
  the hello and statistics records, the server that cuts what it receives into control lines, and the loop that
  writes a record to a socket.
\<close>

section \<open>Configuration file and start\<close>

text \<open>\<open>content\<close> is the file's text, if it can be opened.\<close>

definition load_config :: "libs \<Rightarrow> string \<Rightarrow> string \<Rightarrow> string option \<Rightarrow> bool \<Rightarrow> string + runtime_config" where
  "load_config lb what path content allow_dev =
    (case content of
       None \<Rightarrow> Inl (''cannot open config: '' @ path)
     | Some txt \<Rightarrow>
         (case lb_parse lb txt of
            Inl e \<Rightarrow> Inl (''bad config json: '' @ e)
          | Inr j \<Rightarrow> from_json lb what j allow_dev))"

fun create_contexts :: "(int \<Rightarrow> string + 'c) \<Rightarrow> nat \<Rightarrow> int \<Rightarrow> string + 'c list" where
  "create_contexts mk 0 i = Inr []"
| "create_contexts mk (Suc k) i =
    bind_err (mk i) (\<lambda>c. bind_err (create_contexts mk k (i + 1)) (\<lambda>cs. Inr (c # cs)))"

definition start_runtime :: "(string \<Rightarrow> string + 'p vb_analyzer_api) \<Rightarrow> (int \<Rightarrow> string + 'c) \<Rightarrow> 'p runtime \<Rightarrow>
    string + 'p runtime \<times> 'c list" where
  "start_runtime load mk rt =
     bind_err (load_configured_plugins load (rc_plugin_paths (rt_cfg rt)) (rt_plugins rt)) (\<lambda>ps.
     bind_err (create_contexts mk (nat (rc_contexts (rt_cfg rt))) 0) (\<lambda>cs.
     Inr (rt\<lparr>rt_plugins := ps\<rparr>, cs)))"

section \<open>Hello and statistics\<close>

record backend_info =
  bi_version :: string
  bi_name :: string
  bi_model_hw :: "int \<times> int"
  bi_model_sha256 :: string
  bi_pid :: int

definition emit_hello :: "backend_info \<Rightarrow> caps \<Rightarrow> sent_record" where
  "emit_hello bi cp = Control (json_obj [(''op'', JStr ''hello''), (''runtime_version'', JStr (bi_version bi)),
     (''abi'', JInt 1), (''backend'', JStr (bi_name bi)),
     (''caps'', json_obj [(''max_contexts'', JInt (cp_max_contexts cp)), (''max_batch'', JInt (cp_max_batch cp)),
        (''keypoints'', JInt (cp_keypoints cp)), (''exclusive_device'', JBool (cp_exclusive_device cp))]),
     (''model_hw'', JArr [JInt (fst (bi_model_hw bi)), JInt (snd (bi_model_hw bi))]),
     (''model_sha256'', JStr (bi_model_sha256 bi)), (''attr_names'', JArr []), (''stage2_ready'', JBool False),
     (''pid'', JInt (bi_pid bi))])"

text \<open>\<open>usage\<close>: resident kilobytes and processor seconds, if \<open>getrusage\<close> gives them; \<open>now\<close>: the wall clock of each stream's
  report.\<close>

fun report_streams :: "f64 \<Rightarrow> (u32, 'p stream_state) omap \<Rightarrow> (u32, 'p stream_state) omap \<times> json list" where
  "report_streams now [] = ([], [])"
| "report_streams now ((k, s) # rest) =
    (let (sm, j) = metrics_to_json k now (ss_metrics s); (rest', js) = report_streams now rest
     in ((k, s\<lparr>ss_metrics := sm\<rparr>) # rest', j # js))"

definition emit_stats :: "(int \<times> f64) option \<Rightarrow> f64 \<Rightarrow> 'p runtime \<Rightarrow> 'p runtime \<times> sent_record" where
  "emit_stats usage now rt =
    (let (rss, cpu) = (case usage of Some u \<Rightarrow> u | None \<Rightarrow> (0, 0)); (ss, js) = report_streams now (rt_streams rt)
     in (rt\<lparr>rt_streams := ss\<rparr>,
         Control (json_obj ([(''op'', JStr ''stats''), (''rss_kb'', JInt rss), (''cpu_s'', JNum cpu), (''streams'', JArr js)] @
           (if rt_dev_active rt then [(''dev_mode'', JBool True), (''dev_tensor_oversize'', JInt (uint (rt_oversize rt)))] else [])))))"

section \<open>Control lines from a socket\<close>

definition max_line :: nat where "max_line = 2 * 1024 * 1024"

abbreviation newline :: char where "newline \<equiv> CHR 0x0A"

fun cut_line :: "string \<Rightarrow> (string \<times> string) option" where
  "cut_line [] = None"
| "cut_line (ch # rest) = (if ch = newline then Some ([], rest) else map_option (apfst (Cons ch)) (cut_line rest))"

definition strip_cr :: "string \<Rightarrow> string" where
  "strip_cr line = (if line \<noteq> [] \<and> last line = CHR 0x0D then butlast line else line)"

text \<open>\<open>dump\<close> throws for a string that is not well-formed UTF-8 (RFC 3629); \<open>need\<close> is what must follow the bytes read, as ranges.\<close>

definition utf8_tail :: "nat \<Rightarrow> (nat \<times> nat) list option" where
  "utf8_tail b =
    (if b < 0x80 then Some []
     else if b < 0xC2 then None
     else if b < 0xE0 then Some [(0x80, 0xBF)]
     else if b = 0xE0 then Some [(0xA0, 0xBF), (0x80, 0xBF)]
     else if b = 0xED then Some [(0x80, 0x9F), (0x80, 0xBF)]
     else if b < 0xF0 then Some [(0x80, 0xBF), (0x80, 0xBF)]
     else if b = 0xF0 then Some [(0x90, 0xBF), (0x80, 0xBF), (0x80, 0xBF)]
     else if b < 0xF4 then Some [(0x80, 0xBF), (0x80, 0xBF), (0x80, 0xBF)]
     else if b = 0xF4 then Some [(0x80, 0x8F), (0x80, 0xBF), (0x80, 0xBF)]
     else None)"

fun utf8_from :: "(nat \<times> nat) list \<Rightarrow> nat list \<Rightarrow> bool" where
  "utf8_from need [] \<longleftrightarrow> need = []"
| "utf8_from [] (b # bs) \<longleftrightarrow> (case utf8_tail b of None \<Rightarrow> False | Some need \<Rightarrow> utf8_from need bs)"
| "utf8_from ((lo, hi) # need) (b # bs) \<longleftrightarrow> lo \<le> b \<and> b \<le> hi \<and> utf8_from need bs"

definition utf8_ok :: "string \<Rightarrow> bool" where
  "utf8_ok s \<longleftrightarrow> utf8_from [] (map of_char s)"

definition bad_json :: "string \<Rightarrow> sent_record" where
  "bad_json e = Control (json_obj [(''op'', JStr ''reply''), (''req'', JStr []), (''ok'', JBool False), (''error'', JStr (''bad json: '' @ e))])"

text \<open>One line as received; the flag ends the connection. \<open>None\<close> is the end of the program: here, when the answer to a line that is not
  JSON echoes bytes that are not UTF-8, which \<open>json_dump\<close> refuses by an exception outside the try.\<close>

definition serve_line :: "libs \<Rightarrow> control_env \<Rightarrow> string \<Rightarrow> 'p runtime \<Rightarrow> ('p runtime \<times> sent_record list \<times> bool) option" where
  "serve_line lb env received rt =
    (let line = strip_cr received
     in if line = [] then Some (rt, [], False)
        else if length line > max_line then Some (rt, [], True)
        else case lb_parse lb line of
               Inl e \<Rightarrow> if utf8_ok (''bad json: '' @ e) then Some (rt, [bad_json e], False) else None
             | Inr j \<Rightarrow> handle_line lb env j rt)"

text \<open>A parser that stops at the first byte of a longer character and echoes what it has read, as the library's does for a line that
  begins with such a character, ends the program although the line is well-formed UTF-8.\<close>

lemma cut_character_ends_the_program:
  assumes "lb_parse lb (map char_of [0xC3 :: nat, 0xA9]) = Inl (''last read: '' @ [char_of (0xC3 :: nat)])"
  shows "utf8_ok (map char_of [0xC3 :: nat, 0xA9]) \<and> serve_line lb env (map char_of [0xC3 :: nat, 0xA9]) rt = None"
proof -
  have c: "char_of (0xA9 :: nat) \<noteq> CHR 0x0D"
  proof
    assume "char_of (0xA9 :: nat) = CHR 0x0D"
    then have "(of_char (char_of (0xA9 :: nat) :: char) :: nat) = of_char (CHR 0x0D)" by (simp only:)
    then show False by simp
  qed
  have "strip_cr (map char_of [0xC3 :: nat, 0xA9]) = map char_of [0xC3 :: nat, 0xA9]" using c by (simp add: strip_cr_def)
  moreover have "\<not> utf8_ok (''bad json: '' @ ''last read: '' @ [char_of (0xC3 :: nat)])" by (simp add: utf8_ok_def utf8_tail_def)
  ultimately show ?thesis using assms by (simp add: serve_line_def utf8_ok_def utf8_tail_def max_line_def)
qed

lemma cut_line_shorter: "cut_line buf = Some (l, rest) \<Longrightarrow> length rest < length buf"
  by (induction buf arbitrary: l rest) (fastforce split: if_splits)+

text \<open>The lines of the buffer, \<open>envs i\<close> for line number \<open>i\<close>. The last part of the result is the line number and what is left
  of the buffer, or nothing when the connection ends.\<close>

function serve_buf :: "libs \<Rightarrow> (nat \<Rightarrow> control_env) \<Rightarrow> nat \<Rightarrow> string \<Rightarrow> 'p runtime \<Rightarrow>
    ('p runtime \<times> sent_record list \<times> (nat \<times> string) option) option" where
  "serve_buf lb envs i buf rt =
    (case cut_line buf of
       None \<Rightarrow> Some (rt, [], Some (i, buf))
     | Some (l, rest) \<Rightarrow>
         (case serve_line lb (envs i) l rt of
            None \<Rightarrow> None
          | Some (rt1, out1, True) \<Rightarrow> Some (rt1, out1, None)
          | Some (rt1, out1, False) \<Rightarrow>
              map_option (\<lambda>(rt2, out2, left). (rt2, out1 @ out2, left)) (serve_buf lb envs (Suc i) rest rt1)))"
  by pat_completeness auto
termination by (relation "measure (\<lambda>(lb, envs, i, buf, rt). length buf)") (auto dest: cut_line_shorter)

declare serve_buf.simps [simp del]

fun serve_fd :: "libs \<Rightarrow> (nat \<Rightarrow> control_env) \<Rightarrow> string list \<Rightarrow> nat \<times> string \<Rightarrow> 'p runtime \<Rightarrow>
    ('p runtime \<times> sent_record list \<times> (nat \<times> string) option) option" where
  "serve_fd lb envs [] (i, buf) rt = Some (rt, [], Some (i, buf))"
| "serve_fd lb envs (piece # pieces) (i, buf) rt =
    (case serve_buf lb envs i (buf @ piece) rt of
       None \<Rightarrow> None
     | Some (rt1, out1, None) \<Rightarrow> Some (rt1, out1, None)
     | Some (rt1, out1, Some (i1, buf1)) \<Rightarrow>
         if length buf1 > max_line then Some (rt1, out1, None)
         else map_option (\<lambda>(rt2, out2, left). (rt2, out1 @ out2, left)) (serve_fd lb envs pieces (i1, buf1) rt1))"

section \<open>Writing to a socket\<close>

text \<open>What the loop meets at each turn: the cancel predicate, the deadline, or the result of \<open>send\<close>. The result is whether all was written
  and how many bytes were; \<open>None\<close> when the loop is still running.\<close>

datatype send_turn = Cancelled | Past_Deadline | Sent nat | Again | Failed

fun write_all_fd :: "nat \<Rightarrow> nat \<Rightarrow> send_turn list \<Rightarrow> (bool \<times> nat) option" where
  "write_all_fd len off [] = (if off < len then None else Some (True, off))"
| "write_all_fd len off (t # ts) =
    (if off < len then
       (case t of
          Cancelled \<Rightarrow> Some (False, off)
        | Past_Deadline \<Rightarrow> Some (False, off)
        | Again \<Rightarrow> write_all_fd len off ts
        | Failed \<Rightarrow> Some (False, off)
        | Sent k \<Rightarrow> if k = 0 then Some (False, off) else write_all_fd len (off + k) ts)
     else Some (True, off))"

lemma write_all_or_say_so:
  "write_all_fd len off ts = Some (ok, n) \<Longrightarrow> off \<le> n \<and> (ok \<longleftrightarrow> len \<le> n)"
  by (induction len off ts rule: write_all_fd.induct) (auto split: if_splits send_turn.splits)

section \<open>Cutting does not depend on the pieces\<close>

lemma cut_line_append: "cut_line a = Some (l, r) \<Longrightarrow> cut_line (a @ b) = Some (l, r @ b)"
  by (induction a arbitrary: l) (fastforce split: if_splits)+

lemma cut_line_None: "cut_line a = None \<longleftrightarrow> newline \<notin> set a"
  by (induction a) (auto split: if_splits)

lemma cut_line_suffix: "cut_line a = Some (l, r) \<Longrightarrow> a = l @ newline # r"
  by (induction a arbitrary: l) (fastforce split: if_splits)+

text \<open>Going on with what is left.\<close>

definition go_on :: "libs \<Rightarrow> (nat \<Rightarrow> control_env) \<Rightarrow> string \<Rightarrow> 'p runtime \<times> sent_record list \<times> (nat \<times> string) option \<Rightarrow>
    ('p runtime \<times> sent_record list \<times> (nat \<times> string) option) option" where
  "go_on lb envs b r =
    (case r of
       (rt1, out1, None) \<Rightarrow> Some (rt1, out1, None)
     | (rt1, out1, Some (i1, left1)) \<Rightarrow>
         map_option (\<lambda>(rt2, out2, left). (rt2, out1 @ out2, left)) (serve_buf lb envs i1 (left1 @ b) rt1))"

lemma go_on_prefix:
  "go_on lb envs b (rt2, out1 @ out2, left) = map_option (\<lambda>(rt3, out3, left'). (rt3, out1 @ out3, left')) (go_on lb envs b (rt2, out2, left))"
proof (cases left)
  case (Some p)
  then show ?thesis
    by (cases p, cases "serve_buf lb envs (fst p) (snd p @ b) rt2") (auto simp: go_on_def)
qed (simp add: go_on_def)

lemma serve_buf_None: "cut_line buf = None \<Longrightarrow> serve_buf lb envs i buf rt = Some (rt, [], Some (i, buf))"
  by (simp add: serve_buf.simps [of _ _ _ buf])

lemma serve_buf_Some: "cut_line buf = Some (l, r) \<Longrightarrow> serve_buf lb envs i buf rt =
    (case serve_line lb (envs i) l rt of
       None \<Rightarrow> None
     | Some (rt1, out1, True) \<Rightarrow> Some (rt1, out1, None)
     | Some (rt1, out1, False) \<Rightarrow> map_option (\<lambda>(rt2, out2, left). (rt2, out1 @ out2, left)) (serve_buf lb envs (Suc i) r rt1))"
  by (simp add: serve_buf.simps [of _ _ _ buf])

lemma serve_buf_append: "serve_buf lb envs i (a @ b) rt = Option.bind (serve_buf lb envs i a rt) (go_on lb envs b)"
proof (induction lb envs i a rt rule: serve_buf.induct)
  case (1 lb envs i buf rt)
  show ?case
  proof (cases "cut_line buf")
    case None
    then show ?thesis by (simp add: serve_buf_None go_on_def option.map_id [unfolded id_def] cong: option.map_cong)
  next
    case (Some lr)
    obtain l r where lr: "lr = (l, r)" by fastforce
    note cut = Some [unfolded lr]
    note unf = serve_buf_Some [OF cut] serve_buf_Some [OF cut_line_append [OF cut, of b]]
    show ?thesis
    proof (cases "serve_line lb (envs i) l rt")
      case None
      then show ?thesis by (simp add: unf)
    next
      case (Some sl)
      obtain rt1 out1 stop where sl: "sl = (rt1, out1, stop)" by (metis prod_cases3)
      show ?thesis
      proof (cases stop)
        case True
        with Some sl show ?thesis by (simp add: unf go_on_def)
      next
        case False
        have IH: "serve_buf lb envs (Suc i) (r @ b) rt1 = Option.bind (serve_buf lb envs (Suc i) r rt1) (go_on lb envs b)"
          using 1 [OF cut refl Some sl [symmetric] refl] False by simp
        show ?thesis using False Some sl
          by (cases "serve_buf lb envs (Suc i) r rt1") (auto simp: unf IH go_on_prefix)
      qed
    qed
  qed
qed

lemma serve_buf_left:
  "serve_buf lb envs i buf rt = Some (rt', out, Some (j, left)) \<Longrightarrow> (\<exists>p. buf = p @ left) \<and> newline \<notin> set left"
proof (induction lb envs i buf rt arbitrary: out rule: serve_buf.induct)
  case (1 lb envs i buf rt)
  show ?case
  proof (cases "cut_line buf")
    case None
    with 1(2) show ?thesis by (simp add: serve_buf_None cut_line_None)
  next
    case (Some lr)
    obtain l r where lr: "lr = (l, r)" by fastforce
    note cut = Some [unfolded lr]
    from 1(2) cut obtain rt1 out1 out2 where s: "serve_line lb (envs i) l rt = Some (rt1, out1, False)"
      "serve_buf lb envs (Suc i) r rt1 = Some (rt', out2, Some (j, left))"
      by (auto simp: serve_buf_Some [OF cut] split: option.splits prod.splits bool.splits)
    from 1(1) [OF cut refl s(1) refl refl _ s(2)] obtain p where p: "r = p @ left" "newline \<notin> set left" by auto
    then have "buf = (l @ newline # p) @ left" using cut_line_suffix [OF cut] by simp
    with p(2) show ?thesis by blast
  qed
qed

text \<open>No line is longer than the limit; \<open>k\<close> is the length of the line so far.\<close>

fun lines_fit :: "nat \<Rightarrow> string \<Rightarrow> bool" where
  "lines_fit k [] \<longleftrightarrow> k \<le> max_line"
| "lines_fit k (ch # rest) \<longleftrightarrow> (if ch = newline then k \<le> max_line \<and> lines_fit 0 rest else lines_fit (Suc k) rest)"

lemma lines_fit_now: "lines_fit k t \<Longrightarrow> k \<le> max_line"
  by (induction t arbitrary: k) (auto split: if_splits dest: Suc_leD)

lemma lines_fit_run: "lines_fit k (l @ t) \<Longrightarrow> newline \<notin> set l \<Longrightarrow> k + length l \<le> max_line"
proof (induction l arbitrary: k)
  case (Cons ch l)
  then have "Suc k + length l \<le> max_line" by (intro Cons.IH) (auto split: if_splits)
  then show ?case by simp
qed (simp add: lines_fit_now)

lemma lines_fit_suffix: "lines_fit k (p @ t) \<Longrightarrow> \<exists>k'. lines_fit k' t"
  by (induction p arbitrary: k) (auto split: if_splits)

lemma lines_fit_infix: "lines_fit k (p @ l @ t) \<Longrightarrow> newline \<notin> set l \<Longrightarrow> length l \<le> max_line"
  using lines_fit_suffix lines_fit_run by (metis add.commute add_leD1)

lemma serve_fd_eq:
  "lines_fit k (buf @ concat pieces) \<Longrightarrow> newline \<notin> set buf \<Longrightarrow>
     serve_fd lb envs pieces (i, buf) rt = serve_buf lb envs i (buf @ concat pieces) rt"
proof (induction pieces arbitrary: k buf i rt)
  case Nil
  then have "cut_line buf = None" by (simp add: cut_line_None)
  then show ?case by (simp add: serve_buf_None)
next
  case (Cons c pieces)
  have app: "serve_buf lb envs i (buf @ concat (c # pieces)) rt = serve_buf lb envs i ((buf @ c) @ concat pieces) rt" by simp
  show ?case
  proof (cases "serve_buf lb envs i (buf @ c) rt")
    case None
    then show ?thesis unfolding app serve_buf_append [of lb envs i "buf @ c"] by (simp add: go_on_def)
  next
    case (Some res)
    obtain rt1 out1 left where res: "res = (rt1, out1, left)" by (metis prod_cases3)
    show ?thesis
    proof (cases left)
      case None
      with Some res show ?thesis unfolding app serve_buf_append [of lb envs i "buf @ c"] by (simp add: go_on_def)
    next
      case l: (Some ib)
      obtain i1 buf1 where ib: "ib = (i1, buf1)" by fastforce
      note step = Some [unfolded res l ib]
      from serve_buf_left [OF step] obtain p where p: "buf @ c = p @ buf1" "newline \<notin> set buf1" by blast
      then have "lines_fit k (p @ buf1 @ concat pieces)" using Cons.prems(1) by (metis append.assoc concat.simps(2))
      with p(2) have fits: "length buf1 \<le> max_line" "\<exists>k'. lines_fit k' (buf1 @ concat pieces)"
        using lines_fit_infix lines_fit_suffix by blast+
      then obtain k' where "lines_fit k' (buf1 @ concat pieces)" by blast
      from Cons.IH [OF this p(2), of i1 rt1] fits(1) step show ?thesis unfolding app serve_buf_append [of lb envs i "buf @ c"] by (simp add: go_on_def)
    qed
  qed
qed

section \<open>Properties\<close>

text \<open>C25: as long as no line is longer than the limit of 2 MiB, what the server does, the runtime it leaves, the records it sends,
  the unread rest, whether it ends the connection and whether a line ends the program, depends only on the bytes received and
  not on how the socket cuts them.\<close>

theorem serving_ignores_chunk_borders:
  assumes "lines_fit 0 (concat pieces)"
  shows "serve_fd lb envs pieces (i, []) rt = serve_buf lb envs i (concat pieces) rt \<and>
    (\<forall>pieces'. concat pieces' = concat pieces \<longrightarrow> serve_fd lb envs pieces' (i, []) rt = serve_fd lb envs pieces (i, []) rt)"
  using serve_fd_eq [of 0 "[]" _ lb envs i rt] assms by simp

section \<open>Concrete instances\<close>

theorem serving_ignores_chunk_borders_witness:
  "\<forall>lb envs (rt :: unit runtime). serve_fd lb envs [''{'', ''}'' @ [newline] @ ''['', '']''] (0, []) rt =
     serve_fd lb envs [''{}'' @ [newline] @ ''[]''] (0, []) rt"
proof (intro allI)
  fix lb envs and rt :: "unit runtime"
  have f: "lines_fit 0 (concat [''{}'' @ [newline] @ ''[]''])" by (simp add: max_line_def)
  have c: "concat [''{'', ''}'' @ [newline] @ ''['', '']''] = concat [''{}'' @ [newline] @ ''[]'']" by simp
  show "serve_fd lb envs [''{'', ''}'' @ [newline] @ ''['', '']''] (0, []) rt =
      serve_fd lb envs [''{}'' @ [newline] @ ''[]''] (0, []) rt"
    using serving_ignores_chunk_borders [OF f, of lb envs 0 rt] c by blast
qed

end
