(* ===== verification/Tensor_View.thy ===== *)
theory Tensor_View
  imports Nms Json_Value Dev_Tensor "HOL-Library.Monad_Syntax" "HOL-Library.Signed_Division"
begin

text \<open>
  What the decoders of model outputs share: the decoder parameters and tensor views of
  \<open>core-cpp/vb/include/vb/decoder.h\<close> and the input checks of \<open>core-cpp/vb/src/post/tensor_check.h\<close>. A read
  outside the floats a view holds is the value \<open>None\<close>, so that a decoder that never returns \<open>None\<close> never
  reads out of bounds.
\<close>

section \<open>Parameters and views\<close>

record decode_spec =
  dsp_type :: string
  dsp_num_classes :: int
  dsp_reg_max :: int
  dsp_strides :: "int list"
  dsp_keypoints :: int
  dsp_top_k :: int
  dsp_softmax :: bool

definition default_decode_spec :: decode_spec where
  "default_decode_spec = \<lparr>dsp_type = [], dsp_num_classes = 80, dsp_reg_max = 16, dsp_strides = [8, 16, 32],
     dsp_keypoints = 17, dsp_top_k = 1, dsp_softmax = True\<rparr>"

text \<open>\<open>count\<close> is the length of the data.\<close>

record tensor_view =
  tv_data :: "f32 list option"
  tv_dims :: "int list"
  tv_name :: string

fun shape_product :: "int list \<Rightarrow> nat \<Rightarrow> nat option" where
  "shape_product [] e = Some e"
| "shape_product (d # ds) e =
    (if d \<le> 0 then None else if nat d > (2 ^ 64 - 1) div e then None else shape_product ds (e * nat d))"

definition shape_elements :: "tensor_view \<Rightarrow> nat option" where
  "shape_elements t = (if tv_dims t = [] then None else shape_product (tv_dims t) 1)"

definition check_view :: "tensor_view \<Rightarrow> string \<Rightarrow> string + f32 list" where
  "check_view t ctx =
    (case tv_data t of
       None \<Rightarrow> Inl (ctx @ '': tensor data is null'')
     | Some data \<Rightarrow>
         (case shape_elements t of
            None \<Rightarrow> Inl (ctx @ '': tensor dims are empty, non-positive or overflow'')
          | Some e \<Rightarrow>
              if length data \<noteq> e then
                Inl (ctx @ '': tensor holds '' @ dec_digits (length data) @ '' elements but its dims describe '' @ dec_digits e)
              else Inr data))"

definition check_canvas :: "int \<Rightarrow> int \<Rightarrow> string \<Rightarrow> string + unit" where
  "check_canvas model_w model_h ctx =
    (if model_w \<le> 0 \<or> model_h \<le> 0 then Inl (ctx @ '': model canvas must be positive'') else Inr ())"

text \<open>The note about candidates that were dropped.\<close>

definition note_dropped :: "string \<Rightarrow> nat \<Rightarrow> string" where
  "note_dropped ctx n = (if n = 0 then [] else ctx @ '': dropped '' @ dec_digits n @ '' non-finite candidate(s)'')"

section \<open>Integers of 32 bits\<close>

text \<open>A cast to \<open>int\<close> keeps the low bits; arithmetic in \<open>int\<close> beyond its range is undefined and is the value \<open>None\<close>, as a read outside is.\<close>

definition as_int32 :: "int \<Rightarrow> int" where
  "as_int32 x = sint (word_of_int x :: 32 word)"

definition int_range :: "int \<Rightarrow> bool" where
  "int_range x \<longleftrightarrow> - (2 ^ 31) \<le> x \<and> x < 2 ^ 31"

lemma as_int32_id: "int_range x \<Longrightarrow> as_int32 x = x"
  by (simp add: as_int32_def int_range_def sint_sbintrunc' signed_take_bit_int_eq_self)

lemma as_int32_le: "0 < x \<Longrightarrow> as_int32 x \<le> x"
  by (simp add: as_int32_def signed_take_bit_int_less_eq_self_iff sint_sbintrunc')

section \<open>Reads\<close>

definition rd :: "'a list \<Rightarrow> nat \<Rightarrow> 'a option" where
  "rd xs i = (if i < length xs then Some (xs ! i) else None)"

fun rds :: "'a list \<Rightarrow> nat list \<Rightarrow> 'a list option" where
  "rds xs [] = Some []"
| "rds xs (i # is) = do { x \<leftarrow> rd xs i; ys \<leftarrow> rds xs is; Some (x # ys) }"

text \<open>The values of a function that may fault, for every element.\<close>

fun collect_some :: "('a \<Rightarrow> 'b option) \<Rightarrow> 'a list \<Rightarrow> 'b list option" where
  "collect_some f [] = Some []"
| "collect_some f (x # xs) = do { y \<leftarrow> f x; ys \<leftarrow> collect_some f xs; Some (y # ys) }"

lemma rds_eq: "\<forall>i \<in> set is. i < length xs \<Longrightarrow> rds xs is = Some (map ((!) xs) is)"
  by (induction "is") (simp_all add: rd_def)

lemma collect_some_defined: "(\<And>x. x \<in> set xs \<Longrightarrow> f x \<noteq> None) \<Longrightarrow> collect_some f xs \<noteq> None"
proof (induction xs)
  case (Cons x xs)
  then obtain y ys where "f x = Some y" "collect_some f xs = Some ys" by fastforce
  then show ?case by simp
qed simp

lemma collect_some_set: "collect_some f xs = Some ys \<Longrightarrow> y \<in> set ys \<Longrightarrow> \<exists>x \<in> set xs. f x = Some y"
  by (induction xs arbitrary: ys) (auto simp: Option.bind_eq_Some_conv)

lemma collect_some_cong: "(\<And>x. x \<in> set xs \<Longrightarrow> f x = g x) \<Longrightarrow> collect_some f xs = collect_some g xs"
  by (induction xs) auto

section \<open>Candidates\<close>

text \<open>What becomes of one anchor: dropped for a value that is not finite, not above the threshold, or found.\<close>

datatype candidate = Dropped | Below | Found detection "keypoint list"

definition add_candidate :: "candidate \<Rightarrow> detection list \<times> keypoint list \<times> nat \<Rightarrow> detection list \<times> keypoint list \<times> nat" where
  "add_candidate c acc =
    (case acc of (ds, ks, n) \<Rightarrow>
       (case c of
          Dropped \<Rightarrow> (ds, ks, n + 1)
        | Below \<Rightarrow> (ds, ks, n)
        | Found d pts \<Rightarrow>
            (ds @ [if pts = [] then d else d\<lparr>d_kpt_offset := of_nat (length ks), d_kpt_count := of_nat (length pts)\<rparr>],
             ks @ pts, n)))"

type_synonym decoded = "detection list \<times> keypoint list \<times> string"

definition finish_decode :: "string \<Rightarrow> f32 \<Rightarrow> candidate list \<Rightarrow> decoded" where
  "finish_decode ctx nms_th cands =
    (let (ds, ks, n) = fold add_candidate cands ([], [], 0); (ds', ks') = nms ds ks nms_th True
     in (ds', ks', note_dropped ctx n))"

text \<open>\<open>best_class\<close> on the scores of one anchor; without a class it reads past the end.\<close>

fun best_from :: "f32 list \<Rightarrow> nat \<Rightarrow> f32 \<Rightarrow> nat \<Rightarrow> f32 \<times> nat" where
  "best_from [] k best i = (best, i)"
| "best_from (v # vs) k best i = (if v > best then best_from vs (k + 1) v k else best_from vs (k + 1) best i)"

fun best_class :: "f32 list \<Rightarrow> (f32 \<times> nat) option" where
  "best_class [] = None"
| "best_class (v # vs) = Some (best_from vs 1 v 0)"

section \<open>Facts\<close>

lemma shape_product_eq: "shape_product ds e = Some n \<Longrightarrow> n = e * prod_list (map nat ds) \<and> (\<forall>d \<in> set ds. 0 < d)"
proof (induction ds arbitrary: e)
  case (Cons d ds)
  then have "shape_product ds (e * nat d) = Some n" "0 < d" by (auto split: if_splits)
  with Cons.IH [of "e * nat d"] show ?case by (simp add: mult.assoc)
qed simp

lemma check_view_ok:
  "check_view t ctx = Inr data \<Longrightarrow> tv_data t = Some data \<and> length data = prod_list (map nat (tv_dims t)) \<and>
     (\<forall>d \<in> set (tv_dims t). 0 < d)"
  by (auto simp: check_view_def shape_elements_def split: option.splits if_splits dest!: shape_product_eq)

lemma best_from_index: "i < k \<Longrightarrow> snd (best_from vs k b i) < k + length vs"
proof (induction vs arbitrary: k b i)
  case (Cons v vs)
  from Cons.IH [of k "Suc k" v] Cons.IH [of i "Suc k" b] Cons.prems show ?case by simp
qed simp

lemma best_class_index: "best_class vs = Some (s, i) \<Longrightarrow> i < length vs"
proof (cases vs)
  case (Cons v ws)
  assume "best_class vs = Some (s, i)"
  with Cons best_from_index [of 0 1 ws v] show ?thesis by simp
qed simp

lemma cell_index: "(c :: nat) < a \<Longrightarrow> i < b \<Longrightarrow> c * b + i < a * b"
proof -
  assume "c < a" "i < b"
  then have "c * b + i < c * b + b" by simp
  also have "\<dots> = Suc c * b" by simp
  also have "\<dots> \<le> a * b" using \<open>c < a\<close> by (intro mult_le_mono1) simp
  finally show ?thesis .
qed

text \<open>Suppression and the gathering of candidates keep class and score of each detection.\<close>

lemma gathered:
  "d \<in> set (fst (fold add_candidate cands (ds, ks, n))) \<Longrightarrow>
     d \<in> set ds \<or> (\<exists>d0 pts. Found d0 pts \<in> set cands \<and> d_score d = d_score d0 \<and> d_class_id d = d_class_id d0)"
proof (induction cands arbitrary: ds ks n)
  case (Cons c cands)
  obtain ds1 ks1 n1 where c: "add_candidate c (ds, ks, n) = (ds1, ks1, n1)" by (metis prod_cases3)
  from Cons.prems c have "d \<in> set ds1 \<or> (\<exists>d0 pts. Found d0 pts \<in> set cands \<and> d_score d = d_score d0 \<and> d_class_id d = d_class_id d0)"
    by (intro Cons.IH) simp
  moreover have "d \<in> set ds \<or> (\<exists>d0 pts. Found d0 pts = c \<and> d_score d = d_score d0 \<and> d_class_id d = d_class_id d0)" if "d \<in> set ds1"
    using that c by (auto simp: add_candidate_def split: candidate.splits if_splits)
  ultimately show ?case by auto
qed simp

lemma nms_from: "d \<in> set (fst (nms dets kpts th ca)) \<Longrightarrow>
    \<exists>d0 \<in> set dets. d_score d = d_score d0 \<and> d_class_id d = d_class_id d0"
proof -
  have "d \<in> set (fst (fold (\<lambda>i. keep_one kpts (dets ! i)) is (ds, ks))) \<Longrightarrow>
      d \<in> set ds \<or> (\<exists>i \<in> set is. d_score d = d_score (dets ! i) \<and> d_class_id d = d_class_id (dets ! i))" for "is" ds ks
  proof (induction "is" arbitrary: ds ks)
    case (Cons i "is")
    obtain ds1 ks1 where k: "keep_one kpts (dets ! i) (ds, ks) = (ds1, ks1)" by fastforce
    with Cons.prems have "d \<in> set ds1 \<or> (\<exists>i \<in> set is. d_score d = d_score (dets ! i) \<and> d_class_id d = d_class_id (dets ! i))"
      by (intro Cons.IH) simp
    moreover have "d \<in> set ds \<or> (d_score d = d_score (dets ! i) \<and> d_class_id d = d_class_id (dets ! i))" if "d \<in> set ds1"
      using that k by (auto simp: keep_one_def split: if_splits)
    ultimately show ?case by auto
  qed simp
  from this [of "nms_kept dets th ca" "[]" "[]"] nms_kept_facts(1) [of dets th ca]
  show "d \<in> set (fst (nms dets kpts th ca)) \<Longrightarrow> \<exists>d0 \<in> set dets. d_score d = d_score d0 \<and> d_class_id d = d_class_id d0"
    by (fastforce simp: nms_eq)
qed

text \<open>What every found candidate has, every detection of the result has.\<close>

lemma decoded_from:
  assumes "finish_decode ctx th cands = (ds, ks, note)" "\<And>d0 pts. Found d0 pts \<in> set cands \<Longrightarrow> P (d_score d0) (d_class_id d0)"
    "d \<in> set ds"
  shows "P (d_score d) (d_class_id d)"
proof -
  obtain ds0 ks0 n where f: "fold add_candidate cands ([], [], 0) = (ds0, ks0, n)" by (metis prod_cases3)
  obtain ds1 ks1 where m: "nms ds0 ks0 th True = (ds1, ks1)" by fastforce
  have "ds1 = ds" using assms(1) f m by (simp add: finish_decode_def)
  with nms_from [of d ds0 ks0 th True] m assms(3) obtain d0 where d0: "d0 \<in> set ds0" "d_score d = d_score d0"
    "d_class_id d = d_class_id d0" by auto
  from gathered [of d0 cands "[]" "[]" 0] d0(1) f obtain d1 pts where "Found d1 pts \<in> set cands" "d_score d0 = d_score d1"
    "d_class_id d0 = d_class_id d1" by auto
  with assms(2) d0 show ?thesis by metis
qed

end
