(* ===== verification/Yolo_Decode.thy ===== *)
theory Yolo_Decode
  imports Tensor_View
begin

text \<open>
  The YOLOv8 decoders of \<open>core-cpp/vb/src/post/yolov8_decode.cpp\<close>: the one for boxes that are already
  decoded and the one for distributions over distances, per stride. \<open>std::exp\<close> is the parameter \<open>ex\<close>.
\<close>

section \<open>Shared\<close>

definition sigmoid :: "(f32 \<Rightarrow> f32) \<Rightarrow> f32 \<Rightarrow> f32" where
  "sigmoid ex x = 1 / (1 + ex (- x))"

text \<open>The expectation over the bins of one side; \<open>None\<close> when a bin or the distance is not finite.\<close>

definition dfl_distance :: "(f32 \<Rightarrow> f32) \<Rightarrow> f32 list \<Rightarrow> f32 option" where
  "dfl_distance ex bins =
    (if \<not> list_all is_fin bins then None
     else
       let mx = fold (\<lambda>v m. std_max m v) bins (FInf True)
       in if \<not> is_fin mx then None
          else
            let (sum, expct) = fold (\<lambda>(k, v) (s, e). let x = ex (v - mx) in (s + x, e + x * fl_of_int (int k)))
                  (enumerate 0 bins) (0, 0)
            in if \<not> is_fin sum \<or> sum \<le> 0 \<or> \<not> is_fin expct then None
               else let dists = expct / sum in if is_fin dists then Some dists else None)"

text \<open>0 when no grid matches.\<close>

definition match_stride :: "int list \<Rightarrow> int \<Rightarrow> int \<Rightarrow> int \<Rightarrow> int \<Rightarrow> int" where
  "match_stride strides model_w model_h H W =
    (case find (\<lambda>s. model_h smod s = 0 \<and> model_h sdiv s = H \<and> model_w smod s = 0 \<and> model_w sdiv s = W) strides of
       Some s \<Rightarrow> s | None \<Rightarrow> 0)"

definition to_lower :: "char \<Rightarrow> char" where
  "to_lower ch = (let k = (of_char ch :: nat) in if 65 \<le> k \<and> k \<le> 90 then char_of (k + 32) else ch)"

definition has_word :: "string \<Rightarrow> string \<Rightarrow> bool" where
  "has_word needle s \<longleftrightarrow> list_ex (\<lambda>i. take (length needle) (drop i s) = needle) [0..<length s + 1]"

text \<open>1 for a box, -1 for classes, 0 for no hint.\<close>

definition role_hint :: "string \<Rightarrow> int" where
  "role_hint name =
    (let n = map to_lower name;
         box = (has_word ''box'' n \<or> has_word ''bbox'' n \<or> has_word ''reg'' n \<or> has_word ''dfl'' n);
         cls = (has_word ''cls'' n \<or> has_word ''class'' n \<or> has_word ''score'' n \<or> has_word ''prob'' n \<or> has_word ''conf'' n)
     in if box = cls then 0 else if box then 1 else -1)"

section \<open>Decoded boxes\<close>

text \<open>One anchor as its row of box and class scores.\<close>

definition yolov8_candidate :: "int \<Rightarrow> int \<Rightarrow> f32 \<Rightarrow> f32 list \<Rightarrow> candidate option" where
  "yolov8_candidate model_w model_h score row =
    do {
      (s, cid) \<leftarrow> best_class (drop 4 row);
      let cx = row ! 0; cy = row ! 1; w = row ! 2; h = row ! 3 in
        if \<not> is_fin s \<or> \<not> is_fin cx \<or> \<not> is_fin cy \<or> \<not> is_fin w \<or> \<not> is_fin h then Some Dropped
        else if s \<le> score then Some Below
        else Some (Found (no_detection\<lparr>d_cx := cx / fl_of_int model_w, d_cy := cy / fl_of_int model_h,
          d_w := w / fl_of_int model_w, d_h := h / fl_of_int model_h, d_score := s, d_class_id := int cid\<rparr>) [])
    }"

text \<open>Where the values of an anchor lie: feature-major, or row-major.\<close>

definition feature_indices :: "bool \<Rightarrow> nat \<Rightarrow> nat \<Rightarrow> nat \<Rightarrow> nat list" where
  "feature_indices feature_major feats anchors i =
    (if feature_major then map (\<lambda>c. c * anchors + i) [0..<feats] else map (\<lambda>c. i * feats + c) [0..<feats])"

definition yolov8_anchors :: "bool \<Rightarrow> nat \<Rightarrow> nat \<Rightarrow> int \<Rightarrow> int \<Rightarrow> f32 \<Rightarrow> f32 list \<Rightarrow> candidate list option" where
  "yolov8_anchors transposed feats anchors model_w model_h score data =
     collect_some (\<lambda>i. do { row \<leftarrow> rds data (feature_indices transposed feats anchors i);
       yolov8_candidate model_w model_h score row }) [0..<anchors]"

text \<open>A null array of outputs is the empty list: both are refused with the same text.\<close>

definition yolov8_decode :: "decode_spec \<Rightarrow> tensor_view list \<Rightarrow> int \<Rightarrow> int \<Rightarrow> f32 \<Rightarrow> f32 \<Rightarrow> (string + decoded) option" where
  "yolov8_decode spec outs model_w model_h score nms_th =
    (let ctx = ''yolov8 decoder''; one = ctx @ '' expects one 2-D output tensor'' in
     case outs of
       [t] \<Rightarrow>
         (case bind_err (check_canvas model_w model_h ctx) (\<lambda>_. check_view t ctx) of
            Inl e \<Rightarrow> Some (Inl e)
          | Inr data \<Rightarrow>
              (case tv_dims t of
                 [d0, d1] \<Rightarrow>
                   if \<not> int_range (4 + dsp_num_classes spec) then None
                   else
                   let feats = 4 + dsp_num_classes spec; run = (\<lambda>transposed anchors.
                         do { cands \<leftarrow> yolov8_anchors transposed (nat feats) (nat anchors) model_w model_h score data;
                              Some (Inr (finish_decode ctx nms_th cands)) })
                   in if d0 = feats then run True d1
                      else if d1 = feats then run False d0
                      else Some (Inl (ctx @ '': output shape does not match num_classes''))
               | _ \<Rightarrow> Some (Inl one)))
     | _ \<Rightarrow> Some (Inl one))"

section \<open>Distributions per stride\<close>

record level =
  lv_box :: "f32 list option"
  lv_cls :: "f32 list option"
  lv_H :: int
  lv_W :: int

definition new_level :: level where
  "new_level = \<lparr>lv_box = None, lv_cls = None, lv_H = 0, lv_W = 0\<rparr>"

text \<open>A pointer into a tensor is the rest of its data.\<close>

definition set_box :: "string \<Rightarrow> bool \<Rightarrow> f32 list \<Rightarrow> level \<Rightarrow> string + level" where
  "set_box ctx want p lv =
    (if \<not> want then Inr lv
     else if lv_box lv \<noteq> None then Inl (ctx @ '': two box tensors for one stride'')
     else Inr (lv\<lparr>lv_box := Some p\<rparr>))"

definition set_cls :: "string \<Rightarrow> bool \<Rightarrow> f32 list \<Rightarrow> level \<Rightarrow> string + level" where
  "set_cls ctx want p lv =
    (if \<not> want then Inr lv
     else if lv_cls lv \<noteq> None then Inl (ctx @ '': two cls tensors for one stride'')
     else Inr (lv\<lparr>lv_cls := Some p\<rparr>))"

definition size_level :: "string \<Rightarrow> int \<Rightarrow> int \<Rightarrow> level \<Rightarrow> string + level" where
  "size_level ctx H W lv =
    (if lv_H lv = 0 then Inr (lv\<lparr>lv_H := H, lv_W := W\<rparr>)
     else if lv_H lv \<noteq> H \<or> lv_W lv \<noteq> W then Inl (ctx @ '': one stride got two spatial sizes'')
     else Inr lv)"

definition dfl_roles :: "decode_spec \<Rightarrow> tensor_view \<Rightarrow> int \<Rightarrow> level \<Rightarrow> string + bool \<times> bool" where
  "dfl_roles spec t C lv =
    (let nc = dsp_num_classes spec; rm = dsp_reg_max spec;
         combined = (C = 4 * rm + nc); fits_box = (C = 4 * rm); fits_cls = (C = nc)
     in if \<not> combined \<and> \<not> fits_box \<and> \<not> fits_cls then
          Inl ''yolov8_dfl decoder: channel count does not match reg_max/num_classes''
        else if combined then Inr (True, True)
        else if fits_box \<and> fits_cls then
          let hint = (let h = role_hint (tv_name t) in if h = 0 then (if lv_box lv = None then 1 else -1) else h)
          in Inr (hint > 0, hint < 0)
        else Inr (fits_box, fits_cls))"

definition dfl_tensor :: "decode_spec \<Rightarrow> int \<Rightarrow> int \<Rightarrow> tensor_view \<Rightarrow> (int, level) omap \<Rightarrow> string + (int, level) omap" where
  "dfl_tensor spec model_w model_h t levels =
    (let ctx = ''yolov8_dfl decoder''; rm = dsp_reg_max spec in
     bind_err (check_view t ctx) (\<lambda>data.
       case tv_dims t of
         [C, H, W] \<Rightarrow>
           let stride = match_stride (dsp_strides spec) model_w model_h H W
           in if stride = 0 then Inl (ctx @ '': output HxW does not match a stride'')
              else
                bind_err (size_level ctx H W (case om_find stride levels of Some lv \<Rightarrow> lv | None \<Rightarrow> new_level)) (\<lambda>lv1.
                bind_err (dfl_roles spec t C lv1) (\<lambda>(want_box, want_cls).
                bind_err (set_box ctx want_box data lv1) (\<lambda>lv2.
                bind_err (set_cls ctx want_cls (if C = 4 * rm + dsp_num_classes spec then drop (nat (4 * rm * H * W)) data else data) lv2)
                  (\<lambda>lv3. Inr (om_put stride lv3 levels)))))
       | _ \<Rightarrow> Inl (ctx @ '' expects [C, H, W] tensors'')))"

fun fold_err :: "('t \<Rightarrow> 'm \<Rightarrow> string + 'm) \<Rightarrow> 't list \<Rightarrow> 'm \<Rightarrow> string + 'm" where
  "fold_err f [] m = Inr m"
| "fold_err f (t # ts) m = bind_err (f t m) (\<lambda>m'. fold_err f ts m')"

text \<open>The four distances of a cell; the inner \<open>None\<close> is a value that is not finite.\<close>

definition cell_sides :: "(f32 \<Rightarrow> f32) \<Rightarrow> f32 list \<Rightarrow> nat \<Rightarrow> nat \<Rightarrow> nat \<Rightarrow> f32 list option option" where
  "cell_sides ex box rm plane cell =
    do {
      bins \<leftarrow> collect_some (\<lambda>d. rds box (map (\<lambda>k. d * rm * plane + cell + k * plane) [0..<rm])) [0..<4];
      Some (collect_some (dfl_distance ex) bins)
    }"

definition cell_detection :: "nat \<Rightarrow> nat \<Rightarrow> int \<Rightarrow> int \<Rightarrow> int \<Rightarrow> f32 list \<Rightarrow> f32 \<Rightarrow> nat \<Rightarrow> detection" where
  "cell_detection gx gy stride model_w model_h dists s cid =
    (let x0 = (fl_of_int (int gx) + lit (1/2) - dists ! 0) * fl_of_int stride;
         x1 = (fl_of_int (int gx) + lit (1/2) + dists ! 2) * fl_of_int stride;
         y0 = (fl_of_int (int gy) + lit (1/2) - dists ! 1) * fl_of_int stride;
         y1 = (fl_of_int (int gy) + lit (1/2) + dists ! 3) * fl_of_int stride
     in no_detection\<lparr>d_cx := (x0 + x1) * lit (1/2) / fl_of_int model_w, d_cy := (y0 + y1) * lit (1/2) / fl_of_int model_h,
          d_w := (x1 - x0) / fl_of_int model_w, d_h := (y1 - y0) / fl_of_int model_h, d_score := s, d_class_id := int cid\<rparr>)"

definition dfl_cell :: "(f32 \<Rightarrow> f32) \<Rightarrow> nat \<Rightarrow> nat \<Rightarrow> f32 list \<Rightarrow> f32 list \<Rightarrow> nat \<Rightarrow> nat \<Rightarrow> int \<Rightarrow> int \<Rightarrow> int \<Rightarrow> f32 \<Rightarrow> nat \<Rightarrow>
    candidate option" where
  "dfl_cell ex nc rm box cls H W stride model_w model_h score cell =
    do {
      sides \<leftarrow> cell_sides ex box rm (H * W) cell;
      case sides of
        None \<Rightarrow> Some Dropped
      | Some dists \<Rightarrow>
          do {
            logits \<leftarrow> rds cls (map (\<lambda>c. c * (H * W) + cell) [0..<nc]);
            let probs = map (sigmoid ex) logits in
              if \<not> list_all is_fin probs then Some Dropped
              else do {
                (s, cid) \<leftarrow> best_class probs;
                if s \<le> score then Some Below
                else Some (Found (cell_detection (cell mod W) (cell div W) stride model_w model_h dists s cid) [])
              }
          }
    }"

fun dfl_levels :: "(f32 \<Rightarrow> f32) \<Rightarrow> decode_spec \<Rightarrow> int \<Rightarrow> int \<Rightarrow> f32 \<Rightarrow> (int, level) omap \<Rightarrow> (string + candidate list) option" where
  "dfl_levels ex spec model_w model_h score [] = Some (Inr [])"
| "dfl_levels ex spec model_w model_h score ((stride, lv) # rest) =
    (case (lv_box lv, lv_cls lv) of
       (Some box, Some cls) \<Rightarrow>
         if lv_H lv = 0 then Some (Inl ''yolov8_dfl decoder: incomplete box/cls tensors for a stride'')
         else if dsp_num_classes spec < 0 then None
         else do {
           cands \<leftarrow> collect_some (dfl_cell ex (nat (dsp_num_classes spec)) (nat (dsp_reg_max spec)) box cls
               (nat (lv_H lv)) (nat (lv_W lv)) stride model_w model_h score) [0..<nat (lv_H lv) * nat (lv_W lv)];
           r \<leftarrow> dfl_levels ex spec model_w model_h score rest;
           Some (bind_err r (\<lambda>cands'. Inr (cands @ cands')))
         }
     | _ \<Rightarrow> Some (Inl ''yolov8_dfl decoder: incomplete box/cls tensors for a stride''))"

definition yolov8_dfl_decode :: "(f32 \<Rightarrow> f32) \<Rightarrow> decode_spec \<Rightarrow> tensor_view list \<Rightarrow> int \<Rightarrow> int \<Rightarrow> f32 \<Rightarrow> f32 \<Rightarrow>
    (string + decoded) option" where
  "yolov8_dfl_decode ex spec outs model_w model_h score nms_th =
    (let ctx = ''yolov8_dfl decoder'' in
     if outs = [] then Some (Inl (ctx @ '' expects [C, H, W] tensors''))
     else
       case bind_err (check_canvas model_w model_h ctx) (\<lambda>_. fold_err (dfl_tensor spec model_w model_h) outs []) of
         Inl e \<Rightarrow> Some (Inl e)
       | Inr levels \<Rightarrow>
           do {
             r \<leftarrow> dfl_levels ex spec model_w model_h score levels;
             Some (bind_err r (\<lambda>cands. Inr (finish_decode ctx nms_th cands)))
           })"

section \<open>Reads stay inside the tensors\<close>

definition spec_ok :: "decode_spec \<Rightarrow> bool" where
  "spec_ok spec \<longleftrightarrow> 1 \<le> dsp_num_classes spec \<and> dsp_num_classes spec < 2 ^ 31 - 5 \<and> 1 \<le> dsp_reg_max spec \<and> 0 \<le> dsp_keypoints spec \<and>
     list_all (\<lambda>s. 0 < s) (dsp_strides spec)"

lemma bind_Some_map: "Option.bind m (\<lambda>c. Some (f c)) = map_option f m"
  by (cases m) simp_all

lemma feature_indices_inside:
  assumes "i < anchors" shows "\<forall>k \<in> set (feature_indices fm feats anchors i). k < feats * anchors"
proof (cases fm)
  case True
  with assms cell_index [of _ feats i anchors] show ?thesis by (auto simp: feature_indices_def)
next
  case False
  have "Suc i * feats \<le> anchors * feats" using assms by (intro mult_le_mono1) simp
  with False show ?thesis by (auto simp: feature_indices_def mult.commute)
qed

lemma feature_rds:
  assumes "length data = feats * anchors" "i < anchors"
  shows "rds data (feature_indices fm feats anchors i) = Some (map ((!) data) (feature_indices fm feats anchors i))"
  using feature_indices_inside [OF assms(2), of fm feats] assms(1) by (intro rds_eq) simp

lemma length_feature_indices [simp]: "length (feature_indices fm feats anchors i) = feats"
  by (simp add: feature_indices_def)

lemma yolov8_candidate_defined: "4 < length row \<Longrightarrow> yolov8_candidate mw mh score row \<noteq> None"
  by (cases "drop 4 row") (auto simp: yolov8_candidate_def Let_def split: prod.split)

lemma yolov8_anchors_defined:
  assumes "length data = feats * anchors" "4 < feats"
  shows "yolov8_anchors fm feats anchors mw mh score data \<noteq> None"
  unfolding yolov8_anchors_def
proof (rule collect_some_defined)
  fix i assume "i \<in> set [0..<anchors]"
  then show "do { row \<leftarrow> rds data (feature_indices fm feats anchors i); yolov8_candidate mw mh score row } \<noteq> None"
    using feature_rds [OF assms(1), of i fm] assms(2) yolov8_candidate_defined by simp
qed

lemma yolov8_defined:
  assumes "spec_ok spec" shows "yolov8_decode spec outs mw mh score th \<noteq> None"
proof -
  have nc: "1 \<le> dsp_num_classes spec" "int_range (4 + dsp_num_classes spec)" using assms by (simp_all add: spec_ok_def int_range_def)
  have "yolov8_anchors fm (nat (4 + dsp_num_classes spec)) (nat d) mw mh score data \<noteq> None"
    if "length data = nat (4 + dsp_num_classes spec) * nat d" for fm d data
    using nc(1) that by (intro yolov8_anchors_defined) auto
  then show ?thesis
    by (auto simp: nc(2) yolov8_decode_def Let_def check_canvas_def mult.commute bind_Some_map
        split: list.split sum.split if_split dest!: check_view_ok)
qed

lemma set_om_put: "set (om_put k v m) \<subseteq> insert (k, v) (set m)"
  by (induction k v m rule: om_put.induct) auto

lemma om_find_set: "om_find k m = Some v \<Longrightarrow> (k, v) \<in> set m"
  by (rule om_find_in)

text \<open>The data of a level cover its planes.\<close>

definition level_fits :: "nat \<Rightarrow> nat \<Rightarrow> level \<Rightarrow> bool" where
  "level_fits rm nc lv \<longleftrightarrow> 0 \<le> lv_H lv \<and> 0 \<le> lv_W lv \<and>
     (\<forall>b. lv_box lv = Some b \<longrightarrow> lv_H lv \<noteq> 0 \<and> 4 * rm * (nat (lv_H lv) * nat (lv_W lv)) \<le> length b) \<and>
     (\<forall>c. lv_cls lv = Some c \<longrightarrow> lv_H lv \<noteq> 0 \<and> nc * (nat (lv_H lv) * nat (lv_W lv)) \<le> length c)"

lemma size_level_fits:
  "size_level ctx H W lv = Inr lv' \<Longrightarrow> level_fits rm nc lv \<Longrightarrow> 0 < H \<Longrightarrow> 0 < W \<Longrightarrow>
     level_fits rm nc lv' \<and> lv_H lv' = H \<and> lv_W lv' = W"
  by (auto simp: size_level_def level_fits_def split: if_splits)

lemma set_box_fits:
  "set_box ctx want p lv = Inr lv' \<Longrightarrow> level_fits rm nc lv \<Longrightarrow> lv_H lv \<noteq> 0 \<Longrightarrow>
     want \<longrightarrow> 4 * rm * (nat (lv_H lv) * nat (lv_W lv)) \<le> length p \<Longrightarrow> level_fits rm nc lv' \<and> lv_H lv' = lv_H lv \<and> lv_W lv' = lv_W lv"
  by (auto simp: set_box_def level_fits_def split: if_splits)

lemma set_cls_fits:
  "set_cls ctx want p lv = Inr lv' \<Longrightarrow> level_fits rm nc lv \<Longrightarrow> lv_H lv \<noteq> 0 \<Longrightarrow>
     want \<longrightarrow> nc * (nat (lv_H lv) * nat (lv_W lv)) \<le> length p \<Longrightarrow> level_fits rm nc lv'"
  by (auto simp: set_cls_def level_fits_def split: if_splits)

lemma dfl_roles_fit:
  assumes "dfl_roles spec t C lv = Inr (want_box, want_cls)" "spec_ok spec"
  shows "want_box \<longrightarrow> C = 4 * dsp_reg_max spec \<or> C = 4 * dsp_reg_max spec + dsp_num_classes spec"
    "want_cls \<longrightarrow> C = dsp_num_classes spec \<or> C = 4 * dsp_reg_max spec + dsp_num_classes spec"
  using assms by (auto simp: dfl_roles_def Let_def split: if_splits)

lemma dfl_tensor_fits:
  assumes "dfl_tensor spec mw mh t levels = Inr levels'" "spec_ok spec"
    "\<forall>(k, lv) \<in> set levels. level_fits (nat (dsp_reg_max spec)) (nat (dsp_num_classes spec)) lv"
  shows "\<forall>(k, lv) \<in> set levels'. level_fits (nat (dsp_reg_max spec)) (nat (dsp_num_classes spec)) lv"
proof -
  define rm nc where "rm = dsp_reg_max spec" and "nc = dsp_num_classes spec"
  have pos: "1 \<le> rm" "1 \<le> nc" using assms(2) by (simp_all add: spec_ok_def rm_def nc_def)
  obtain data where c: "check_view t ''yolov8_dfl decoder'' = Inr data"
    using assms(1) by (auto simp: dfl_tensor_def Let_def bind_err_Inr)
  obtain C H W where dims: "tv_dims t = [C, H, W]"
    using assms(1) c by (auto simp: dfl_tensor_def Let_def split: list.splits)
  define lv0 where "lv0 = (case om_find (match_stride (dsp_strides spec) mw mh H W) levels of Some lv \<Rightarrow> lv | None \<Rightarrow> new_level)"
  from assms(1) obtain lv1 wb wc lv2 lv3 where r:
    "size_level ''yolov8_dfl decoder'' H W lv0 = Inr lv1" "dfl_roles spec t C lv1 = Inr (wb, wc)"
    "set_box ''yolov8_dfl decoder'' wb data lv1 = Inr lv2"
    "set_cls ''yolov8_dfl decoder'' wc (if C = 4 * rm + nc then drop (nat (4 * rm * H * W)) data else data) lv2 = Inr lv3"
    "levels' = om_put (match_stride (dsp_strides spec) mw mh H W) lv3 levels"
    by (auto simp: dfl_tensor_def Let_def bind_err_Inr rm_def nc_def c dims lv0_def [symmetric] split: if_splits)
  note s = c dims lv0_def r
  have d: "length data = nat C * (nat H * nat W)" "0 < C" "0 < H" "0 < W"
    using check_view_ok [OF s(1)] s(2) by (simp_all add: mult.assoc)
  have "level_fits (nat rm) (nat nc) lv0"
  proof (cases "om_find (match_stride (dsp_strides spec) mw mh H W) levels")
    case None
    then show ?thesis by (simp add: s(3) new_level_def level_fits_def)
  next
    case (Some lv)
    with assms(3) om_find_set [OF Some] show ?thesis by (auto simp: s(3) rm_def nc_def)
  qed
  from size_level_fits [OF s(4) this d(3,4)] have l1: "level_fits (nat rm) (nat nc) lv1" "lv_H lv1 = H" "lv_W lv1 = W" by simp_all
  have four: "nat (4 * rm * H * W) = 4 * nat rm * (nat H * nat W)" "nat (4 * rm) = 4 * nat rm"
    using pos d by (simp_all add: nat_mult_distrib mult.assoc)
  have sumc: "nat (4 * rm + nc) = 4 * nat rm + nat nc" using pos by (simp add: nat_add_distrib nat_mult_distrib)
  have "wb \<longrightarrow> 4 * nat rm * (nat (lv_H lv1) * nat (lv_W lv1)) \<le> length data"
    using dfl_roles_fit(1) [OF s(5) assms(2)] unfolding l1 d rm_def [symmetric] nc_def [symmetric]
    using four(2) sumc by (auto intro!: mult_le_mono1)
  from set_box_fits [OF s(6) l1(1) _ this] d(3) have l2: "level_fits (nat rm) (nat nc) lv2" "lv_H lv2 = H" "lv_W lv2 = W"
    by (simp_all add: l1)
  have "wc \<longrightarrow> nat nc * (nat (lv_H lv2) * nat (lv_W lv2)) \<le>
      length (if C = 4 * rm + nc then drop (nat (4 * rm * H * W)) data else data)"
    using dfl_roles_fit(2) [OF s(5) assms(2)] unfolding l2 rm_def [symmetric] nc_def [symmetric]
    by (auto simp: d four sumc add_mult_distrib)
  from set_cls_fits [OF s(7) l2(1) _ this] d(3) l2 have "level_fits (nat rm) (nat nc) lv3" by simp
  then show ?thesis using assms(3) set_om_put [of "match_stride (dsp_strides spec) mw mh H W" lv3 levels]
    by (auto simp: s(8) rm_def nc_def)
qed

lemma fold_err_inv: "fold_err f ts m = Inr m' \<Longrightarrow> P m \<Longrightarrow> (\<And>t m m'. f t m = Inr m' \<Longrightarrow> P m \<Longrightarrow> P m') \<Longrightarrow> P m'"
  by (induction ts arbitrary: m) (auto simp: bind_err_Inr)

lemma cell_sides_defined:
  assumes "4 * rm * plane \<le> length box" "cell < plane"
  shows "cell_sides ex box rm plane cell \<noteq> None"
proof -
  have "collect_some (\<lambda>d. rds box (map (\<lambda>k. d * rm * plane + cell + k * plane) [0..<rm])) [0..<4] \<noteq> None"
  proof (rule collect_some_defined)
    fix d assume "d \<in> set [0..<4 :: nat]"
    then have d: "d < 4" by simp
    have "d * rm * plane + cell + k * plane < length box" if "k < rm" for k
    proof -
      have "(d * rm + k) * plane + cell < 4 * rm * plane" using cell_index [OF cell_index [OF d that] assms(2)] .
      then show ?thesis using assms(1) by (simp add: add_mult_distrib)
    qed
    then show "rds box (map (\<lambda>k. d * rm * plane + cell + k * plane) [0..<rm]) \<noteq> None" by (subst rds_eq) auto
  qed
  then show ?thesis by (auto simp: cell_sides_def)
qed

lemma plane_rds:
  assumes "nc * plane \<le> length xs" "cell < plane"
  shows "rds xs (map (\<lambda>c. c * plane + cell) [0..<nc]) = Some (map (\<lambda>c. xs ! (c * plane + cell)) [0..<nc])"
proof -
  have "c * plane + cell < length xs" if "c < nc" for c using cell_index [OF that assms(2)] assms(1) by linarith
  then show ?thesis by (subst rds_eq) auto
qed

lemma dfl_cell_defined:
  assumes "4 * rm * (H * W) \<le> length box" "nc * (H * W) \<le> length cls" "cell < H * W" "0 < nc"
  shows "dfl_cell ex nc rm box cls H W stride mw mh score cell \<noteq> None"
proof -
  obtain sides where s: "cell_sides ex box rm (H * W) cell = Some sides" using cell_sides_defined [OF assms(1,3)] by blast
  obtain v vs where v: "map (sigmoid ex) (map (\<lambda>c. cls ! (c * (H * W) + cell)) [0..<nc]) = v # vs"
    using assms(4) by (cases "map (sigmoid ex) (map (\<lambda>c. cls ! (c * (H * W) + cell)) [0..<nc])") auto
  show ?thesis unfolding dfl_cell_def s plane_rds [OF assms(2,3)]
    by (simp add: Let_def v [simplified] split: option.split prod.split)
qed

lemma dfl_levels_defined:
  assumes "0 < nat (dsp_num_classes spec)"
    "\<forall>(k, lv) \<in> set levels. level_fits (nat (dsp_reg_max spec)) (nat (dsp_num_classes spec)) lv"
  shows "dfl_levels ex spec mw mh score levels \<noteq> None"
  using assms(2)
proof (induction levels)
  case (Cons p levels)
  obtain stride lv where p: "p = (stride, lv)" by fastforce
  have IH: "dfl_levels ex spec mw mh score levels \<noteq> None" using Cons by simp
  have f: "level_fits (nat (dsp_reg_max spec)) (nat (dsp_num_classes spec)) lv" using Cons.prems p by simp
  have "collect_some (dfl_cell ex (nat (dsp_num_classes spec)) (nat (dsp_reg_max spec)) b c (nat (lv_H lv)) (nat (lv_W lv))
      stride mw mh score) [0..<nat (lv_H lv) * nat (lv_W lv)] \<noteq> None" if "lv_box lv = Some b" "lv_cls lv = Some c" for b c
    using f that assms(1) by (intro collect_some_defined dfl_cell_defined) (auto simp: level_fits_def)
  note cells = this
  have n: "\<not> dsp_num_classes spec < 0" using assms(1) by simp
  obtain r where r: "dfl_levels ex spec mw mh score levels = Some r" using IH by blast
  show ?case
  proof (cases "lv_box lv")
    case (Some b)
    show ?thesis
    proof (cases "lv_cls lv")
      case (Some c)
      with cells [OF \<open>lv_box lv = Some b\<close> Some] r n \<open>lv_box lv = Some b\<close> show ?thesis by (auto simp: p simp del: not_None_eq)
    qed (simp add: p Some)
  qed (simp add: p)
qed simp

lemma yolov8_dfl_defined:
  assumes "spec_ok spec" shows "yolov8_dfl_decode ex spec outs mw mh score th \<noteq> None"
proof -
  have "dfl_levels ex spec mw mh score levels \<noteq> None" if "fold_err (dfl_tensor spec mw mh) outs [] = Inr levels" for levels
  proof (rule dfl_levels_defined)
    show "0 < nat (dsp_num_classes spec)" using assms by (simp add: spec_ok_def)
    show "\<forall>(k, lv) \<in> set levels. level_fits (nat (dsp_reg_max spec)) (nat (dsp_num_classes spec)) lv"
      using fold_err_inv [OF that, where P = "\<lambda>m. \<forall>(k, lv) \<in> set m. level_fits (nat (dsp_reg_max spec)) (nat (dsp_num_classes spec)) lv"]
        dfl_tensor_fits [OF _ assms] by fastforce
  qed
  then show ?thesis
    by (auto simp: yolov8_dfl_decode_def Let_def bind_err_Inr bind_Some_map split: sum.split)
qed

end
