(* ===== verification/Pose_Decode.thy ===== *)
theory Pose_Decode
  imports Yolo_Decode
begin

text \<open>
  The pose decoder of \<open>core-cpp/vb/src/post/yolov8_decode.cpp\<close>: a single end-to-end tensor, or one set of
  box, class and keypoint tensors per stride.
\<close>

section \<open>Values\<close>

definition prob_tol :: f32 where "prob_tol = lit (1 / 1000000)"

definition plane_is_logits :: "f32 list \<Rightarrow> bool" where
  "plane_is_logits p =
    (case p of
       [] \<Rightarrow> False
     | v # vs \<Rightarrow> fold (\<lambda>x lo. std_min lo x) vs v < - prob_tol \<or> fold (\<lambda>x hi. std_max hi x) vs v > 1 + prob_tol)"

definition coord_to_input :: "f32 \<Rightarrow> f32 \<Rightarrow> f32" where
  "coord_to_input v extent = (if ffabs v \<le> lit 2 then v * extent else v)"

definition clamp01 :: "f32 \<Rightarrow> f32" where
  "clamp01 v = (if v < 0 then 0 else if v > 1 then 1 else v)"

definition probability :: "(f32 \<Rightarrow> f32) \<Rightarrow> f32 \<Rightarrow> f32" where
  "probability ex v = (if v \<ge> - prob_tol \<and> v \<le> 1 + prob_tol then clamp01 v else sigmoid ex v)"

section \<open>End to end\<close>

text \<open>The keypoints of an anchor, unless one is not finite.\<close>

fun anchor_keypoints :: "(f32 \<Rightarrow> f32) \<Rightarrow> f32 \<Rightarrow> f32 \<Rightarrow> f32 list \<Rightarrow> keypoint list option" where
  "anchor_keypoints ex mw mh (x # y # c # rest) =
    (let kx = coord_to_input x mw; ky = coord_to_input y mh; kc = probability ex c
     in if \<not> is_fin kx \<or> \<not> is_fin ky \<or> \<not> is_fin kc then None
        else map_option (Cons \<lparr>kp_x = kx / mw, kp_y = ky / mh, kp_conf = kc\<rparr>) (anchor_keypoints ex mw mh rest))"
| "anchor_keypoints ex mw mh _ = Some []"

definition pose_anchor :: "(f32 \<Rightarrow> f32) \<Rightarrow> int \<Rightarrow> int \<Rightarrow> f32 \<Rightarrow> f32 list \<Rightarrow> candidate" where
  "pose_anchor ex model_w model_h score row =
    (let mw = fl_of_int model_w; mh = fl_of_int model_h; s = probability ex (row ! 4) in
     if \<not> is_fin s then Dropped
     else if s \<le> score then Below
     else
       let cx = coord_to_input (row ! 0) mw; cy = coord_to_input (row ! 1) mh;
           w = ffabs (coord_to_input (row ! 2) mw); h = ffabs (coord_to_input (row ! 3) mh)
       in if \<not> is_fin cx \<or> \<not> is_fin cy \<or> \<not> is_fin w \<or> \<not> is_fin h then Dropped
          else if \<not> (w > lit (1/1000) \<and> h > lit (1/1000)) then Below
          else
            case anchor_keypoints ex mw mh (drop 5 row) of
              None \<Rightarrow> Dropped
            | Some pts \<Rightarrow>
                Found (no_detection\<lparr>d_cx := cx / mw, d_cy := cy / mh, d_w := w / mw, d_h := h / mh, d_score := s\<rparr>) pts)"

definition pose_end2end :: "(f32 \<Rightarrow> f32) \<Rightarrow> decode_spec \<Rightarrow> tensor_view \<Rightarrow> int \<Rightarrow> int \<Rightarrow> f32 \<Rightarrow> f32 \<Rightarrow> (string + decoded) option" where
  "pose_end2end ex spec t model_w model_h score nms_th =
    (let ctx = ''yolo_pose decoder'' in
     case check_view t ctx of
       Inl e \<Rightarrow> Some (Inl e)
     | Inr data \<Rightarrow>
         (case tv_dims t of
            [d0, d1] \<Rightarrow>
              let feats = 5 + 3 * dsp_keypoints spec; run = (\<lambda>feature_major anchors.
                    do { cands \<leftarrow> collect_some (\<lambda>a. do { row \<leftarrow> rds data (feature_indices feature_major (nat feats) (nat anchors) a);
                           Some (pose_anchor ex model_w model_h score row) }) [0..<nat anchors];
                         Some (Inr (finish_decode ctx nms_th cands)) })
              in if d0 = feats then run True d1
                 else if d1 = feats then run False d0
                 else Some (Inl (ctx @ '': single 2-D output does not match 5 + 3*keypoints''))
          | _ \<Rightarrow> Some (Inl (ctx @ '': single 2-D output does not match 5 + 3*keypoints''))))"

section \<open>Split head\<close>

datatype pose_role = Role_Box | Role_Cls | Role_Kpt

record head_level =
  pl_lv :: level
  pl_kpt :: "f32 list option"
  pl_nc :: int

definition new_head_level :: head_level where
  "new_head_level = \<lparr>pl_lv = new_level, pl_kpt = None, pl_nc = 0\<rparr>"

definition pose_role_of :: "decode_spec \<Rightarrow> tensor_view \<Rightarrow> int \<Rightarrow> level \<Rightarrow> pose_role" where
  "pose_role_of spec t C lv =
    (let fits_box = (C = 4 * dsp_reg_max spec); fits_kpt = (C = 3 * dsp_keypoints spec)
     in if fits_box \<and> fits_kpt then
          let hint = role_hint (tv_name t)
          in if hint > 0 then Role_Box else if hint < 0 then Role_Kpt
             else if lv_box lv = None then Role_Box else Role_Kpt
        else if fits_box then Role_Box
        else if fits_kpt then Role_Kpt
        else Role_Cls)"

definition set_role :: "pose_role \<Rightarrow> int \<Rightarrow> f32 list \<Rightarrow> head_level \<Rightarrow> string + head_level" where
  "set_role role C p pl =
    (let ctx = ''yolo_pose decoder'' in
     case role of
       Role_Box \<Rightarrow> bind_err (set_box ctx True p (pl_lv pl)) (\<lambda>lv. Inr (pl\<lparr>pl_lv := lv\<rparr>))
     | Role_Kpt \<Rightarrow>
         if pl_kpt pl \<noteq> None then Inl (ctx @ '': two keypoint tensors for one stride'') else Inr (pl\<lparr>pl_kpt := Some p\<rparr>)
     | Role_Cls \<Rightarrow> bind_err (set_cls ctx True p (pl_lv pl)) (\<lambda>lv. Inr (pl\<lparr>pl_lv := lv, pl_nc := as_int32 C\<rparr>)))"

definition pose_tensor :: "decode_spec \<Rightarrow> int \<Rightarrow> int \<Rightarrow> tensor_view \<Rightarrow> (int, head_level) omap \<Rightarrow> string + (int, head_level) omap" where
  "pose_tensor spec model_w model_h t levels =
    (let ctx = ''yolo_pose decoder'' in
     bind_err (check_view t ctx) (\<lambda>data.
       case tv_dims t of
         [C, H, W] \<Rightarrow>
           let stride = match_stride (dsp_strides spec) model_w model_h H W
           in if stride = 0 then Inl (ctx @ '': output HxW does not match a stride'')
              else
                let pl = (case om_find stride levels of Some pl \<Rightarrow> pl | None \<Rightarrow> new_head_level)
                in bind_err (size_level ctx H W (pl_lv pl)) (\<lambda>lv.
                   bind_err (set_role (pose_role_of spec t C lv) C data (pl\<lparr>pl_lv := lv\<rparr>)) (\<lambda>pl'.
                   Inr (om_put stride pl' levels)))
       | _ \<Rightarrow> Inl (ctx @ '': split pose head expects [C, H, W] tensors'')))"

text \<open>The keypoints of a cell from their x, y and confidence values.\<close>

fun cell_keypoints :: "(f32 \<Rightarrow> f32) \<Rightarrow> nat \<Rightarrow> nat \<Rightarrow> int \<Rightarrow> int \<Rightarrow> int \<Rightarrow> f32 list \<Rightarrow> keypoint list option" where
  "cell_keypoints ex gx gy stride model_w model_h (kx # ky # kc # rest) =
    (if \<not> is_fin kx \<or> \<not> is_fin ky \<or> \<not> is_fin kc then None
     else map_option (Cons \<lparr>kp_x = (lit 2 * kx + fl_of_int (int gx)) * fl_of_int stride / fl_of_int model_w,
            kp_y = (lit 2 * ky + fl_of_int (int gy)) * fl_of_int stride / fl_of_int model_h, kp_conf = sigmoid ex kc\<rparr>)
          (cell_keypoints ex gx gy stride model_w model_h rest))"
| "cell_keypoints ex gx gy stride model_w model_h _ = Some []"

definition pose_cell :: "(f32 \<Rightarrow> f32) \<Rightarrow> nat \<Rightarrow> nat \<Rightarrow> nat \<Rightarrow> bool \<Rightarrow> f32 list \<Rightarrow> f32 list \<Rightarrow> f32 list \<Rightarrow> nat \<Rightarrow> nat \<Rightarrow> int \<Rightarrow>
    int \<Rightarrow> int \<Rightarrow> f32 \<Rightarrow> nat \<Rightarrow> candidate option" where
  "pose_cell ex K nc rm logits box cls kpt H W stride model_w model_h score cell =
    do {
      sides \<leftarrow> cell_sides ex box rm (H * W) cell;
      case sides of
        None \<Rightarrow> Some Dropped
      | Some dists \<Rightarrow>
          do {
            vs \<leftarrow> rds cls (map (\<lambda>c. c * (H * W) + cell) [0..<nc]);
            let probs = map (\<lambda>v. if logits then sigmoid ex v else clamp01 v) vs in
              if \<not> list_all is_fin probs then Some Dropped
              else do {
                (s, cid) \<leftarrow> best_class probs;
                if s \<le> score then Some Below
                else do {
                  ks \<leftarrow> rds kpt (map (\<lambda>c. c * (H * W) + cell) [0..<3 * K]);
                  Some (case cell_keypoints ex (cell mod W) (cell div W) stride model_w model_h ks of
                    None \<Rightarrow> Dropped
                  | Some pts \<Rightarrow> Found (cell_detection (cell mod W) (cell div W) stride model_w model_h dists s cid) pts)
                }
              }
          }
    }"

fun pose_levels :: "(f32 \<Rightarrow> f32) \<Rightarrow> decode_spec \<Rightarrow> int \<Rightarrow> int \<Rightarrow> f32 \<Rightarrow> (int, head_level) omap \<Rightarrow>
    (string + candidate list) option" where
  "pose_levels ex spec model_w model_h score [] = Some (Inr [])"
| "pose_levels ex spec model_w model_h score ((stride, pl) # rest) =
    (let incomplete = ''yolo_pose decoder: incomplete box/cls/kpt tensors for a stride (split pose head needs box [4*reg_max,H,W], cls [nc,H,W] and kpt [3*keypoints,H,W])'';
         lv = pl_lv pl; H = nat (lv_H lv); W = nat (lv_W lv); nc = nat (pl_nc pl) in
     case (lv_box lv, lv_cls lv, pl_kpt pl) of
       (Some box, Some cls, Some kpt) \<Rightarrow>
         if lv_H lv = 0 \<or> pl_nc pl < 1 then Some (Inl incomplete)
         else do {
           p \<leftarrow> rds cls [0..<H * W * nc];
           cands \<leftarrow> collect_some (pose_cell ex (nat (dsp_keypoints spec)) nc (nat (dsp_reg_max spec)) (plane_is_logits p) box cls kpt
               H W stride model_w model_h score) [0..<H * W];
           r \<leftarrow> pose_levels ex spec model_w model_h score rest;
           Some (bind_err r (\<lambda>cands'. Inr (cands @ cands')))
         }
     | _ \<Rightarrow> Some (Inl incomplete))"

definition yolo_pose_decode :: "(f32 \<Rightarrow> f32) \<Rightarrow> decode_spec \<Rightarrow> tensor_view list \<Rightarrow> int \<Rightarrow> int \<Rightarrow> f32 \<Rightarrow> f32 \<Rightarrow>
    (string + decoded) option" where
  "yolo_pose_decode ex spec outs model_w model_h score nms_th =
    (let ctx = ''yolo_pose decoder'' in
     if outs = [] then Some (Inl (ctx @ '' expects output tensors''))
     else
       case check_canvas model_w model_h ctx of
         Inl e \<Rightarrow> Some (Inl e)
       | Inr _ \<Rightarrow>
           if dsp_keypoints spec < 1 then Some (Inl (ctx @ '' requires keypoints >= 1''))
           else if length outs = 1 \<and> length (tv_dims (hd outs)) = 2 then
             pose_end2end ex spec (hd outs) model_w model_h score nms_th
           else
             case fold_err (pose_tensor spec model_w model_h) outs [] of
               Inl e \<Rightarrow> Some (Inl e)
             | Inr levels \<Rightarrow>
                 do {
                   r \<leftarrow> pose_levels ex spec model_w model_h score levels;
                   Some (bind_err r (\<lambda>cands. Inr (finish_decode ctx nms_th cands)))
                 })"

section \<open>Reads stay inside the tensors\<close>

lemma pose_end2end_defined: "0 < dsp_keypoints spec \<Longrightarrow> pose_end2end ex spec t mw mh score th \<noteq> None"
proof -
  assume k: "0 < dsp_keypoints spec"
  have "collect_some (\<lambda>a. do { row \<leftarrow> rds data (feature_indices fm feats n a); Some (pose_anchor ex mw mh score row) }) [0..<n] \<noteq> None"
    if "length data = feats * n" for data :: "f32 list" and fm feats n
    using feature_rds [OF that] by (intro collect_some_defined) simp
  then show ?thesis
    by (auto simp: pose_end2end_def Let_def bind_Some_map mult.commute split: list.split sum.split dest!: check_view_ok)
qed

definition pose_fits :: "nat \<Rightarrow> nat \<Rightarrow> head_level \<Rightarrow> bool" where
  "pose_fits rm K pl \<longleftrightarrow> level_fits rm (nat (pl_nc pl)) (pl_lv pl) \<and>
     (lv_cls (pl_lv pl) = None \<longrightarrow> pl_nc pl = 0) \<and>
     (\<forall>b. pl_kpt pl = Some b \<longrightarrow> lv_H (pl_lv pl) \<noteq> 0 \<and> 3 * K * (nat (lv_H (pl_lv pl)) * nat (lv_W (pl_lv pl))) \<le> length b)"

lemma set_role_fits:
  assumes "set_role role C p pl = Inr pl'" "pose_fits rm K pl" "lv_H (pl_lv pl) = H" "lv_W (pl_lv pl) = W" "0 < H" "0 < C"
    "length p = nat C * (nat H * nat W)" "role = Role_Box \<Longrightarrow> nat C = 4 * rm" "role = Role_Kpt \<Longrightarrow> nat C = 3 * K"
  shows "pose_fits rm K pl'"
proof (cases role)
  case Role_Box
  with assms obtain lv where lv: "set_box ''yolo_pose decoder'' True p (pl_lv pl) = Inr lv" "pl' = pl\<lparr>pl_lv := lv\<rparr>"
    by (auto simp: set_role_def bind_err_Inr)
  have l: "level_fits rm (nat (pl_nc pl)) (pl_lv pl)" using assms(2) by (simp add: pose_fits_def)
  have s: "lv_cls lv = lv_cls (pl_lv pl)" using lv(1) by (auto simp: set_box_def split: if_splits)
  from set_box_fits [OF lv(1) l] assms Role_Box s lv(2) show ?thesis by (auto simp: pose_fits_def)
next
  case Role_Kpt
  with assms show ?thesis by (auto simp: set_role_def pose_fits_def split: if_splits)
next
  case Role_Cls
  with assms obtain lv where lv: "set_cls ''yolo_pose decoder'' True p (pl_lv pl) = Inr lv" "pl' = pl\<lparr>pl_lv := lv, pl_nc := as_int32 C\<rparr>"
    by (auto simp: set_role_def bind_err_Inr)
  then have e: "lv = (pl_lv pl)\<lparr>lv_cls := Some p\<rparr>" by (auto simp: set_cls_def split: if_splits)
  have "nat (as_int32 C) * (nat H * nat W) \<le> nat C * (nat H * nat W)"
    using as_int32_le [OF assms(6)] by (intro mult_le_mono1) simp
  with assms(2-7) show ?thesis by (auto simp: pose_fits_def level_fits_def e lv(2))
qed

lemma pose_tensor_fits:
  assumes "pose_tensor spec mw mh t levels = Inr levels'" "spec_ok spec"
    "\<forall>(k, pl) \<in> set levels. pose_fits (nat (dsp_reg_max spec)) (nat (dsp_keypoints spec)) pl"
  shows "\<forall>(k, pl) \<in> set levels'. pose_fits (nat (dsp_reg_max spec)) (nat (dsp_keypoints spec)) pl"
proof -
  define rm K where "rm = nat (dsp_reg_max spec)" and "K = nat (dsp_keypoints spec)"
  obtain data where c: "check_view t ''yolo_pose decoder'' = Inr data"
    using assms(1) by (auto simp: pose_tensor_def Let_def bind_err_Inr)
  obtain C H W where dims: "tv_dims t = [C, H, W]"
    using assms(1) c by (auto simp: pose_tensor_def Let_def split: list.splits)
  define stride where "stride = match_stride (dsp_strides spec) mw mh H W"
  define pl where "pl = (case om_find stride levels of Some pl \<Rightarrow> pl | None \<Rightarrow> new_head_level)"
  from assms(1) obtain lv pl' where r: "size_level ''yolo_pose decoder'' H W (pl_lv pl) = Inr lv"
    "set_role (pose_role_of spec t C lv) C data (pl\<lparr>pl_lv := lv\<rparr>) = Inr pl'" "levels' = om_put stride pl' levels"
    by (auto simp: pose_tensor_def Let_def bind_err_Inr c dims stride_def [symmetric] pl_def [symmetric] split: if_splits)
  have d: "length data = nat C * (nat H * nat W)" "0 < C" "0 < H" "0 < W"
    using check_view_ok [OF c] dims by (simp_all add: mult.assoc)
  have f: "pose_fits rm K pl"
  proof (cases "om_find stride levels")
    case None
    then show ?thesis by (simp add: pl_def new_head_level_def pose_fits_def new_level_def level_fits_def)
  next
    case (Some q)
    with assms(3) om_find_set [OF Some] show ?thesis by (auto simp: pl_def rm_def K_def)
  qed
  then have "level_fits rm (nat (pl_nc pl)) (pl_lv pl)" by (simp add: pose_fits_def)
  from size_level_fits [OF r(1) this d(3,4)] have l: "level_fits rm (nat (pl_nc pl)) lv" "lv_H lv = H" "lv_W lv = W" by simp_all
  have "lv_cls lv = lv_cls (pl_lv pl)" "lv_H (pl_lv pl) \<noteq> 0 \<Longrightarrow> lv_H lv = lv_H (pl_lv pl) \<and> lv_W lv = lv_W (pl_lv pl)"
    using r(1) by (auto simp: size_level_def split: if_splits)
  with f l have f1: "pose_fits rm K (pl\<lparr>pl_lv := lv\<rparr>)" by (auto simp: pose_fits_def)
  have "pose_role_of spec t C lv = Role_Box \<Longrightarrow> nat C = 4 * rm" "pose_role_of spec t C lv = Role_Kpt \<Longrightarrow> nat C = 3 * K"
    using assms(2) by (auto simp: pose_role_of_def Let_def rm_def K_def spec_ok_def nat_mult_distrib split: if_splits)
  with set_role_fits [OF r(2) f1, of H W] l d have "pose_fits rm K pl'" by simp
  then show ?thesis using assms(3) set_om_put [of stride pl' levels] by (auto simp: r(3) rm_def K_def)
qed

lemma pose_cell_defined:
  assumes "4 * rm * (H * W) \<le> length box" "nc * (H * W) \<le> length cls" "3 * K * (H * W) \<le> length kpt" "cell < H * W" "0 < nc"
  shows "pose_cell ex K nc rm logits box cls kpt H W stride mw mh score cell \<noteq> None"
proof -
  obtain sides where s: "cell_sides ex box rm (H * W) cell = Some sides" using cell_sides_defined [OF assms(1,4)] by blast
  define probs where "probs = map (\<lambda>v. if logits then sigmoid ex v else clamp01 v) (map (\<lambda>c. cls ! (c * (H * W) + cell)) [0..<nc])"
  obtain v vs where v: "probs = v # vs" using assms(5) by (cases probs) (auto simp: probs_def)
  show ?thesis unfolding pose_cell_def s plane_rds [OF assms(2,4)] plane_rds [OF assms(3,4)]
    by (simp only: Option.bind.bind_lunit probs_def [symmetric] v Let_def best_class.simps) (simp split: option.split prod.split)
qed

lemma pose_levels_defined:
  assumes "\<forall>(k, pl) \<in> set levels. pose_fits (nat (dsp_reg_max spec)) (nat (dsp_keypoints spec)) pl"
  shows "pose_levels ex spec mw mh score levels \<noteq> None"
  using assms
proof (induction levels)
  case (Cons p levels)
  obtain stride pl where p: "p = (stride, pl)" by fastforce
  define H W nc where "H = nat (lv_H (pl_lv pl))" and "W = nat (lv_W (pl_lv pl))" and "nc = nat (pl_nc pl)"
  have IH: "pose_levels ex spec mw mh score levels \<noteq> None" using Cons by simp
  have f: "pose_fits (nat (dsp_reg_max spec)) (nat (dsp_keypoints spec)) pl" using Cons.prems p by simp
  have a: "rds c [0..<H * W * nc] \<noteq> None" if "lv_cls (pl_lv pl) = Some c" for c
    using f that by (subst rds_eq) (auto simp: pose_fits_def level_fits_def H_def W_def nc_def mult.commute)
  have b: "collect_some (pose_cell ex (nat (dsp_keypoints spec)) nc (nat (dsp_reg_max spec)) lg b c k H W
      stride mw mh score) [0..<H * W] \<noteq> None"
    if "lv_box (pl_lv pl) = Some b" "lv_cls (pl_lv pl) = Some c" "pl_kpt pl = Some k" "\<not> pl_nc pl < 1" for b c k lg
    using f that by (intro collect_some_defined pose_cell_defined) (auto simp: pose_fits_def level_fits_def H_def W_def nc_def)
  show ?case
  proof (cases "lv_box (pl_lv pl) = None \<or> lv_cls (pl_lv pl) = None \<or> pl_kpt pl = None \<or> lv_H (pl_lv pl) = 0 \<or> pl_nc pl < 1")
    case True
    then show ?thesis by (auto simp: p Let_def split: option.split)
  next
    case False
    then obtain b c k where o: "lv_box (pl_lv pl) = Some b" "lv_cls (pl_lv pl) = Some c" "pl_kpt pl = Some k"
      "lv_H (pl_lv pl) \<noteq> 0" "\<not> pl_nc pl < 1" by auto
    obtain q where q: "rds c [0..<H * W * nc] = Some q" using a [OF o(2)] by blast
    obtain cands where cands: "collect_some (pose_cell ex (nat (dsp_keypoints spec)) nc (nat (dsp_reg_max spec)) (plane_is_logits q)
        b c k H W stride mw mh score) [0..<H * W] = Some cands" using b [OF o(1-3,5)] by blast
    obtain r where r: "pose_levels ex spec mw mh score levels = Some r" using IH by blast
    show ?thesis
      by (simp add: p Let_def o H_def [symmetric] W_def [symmetric] nc_def [symmetric] q cands r)
  qed
qed simp

lemma yolo_pose_defined:
  assumes "spec_ok spec" shows "yolo_pose_decode ex spec outs mw mh score th \<noteq> None"
proof -
  have "pose_levels ex spec mw mh score levels \<noteq> None" if "fold_err (pose_tensor spec mw mh) outs [] = Inr levels" for levels
  proof (rule pose_levels_defined)
    show "\<forall>(k, pl) \<in> set levels. pose_fits (nat (dsp_reg_max spec)) (nat (dsp_keypoints spec)) pl"
      using fold_err_inv [OF that, where P = "\<lambda>m. \<forall>(k, pl) \<in> set m. pose_fits (nat (dsp_reg_max spec)) (nat (dsp_keypoints spec)) pl"]
        pose_tensor_fits [OF _ assms] by fastforce
  qed
  with pose_end2end_defined show ?thesis
    by (auto simp: yolo_pose_decode_def Let_def bind_Some_map split: sum.split)
qed

end
