(* ===== verification/Decoders.thy ===== *)
theory Decoders
  imports Pose_Decode Plugins
begin

text \<open>
  The remaining decoders and their selection: \<open>core-cpp/vb/src/post/yolox_decode.cpp\<close>, \<open>classify.cpp\<close> and
  \<open>decoder.cpp\<close>, and what all decoders promise.
\<close>

section \<open>YOLOX\<close>

definition raw_head_geometry :: "int list \<Rightarrow> int \<Rightarrow> int \<Rightarrow> int \<Rightarrow> bool" where
  "raw_head_geometry strides anchors model_w model_h \<longleftrightarrow>
     strides \<noteq> [] \<and> list_all (\<lambda>s. \<not> (s \<le> 0 \<or> model_w smod s \<noteq> 0 \<or> model_h smod s \<noteq> 0)) strides \<and>
     sum_list (map (\<lambda>s. (model_w sdiv s) * (model_h sdiv s)) strides) = anchors"

text \<open>The cells in the order of the rows: by stride, then row-major.\<close>

definition grid_cells :: "int list \<Rightarrow> int \<Rightarrow> int \<Rightarrow> (int \<times> nat \<times> nat) list" where
  "grid_cells strides model_w model_h =
     concat (map (\<lambda>s. concat (map (\<lambda>gy. map (\<lambda>gx. (s, gx, gy)) [0..<nat (model_w sdiv s)]) [0..<nat (model_h sdiv s)])) strides)"

definition grid_row :: "(f32 \<Rightarrow> f32) \<Rightarrow> int \<times> nat \<times> nat \<Rightarrow> f32 list \<Rightarrow> f32 list" where
  "grid_row ex c p =
    (case c of (s, gx, gy) \<Rightarrow>
       let cx = (sigmoid ex (p ! 0) + fl_of_int (int gx)) * fl_of_int s; cy = (sigmoid ex (p ! 1) + fl_of_int (int gy)) * fl_of_int s;
           bw = ex (p ! 2) * fl_of_int s; bh = ex (p ! 3) * fl_of_int s
       in [cx - bw / lit 2, cy - bh / lit 2, cx + bw / lit 2, cy + bh / lit 2] @ drop 4 p)"

definition grid_decode :: "(f32 \<Rightarrow> f32) \<Rightarrow> int list \<Rightarrow> int \<Rightarrow> int \<Rightarrow> f32 list list \<Rightarrow> f32 list list" where
  "grid_decode ex strides model_w model_h rows = map2 (grid_row ex) (grid_cells strides model_w model_h) rows"

definition yolox_candidate :: "int \<Rightarrow> int \<Rightarrow> f32 \<Rightarrow> f32 list \<Rightarrow> candidate option" where
  "yolox_candidate model_w model_h score p =
    do {
      (best_cls, best) \<leftarrow> best_class (drop 5 p);
      let sc = (p ! 4) * best_cls in
        if \<not> is_fin sc \<or> \<not> is_fin (p ! 0) \<or> \<not> is_fin (p ! 1) \<or> \<not> is_fin (p ! 2) \<or> \<not> is_fin (p ! 3) then Some Dropped
        else if sc \<le> score then Some Below
        else Some (Found (no_detection\<lparr>d_cx := (p ! 0 + p ! 2) / lit 2 / fl_of_int model_w,
          d_cy := (p ! 1 + p ! 3) / lit 2 / fl_of_int model_h, d_w := (p ! 2 - p ! 0) / fl_of_int model_w,
          d_h := (p ! 3 - p ! 1) / fl_of_int model_h, d_score := sc, d_class_id := int best\<rparr>) [])
    }"

text \<open>The rows, decoded on the grid when the strides tile the canvas to as many cells. A transposed tensor is copied with indices of type
  \<open>int\<close>, the greatest of which is the number of elements less one.\<close>

definition yolox_anchors :: "(f32 \<Rightarrow> f32) \<Rightarrow> int list \<Rightarrow> nat \<Rightarrow> int \<Rightarrow> int \<Rightarrow> f32 \<Rightarrow> f32 list \<Rightarrow> bool \<Rightarrow> int \<Rightarrow> candidate list option" where
  "yolox_anchors ex strides ch model_w model_h score data transposed anchors =
    (if transposed \<and> (anchors < 0 \<or> \<not> int_range (anchors * int ch - 1)) then None
     else do {
      rows \<leftarrow> collect_some (\<lambda>i. rds data (feature_indices transposed ch (nat anchors) i)) [0..<nat anchors];
      collect_some (yolox_candidate model_w model_h score)
        (if raw_head_geometry strides anchors model_w model_h then grid_decode ex strides model_w model_h rows else rows)
    })"

text \<open>Dropped rows are not reported.\<close>

definition yolox_decode :: "(f32 \<Rightarrow> f32) \<Rightarrow> decode_spec \<Rightarrow> tensor_view list \<Rightarrow> int \<Rightarrow> int \<Rightarrow> f32 \<Rightarrow> f32 \<Rightarrow> (string + decoded) option" where
  "yolox_decode ex spec outs model_w model_h score nms_th =
    (let ctx = ''yolox decoder''; one = ctx @ '' expects one [N, 5+nc] output tensor'' in
     case outs of
       [t] \<Rightarrow>
         (case bind_err (check_canvas model_w model_h ctx) (\<lambda>_. check_view t ctx) of
            Inl e \<Rightarrow> Some (Inl e)
          | Inr data \<Rightarrow>
              (case tv_dims t of
                 [d0, d1] \<Rightarrow>
                   if \<not> int_range (5 + dsp_num_classes spec) then None
                   else
                   let ch = 5 + dsp_num_classes spec; run = (\<lambda>transposed anchors.
                     do { cands \<leftarrow> yolox_anchors ex (dsp_strides spec) (nat ch) model_w model_h score data transposed anchors;
                          Some (Inr (case finish_decode ctx nms_th cands of (ds, ks, _) \<Rightarrow> (ds, ks, []))) })
                   in if d1 = ch then run False (as_int32 d0)
                      else if d0 = ch then run True (as_int32 d1)
                      else Some (Inl (ctx @ '': output shape does not match num_classes''))
               | _ \<Rightarrow> Some (Inl one)))
     | _ \<Rightarrow> Some (Inl one))"

section \<open>Classification\<close>

definition softmax :: "(f32 \<Rightarrow> f32) \<Rightarrow> f32 list \<Rightarrow> f32 list" where
  "softmax ex p =
    (let mx = fold (\<lambda>v m. std_max m v) (tl p) (hd p); es = map (\<lambda>v. ex (v - mx)) p; sum = fold (\<lambda>e s. s + e) es 0
     in map (\<lambda>e. e / sum) es)"

definition demote :: "f32 list \<Rightarrow> f32 list" where
  "demote p = map (\<lambda>v. if is_fin v then v else FInf True) p"

text \<open>The classes that are reported, given the demoted scores.\<close>

definition top_classes :: "nat \<Rightarrow> f32 \<Rightarrow> f32 list \<Rightarrow> nat list" where
  "top_classes top_k score p =
     takeWhile (\<lambda>c. is_fin (p ! c) \<and> \<not> p ! c \<le> score) (take top_k (stable_sort (\<lambda>a b. p ! a > p ! b) [0..<length p]))"

definition class_detection :: "f32 list \<Rightarrow> nat \<Rightarrow> detection" where
  "class_detection p c = no_detection\<lparr>d_cx := lit (1/2), d_cy := lit (1/2), d_w := 1, d_h := 1, d_score := p ! c, d_class_id := int c\<rparr>"

definition classify_decode :: "(f32 \<Rightarrow> f32) \<Rightarrow> decode_spec \<Rightarrow> tensor_view list \<Rightarrow> f32 \<Rightarrow> (string + decoded) option" where
  "classify_decode ex spec outs score =
    (let ctx = ''classify decoder''; one = ctx @ '' expects one [nc] output vector'' in
     case outs of
       [t] \<Rightarrow>
         (case check_view t ctx of
            Inl e \<Rightarrow> Some (Inl e)
          | Inr data \<Rightarrow>
              (case tv_dims t of
                 [d] \<Rightarrow>
                   if d \<noteq> dsp_num_classes spec then Some (Inl (ctx @ '': output size does not match num_classes''))
                   else do {
                     q \<leftarrow> rds data [0..<nat (dsp_num_classes spec)];
                     let p = (if dsp_softmax spec then softmax ex q else q);
                         dropped = length (filter (\<lambda>v. \<not> is_fin v) p); p' = demote p
                     in Some (Inr (map (class_detection p') (top_classes (nat (dsp_top_k spec)) score p'), [], note_dropped ctx dropped))
                   }
               | _ \<Rightarrow> Some (Inl one)))
     | _ \<Rightarrow> Some (Inl one))"

section \<open>Selection\<close>

datatype decoder =
    Yolox decode_spec
  | Yolov8 decode_spec
  | Yolov8_Dfl decode_spec
  | Yolo_Pose decode_spec
  | Classify decode_spec
  | Raw

fun decoder_keypoints :: "decoder \<Rightarrow> int" where
  "decoder_keypoints (Yolo_Pose spec) = dsp_keypoints spec"
| "decoder_keypoints _ = 0"

fun decode :: "(f32 \<Rightarrow> f32) \<Rightarrow> decoder \<Rightarrow> tensor_view list \<Rightarrow> int \<Rightarrow> int \<Rightarrow> f32 \<Rightarrow> f32 \<Rightarrow> (string + decoded) option" where
  "decode ex (Yolox spec) outs mw mh score th = yolox_decode ex spec outs mw mh score th"
| "decode ex (Yolov8 spec) outs mw mh score th = yolov8_decode spec outs mw mh score th"
| "decode ex (Yolov8_Dfl spec) outs mw mh score th = yolov8_dfl_decode ex spec outs mw mh score th"
| "decode ex (Yolo_Pose spec) outs mw mh score th = yolo_pose_decode ex spec outs mw mh score th"
| "decode ex (Classify spec) outs mw mh score th = classify_decode ex spec outs score"
| "decode ex Raw outs mw mh score th = Some (Inr ([], [], []))"

text \<open>The comparison is in 64 bits, the value that is kept has 32.\<close>

definition spec_int :: "json \<Rightarrow> string \<Rightarrow> int \<Rightarrow> int \<Rightarrow> string + int" where
  "spec_int j key dflt lo =
    (case given key j of
       None \<Rightarrow> Inr dflt
     | Some v \<Rightarrow>
         if \<not> is_number_integer v \<or> int64_of v < lo
         then Inl (''decoder: '' @ key @ '' must be an integer >= '' @ dec_digits (nat lo))
         else Inr (int32_of v))"

fun spec_strides :: "json list \<Rightarrow> string + int list" where
  "spec_strides [] = Inr []"
| "spec_strides (v # vs) =
    (if \<not> is_number_integer v \<or> int32_of v \<le> 0 then Inl ''decoder: strides must be a non-empty array of ints''
     else bind_err (spec_strides vs) (\<lambda>ss. Inr (int32_of v # ss)))"

definition parse_spec :: "json \<Rightarrow> string \<Rightarrow> string + decode_spec" where
  "parse_spec j type =
    (let s = default_decode_spec\<lparr>dsp_type := type\<rparr> in
     bind_err (spec_int j ''num_classes'' (dsp_num_classes s) 1) (\<lambda>nc.
     bind_err (spec_int j ''reg_max'' (dsp_reg_max s) 1) (\<lambda>rm.
     bind_err (spec_int j ''keypoints'' (dsp_keypoints s) 0) (\<lambda>K.
     bind_err (spec_int j ''top_k'' (dsp_top_k s) 1) (\<lambda>top.
     bind_err (case given ''strides'' j of
         None \<Rightarrow> Inr (dsp_strides s)
       | Some st \<Rightarrow> if \<not> is_array st \<or> elements st = [] then Inl ''decoder: strides must be a non-empty array of ints''
                    else spec_strides (elements st)) (\<lambda>strides.
     bind_err (case given ''softmax'' j of
         None \<Rightarrow> Inr (dsp_softmax s)
       | Some (JBool b) \<Rightarrow> Inr b
       | Some _ \<Rightarrow> Inl ''decoder: softmax must be a boolean'') (\<lambda>soft.
     Inr (s\<lparr>dsp_num_classes := nc, dsp_reg_max := rm, dsp_keypoints := K, dsp_top_k := top, dsp_strides := strides,
       dsp_softmax := soft\<rparr>))))))))"

definition select_decoder :: "decode_spec \<Rightarrow> string + decoder option" where
  "select_decoder spec =
    (let ty = dsp_type spec in
     if ty = ''ctc'' then Inl ''ctc is only valid in stage2''
     else if ty = ''yolox'' then Inr (Some (Yolox spec))
     else if ty = ''yolov8'' then Inr (Some (Yolov8 spec))
     else if ty = ''yolov8_dfl'' then Inr (Some (Yolov8_Dfl spec))
     else if ty = ''yolo_pose'' then
       (if dsp_keypoints spec < 1 then Inl ''yolo_pose decoder requires keypoints >= 1'' else Inr (Some (Yolo_Pose spec)))
     else if ty = ''classify'' then Inr (Some (Classify spec))
     else if ty = ''raw'' then Inr (Some Raw)
     else Inl (''decoder: unknown type '' @ ty))"

text \<open>No decoder and no error: the adapter's own decoder is used.\<close>

definition make_decoder :: "libs \<Rightarrow> string \<Rightarrow> string + decoder option" where
  "make_decoder lb decoder_json =
    (if decoder_json = [] then Inr None
     else
       case lb_parse lb decoder_json of
         Inl e \<Rightarrow> Inl (''decoder: invalid json: '' @ e)
       | Inr j \<Rightarrow>
           if j = JNull then Inr None
           else
             (case json_find ''type'' j of
                Some (JStr type) \<Rightarrow> bind_err (parse_spec j type) select_decoder
              | _ \<Rightarrow> Inl (''decoder: config must be an object with a '' @ [CHR 0x22] @ ''type'' @ [CHR 0x22] @ '' string'')))"

section \<open>Reads stay inside the tensors\<close>

lemma yolox_candidate_defined: "5 < length p \<Longrightarrow> yolox_candidate mw mh score p \<noteq> None"
  by (cases "drop 5 p") (auto simp: yolox_candidate_def Let_def split: prod.split)

lemma rds_length: "rds xs is = Some ys \<Longrightarrow> length ys = length is"
  by (induction "is" arbitrary: ys) (auto simp: Option.bind_eq_Some_conv)

lemma length_grid_row: "length (grid_row ex c p) = 4 + (length p - 4)"
  by (simp add: grid_row_def Let_def split: prod.split)

lemma yolox_rows_defined:
  assumes "feats * anchors \<le> length data" "5 < feats"
  obtains rows where "collect_some (\<lambda>i. rds data (feature_indices fm feats anchors i)) [0..<anchors] = Some rows"
    "\<forall>p \<in> set rows. length p = feats"
proof -
  have r: "rds data (feature_indices fm feats anchors i) \<noteq> None" if "i < anchors" for i
    using feature_indices_inside [OF that, of fm feats] assms(1) by (subst rds_eq) auto
  then have "collect_some (\<lambda>i. rds data (feature_indices fm feats anchors i)) [0..<anchors] \<noteq> None"
    by (intro collect_some_defined) simp
  then obtain rows where rows: "collect_some (\<lambda>i. rds data (feature_indices fm feats anchors i)) [0..<anchors] = Some rows" by blast
  then have "\<forall>p \<in> set rows. length p = feats" by (auto dest!: collect_some_set rds_length)
  with rows that show thesis by blast
qed

lemma yolox_anchors_defined:
  assumes "feats * nat anchors \<le> length data" "5 < feats" "0 \<le> anchors" "int_range (anchors * int feats - 1)"
  shows "yolox_anchors ex strides feats mw mh score data fm anchors \<noteq> None"
proof -
  obtain rows where rows: "collect_some (\<lambda>i. rds data (feature_indices fm feats (nat anchors) i)) [0..<nat anchors] = Some rows"
    "\<forall>p \<in> set rows. length p = feats" by (rule yolox_rows_defined [OF assms(1,2)])
  have "collect_some (yolox_candidate mw mh score)
      (if raw_head_geometry strides anchors mw mh then grid_decode ex strides mw mh rows else rows) \<noteq> None"
    using rows(2) assms(2)
    by (intro collect_some_defined yolox_candidate_defined)
      (auto simp: grid_decode_def length_grid_row dest!: set_zip_rightD split: if_splits)
  then show ?thesis using assms(3,4) by (simp add: yolox_anchors_def rows(1))
qed

text \<open>Indices of elements fit \<open>int\<close>.\<close>

definition views_small :: "tensor_view list \<Rightarrow> bool" where
  "views_small outs \<longleftrightarrow> (\<forall>t \<in> set outs. \<forall>data. tv_data t = Some data \<longrightarrow> length data \<le> 2 ^ 31)"

lemma yolox_defined:
  assumes "spec_ok spec" "views_small outs" shows "yolox_decode ex spec outs mw mh score th \<noteq> None"
proof -
  define ch where "ch = 5 + dsp_num_classes spec"
  have "1 \<le> dsp_num_classes spec" "dsp_num_classes spec < 2 ^ 31 - 5" using assms by (simp_all add: spec_ok_def)
  then have nc: "5 < nat ch" "0 < ch" "int_range ch" by (auto simp: int_range_def ch_def)
  have run: "yolox_anchors ex strides (nat ch) mw mh score data fm (as_int32 d) \<noteq> None"
    if "length data = nat ch * nat d" "0 < d" "length data \<le> 2 ^ 31" for d data fm strides
  proof -
    have "nat d * nat ch \<le> 2 ^ 31" using that(1,3) by (simp only: mult.commute)
    then have "nat (d * ch) \<le> 2 ^ 31" using that(2) nc(2) by (simp only: nat_mult_distrib less_imp_le)
    then have le: "d * ch \<le> 2 ^ 31" by (simp add: nat_le_iff)
    have "d * 2 \<le> d * ch" using that(2) nc(1) by (intro mult_left_mono) auto
    with le have "d * 2 \<le> 2 ^ 31" by linarith
    then have d: "as_int32 d = d" using that(2) by (intro as_int32_id) (simp add: int_range_def)
    have "0 < d * ch" using that(2) nc(2) by simp
    with le have "int_range (d * int (nat ch) - 1)" using nc(2) by (simp add: int_range_def)
    then show ?thesis using that nc(1) unfolding d by (intro yolox_anchors_defined) simp_all
  qed
  have "\<exists>y. yolox_anchors ex strides (nat ch) mw mh score data fm (as_int32 d) = Some y"
    if "outs = [t]" "tv_data t = Some data" "length data = nat d * nat ch" "0 < d" for t d data fm strides
    using run [of data d strides fm] assms(2) that by (simp add: views_small_def mult.commute)
  note inside = this
  show ?thesis
    by (auto simp: yolox_decode_def Let_def ch_def [symmetric] nc(3) check_canvas_def mult.commute bind_Some_map
        split: list.split sum.split if_split dest!: check_view_ok intro: inside)
qed

lemma classify_defined: "classify_decode ex spec outs score \<noteq> None"
  by (auto simp: classify_decode_def Let_def rds_eq split: list.split sum.split dest!: check_view_ok)

lemma decode_defined: "(case d of Yolox s \<Rightarrow> spec_ok s | Yolov8 s \<Rightarrow> spec_ok s | Yolov8_Dfl s \<Rightarrow> spec_ok s | Yolo_Pose s \<Rightarrow> spec_ok s
    | _ \<Rightarrow> True) \<Longrightarrow> views_small outs \<Longrightarrow> decode ex d outs mw mh score th \<noteq> None"
  by (cases d) (simp_all add: yolox_defined yolov8_defined yolov8_dfl_defined yolo_pose_defined classify_defined
      del: not_None_eq)

text \<open>The integers of the configuration fit 32 bits, with room for the five values that stand before the classes.\<close>

definition ints_fit :: "json \<Rightarrow> bool" where
  "ints_fit j \<longleftrightarrow> list_all (\<lambda>key. case json_find key j of Some (JInt i) \<Rightarrow> - (2 ^ 31) \<le> i \<and> i < 2 ^ 31 - 5 | _ \<Rightarrow> True)
     [''num_classes'', ''reg_max'', ''keypoints'']"

lemma small_int: "- (2 ^ 31) \<le> i \<Longrightarrow> i < 2 ^ 31 \<Longrightarrow> int32_of (JInt i) = i \<and> int64_of (JInt i) = i"
  by (simp add: sint_sbintrunc' signed_take_bit_int_eq_self)

lemma spec_int_ok:
  assumes "spec_int j key dflt lo = Inr v" "lo \<le> dflt"
    "case json_find key j of Some (JInt i) \<Rightarrow> - (2 ^ 31) \<le> i \<and> i < 2 ^ 31 - 5 | _ \<Rightarrow> True"
  shows "lo \<le> v \<and> (dflt < 2 ^ 31 - 5 \<longrightarrow> v < 2 ^ 31 - 5)"
proof (cases "given key j")
  case None
  with assms(1,2) show ?thesis by (simp add: spec_int_def)
next
  case (Some w)
  then have f: "json_find key j = Some w" by (auto simp: given_def split: option.splits json.splits if_splits)
  with assms(1) Some obtain i where w: "w = JInt i" by (cases w) (auto simp: spec_int_def split: if_splits)
  with assms(3) f small_int have "int32_of w = i \<and> int64_of w = i" "i < 2 ^ 31 - 5" by simp_all
  with assms(1) Some show ?thesis by (auto simp: spec_int_def split: if_splits)
qed

lemma spec_strides_ok: "spec_strides vs = Inr ss \<Longrightarrow> list_all (\<lambda>s. 0 < s) ss"
  by (induction vs arbitrary: ss) (auto simp: bind_err_Inr split: if_splits)

lemma parse_spec_ok:
  assumes "parse_spec j ty = Inr spec" "ints_fit j" shows "spec_ok spec"
proof -
  have f: "case json_find key j of Some (JInt i) \<Rightarrow> - (2 ^ 31) \<le> i \<and> i < 2 ^ 31 - 5 | _ \<Rightarrow> True"
    if "key = ''num_classes'' \<or> key = ''reg_max'' \<or> key = ''keypoints''" for key
    using assms(2) that by (auto simp: ints_fit_def)
  have ints: "spec_int j ''num_classes'' 80 1 = Inr (dsp_num_classes spec)" "spec_int j ''reg_max'' 16 1 = Inr (dsp_reg_max spec)"
    "spec_int j ''keypoints'' 17 0 = Inr (dsp_keypoints spec)"
    using assms(1) by (auto simp: parse_spec_def Let_def bind_err_Inr default_decode_spec_def)
  have "dsp_strides spec = [8, 16, 32] \<or> (\<exists>vs. spec_strides vs = Inr (dsp_strides spec))"
  proof (cases "given ''strides'' j")
    case None
    with assms(1) show ?thesis by (auto simp: parse_spec_def Let_def bind_err_Inr default_decode_spec_def)
  next
    case (Some st)
    with assms(1) have "spec_strides (elements st) = Inr (dsp_strides spec)"
      by (auto simp: parse_spec_def Let_def bind_err_Inr split: if_splits)
    then show ?thesis by blast
  qed
  then have "list_all (\<lambda>s. 0 < s) (dsp_strides spec)" using spec_strides_ok by auto
  then show ?thesis
    using spec_int_ok [OF ints(1) _ f] spec_int_ok [OF ints(2) _ f] spec_int_ok [OF ints(3) _ f] by (simp add: spec_ok_def)
qed

end
