(* ===== verification/Decoder_Properties.thy ===== *)
theory Decoder_Properties
  imports Decoders Pool_Facts
begin

text \<open>
  What the decoders of model outputs promise: no read outside a tensor, scores that can be compared, the
  same result for both layouts of a tensor, and the best classes first.
\<close>

section \<open>Scores\<close>

lemma best_class_mem: "best_class vs = Some (s, i) \<Longrightarrow> s \<in> set vs"
proof -
  have "fst (best_from ws k b j) \<in> insert b (set ws)" for ws k b j
    by (induction ws arbitrary: k b j) fastforce+
  then show "best_class vs = Some (s, i) \<Longrightarrow> s \<in> set vs"
    by (cases vs) (auto, metis fst_conv insertE)
qed

text \<open>A score that is finite and above the threshold, for a class below a bound.\<close>

definition scored :: "f32 \<Rightarrow> int \<Rightarrow> f32 \<Rightarrow> int \<Rightarrow> bool" where
  "scored score n s c \<longleftrightarrow> is_fin s \<and> \<not> s \<le> score \<and> 0 \<le> c \<and> c < n"

lemma yolov8_candidate_scored:
  "yolov8_candidate mw mh score row = Some (Found d pts) \<Longrightarrow> scored score (int (length row) - 4) (d_score d) (d_class_id d)"
  by (auto simp: yolov8_candidate_def scored_def Let_def Option.bind_eq_Some_conv split: if_splits dest!: best_class_index)

lemma yolox_candidate_scored:
  "yolox_candidate mw mh score row = Some (Found d pts) \<Longrightarrow> scored score (int (length row) - 5) (d_score d) (d_class_id d)"
  by (auto simp: yolox_candidate_def scored_def Let_def Option.bind_eq_Some_conv split: if_splits dest!: best_class_index)

lemma cell_detection_simps [simp]: "d_score (cell_detection gx gy st mw mh ds s c) = s" "d_class_id (cell_detection gx gy st mw mh ds s c) = int c"
  by (simp_all add: cell_detection_def Let_def)

lemma dfl_cell_scored:
  assumes "dfl_cell ex nc rm box cls H W stride mw mh score cell = Some (Found d pts)"
  shows "scored score (int nc) (d_score d) (d_class_id d)"
proof -
  from assms obtain vs s c where v: "rds cls (map (\<lambda>c. c * (H * W) + cell) [0..<nc]) = Some vs" "list_all is_fin (map (sigmoid ex) vs)"
    "best_class (map (sigmoid ex) vs) = Some (s, c)" "\<not> s \<le> score" "d_score d = s" "d_class_id d = int c"
    by (auto simp: dfl_cell_def Let_def Option.bind_eq_Some_conv split: option.splits if_splits)
  with best_class_index [OF v(3)] best_class_mem [OF v(3)] rds_length [OF v(1)] show ?thesis
    by (auto simp: scored_def list_all_iff)
qed

lemma pose_cell_scored:
  assumes "pose_cell ex K nc rm lg box cls kpt H W stride mw mh score cell = Some (Found d pts)"
  shows "scored score (int nc) (d_score d) (d_class_id d)"
proof -
  define f where "f = (\<lambda>v. if lg then sigmoid ex v else clamp01 v)"
  from assms obtain vs s c where v: "rds cls (map (\<lambda>c. c * (H * W) + cell) [0..<nc]) = Some vs" "list_all is_fin (map f vs)"
    "best_class (map f vs) = Some (s, c)" "\<not> s \<le> score" "d_score d = s" "d_class_id d = int c"
    by (auto simp: pose_cell_def Let_def f_def [symmetric] Option.bind_eq_Some_conv split: option.splits if_splits)
  with best_class_index [OF v(3)] best_class_mem [OF v(3)] rds_length [OF v(1)] show ?thesis
    by (auto simp: scored_def list_all_iff)
qed

lemma pose_anchor_scored:
  "pose_anchor ex mw mh score row = Found d pts \<Longrightarrow> scored score 1 (d_score d) (d_class_id d)"
  by (auto simp: pose_anchor_def scored_def Let_def no_detection_def split: if_splits option.splits)

lemma dfl_levels_scored:
  "dfl_levels ex spec mw mh score levels = Some (Inr cands) \<Longrightarrow> Found d pts \<in> set cands \<Longrightarrow> 0 < dsp_num_classes spec \<Longrightarrow>
     scored score (dsp_num_classes spec) (d_score d) (d_class_id d)"
proof (induction levels arbitrary: cands)
  case (Cons p levels)
  obtain stride lv where p: "p = (stride, lv)" by fastforce
  from Cons.prems(1) obtain box cls c1 c2 where s: "lv_box lv = Some box" "lv_cls lv = Some cls"
    "collect_some (dfl_cell ex (nat (dsp_num_classes spec)) (nat (dsp_reg_max spec)) box cls
       (nat (lv_H lv)) (nat (lv_W lv)) stride mw mh score) [0..<nat (lv_H lv) * nat (lv_W lv)] = Some c1"
    "dfl_levels ex spec mw mh score levels = Some (Inr c2)" "cands = c1 @ c2"
    by (auto simp: p Option.bind_eq_Some_conv bind_err_Inr split: option.splits if_splits)
  from Cons.prems(2) s(5) consider "Found d pts \<in> set c1" | "Found d pts \<in> set c2" by auto
  then show ?case
  proof cases
    case 1
    from collect_some_set [OF s(3) 1] dfl_cell_scored show ?thesis using Cons.prems(3) by fastforce
  qed (use Cons.IH [OF s(4)] Cons.prems(3) in blast)
qed simp

lemma pose_levels_scored:
  "pose_levels ex spec mw mh score levels = Some (Inr cands) \<Longrightarrow> Found d pts \<in> set cands \<Longrightarrow>
     \<exists>n. scored score n (d_score d) (d_class_id d)"
proof (induction levels arbitrary: cands)
  case (Cons p levels)
  obtain stride pl where p: "p = (stride, pl)" by fastforce
  define H W nc where "H = nat (lv_H (pl_lv pl))" and "W = nat (lv_W (pl_lv pl))" and "nc = nat (pl_nc pl)"
  from Cons.prems(1) obtain box cls kpt lg c1 c2 where s:
    "collect_some (pose_cell ex (nat (dsp_keypoints spec)) nc (nat (dsp_reg_max spec)) lg box cls kpt
       H W stride mw mh score) [0..<H * W] = Some c1"
    "pose_levels ex spec mw mh score levels = Some (Inr c2)" "cands = c1 @ c2"
    by (auto simp: p Let_def H_def [symmetric] W_def [symmetric] nc_def [symmetric] Option.bind_eq_Some_conv bind_err_Inr
        split: option.splits if_splits)
  from Cons.prems(2) s(3) consider "Found d pts \<in> set c1" | "Found d pts \<in> set c2" by auto
  then show ?case
  proof cases
    case 1
    from collect_some_set [OF s(1) 1] pose_cell_scored show ?thesis by blast
  qed (use Cons.IH [OF s(2)] in blast)
qed simp

text \<open>The number of classes a decoder is for; the pose decoder takes it from the tensors.\<close>

fun class_limit :: "decoder \<Rightarrow> int option" where
  "class_limit (Yolox s) = Some (dsp_num_classes s)"
| "class_limit (Yolov8 s) = Some (dsp_num_classes s)"
| "class_limit (Yolov8_Dfl s) = Some (dsp_num_classes s)"
| "class_limit (Classify s) = Some (dsp_num_classes s)"
| "class_limit _ = None"

lemma yolov8_scored:
  assumes "yolov8_decode spec outs mw mh score th = Some (Inr (ds, ks, note))" "det \<in> set ds" "0 < dsp_num_classes spec"
  shows "scored score (dsp_num_classes spec) (d_score det) (d_class_id det)"
proof -
  from assms(1) obtain fm n data cands where c: "yolov8_anchors fm (nat (4 + dsp_num_classes spec)) n mw mh score data = Some cands"
    "finish_decode ''yolov8 decoder'' th cands = (ds, ks, note)"
    by (auto simp: yolov8_decode_def Let_def bind_Some_map split: list.splits sum.splits if_splits)
  have "scored score (dsp_num_classes spec) (d_score d) (d_class_id d)" if f: "Found d pts \<in> set cands" for d pts
  proof -
    from collect_some_set [OF c(1) [unfolded yolov8_anchors_def] f] obtain i row where
      "rds data (feature_indices fm (nat (4 + dsp_num_classes spec)) n i) = Some row" "yolov8_candidate mw mh score row = Some (Found d pts)"
      by (auto simp: Option.bind_eq_Some_conv)
    with yolov8_candidate_scored rds_length assms(3) show ?thesis by fastforce
  qed
  from decoded_from [OF c(2), of "scored score (dsp_num_classes spec)", OF this assms(2)] show ?thesis .
qed

lemma yolox_scored:
  assumes "yolox_decode ex spec outs mw mh score th = Some (Inr (ds, ks, note))" "det \<in> set ds" "0 < dsp_num_classes spec"
  shows "scored score (dsp_num_classes spec) (d_score det) (d_class_id det)"
proof -
  define ch where "ch = nat (5 + dsp_num_classes spec)"
  from assms(1) obtain fm n data cands where a: "yolox_anchors ex (dsp_strides spec) ch mw mh score data fm n = Some cands"
    "fst (finish_decode ''yolox decoder'' th cands) = ds"
    by (auto simp: yolox_decode_def Let_def bind_Some_map ch_def case_prod_beta split: list.splits sum.splits if_splits)
  obtain ks' note' where "finish_decode ''yolox decoder'' th cands = (ds, ks', note')" using a(2) by (metis prod.collapse)
  note c = a(1) this
  from c(1) obtain rows where rows: "collect_some (\<lambda>i. rds data (feature_indices fm ch (nat n) i)) [0..<nat n] = Some rows"
    "collect_some (yolox_candidate mw mh score) (if raw_head_geometry (dsp_strides spec) n mw mh
       then grid_decode ex (dsp_strides spec) mw mh rows else rows) = Some cands"
    by (cases "fm \<and> (n < 0 \<or> \<not> int_range (n * int ch - 1))") (simp_all add: yolox_anchors_def Option.bind_eq_Some_conv, blast)
  have len: "length p = ch" if "p \<in> set rows" for p using collect_some_set [OF rows(1) that] by (auto dest: rds_length)
  have "scored score (dsp_num_classes spec) (d_score d) (d_class_id d)" if f: "Found d pts \<in> set cands" for d pts
  proof -
    from collect_some_set [OF rows(2) f] obtain p where p: "yolox_candidate mw mh score p = Some (Found d pts)"
      "p \<in> set (if raw_head_geometry (dsp_strides spec) n mw mh then grid_decode ex (dsp_strides spec) mw mh rows else rows)" by blast
    have "length p = ch" using p(2) len assms(3)
      by (auto simp: grid_decode_def length_grid_row ch_def split: if_splits dest!: set_zip_rightD)
    with yolox_candidate_scored [OF p(1)] assms(3) show ?thesis by (simp add: ch_def)
  qed
  from decoded_from [OF c(2), of "scored score (dsp_num_classes spec)", OF this assms(2)] show ?thesis .
qed

lemma yolov8_dfl_scored:
  assumes "yolov8_dfl_decode ex spec outs mw mh score th = Some (Inr (ds, ks, note))" "det \<in> set ds" "0 < dsp_num_classes spec"
  shows "scored score (dsp_num_classes spec) (d_score det) (d_class_id det)"
proof -
  from assms(1) obtain levels cands where c: "dfl_levels ex spec mw mh score levels = Some (Inr cands)"
    "finish_decode ''yolov8_dfl decoder'' th cands = (ds, ks, note)"
    by (auto simp: yolov8_dfl_decode_def Let_def Option.bind_eq_Some_conv bind_err_Inr split: sum.splits if_splits)
  from decoded_from [OF c(2), of "scored score (dsp_num_classes spec)", OF dfl_levels_scored [OF c(1) _ assms(3)] assms(2)]
  show ?thesis .
qed

lemma yolo_pose_scored:
  assumes "yolo_pose_decode ex spec outs mw mh score th = Some (Inr (ds, ks, note))" "det \<in> set ds"
  shows "\<exists>n. scored score n (d_score det) (d_class_id det)"
proof -
  from assms(1) consider t where "pose_end2end ex spec t mw mh score th = Some (Inr (ds, ks, note))"
    | levels cands where "pose_levels ex spec mw mh score levels = Some (Inr cands)"
        "finish_decode ''yolo_pose decoder'' th cands = (ds, ks, note)"
    by (auto simp: yolo_pose_decode_def Let_def Option.bind_eq_Some_conv bind_err_Inr split: sum.splits if_splits)
  then show ?thesis
  proof cases
    case 1
    then obtain data fm n m cands where
      c: "collect_some (\<lambda>a. map_option (pose_anchor ex mw mh score) (rds data (feature_indices fm n m a))) [0..<m] = Some cands"
      "finish_decode ''yolo_pose decoder'' th cands = (ds, ks, note)"
      by (auto simp: pose_end2end_def Let_def bind_Some_map split: sum.splits list.splits if_splits)
    have "\<exists>n. scored score n (d_score d) (d_class_id d)" if "Found d pts \<in> set cands" for d pts
      using collect_some_set [OF c(1) that] pose_anchor_scored by fastforce
    from decoded_from [OF c(2), of "\<lambda>s c. \<exists>n. scored score n s c", OF this assms(2)] show ?thesis .
  next
    case 2
    from decoded_from [OF 2(2), of "\<lambda>s c. \<exists>n. scored score n s c", OF pose_levels_scored [OF 2(1)] assms(2)] show ?thesis .
  qed
qed

lemma top_classes_scored: "c \<in> set (top_classes k score p) \<Longrightarrow> is_fin (p ! c) \<and> \<not> p ! c \<le> score \<and> c < length p"
  by (auto simp: top_classes_def dest!: set_takeWhileD in_set_takeD)

lemma length_softmax [simp]: "length (softmax ex p) = length p"
  by (simp add: softmax_def Let_def)

lemma length_demote [simp]: "length (demote p) = length p"
  by (simp add: demote_def)

lemma classify_scored:
  assumes "classify_decode ex spec outs score = Some (Inr (ds, ks, note))" "det \<in> set ds"
  shows "scored score (dsp_num_classes spec) (d_score det) (d_class_id det)"
proof -
  from assms(1) obtain q where q: "length q = nat (dsp_num_classes spec)"
    "ds = map (class_detection (demote (if dsp_softmax spec then softmax ex q else q)))
       (top_classes (nat (dsp_top_k spec)) score (demote (if dsp_softmax spec then softmax ex q else q)))"
    by (auto simp: classify_decode_def Let_def Option.bind_eq_Some_conv split: list.splits sum.splits if_splits dest: rds_length)
  with assms(2) show ?thesis
    by (fastforce simp: scored_def class_detection_def dest!: top_classes_scored split: if_splits)
qed

section \<open>Two layouts of one tensor\<close>

definition row_major :: "nat \<Rightarrow> nat \<Rightarrow> f32 list \<Rightarrow> f32 list" where
  "row_major feats n data = concat (map (\<lambda>i. map (\<lambda>c. data ! (c * n + i)) [0..<feats]) [0..<n])"

lemma row_major_row:
  assumes "length data = feats * n" "i < n"
  shows "rds (row_major feats n data) (feature_indices False feats n i) = rds data (feature_indices True feats n i)"
proof -
  have l: "length (row_major feats n data) = feats * n"
    by (simp add: row_major_def length_concat_rows mult.commute)
  have e: "row_major feats n data ! (i * feats + c) = data ! (c * n + i)" if "c < feats" for c
    unfolding row_major_def by (subst concat_rows_nth [OF _ assms(2) that]) (simp_all add: that)
  have r: "rds (row_major feats n data) (feature_indices False feats n i) =
      Some (map ((!) (row_major feats n data)) (feature_indices False feats n i))"
    by (rule feature_rds [OF l assms(2)])
  have "map ((!) (row_major feats n data)) (feature_indices False feats n i) = map ((!) data) (feature_indices True feats n i)"
    using e by (simp add: feature_indices_def)
  then show ?thesis using r feature_rds [OF assms, of True] by simp
qed

section \<open>The best classes\<close>

lemma weak_order_fl: "\<forall>x \<in> A. \<not> is_nan (f x) \<Longrightarrow> weak_order_on A (\<lambda>a b. f a > (f b :: f32))"
  unfolding weak_order_on_def by (meson fl_less_asym fl_less_le_trans fl_not_less)

lemma demote_not_nan: "c < length p \<Longrightarrow> \<not> is_nan (demote p ! c)"
  by (simp add: demote_def)

lemma demote_fin: "c < length p \<Longrightarrow> is_fin (demote p ! c) \<or> demote p ! c = FInf True"
  by (simp add: demote_def)

lemma top_classes_best:
  fixes p0 :: "f32 list" and k :: nat and score :: f32
  defines "p \<equiv> demote p0"
  defines "cs \<equiv> top_classes k score p"
  shows "distinct cs" "length cs \<le> k" "sorted_wrt (\<lambda>a b. \<not> p ! a < p ! b) cs"
    "c < length p \<Longrightarrow> is_fin (p ! c) \<Longrightarrow> \<not> p ! c \<le> score \<Longrightarrow> c \<notin> set cs \<Longrightarrow> length cs = k \<and> (\<forall>b \<in> set cs. \<not> p ! b < p ! c)"
proof -
  define L where "L = stable_sort (\<lambda>a b. p ! a > p ! b) [0..<length p]"
  define P where "P = (\<lambda>c. is_fin (p ! c) \<and> \<not> p ! c \<le> score)"
  have n: "\<not> is_nan (p ! c)" if "c < length p" for c using that demote_not_nan [of c p0] by (simp add: p_def demote_def)
  have fin: "is_fin (p ! c) \<or> p ! c = FInf True" if "c < length p" for c
    using that demote_fin [of c p0] by (simp add: p_def demote_def)
  have L: "set L = {..<length p}" "distinct L" "length L = length p"
    using mset_eq_imp_distinct_iff [of L "[0..<length p]"] mset_eq_length [of L "[0..<length p]"]
    by (simp_all add: L_def lessThan_atLeast0)
  have s: "sorted_wrt (\<lambda>a b. \<not> p ! a < p ! b) L" unfolding L_def
    by (rule sorted_stable_sort [OF weak_order_fl]) (use n in simp)
  have cs: "cs = takeWhile P (take k L)" by (simp add: cs_def top_classes_def L_def P_def)
  show "distinct cs" using L(2) by (simp add: cs distinct_takeWhile)
  have pre: "\<exists>ys. L = cs @ ys"
    using takeWhile_dropWhile_id [of P "take k L"] append_take_drop_id [of k L] by (metis append.assoc cs)
  then show "sorted_wrt (\<lambda>a b. \<not> p ! a < p ! b) cs" using s by (auto simp: sorted_wrt_append)
  show "length cs \<le> k" using length_takeWhile_le [of P "take k L"] by (simp add: cs)
  assume c: "c < length p" "is_fin (p ! c)" "\<not> p ! c \<le> score" "c \<notin> set cs"
  obtain ys where ys: "L = cs @ ys" using pre by blast
  then have "c \<in> set ys" using c L(1) by auto
  then have b: "\<not> p ! b < p ! c" if "b \<in> set cs" for b using that s by (auto simp: ys sorted_wrt_append)
  have "length cs = k"
  proof (rule ccontr)
    assume "length cs \<noteq> k"
    then have lt: "length cs < k" using \<open>length cs \<le> k\<close> by simp
    then have "length cs < length (take k L)" using \<open>c \<in> set ys\<close> by (auto simp: ys)
    then have "\<not> P (take k L ! length cs)" using nth_length_takeWhile [of P "take k L"] by (simp add: cs)
    then have h: "\<not> P (hd ys)" using \<open>c \<in> set ys\<close> lt by (cases ys) (auto simp: ys nth_append)
    define b where "b = hd ys"
    have bc: "b = c \<or> \<not> p ! b < p ! c" using \<open>c \<in> set ys\<close> s by (cases ys) (auto simp: ys b_def sorted_wrt_append)
    have "b < length p" using L(1) \<open>c \<in> set ys\<close> by (cases ys) (auto simp: ys b_def)
    then have nn: "\<not> is_nan (p ! b)" "\<not> is_nan (p ! c)" using n c(1) by simp_all
    have le: "p ! c \<le> p ! b" using bc fl_not_less [OF nn] fl_le_refl [OF nn(2)] by auto
    have "is_fin (p ! b)" using fin [OF \<open>b < length p\<close>] le c(2) by (cases "p ! c") auto
    moreover have "\<not> p ! b \<le> score" using le c(3) fl_le_trans by blast
    ultimately show False using h by (simp add: P_def b_def)
  qed
  with b show "length cs = k \<and> (\<forall>b \<in> set cs. \<not> p ! b < p ! c)" by blast
qed

section \<open>Properties\<close>

text \<open>C26: if the numbers of classes, bins and keypoints in the configuration are integers between $-2^{31}$ and $2^{31} - 6$ and no
  tensor has more than $2^{31}$ elements, a decoder that the configuration selects never reads outside the tensors it is given and never
  computes an \<open>int\<close> out of its range, whatever the tensors' number, shapes, names and contents, the canvas and the thresholds: a
  decode ends with detections or with an error text. Sums and products in 64 bits are unbounded here.\<close>

theorem decoders_read_inside:
  assumes "make_decoder lb txt = Inr (Some d)" "lb_parse lb txt = Inr j" "ints_fit j"
    "\<forall>t \<in> set outs. \<forall>data. tv_data t = Some data \<longrightarrow> length data \<le> 2 ^ 31"
  shows "decode ex d outs mw mh score th \<noteq> None"
proof -
  from assms(1,2) obtain ty spec where s: "parse_spec j ty = Inr spec" "select_decoder spec = Inr (Some d)"
    by (auto simp: make_decoder_def bind_err_Inr split: if_splits option.splits json.splits)
  have "spec_ok spec" using parse_spec_ok [OF s(1) assms(3)] .
  with s(2) assms(4) show ?thesis
    by (intro decode_defined) (auto simp: select_decoder_def Let_def views_small_def split: if_splits)
qed

text \<open>C27: every detection of a decoder has a finite score that is above the threshold and a class number that is not
  negative and, but for the pose decoder, below the configured number of classes; values that are not finite never come
  through.\<close>

theorem detections_are_scored:
  assumes "decode ex d outs mw mh score th = Some (Inr (ds, ks, note))" "det \<in> set ds" "case class_limit d of Some n \<Rightarrow> 0 < n | None \<Rightarrow> True"
  shows "is_fin (d_score det) \<and> \<not> d_score det \<le> score \<and> 0 \<le> d_class_id det \<and>
    (case class_limit d of Some n \<Rightarrow> d_class_id det < n | None \<Rightarrow> True)"
  using assms yolov8_scored yolox_scored yolov8_dfl_scored yolo_pose_scored classify_scored
  by (cases d) (force simp: scored_def)+

text \<open>The decoder for decoded boxes gives the same result for a feature-major tensor and for its transpose, unless the
  number of anchors equals the number of features, where the shape does not tell them apart.\<close>

theorem yolov8_layouts_agree:
  assumes "tv_data t = Some data" "tv_dims t = [f, n]" "f = 4 + dsp_num_classes spec" "n \<noteq> f"
    "length data = nat f * nat n" "nat f * nat n < 2 ^ 64"
  shows "yolov8_decode spec [t\<lparr>tv_data := Some (row_major (nat f) (nat n) data), tv_dims := [n, f]\<rparr>] mw mh score th =
    yolov8_decode spec [t] mw mh score th"
proof -
  define t' where "t' = t\<lparr>tv_data := Some (row_major (nat f) (nat n) data), tv_dims := [n, f]\<rparr>"
  show ?thesis
  proof (cases "0 < f \<and> 0 < n")
    case True
    have "0 < nat f" "0 < nat n" using True by simp_all
    then have "nat f \<le> nat f * nat n" "nat n \<le> nat f * nat n" by simp_all
    then have le: "nat f \<le> 2 ^ 64 - 1" "nat n \<le> 2 ^ 64 - 1" using assms(6) by linarith+
    have c: "shape_elements t = Some (nat f * nat n)" "shape_elements t' = Some (nat n * nat f)"
      using True assms(2,6) le by (auto simp: shape_elements_def t'_def not_less less_eq_div_iff_mult_less_eq mult.commute)
    have l: "length (row_major (nat f) (nat n) data) = nat n * nat f"
      by (simp add: row_major_def length_concat_rows)
    have v: "check_view t ctx = Inr data" "check_view t' ctx = Inr (row_major (nat f) (nat n) data)" for ctx
      using assms(1,5) c l by (simp_all add: check_view_def t'_def)
    have "yolov8_anchors False (nat f) (nat n) mw mh score (row_major (nat f) (nat n) data) =
        yolov8_anchors True (nat f) (nat n) mw mh score data"
      unfolding yolov8_anchors_def using row_major_row [OF assms(5)] by (intro collect_some_cong) simp
    then show ?thesis using assms(2-4) v
      by (cases "int_range f"; simp add: yolov8_decode_def t'_def [symmetric] Let_def split: sum.split; simp add: t'_def check_canvas_def)
  next
    case False
    then have "shape_elements t = None" "shape_elements t' = None"
      using assms(2) by (auto simp: shape_elements_def t'_def)
    then have "check_view t ctx = Inl (ctx @ '': tensor dims are empty, non-positive or overflow'')"
        "check_view t' ctx = Inl (ctx @ '': tensor dims are empty, non-positive or overflow'')" for ctx
      using assms(1) by (simp_all add: check_view_def t'_def)
    then show ?thesis
      by (cases "mw \<le> 0 \<or> mh \<le> 0") (simp_all add: yolov8_decode_def t'_def [symmetric] Let_def check_canvas_def)
  qed
qed

text \<open>A classification reports distinct classes in order of falling scores, at most as many as configured, and no class it
  leaves out has a finite score above the threshold, unless the report is full and none of its scores is
  smaller.\<close>

theorem classify_takes_the_best:
  assumes "classify_decode ex spec [t] score = Some (Inr (ds, ks, note))" "tv_data t = Some data"
  shows "let p = demote (if dsp_softmax spec then softmax ex data else data) in
    \<exists>cs. ds = map (class_detection p) cs \<and> distinct cs \<and> length cs \<le> nat (dsp_top_k spec) \<and>
      sorted_wrt (\<lambda>a b. \<not> p ! a < p ! b) cs \<and>
      (\<forall>c < length data. is_fin (p ! c) \<and> \<not> p ! c \<le> score \<and> c \<notin> set cs \<longrightarrow>
         length cs = nat (dsp_top_k spec) \<and> (\<forall>b \<in> set cs. \<not> p ! b < p ! c))"
proof -
  define p0 where "p0 = (if dsp_softmax spec then softmax ex data else data)"
  have lp: "length (demote p0) = length data" by (simp add: p0_def demote_def)
  from assms(1) obtain d where "check_view t ''classify decoder'' = Inr d" by (auto simp: classify_decode_def Let_def split: sum.splits)
  from check_view_ok [OF this] assms(2) have d: "check_view t ''classify decoder'' = Inr data" "d = data"
    "length data = prod_list (map nat (tv_dims t))" using \<open>check_view t ''classify decoder'' = Inr d\<close> by auto
  have all: "rds data [0..<length data] = Some data" by (simp add: rds_eq map_nth)
  have "ds = map (class_detection (demote p0)) (top_classes (nat (dsp_top_k spec)) score (demote p0))"
  proof -
    have one: "tv_dims t = [dsp_num_classes spec]" "nat (dsp_num_classes spec) = length data"
      using assms(1) d by (auto simp: classify_decode_def Let_def split: list.splits if_splits)
    show ?thesis using assms(1) by (simp add: classify_decode_def Let_def d(1) one all p0_def)
  qed
  with top_classes_best [where k = "nat (dsp_top_k spec)" and score = score and ?p0.0 = p0] lp show ?thesis
    unfolding Let_def p0_def [symmetric] by (intro exI [of _ "top_classes (nat (dsp_top_k spec)) score (demote p0)"]) auto
qed

section \<open>Concrete instances\<close>

definition two_classes :: decode_spec where
  "two_classes = default_decode_spec\<lparr>dsp_num_classes := 2, dsp_softmax := False\<rparr>"

definition two_scores :: tensor_view where
  "two_scores = \<lparr>tv_data = Some [lit (1/4), lit (3/4)], tv_dims = [2], tv_name = []\<rparr>"

definition three_boxes :: tensor_view where
  "three_boxes = \<lparr>tv_data = Some (map (\<lambda>k. lit (of_nat k)) [0..<18]), tv_dims = [6, 3], tv_name = []\<rparr>"

definition decoder_libs :: libs where
  "decoder_libs = \<lparr>lb_parse = (\<lambda>s. Inr (json_obj [(''type'', JStr ''yolov8''), (''num_classes'', JInt 2)])),
     lb_dump = (\<lambda>j. []), lb_math = \<lparr>lm_atan2 = (\<lambda>y x. 0), lm_acos = (\<lambda>x. 0)\<rparr>\<rparr>"

lemma top_of_two: "top_classes 1 (lit (1/2)) [lit (1/4), lit (3/4)] = [1]"
  by code_simp

lemma demote_two: "demote [lit (1/4), lit (3/4)] = [lit (1/4), lit (3/4)]"
  "is_fin (lit (1/4) :: f32)" "is_fin (lit (3/4) :: f32)"
  by code_simp+

lemma classify_two: "classify_decode (\<lambda>x. x) two_classes [two_scores] (lit (1/2)) =
    Some (Inr ([class_detection [lit (1/4), lit (3/4)] 1], [], []))"
proof -
  have "check_view two_scores ctx = Inr [lit (1/4), lit (3/4)]" for ctx
    by (simp add: check_view_def two_scores_def shape_elements_def)
  moreover have "rds [lit (1/4), lit (3/4) :: f32] [0..<2] = Some [lit (1/4), lit (3/4)]"
    by (simp add: rds_eq upt_rec del: rds.simps)
  ultimately show ?thesis
    by (simp add: classify_decode_def Let_def two_classes_def default_decode_spec_def two_scores_def demote_two top_of_two [simplified] note_dropped_def)
qed

text \<open>A number of classes beyond 32 bits passes the check and is kept as 0: the decoder then reads the first score of an
  empty vector.\<close>

lemma big_number_of_classes:
  "\<exists>spec. parse_spec (json_obj [(''type'', JStr ''yolov8''), (''num_classes'', JInt 4294967296)]) ''yolov8'' = Inr spec \<and>
     yolov8_decode spec [\<lparr>tv_data = Some [0, 0, 0, 0], tv_dims = [4, 1], tv_name = []\<rparr>] 640 640 score th = None"
proof -
  have p: "parse_spec (json_obj [(''type'', JStr ''yolov8''), (''num_classes'', JInt 4294967296)]) ''yolov8'' =
      Inr (default_decode_spec\<lparr>dsp_type := ''yolov8'', dsp_num_classes := 0\<rparr>)"
    by (simp add: parse_spec_def Let_def spec_int_def given_def default_decode_spec_def)
  have "yolov8_decode (default_decode_spec\<lparr>dsp_type := ''yolov8'', dsp_num_classes := 0\<rparr>)
      [\<lparr>tv_data = Some [0, 0, 0, 0], tv_dims = [4, 1], tv_name = []\<rparr>] 640 640 score th = None"
    by (simp add: yolov8_decode_def Let_def check_canvas_def check_view_def shape_elements_def yolov8_anchors_def
        feature_indices_def yolov8_candidate_def rd_def upt_rec)
  with p show ?thesis by blast
qed

theorem decoders_read_inside_witness:
  "\<exists>d. make_decoder decoder_libs ''x'' = Inr (Some d) \<and> decode (\<lambda>x. x) d [two_scores, three_boxes] 640 640 0 0 \<noteq> None"
proof -
  have j: "lb_parse decoder_libs ''x'' = Inr (json_obj [(''type'', JStr ''yolov8''), (''num_classes'', JInt 2)])"
    by (simp add: decoder_libs_def)
  have f: "ints_fit (json_obj [(''type'', JStr ''yolov8''), (''num_classes'', JInt 2)])" by (simp add: ints_fit_def)
  have "json_obj [(''type'', JStr ''yolov8''), (''num_classes'', JInt 2)] \<noteq> JNull" by (simp add: json_obj_def)
  then have "\<exists>d. make_decoder decoder_libs ''x'' = Inr (Some d)"
    by (simp add: make_decoder_def j parse_spec_def Let_def spec_int_def given_def default_decode_spec_def select_decoder_def)
  moreover have "\<forall>t \<in> set [two_scores, three_boxes]. \<forall>data. tv_data t = Some data \<longrightarrow> length data \<le> 2 ^ 31"
    by (simp add: two_scores_def three_boxes_def)
  ultimately show ?thesis using decoders_read_inside [OF _ j f] by blast
qed

theorem detections_are_scored_witness:
  "is_fin (d_score (class_detection [lit (1/4), lit (3/4)] 1)) \<and> d_class_id (class_detection [lit (1/4), lit (3/4)] 1) < 2"
proof -
  have d: "decode (\<lambda>x. x) (Classify two_classes) [two_scores] 640 640 (lit (1/2)) 0 =
      Some (Inr ([class_detection [lit (1/4), lit (3/4)] 1], [], []))" using classify_two by simp
  have n: "dsp_num_classes two_classes = 2" by (simp add: two_classes_def)
  from detections_are_scored [OF d, of "class_detection [lit (1/4), lit (3/4)] 1"] n show ?thesis by simp
qed

theorem yolov8_layouts_agree_witness:
  "yolov8_decode two_classes [three_boxes\<lparr>tv_data := Some (row_major 6 3 (map (\<lambda>k. lit (of_nat k)) [0..<18])), tv_dims := [3, 6]\<rparr>]
       640 640 (lit (1/2)) (lit (45/100)) =
     yolov8_decode two_classes [three_boxes] 640 640 (lit (1/2)) (lit (45/100))"
proof -
  have d: "tv_data three_boxes = Some (map (\<lambda>k. lit (of_nat k)) [0..<18])" "tv_dims three_boxes = [6, 3]"
    by (simp_all only: three_boxes_def tensor_view.simps)
  have f: "6 = 4 + dsp_num_classes two_classes" by (simp add: two_classes_def)
  have l: "length (map (\<lambda>k. lit (of_nat k) :: f32) [0..<18]) = nat 6 * nat 3" "nat 6 * nat 3 < 2 ^ 64" "(3 :: int) \<noteq> 6"
    by simp_all
  show ?thesis
    using yolov8_layouts_agree [OF d f l(3,1,2), of 640 640 "lit (1/2)" "lit (45/100)"] unfolding nat_numeral .
qed

theorem classify_takes_the_best_witness:
  "\<exists>cs. [class_detection [lit (1/4), lit (3/4)] 1] = map (class_detection (demote [lit (1/4), lit (3/4)])) cs \<and> distinct cs"
proof -
  have s: "dsp_softmax two_classes = False" by (simp add: two_classes_def)
  have d: "tv_data two_scores = Some [lit (1/4), lit (3/4)]" by (simp add: two_scores_def)
  from classify_takes_the_best [OF classify_two d] show ?thesis unfolding Let_def s if_False
    by (elim exE conjE) (intro exI conjI)
qed

end
