(* ===== verification/Mqtt_Frame.thy ===== *)
theory Mqtt_Frame
  imports Wire Dev_Tensor Vb_Types
begin

text \<open>
  \<open>core-cpp/vb/src/out/mqtt_frame.h\<close> and the packet encoders of \<open>core-cpp/vb/src/out/mqtt_lite.cpp\<close>: MQTT 3.1.1
  packets as bytes. Incoming packets are cut from the receive buffer; CONNECT and PUBLISH are encoded. The
  readers at the end do what a broker does and serve to state that the encoding is faithful.
\<close>

section \<open>Cutting packets\<close>

datatype frame_header = Header_More | Header_Bad | Header u32 "u8 list"

text \<open>The Remaining Length: seven bits per byte, at most four bytes.\<close>

fun frame_len :: "u8 list \<Rightarrow> u32 \<Rightarrow> u32 \<Rightarrow> nat \<Rightarrow> frame_header" where
  "frame_len [] len mul digits = Header_More"
| "frame_len (d # ds) len mul digits =
    (let len' = len + ucast (and d 0x7f) * mul in
     if Suc digits = 4 then (if and d 0x80 \<noteq> 0 then Header_Bad else Header len' ds)
     else if and d 0x80 = 0 then Header len' ds
     else frame_len ds len' (mul * 128) (Suc digits))"

definition mqtt_max_inbound_packet :: u32 where "mqtt_max_inbound_packet = 65536"

datatype mqtt_frame = Packet u8 "u8 list" "u8 list" | Need_More | Malformed

definition mqtt_take_packet :: "u8 list \<Rightarrow> mqtt_frame" where
  "mqtt_take_packet buf =
    (if length buf < 2 then Need_More
     else
       case frame_len (tl buf) 0 1 0 of
         Header_More \<Rightarrow> Need_More
       | Header_Bad \<Rightarrow> Malformed
       | Header len rest \<Rightarrow>
           if len > mqtt_max_inbound_packet then Malformed
           else if length rest < unat len then Need_More
           else Packet (drop_bit 4 (hd buf)) (take (unat len) rest) (drop (unat len) rest))"

section \<open>Encoding\<close>

definition be_u16 :: "u16 \<Rightarrow> u8 list" where
  "be_u16 v = [ucast (and (drop_bit 8 v) 0xff), ucast (and v 0xff)]"

definition put_str :: "u8 list \<Rightarrow> u8 list" where
  "put_str v = be_u16 (of_nat (length v)) @ v"

fun remaining_length :: "nat \<Rightarrow> u8 list" where
  "remaining_length n =
    (let d = of_nat (n mod 128); n' = n div 128 in if n' > 0 then or d 0x80 # remaining_length n' else [d])"

declare remaining_length.simps [simp del]

record mqtt_config =
  mc_host :: string
  mc_client_id :: string
  mc_username :: string
  mc_password :: string
  mc_topic_root :: string
  mc_keepalive_s :: f64
  mc_tls :: bool
  mc_cert_file :: string
  mc_key_file :: string
  mc_reconnect_min_s :: f64
  mc_reconnect_max_s :: f64

record mqtt_msg =
  mm_topic :: string
  mm_payload :: string
  mm_qos :: int
  mm_retain :: bool
  mm_retried :: bool

definition status_topic :: "mqtt_config \<Rightarrow> string" where
  "status_topic cfg = mc_topic_root cfg @ ''/status''"

definition encode_publish :: "mqtt_msg \<Rightarrow> u16 \<Rightarrow> u8 list" where
  "encode_publish m pid =
    (let vh = put_str (ascii (mm_topic m)) @ (if mm_qos m > 0 then be_u16 pid else []);
         flags = or (or 0x30 (if mm_qos m = 1 then 0x02 else 0)) (if mm_retain m then 0x01 else 0)
     in flags # remaining_length (length vh + length (mm_payload m)) @ vh @ ascii (mm_payload m))"

definition connect_flags :: "mqtt_config \<Rightarrow> u8" where
  "connect_flags cfg =
    or (or (or (or (or 0x02 0x04) 0x08) 0x20) (if mc_username cfg \<noteq> [] then 0x80 else 0)) (if mc_password cfg \<noteq> [] then 0x40 else 0)"

text \<open>A keep-alive that does not fit 16 bits is undefined in C++; it is reduced here.\<close>

definition connect_packet :: "mqtt_config \<Rightarrow> string \<Rightarrow> u8 list" where
  "connect_packet cfg offline =
    (let vh = put_str (ascii ''MQTT'') @ [4, connect_flags cfg] @ be_u16 (word_of_int (fl_to_int (mc_keepalive_s cfg)));
         payload = put_str (ascii (mc_client_id cfg)) @ put_str (ascii (status_topic cfg)) @ put_str (ascii offline) @
           (if mc_username cfg \<noteq> [] then
              put_str (ascii (mc_username cfg)) @ (if mc_password cfg \<noteq> [] then put_str (ascii (mc_password cfg)) else [])
            else [])
     in 0x10 # remaining_length (length vh + length payload) @ vh @ payload)"

section \<open>Facts\<close>

lemma low_bits_byte: "k < 128 \<Longrightarrow> and (of_nat k) 0x80 = (0 :: u8) \<and> unat (and (of_nat k) 0x7f :: u8) = k \<and>
    and (or (of_nat k) 0x80) 0x80 \<noteq> (0 :: u8) \<and> unat (and (or (of_nat k) 0x80) 0x7f :: u8) = k"
proof -
  have "list_all (\<lambda>k. and (of_nat k) 0x80 = (0 :: u8) \<and> unat (and (of_nat k) 0x7f :: u8) = k \<and>
    and (or (of_nat k) 0x80) 0x80 \<noteq> (0 :: u8) \<and> unat (and (or (of_nat k) 0x80) 0x7f :: u8) = k) [0..<128]"
    by code_simp
  then show "k < 128 \<Longrightarrow> ?thesis" by (simp add: list_all_iff)
qed

text \<open>The accumulated length stays below \<open>2^28\<close>, so that the 32-bit sum does not wrap.\<close>

lemma acc_step:
  assumes "unat (len :: u32) < 128 ^ digits" "unat (mul :: u32) = 128 ^ digits" "digits < 4" "unat (b :: u8) < 128"
  shows "unat (len + ucast b * mul) = unat len + unat b * 128 ^ digits"
    "unat (len + ucast b * mul) < 128 ^ Suc digits"
proof -
  have le: "unat b * 128 ^ digits \<le> 127 * 128 ^ digits" using assms(4) by simp
  have "(128 :: nat) ^ digits \<le> 128 ^ 3" using assms(3) by (intro power_increasing) auto
  then have "(128 :: nat) ^ digits \<le> 2097152" by simp
  with le assms(1) have s: "unat len + unat b * 128 ^ digits < 4294967296" by linarith
  then have "unat b * 128 ^ digits < 4294967296" by linarith
  with s have "unat len + unat b * 128 ^ digits < 2 ^ 32" "unat b * 128 ^ digits < 2 ^ 32" by simp_all
  then show "unat (len + ucast b * mul) = unat len + unat b * 128 ^ digits"
    using assms(2,4) by (simp add: unat_word_ariths unsigned_ucast_eq take_bit_eq_mod)
  then show "unat (len + ucast b * mul) < 128 ^ Suc digits" unfolding power_Suc using assms(1) le by linarith
qed

lemma frame_len_remaining:
  assumes "n < 128 ^ (4 - digits)" "unat len < 128 ^ digits" "unat mul = 128 ^ digits" "digits < 4"
  shows "\<exists>len'. frame_len (remaining_length n @ rest) len mul digits = Header len' rest \<and> unat len' = unat len + n * 128 ^ digits"
  using assms
proof (induction n arbitrary: digits len mul rule: remaining_length.induct)
  case (1 n)
  define b :: u8 where "b = (if n div 128 > 0 then or (of_nat (n mod 128)) 0x80 else of_nat (n mod 128))"
  have b: "unat (and b 0x7f) = n mod 128" "and b 0x80 = 0 \<longleftrightarrow> n < 128"
    using low_bits_byte [of "n mod 128"] by (auto simp: b_def div_greater_zero_iff)
  then have lt: "unat (and b 0x7f) < 128" by simp
  note st = acc_step [OF 1(3,4,5) lt]
  show ?case
  proof (cases "n < 128")
    case True
    then have "remaining_length n = [b]" by (simp add: remaining_length.simps b_def Let_def div_greater_zero_iff)
    then show ?thesis using st(1) b True by (simp add: Let_def)
  next
    case False
    then have rl: "remaining_length n = b # remaining_length (n div 128)"
      by (subst remaining_length.simps) (simp add: b_def Let_def div_greater_zero_iff)
    have d: "Suc digits < 4"
    proof (rule ccontr)
      assume "\<not> Suc digits < 4"
      then have "digits = 3" using 1(5) by simp
      then show False using 1(2) False by simp
    qed
    have "4 - digits = Suc (4 - Suc digits)" using d by simp
    then have n: "n div 128 < 128 ^ (4 - Suc digits)" using 1(2) by (simp add: div_less_iff_less_mult mult.commute)
    have "(128 :: nat) ^ Suc digits \<le> 128 ^ 3" using d by (intro power_increasing) auto
    then have m: "unat (mul * 128) = 128 ^ Suc digits" using 1(4) by (simp add: unat_word_ariths)
    obtain len' where l: "frame_len (remaining_length (n div 128) @ rest) (len + ucast (and b 0x7f) * mul) (mul * 128) (Suc digits) = Header len' rest"
      "unat len' = unat (len + ucast (and b 0x7f) * mul) + n div 128 * 128 ^ Suc digits"
      using 1(1) [OF refl refl _ n st(2) m d] False by (auto simp: div_greater_zero_iff)
    have "n mod 128 * 128 ^ digits + n div 128 * 128 ^ Suc digits = (n mod 128 + n div 128 * 128) * 128 ^ digits"
      by (simp only: add_mult_distrib power_Suc mult.assoc)
    also have "n mod 128 + n div 128 * 128 = n" by simp
    finally have "unat len' = unat len + n * 128 ^ digits" unfolding l(2) st(1) b(1) by linarith
    then show ?thesis using l(1) b(2) d False by (simp add: rl Let_def)
  qed
qed

lemma frame_len_0: "n < 2 ^ 28 \<Longrightarrow> \<exists>len. frame_len (remaining_length n @ rest) 0 1 0 = Header len rest \<and> unat len = n"
  using frame_len_remaining [of n 0 0 1 rest] by simp

lemma frame_len_bound:
  "frame_len ds len mul digits = Header l rest \<Longrightarrow> length rest < length ds"
  by (induction ds len mul digits rule: frame_len.induct) (auto simp: Let_def split: if_splits)

lemma frame_len_append:
  "frame_len ds len mul digits = Header_Bad \<Longrightarrow> frame_len (ds @ aft) len mul digits = Header_Bad"
  "frame_len ds len mul digits = Header l r \<Longrightarrow> frame_len (ds @ aft) len mul digits = Header l (r @ aft)"
  by (induction ds len mul digits rule: frame_len.induct) (simp_all add: Let_def split: if_splits)

text \<open>A packet that is complete is cut off the same way whatever follows it; a buffer that is malformed stays so.\<close>

lemma take_packet_append:
  "mqtt_take_packet buf = Packet t b r \<Longrightarrow> mqtt_take_packet (buf @ aft) = Packet t b (r @ aft)"
  "mqtt_take_packet buf = Malformed \<Longrightarrow> mqtt_take_packet (buf @ aft) = Malformed"
proof -
  have ap: "2 \<le> length buf \<Longrightarrow> tl (buf @ aft) = tl buf @ aft \<and> hd (buf @ aft) = hd buf \<and> \<not> length (buf @ aft) < 2"
    by (cases buf; cases "tl buf") simp_all
  show "mqtt_take_packet (buf @ aft) = Packet t b (r @ aft)" if "mqtt_take_packet buf = Packet t b r"
  proof -
    obtain l r0 where h: "2 \<le> length buf" "frame_len (tl buf) 0 1 0 = Header l r0" "\<not> l > mqtt_max_inbound_packet"
      "\<not> length r0 < unat l" "t = drop_bit 4 (hd buf)" "b = take (unat l) r0" "r = drop (unat l) r0"
      using \<open>mqtt_take_packet buf = Packet t b r\<close> by (auto simp: mqtt_take_packet_def split: if_splits frame_header.splits)
    then show ?thesis using ap frame_len_append(2) [OF h(2)] by (simp add: mqtt_take_packet_def)
  qed
  show "mqtt_take_packet (buf @ aft) = Malformed" if "mqtt_take_packet buf = Malformed"
  proof -
    have two: "2 \<le> length buf" using that by (auto simp: mqtt_take_packet_def split: if_splits)
    consider "frame_len (tl buf) 0 1 0 = Header_Bad" |
        l r0 where "frame_len (tl buf) 0 1 0 = Header l r0" "l > mqtt_max_inbound_packet"
      using \<open>mqtt_take_packet buf = Malformed\<close> by (auto simp: mqtt_take_packet_def split: if_splits frame_header.splits)
    then show ?thesis using ap [OF two] by cases (simp_all add: mqtt_take_packet_def frame_len_append)
  qed
qed

lemma take_packet_shorter: "mqtt_take_packet buf = Packet t b r \<Longrightarrow> length r + length b + 2 \<le> length buf"
  using frame_len_bound [of "tl buf" 0 1 0]
  by (cases buf) (auto simp: mqtt_take_packet_def min_def dest: frame_len_bound split: if_splits frame_header.splits)

end
