(* ===== verification/Mqtt_Client.thy ===== *)
theory Mqtt_Client
  imports Mqtt_Frame Std_Containers Json_Value Plugins
begin

text \<open>
  \<open>core-cpp/vb/src/out/mqtt_lite.cpp\<close>: the MQTT publisher over a plain socket. The bounded queue, the messages in
  flight, the connection with its handshake, the reading of acknowledgements, the reconnects and the shutdown.
  What the socket and the clock do is given as lists of turns; TLS, name resolution and the thread are not
  modelled. The packets a function returns are those that were written whole.
\<close>

section \<open>State\<close>

record mqtt_client =
  mq_cfg :: mqtt_config
  mq_online_payload :: string
  mq_offline_payload :: string
  mq_rxbuf :: "u8 list"
  mq_q :: "mqtt_msg list"
  mq_inflight :: "(u16, mqtt_msg \<times> f64) omap"
  mq_next_pid :: u16
  mq_backoff_s :: f64
  mq_last_rx_s :: f64
  mq_last_tx_s :: f64
  mq_dropped :: u64
  mq_reconnects :: u64
  mq_connected :: bool

definition queue_limit :: nat where "queue_limit = 1024"
definition inflight_limit :: nat where "inflight_limit = 16"
definition puback_timeout :: f64 where "puback_timeout = lit 5"

definition status_json :: "bool \<Rightarrow> json" where
  "status_json online = json_obj [(''schema'', JStr ''vb.status/1''), (''online'', JBool online)]"

definition new_mqtt_client :: "libs \<Rightarrow> mqtt_config \<Rightarrow> mqtt_client" where
  "new_mqtt_client lb cfg =
    \<lparr>mq_cfg = cfg\<lparr>mc_client_id := (if mc_client_id cfg = [] then ''vb-runtime'' else mc_client_id cfg)\<rparr>,
     mq_online_payload = lb_dump lb (status_json True), mq_offline_payload = lb_dump lb (status_json False),
     mq_rxbuf = [], mq_q = [], mq_inflight = [], mq_next_pid = 1, mq_backoff_s = 0, mq_last_rx_s = 0, mq_last_tx_s = 0,
     mq_dropped = 0, mq_reconnects = 0, mq_connected = False\<rparr>"

text \<open>The checks of \<open>start\<close>; the argument says whether TLS was compiled in.\<close>

definition mqtt_start :: "bool \<Rightarrow> mqtt_config \<Rightarrow> string + unit" where
  "mqtt_start with_tls cfg =
    (if mc_host cfg = [] \<or> mc_topic_root cfg = [] then Inl ''mqtt: host and topic_root are required''
     else if mc_password cfg \<noteq> [] \<and> mc_username cfg = [] then Inl ''mqtt: password requires username''
     else if mc_keepalive_s cfg < 1 then Inl ''mqtt: keepalive_s must be >= 1''
     else if mc_tls cfg \<and> \<not> with_tls then Inl ''tls not compiled in''
     else if mc_tls cfg \<and> ((mc_cert_file cfg \<noteq> []) \<noteq> (mc_key_file cfg \<noteq> [])) then
       Inl ''mqtt: cert_file and key_file must be given together''
     else Inr ())"

section \<open>The queue\<close>

definition evict_oldest :: "mqtt_client \<Rightarrow> mqtt_client" where
  "evict_oldest c =
    (if length (mq_q c) < queue_limit then c else c\<lparr>mq_q := drop 1 (mq_q c), mq_dropped := mq_dropped c + 1\<rparr>)"

definition new_msg :: "string \<Rightarrow> string \<Rightarrow> int \<Rightarrow> bool \<Rightarrow> mqtt_client \<Rightarrow> mqtt_msg" where
  "new_msg suffix payload qos rtn c =
    \<lparr>mm_topic = mc_topic_root (mq_cfg c) @ ''/'' @ suffix, mm_payload = payload, mm_qos = qos, mm_retain = rtn, mm_retried = False\<rparr>"

definition mqtt_publish :: "string \<Rightarrow> string \<Rightarrow> int \<Rightarrow> bool \<Rightarrow> mqtt_client \<Rightarrow> mqtt_client" where
  "mqtt_publish suffix payload qos rtn c =
    (let c' = evict_oldest c in c'\<lparr>mq_q := mq_q c' @ [new_msg suffix payload qos rtn c]\<rparr>)"

definition push_front_bounded :: "mqtt_msg \<Rightarrow> mqtt_client \<Rightarrow> mqtt_client" where
  "push_front_bounded m c = (let c' = evict_oldest c in c'\<lparr>mq_q := m # mq_q c'\<rparr>)"

section \<open>Socket input and output\<close>

text \<open>One call of \<open>send\<close>, with the wait that follows when the socket is full.\<close>

datatype write_turn = Wrote nat | Write_Interrupted | Full_Ready | Full_Late | Write_Failed

fun io_write :: "nat \<Rightarrow> nat \<Rightarrow> write_turn list \<Rightarrow> (bool \<times> nat) option" where
  "io_write n off [] = (if off < n then None else Some (True, off))"
| "io_write n off (w # ws) =
    (if off < n then
       case w of
         Wrote k \<Rightarrow> if 0 < k then io_write n (off + k) ws else Some (False, off)
       | Write_Interrupted \<Rightarrow> io_write n off ws
       | Full_Ready \<Rightarrow> io_write n off ws
       | Full_Late \<Rightarrow> Some (False, off)
       | Write_Failed \<Rightarrow> Some (False, off)
     else Some (True, off))"

text \<open>One call of \<open>recv\<close>, with the time when bytes came.\<close>

datatype read_turn = Got "u8 list" f64 | Read_Closed | Read_Interrupted | Read_Empty | Read_Failed

fun io_read :: "read_turn list \<Rightarrow> bool \<Rightarrow> mqtt_client \<Rightarrow> (int \<times> mqtt_client) option" where
  "io_read [] got c = None"
| "io_read (r # rs) got c =
    (case r of
       Got bs now \<Rightarrow> io_read rs True (c\<lparr>mq_rxbuf := mq_rxbuf c @ bs, mq_last_rx_s := now\<rparr>)
     | Read_Closed \<Rightarrow> Some (-1, c)
     | Read_Interrupted \<Rightarrow> io_read rs got c
     | Read_Empty \<Rightarrow> Some (if got then 1 else 0, c)
     | Read_Failed \<Rightarrow> Some (-1, c))"

definition close_socket :: "mqtt_client \<Rightarrow> mqtt_client" where
  "close_socket c = c\<lparr>mq_rxbuf := [], mq_connected := False\<rparr>"

text \<open>The outcome of writing a packet: whether all of it was written, and when.\<close>

definition send_packet :: "bool \<times> f64 \<Rightarrow> mqtt_client \<Rightarrow> mqtt_client" where
  "send_packet w c = (if fst w then c\<lparr>mq_last_tx_s := snd w\<rparr> else c)"

section \<open>Connecting\<close>

text \<open>One round of the wait for CONNACK: too late, not readable, or readable.\<close>

datatype wait_turn = Late | Not_Ready | Ready "read_turn list"

fun connack :: "wait_turn list \<Rightarrow> mqtt_client \<Rightarrow> (mqtt_client \<times> string option) option" where
  "connack [] c = None"
| "connack (t # ts) c =
    (if t = Late then Some (close_socket c, Some ''mqtt: CONNACK timeout'')
     else
       case mqtt_take_packet (mq_rxbuf c) of
         Malformed \<Rightarrow> Some (close_socket c, Some ''mqtt: malformed packet from broker'')
       | Packet ty body rest \<Rightarrow>
           let c' = c\<lparr>mq_rxbuf := rest\<rparr> in
             if ty = 2 \<and> 2 \<le> length body then
               (if body ! 1 = 0 then Some (c'\<lparr>mq_connected := True\<rparr>, None)
                else Some (close_socket c', Some (''mqtt: connection refused, code '' @ dec_digits (unat (body ! 1)))))
             else connack ts c'
       | Need_More \<Rightarrow>
           (case t of
              Ready rs \<Rightarrow>
                (case io_read rs False c of
                   None \<Rightarrow> None
                 | Some (k, c') \<Rightarrow> if k < 0 then Some (close_socket c', Some ''mqtt: CONNACK not received (connection closed)'')
                     else connack ts c')
            | _ \<Rightarrow> connack ts c))"

text \<open>A connection attempt: the error of the socket, if any, what became of the CONNECT packet, and the wait.\<close>

record connect_env =
  ce_socket :: "string option"
  ce_write :: "bool \<times> f64"
  ce_wait :: "wait_turn list"

definition mqtt_connect :: "connect_env \<Rightarrow> mqtt_client \<Rightarrow> (mqtt_client \<times> u8 list list \<times> string option) option" where
  "mqtt_connect env c =
    (case ce_socket env of
       Some e \<Rightarrow> Some (c, [], Some e)
     | None \<Rightarrow>
         let c' = c\<lparr>mq_rxbuf := []\<rparr>; pkt = connect_packet (mq_cfg c) (mq_offline_payload c) in
           if fst (ce_write env) then
             map_option (\<lambda>(c'', e). (c'', [pkt], e)) (connack (ce_wait env) (send_packet (ce_write env) c'))
           else Some (close_socket c', [], Some ''mqtt: cannot send CONNECT''))"

section \<open>Publishing\<close>

definition publish_now :: "bool \<times> f64 \<Rightarrow> mqtt_msg \<Rightarrow> mqtt_client \<Rightarrow> mqtt_client \<times> bool" where
  "publish_now w m c =
    (if mm_qos m = 0 then (send_packet w c, fst w)
     else
       let pid = mq_next_pid c; c' = c\<lparr>mq_next_pid := of_nat (unat pid mod 65535 + 1)\<rparr> in
         if fst w then ((send_packet w c')\<lparr>mq_inflight := om_put pid (m, snd w) (mq_inflight c)\<rparr>, True)
         else (c', False))"

text \<open>The packet that \<open>publish_now\<close> writes.\<close>

definition published_packet :: "mqtt_msg \<Rightarrow> mqtt_client \<Rightarrow> u8 list" where
  "published_packet m c = encode_publish m (if mm_qos m = 0 then 0 else mq_next_pid c)"

definition take_and_publish :: "bool \<times> f64 \<Rightarrow> mqtt_client \<Rightarrow> mqtt_client \<times> mqtt_msg option \<times> bool" where
  "take_and_publish w c =
    (if inflight_limit \<le> length (mq_inflight c) then (c, None, True)
     else
       case mq_q c of
         [] \<Rightarrow> (c, None, True)
       | m # q \<Rightarrow> (case publish_now w m (c\<lparr>mq_q := q\<rparr>) of (c', ok) \<Rightarrow> (c', Some m, ok)))"

section \<open>Acknowledgements\<close>

definition puback_pid :: "u8 list \<Rightarrow> u16" where
  "puback_pid body = or (push_bit 8 (ucast (body ! 0))) (ucast (body ! 1))"

function take_acks :: "u8 list \<Rightarrow> (u16, mqtt_msg \<times> f64) omap \<Rightarrow> bool \<times> u8 list \<times> (u16, mqtt_msg \<times> f64) omap" where
  "take_acks buf infl =
    (case mqtt_take_packet buf of
       Malformed \<Rightarrow> (False, buf, infl)
     | Need_More \<Rightarrow> (True, buf, infl)
     | Packet ty body rest \<Rightarrow> take_acks rest (if ty = 4 \<and> 2 \<le> length body then om_del (puback_pid body) infl else infl))"
  by pat_completeness auto
termination
  by (relation "measure (\<lambda>(buf, _). length buf)") (auto dest: take_packet_shorter)

declare take_acks.simps [simp del]

text \<open>One call of \<open>drain_and_read\<close>: what the socket gave (\<open>None\<close> when not readable) and the outcome of a PINGREQ.\<close>

definition drain_and_read :: "f64 \<Rightarrow> read_turn list option \<Rightarrow> bool \<times> f64 \<Rightarrow> mqtt_client \<Rightarrow> (mqtt_client \<times> u8 list list \<times> bool) option" where
  "drain_and_read now rd ping c =
    (if list_ex (\<lambda>(_, _, sent). now - sent \<ge> puback_timeout) (mq_inflight c) then Some (c, [], False)
     else
       case (case rd of None \<Rightarrow> Some (0, c) | Some rs \<Rightarrow> io_read rs False c) of
         None \<Rightarrow> None
       | Some (k, c1) \<Rightarrow>
           if k < 0 then Some (c1, [], False)
           else
             case take_acks (mq_rxbuf c1) (mq_inflight c1) of
               (ok, buf, infl) \<Rightarrow>
                 let c2 = c1\<lparr>mq_rxbuf := buf, mq_inflight := infl\<rparr> in
                   if \<not> ok then Some (c2, [], False)
                   else
                     let keep = mc_keepalive_s (mq_cfg c2); must = now - mq_last_tx_s c2 > keep / lit 2;
                         idle_rx = now - mq_last_rx_s c2; c3 = (if must then send_packet ping c2 else c2)
                     in if must \<and> \<not> fst ping then Some (c3, [], False)
                        else Some (c3, if must then [[0xC0, 0]] else [], \<not> idle_rx > keep * lit (3/2)))"

section \<open>Losing the connection\<close>

definition to_requeue :: "mqtt_client \<Rightarrow> mqtt_msg list" where
  "to_requeue c = map (\<lambda>(_, m, _). m\<lparr>mm_retried := True\<rparr>) (filter (\<lambda>(_, m, _). \<not> mm_retried m) (mq_inflight c))"

text \<open>The next delay; \<open>jitter\<close> is the random number between -0.2 and 0.2.\<close>

definition next_backoff :: "mqtt_client \<Rightarrow> f64" where
  "next_backoff c =
    (if feq (mq_backoff_s c) 0 then mc_reconnect_min_s (mq_cfg c) else std_min (mq_backoff_s c * lit 2) (mc_reconnect_max_s (mq_cfg c)))"

definition reconnect_wait :: "f64 \<Rightarrow> mqtt_client \<Rightarrow> f64" where
  "reconnect_wait jitter c = next_backoff c * (1 + jitter)"

definition after_loss :: "mqtt_client \<Rightarrow> mqtt_client" where
  "after_loss c = (let c' = close_socket (c\<lparr>mq_inflight := []\<rparr>) in c'\<lparr>mq_backoff_s := next_backoff c\<rparr>)"

definition requeue_all :: "mqtt_client \<Rightarrow> mqtt_client" where
  "requeue_all c = foldr push_front_bounded (to_requeue c) c"

definition online_msg :: "mqtt_client \<Rightarrow> mqtt_msg" where
  "online_msg c = \<lparr>mm_topic = status_topic (mq_cfg c), mm_payload = mq_online_payload c, mm_qos = 1, mm_retain = True, mm_retried = False\<rparr>"

text \<open>After the handshake.\<close>

definition greet :: "f64 \<Rightarrow> bool \<times> f64 \<Rightarrow> mqtt_client \<Rightarrow> mqtt_client" where
  "greet now w c =
    (let c' = c\<lparr>mq_backoff_s := 0, mq_last_rx_s := now, mq_last_tx_s := now, mq_reconnects := mq_reconnects c + 1\<rparr>
     in case publish_now w (online_msg c') c' of (c'', ok) \<Rightarrow> if ok then c'' else c''\<lparr>mq_connected := False\<rparr>)"

end
