(* ===== verification/Mqtt_Runs.thy ===== *)
theory Mqtt_Runs
  imports Mqtt_Client "HOL-Library.Monad_Syntax"
begin

text \<open>
  The MQTT publisher over time: the worker thread's loop (\<open>run\<close>) and the callers of \<open>publish\<close> as a step
  relation, from the first connection to the end of the shutdown that follows the loop. A step is one critical section or one call of the worker;
  between any two of them other threads may publish.
\<close>

section \<open>What a shutdown sends last\<close>

text \<open>The caller's last status is held back: the latest retained message on the status topic.\<close>

definition is_status :: "mqtt_client \<Rightarrow> mqtt_msg \<Rightarrow> bool" where
  "is_status c m \<longleftrightarrow> mm_retain m \<and> mm_topic m = status_topic (mq_cfg c)"

definition hold_back :: "mqtt_client \<Rightarrow> mqtt_client \<times> mqtt_msg option" where
  "hold_back c =
    (c\<lparr>mq_q := filter (\<lambda>m. \<not> is_status c m) (mq_q c)\<rparr>,
     case rev (filter (is_status c) (mq_q c)) of [] \<Rightarrow> None | m # _ \<Rightarrow> Some m)"

definition offline_status_json :: "libs \<Rightarrow> mqtt_client \<Rightarrow> string option" where
  "offline_status_json lb c =
    (case lb_parse lb (mq_offline_payload c) of
       Inl _ \<Rightarrow> None
     | Inr j \<Rightarrow>
         Some (lb_dump lb (if mq_dropped c = 0 then j
           else case j of JObj m \<Rightarrow> JObj (om_put ''mqtt_dropped'' (JInt (uint (mq_dropped c))) m) | _ \<Rightarrow> j)))"

section \<open>Steps\<close>

text \<open>
  Where the worker is: without a connection, in the inner loop, or pushing back what was in flight; and in the shutdown, which ends
  the loop: before the last attempt to connect, draining the queue, awaiting acknowledgements, about to send the final status,
  each with the status that was held back, and done.
\<close>

datatype conn_phase =
    Down
  | Up
  | Lost "mqtt_msg list"
  | Stopping
  | Draining "mqtt_msg option"
  | Awaiting "mqtt_msg option"
  | Closing "mqtt_msg option"
  | Ended

definition lose_conn :: "mqtt_client \<Rightarrow> mqtt_client \<times> conn_phase" where
  "lose_conn c = (c, Lost (rev (to_requeue c)))"

text \<open>The status that says offline, published when the caller left none.\<close>

definition offline_msg :: "mqtt_client \<Rightarrow> string \<Rightarrow> mqtt_msg" where
  "offline_msg c text = \<lparr>mm_topic = status_topic (mq_cfg c), mm_payload = text, mm_qos = 1, mm_retain = True, mm_retried = True\<rparr>"

text \<open>The last publication, DISCONNECT and the closing of the socket.\<close>

definition part :: "bool \<times> f64 \<Rightarrow> bool \<times> f64 \<Rightarrow> mqtt_msg \<Rightarrow> mqtt_client \<Rightarrow> mqtt_client" where
  "part w bye m c = close_socket (send_packet bye (fst (publish_now w m c)))"

datatype mqtt_act =
    Act_Publish mqtt_msg
  | Act_Online mqtt_msg
  | Act_Take mqtt_msg
  | Act_Push mqtt_msg
  | Act_Hold "mqtt_msg list"
  | Act_Final mqtt_msg
  | Act_Offline mqtt_msg
  | Act_Internal

text \<open>
  A stop is seen where the code looks at \<open>running_\<close>: at the head of both loops and before the messages in flight are pushed back.
  The two deadlines of the shutdown may pass at any time.
\<close>

inductive mqtt_step :: "mqtt_client \<times> conn_phase \<Rightarrow> mqtt_act \<Rightarrow> mqtt_client \<times> conn_phase \<Rightarrow> bool" where
  step_publish: "mqtt_step (c, ph) (Act_Publish (new_msg suffix payload qos rtn c)) (mqtt_publish suffix payload qos rtn c, ph)"
| step_refused: "mqtt_connect env c = Some (c', pkts, Some e) \<Longrightarrow> mqtt_step (c, Down) Act_Internal (lose_conn c')"
| step_connected: "mqtt_connect env c = Some (c', pkts, None) \<Longrightarrow> greet now w c' = c'' \<Longrightarrow>
    mqtt_step (c, Down) (Act_Online (online_msg c')) (if fst w then (c'', Up) else lose_conn c'')"
| step_take: "take_and_publish w c = (c', m, ok) \<Longrightarrow>
    mqtt_step (c, Up) (case m of None \<Rightarrow> Act_Internal | Some m \<Rightarrow> Act_Take m) (if ok then (c', Up) else lose_conn c')"
| step_drain: "drain_and_read now rd ping c = Some (c', pkts, ok) \<Longrightarrow> mqtt_step (c, Up) Act_Internal (if ok then (c', Up) else lose_conn c')"
| step_push: "mqtt_step (c, Lost (m # ms)) (Act_Push m) (push_front_bounded m c, Lost ms)"
| step_closed: "mqtt_step (c, Lost []) Act_Internal (after_loss c, Down)"
| step_stop: "ph = Down \<or> ph = Up \<or> ph = Lost (rev (to_requeue c)) \<Longrightarrow> mqtt_step (c, ph) Act_Internal (c, Stopping)"
| step_last_connect: "\<not> mq_connected c \<Longrightarrow> mqtt_connect env c = Some (c0, pkts, e) \<Longrightarrow>
    c' = (if e = None then c0\<lparr>mq_reconnects := mq_reconnects c0 + 1\<rparr> else c0) \<Longrightarrow>
    mqtt_step (c, Stopping) Act_Internal (if mq_connected c' then (c', Stopping) else (close_socket c', Ended))"
| step_hold: "mq_connected c \<Longrightarrow> hold_back c = (c', held) \<Longrightarrow>
    mqtt_step (c, Stopping) (Act_Hold (filter (is_status c) (mq_q c))) (c', Draining held)"
| step_drain_take: "mq_q c \<noteq> [] \<Longrightarrow> take_and_publish w c = (c', m, ok) \<Longrightarrow>
    mqtt_step (c, Draining held) (case m of None \<Rightarrow> Act_Internal | Some m \<Rightarrow> Act_Take m) (c', if ok then Draining held else Awaiting held)"
| step_drain_read: "drain_and_read now rd ping c = Some (c', pkts, ok) \<Longrightarrow>
    mqtt_step (c, Draining held) Act_Internal (c', if ok then Draining held else Awaiting held)"
| step_drained: "mqtt_step (c, Draining held) Act_Internal (c, Awaiting held)"
| step_await: "mq_connected c \<Longrightarrow> mq_inflight c \<noteq> [] \<Longrightarrow> drain_and_read now rd ping c = Some (c', pkts, ok) \<Longrightarrow>
    mqtt_step (c, Awaiting held) Act_Internal (c', if ok then Awaiting held else Closing held)"
| step_awaited: "mqtt_step (c, Awaiting held) Act_Internal (c, Closing held)"
| step_final: "mqtt_step (c, Closing (Some m)) (Act_Final m) (part w bye m c, Ended)"
| step_offline: "offline_status_json lb c = Some text \<Longrightarrow>
    mqtt_step (c, Closing None) (Act_Offline (offline_msg c text)) (part w bye (offline_msg c text) c, Ended)"

inductive_cases mqtt_stepE: "mqtt_step s a s'"

inductive mqtt_run :: "mqtt_client \<times> conn_phase \<Rightarrow> mqtt_act list \<Rightarrow> mqtt_client \<times> conn_phase \<Rightarrow> bool" for s where
  run_start: "mqtt_run s [] s"
| run_step: "mqtt_run s as t \<Longrightarrow> mqtt_step t a u \<Longrightarrow> mqtt_run s (as @ [a]) u"

section \<open>Shutdown\<close>

text \<open>The shutdown of a worker that no caller interrupts, with the packets it sends.\<close>

record down_turn =
  dt_late :: bool
  dt_now :: f64
  dt_write :: "bool \<times> f64"
  dt_read :: "read_turn list option"
  dt_ping :: "bool \<times> f64"

fun drain_queue :: "down_turn list \<Rightarrow> mqtt_client \<Rightarrow> (mqtt_client \<times> u8 list list) option" where
  "drain_queue [] c = None"
| "drain_queue (t # ts) c =
    (if mq_q c = [] \<or> dt_late t then Some (c, [])
     else
       case take_and_publish (dt_write t) c of
         (c1, m, ok) \<Rightarrow>
           let sent = (case m of Some m \<Rightarrow> if ok then [published_packet m c] else [] | None \<Rightarrow> []) in
             if \<not> ok then Some (c1, sent)
             else
               case drain_and_read (dt_now t) (dt_read t) (dt_ping t) c1 of
                 None \<Rightarrow> None
               | Some (c2, pings, ok2) \<Rightarrow>
                   if ok2 then map_option (\<lambda>(c3, ps). (c3, sent @ pings @ ps)) (drain_queue ts c2)
                   else Some (c2, sent @ pings))"

fun await_acks :: "down_turn list \<Rightarrow> mqtt_client \<Rightarrow> (mqtt_client \<times> u8 list list) option" where
  "await_acks [] c = None"
| "await_acks (t # ts) c =
    (if \<not> mq_connected c \<or> mq_inflight c = [] \<or> dt_late t then Some (c, [])
     else
       case drain_and_read (dt_now t) (dt_read t) (dt_ping t) c of
         None \<Rightarrow> None
       | Some (c1, pings, ok) \<Rightarrow>
           if ok then map_option (\<lambda>(c2, ps). (c2, pings @ ps)) (await_acks ts c1) else Some (c1, pings))"

record down_env =
  de_connect :: connect_env
  de_drain :: "down_turn list"
  de_acks :: "down_turn list"
  de_final :: "bool \<times> f64"
  de_bye :: "bool \<times> f64"

text \<open>The part with a connection, after the final status was taken out of the queue.\<close>

definition last_words :: "libs \<Rightarrow> down_env \<Rightarrow> mqtt_client \<Rightarrow> (mqtt_client \<times> u8 list list) option" where
  "last_words lb env c =
    (case hold_back c of
       (c0, held) \<Rightarrow>
         do {
           (c1, ps1) \<leftarrow> drain_queue (de_drain env) c0;
           (c2, ps2) \<leftarrow> await_acks (de_acks env) c1;
           m \<leftarrow> (case held of
                   Some m \<Rightarrow> Some m
                 | None \<Rightarrow>
                     map_option (offline_msg c2) (offline_status_json lb c2));
           let c3 = fst (publish_now (de_final env) m c2); c4 = send_packet (de_bye env) c3
           in Some (c4, ps1 @ ps2 @ (if fst (de_final env) then [published_packet m c2] else []) @
                (if fst (de_bye env) then [[0xE0, 0]] else []))
         })"

definition shut_down :: "libs \<Rightarrow> down_env \<Rightarrow> mqtt_client \<Rightarrow> (mqtt_client \<times> u8 list list) option" where
  "shut_down lb env c =
    do {
      (c1, ps) \<leftarrow> (if mq_connected c then Some (c, [])
        else map_option (\<lambda>(c', ps, e). (if e = None then c'\<lparr>mq_reconnects := mq_reconnects c' + 1\<rparr> else c', ps)) (mqtt_connect (de_connect env) c));
      (c2, ps') \<leftarrow> (if mq_connected c1 then last_words lb env c1 else Some (c1, []));
      Some (close_socket c2, ps @ ps')
    }"

section \<open>Well-formed states\<close>

text \<open>The final status of a shutdown is published whatever is in flight.\<close>

definition window_limit :: "conn_phase \<Rightarrow> nat" where
  "window_limit ph = (if ph = Ended then Suc inflight_limit else inflight_limit)"

definition mqtt_ok :: "mqtt_client \<times> conn_phase \<Rightarrow> bool" where
  "mqtt_ok s \<longleftrightarrow>
    (let c = fst s in
      length (mq_q c) \<le> queue_limit \<and> length (mq_inflight c) \<le> window_limit (snd s) \<and> om_ok (mq_inflight c) \<and>
      mq_next_pid c \<noteq> 0 \<and> (\<forall>(pid, m, t) \<in> set (mq_inflight c). pid \<noteq> 0 \<and> mm_qos m \<noteq> 0) \<and>
      (case snd s of Down \<Rightarrow> mq_inflight c = [] | Lost ms \<Rightarrow> list_all mm_retried ms | _ \<Rightarrow> True))"

end
