(* ===== verification/Mqtt_Facts.thy ===== *)
theory Mqtt_Facts
  imports Mqtt_Runs "HOL-Library.Sublist"
begin

text \<open>
  What each operation of the MQTT publisher keeps: the parts of the state that reading, writing and connecting
  leave alone, the acknowledgements, the limits, and how often a message can still be transmitted.
\<close>

section \<open>Reading and connecting leave the messages alone\<close>

definition core :: "mqtt_client \<Rightarrow> mqtt_msg list \<times> (u16, mqtt_msg \<times> f64) omap \<times> u16 \<times> u64 \<times> mqtt_config \<times> string" where
  "core c = (mq_q c, mq_inflight c, mq_next_pid c, mq_dropped c, mq_cfg c, mq_online_payload c)"

lemma core_simps [simp]:
  "core (c\<lparr>mq_rxbuf := b\<rparr>) = core c" "core (c\<lparr>mq_last_rx_s := t\<rparr>) = core c" "core (c\<lparr>mq_last_tx_s := t\<rparr>) = core c"
  "core (c\<lparr>mq_connected := k\<rparr>) = core c" "core (c\<lparr>mq_backoff_s := t\<rparr>) = core c" "core (c\<lparr>mq_reconnects := r\<rparr>) = core c"
  "core (close_socket c) = core c" "core (send_packet w c) = core c"
  by (simp_all add: core_def close_socket_def send_packet_def)

lemma io_read_core: "io_read rs got c = Some (k, c') \<Longrightarrow> core c' = core c"
  by (induction rs got c rule: io_read.induct) (auto split: read_turn.splits)

lemma io_read_cfg: "io_read rs got c = Some (k, c') \<Longrightarrow> mq_connected c' = mq_connected c"
  by (induction rs got c rule: io_read.induct) (auto split: read_turn.splits)

lemma connack_core: "connack ts c = Some (c', e) \<Longrightarrow> core c' = core c"
proof (induction ts c rule: connack.induct)
  case (2 t ts c)
  then show ?case
    by (auto simp: Let_def split: if_splits mqtt_frame.splits wait_turn.splits option.splits) (metis core_simps(7) io_read_core)+
qed simp

lemma connack_connected: "connack ts c = Some (c', None) \<Longrightarrow> mq_connected c'"
  by (induction ts c rule: connack.induct)
    (auto simp: Let_def split: if_splits mqtt_frame.splits wait_turn.splits option.splits)

lemma mqtt_connect_core: "mqtt_connect env c = Some (c', pkts, e) \<Longrightarrow> core c' = core c"
  by (auto simp: mqtt_connect_def Let_def dest!: connack_core split: option.splits if_splits)

lemma core_eqD:
  assumes "core c' = core c"
  shows "mq_q c' = mq_q c" "mq_inflight c' = mq_inflight c" "mq_next_pid c' = mq_next_pid c" "mq_dropped c' = mq_dropped c"
    "mq_cfg c' = mq_cfg c" "mq_online_payload c' = mq_online_payload c"
  using assms by (simp_all add: core_def)

section \<open>Acknowledgements\<close>

lemma take_acks_simps:
  "mqtt_take_packet buf = Malformed \<Longrightarrow> take_acks buf infl = (False, buf, infl)"
  "mqtt_take_packet buf = Need_More \<Longrightarrow> take_acks buf infl = (True, buf, infl)"
  "mqtt_take_packet buf = Packet ty body rest \<Longrightarrow>
    take_acks buf infl = take_acks rest (if ty = 4 \<and> 2 \<le> length body then om_del (puback_pid body) infl else infl)"
  by (subst take_acks.simps, simp)+

lemma take_acks_append:
  "take_acks (a @ b) infl =
    (case take_acks a infl of (ok, buf, infl') \<Rightarrow> if ok then take_acks (buf @ b) infl' else (False, buf @ b, infl'))"
proof (induction a infl rule: take_acks.induct)
  case (1 buf infl)
  show ?case
  proof (cases "mqtt_take_packet buf")
    case (Packet ty body rest)
    then show ?thesis using 1 [OF Packet] by (simp add: take_acks_simps(3) [OF Packet] take_acks_simps(3) [OF take_packet_append(1) [OF Packet]])
  next
    case Need_More
    then show ?thesis by (simp add: take_acks_simps)
  next
    case Malformed
    then show ?thesis by (simp add: take_acks_simps take_packet_append(2))
  qed
qed

lemma take_acks_left: "take_acks a infl = (True, buf, infl') \<Longrightarrow> mqtt_take_packet buf = Need_More"
  by (induction a infl rule: take_acks.induct) (subst (asm) (2) take_acks.simps, auto split: mqtt_frame.splits)

lemma om_del_subseq: "subseq (om_del k m) m"
  by (induction m) (auto intro: subseq_Cons')

lemma take_acks_subseq: "take_acks a infl = (ok, buf, infl') \<Longrightarrow> subseq infl' infl"
proof (induction a infl rule: take_acks.induct)
  case (1 a infl)
  show ?case
  proof (cases "mqtt_take_packet a")
    case (Packet ty body rest)
    have "subseq infl' (if ty = 4 \<and> 2 \<le> length body then om_del (puback_pid body) infl else infl)"
      using 1(1) [OF Packet] 1(2) by (simp only: take_acks_simps(3) [OF Packet])
    moreover have "subseq (if ty = 4 \<and> 2 \<le> length body then om_del (puback_pid body) infl else infl) infl"
      by (simp add: om_del_subseq)
    ultimately show ?thesis by (rule subseq_order.order_trans)
  qed (use 1(2) in \<open>simp_all add: take_acks_simps\<close>)
qed

lemma om_ok_subseq: "subseq m' m \<Longrightarrow> om_ok m \<Longrightarrow> om_ok m'"
proof (induction rule: list_emb.induct)
  case (list_emb_Cons2 x y xs ys)
  then show ?case using list_emb_set [OF list_emb_Cons2(2)] by (cases x) (force simp: om_ok_Cons)
qed (simp_all add: om_ok_def)

lemma drain_and_read_core:
  assumes "drain_and_read now rd ping c = Some (c', pkts, ok)"
  shows "mq_q c' = mq_q c" "mq_next_pid c' = mq_next_pid c" "mq_dropped c' = mq_dropped c" "mq_cfg c' = mq_cfg c"
    "mq_online_payload c' = mq_online_payload c" "subseq (mq_inflight c') (mq_inflight c)"
proof -
  have "\<exists>infl. core c' = core (c\<lparr>mq_inflight := infl\<rparr>) \<and> subseq infl (mq_inflight c)"
  proof (cases "list_ex (\<lambda>(_, _, sent). now - sent \<ge> puback_timeout) (mq_inflight c)")
    case True
    then show ?thesis using assms by (intro exI [of _ "mq_inflight c"]) (auto simp: drain_and_read_def)
  next
    case False
    obtain k c1 where r: "(case rd of None \<Rightarrow> Some (0, c) | Some rs \<Rightarrow> io_read rs False c) = Some (k, c1)" "core c1 = core c"
      using assms False by (auto simp: drain_and_read_def dest: io_read_core split: option.splits)
    obtain o2 buf infl where a: "take_acks (mq_rxbuf c1) (mq_inflight c1) = (o2, buf, infl)" by (metis prod_cases3)
    have s: "subseq infl (mq_inflight c)" using take_acks_subseq [OF a] core_eqD(2) [OF r(2)] by simp
    have "core (c1\<lparr>mq_rxbuf := buf, mq_inflight := infl\<rparr>) = core (c\<lparr>mq_inflight := infl\<rparr>)"
      using r(2) by (simp add: core_def)
    then have "core c' = core (c\<lparr>mq_inflight := infl\<rparr>) \<or> core c' = core c"
      using assms False a r by (auto simp: drain_and_read_def Let_def split: if_splits)
    then show ?thesis using s by (metis core_def mqtt_client.surjective mqtt_client.update_convs(6) subseq_order.order_refl)
  qed
  then show "mq_q c' = mq_q c" "mq_next_pid c' = mq_next_pid c" "mq_dropped c' = mq_dropped c" "mq_cfg c' = mq_cfg c"
    "mq_online_payload c' = mq_online_payload c" "subseq (mq_inflight c') (mq_inflight c)"
    by (auto simp: core_def)
qed

end
