(* ===== verification/Mqtt_Properties.thy ===== *)
theory Mqtt_Properties
  imports Mqtt_Facts
begin

text \<open>
  What the MQTT publisher promises over a run: its limits, how often a message is transmitted, where every message
  is, the last words of a shutdown, and that the split of the incoming bytes into reads does not matter.
\<close>

section \<open>Limits\<close>

lemma evict_oldest_fields [simp]:
  "mq_inflight (evict_oldest c) = mq_inflight c" "mq_next_pid (evict_oldest c) = mq_next_pid c" "mq_cfg (evict_oldest c) = mq_cfg c"
  by (simp_all add: evict_oldest_def)

lemma evict_oldest_room: "length (mq_q c) \<le> queue_limit \<Longrightarrow> length (mq_q (evict_oldest c)) < queue_limit"
  by (auto simp: evict_oldest_def queue_limit_def)

lemma length_om_put: "length (om_put k v m) \<le> Suc (length m)"
  by (induction m) auto

lemma set_om_put_subset: "set (om_put k v m) \<subseteq> insert (k, v) (set m)"
  by (induction m) (auto split: if_splits)

lemma subseq_set: "subseq xs ys \<Longrightarrow> set xs \<subseteq> set ys"
  by (induction rule: list_emb.induct) auto

lemma next_pid_not_0: "(of_nat (unat (pid :: u16) mod 65535 + 1) :: u16) \<noteq> 0"
proof
  assume "(of_nat (unat pid mod 65535 + 1) :: u16) = 0"
  then have "unat (of_nat (unat pid mod 65535 + 1) :: u16) = 0" by simp
  then have "(unat pid mod 65535 + 1) mod 2 ^ 16 = 0" by (simp only: unat_of_nat len_of_numeral_defs) simp
  moreover have "unat pid mod 65535 + 1 < 2 ^ 16" using mod_less_divisor [of 65535 "unat pid"] by simp
  ultimately show False by simp
qed

definition window_ok :: "nat \<Rightarrow> mqtt_client \<Rightarrow> bool" where
  "window_ok n c \<longleftrightarrow> length (mq_inflight c) \<le> n \<and> om_ok (mq_inflight c) \<and> mq_next_pid c \<noteq> 0 \<and>
     (\<forall>(pid, m, t) \<in> set (mq_inflight c). pid \<noteq> 0 \<and> mm_qos m \<noteq> 0)"

lemma window_ok_core: "core c' = core c \<Longrightarrow> window_ok n c' = window_ok n c"
  by (simp add: core_def window_ok_def)

lemma window_ok_subseq:
  "subseq (mq_inflight c') (mq_inflight c) \<Longrightarrow> mq_next_pid c' = mq_next_pid c \<Longrightarrow> window_ok n c \<Longrightarrow> window_ok n c'"
  using list_emb_length [of "(=)" "mq_inflight c'" "mq_inflight c"] subseq_set [of "mq_inflight c'" "mq_inflight c"]
    om_ok_subseq [of "mq_inflight c'" "mq_inflight c"]
  unfolding window_ok_def split_beta by auto

lemma publish_now_window:
  assumes "publish_now w m c = (c', ok)" "window_ok n c" "length (mq_inflight c) < n"
  shows "window_ok n c'" "mq_q c' = mq_q c" "mq_cfg c' = mq_cfg c" "mq_dropped c' = mq_dropped c"
proof -
  have "length (om_put k v (mq_inflight c)) \<le> n" for k v
    using length_om_put [of k v "mq_inflight c"] assms(3) by simp
  then show "window_ok n c'"
    using assms(1,2) set_om_put_subset [of "mq_next_pid c" "(m, snd w)" "mq_inflight c"] next_pid_not_0 [of "mq_next_pid c"]
    by (auto simp: publish_now_def Let_def window_ok_def send_packet_def om_ok_put split: if_splits)
  show "mq_q c' = mq_q c" "mq_cfg c' = mq_cfg c" "mq_dropped c' = mq_dropped c"
    using assms(1) by (auto simp: publish_now_def Let_def send_packet_def split: if_splits)
qed

lemma to_requeue_retried: "list_all mm_retried (to_requeue c)"
  by (auto simp: to_requeue_def list_all_iff)

lemma mqtt_ok_iff: "mqtt_ok (c, ph) \<longleftrightarrow> length (mq_q c) \<le> queue_limit \<and> window_ok (window_limit ph) c \<and>
    (case ph of Down \<Rightarrow> mq_inflight c = [] | Lost ms \<Rightarrow> list_all mm_retried ms | _ \<Rightarrow> True)"
  by (simp add: mqtt_ok_def window_ok_def Let_def)

lemma window_limit_simps [simp]:
  "window_limit Down = inflight_limit" "window_limit Up = inflight_limit" "window_limit (Lost ms) = inflight_limit"
  "window_limit Stopping = inflight_limit" "window_limit (Draining h) = inflight_limit" "window_limit (Awaiting h) = inflight_limit"
  "window_limit (Closing h) = inflight_limit" "window_limit Ended = Suc inflight_limit"
  by (simp_all add: window_limit_def)

lemma lost_ok: "mqtt_ok (lose_conn c) \<longleftrightarrow> length (mq_q c) \<le> queue_limit \<and> window_ok inflight_limit c"
  using to_requeue_retried [of c] by (auto simp: mqtt_ok_iff lose_conn_def list_all_iff)

lemma window_ok_more: "window_ok n c \<Longrightarrow> window_ok (Suc n) c"
  by (simp add: window_ok_def)

lemma take_and_publish_ok:
  assumes "take_and_publish w c = (c', m, ok)" "length (mq_q c) \<le> queue_limit" "window_ok inflight_limit c"
  shows "length (mq_q c') \<le> queue_limit \<and> window_ok inflight_limit c'"
proof (cases "inflight_limit \<le> length (mq_inflight c) \<or> mq_q c = []")
  case True
  then show ?thesis using assms by (auto simp: take_and_publish_def split: if_splits list.splits)
next
  case False
  then obtain m0 q where q: "mq_q c = m0 # q" by (cases "mq_q c") auto
  then have p: "publish_now w m0 (c\<lparr>mq_q := q\<rparr>) = (c', ok)"
    using assms(1) False by (auto simp: take_and_publish_def split: prod.splits)
  have "window_ok inflight_limit (c\<lparr>mq_q := q\<rparr>)" "length (mq_inflight (c\<lparr>mq_q := q\<rparr>)) < inflight_limit"
    using assms(3) False by (simp_all add: window_ok_def)
  from publish_now_window [OF p this] q assms(2) show ?thesis by simp
qed

lemma greet_ok:
  assumes "mq_inflight c = []" "window_ok inflight_limit c"
  shows "window_ok inflight_limit (greet now w c) \<and> mq_q (greet now w c) = mq_q c"
proof -
  define c0 where "c0 = c\<lparr>mq_backoff_s := 0, mq_last_rx_s := now, mq_last_tx_s := now, mq_reconnects := mq_reconnects c + 1\<rparr>"
  obtain c1 ok where p: "publish_now w (online_msg c0) c0 = (c1, ok)" by fastforce
  have "window_ok inflight_limit c0" "length (mq_inflight c0) < inflight_limit"
    using assms by (simp_all add: c0_def window_ok_def inflight_limit_def)
  note st = publish_now_window [OF p this]
  have "greet now w c = (if ok then c1 else c1\<lparr>mq_connected := False\<rparr>)"
    by (simp add: greet_def c0_def [symmetric] p)
  then show ?thesis using st by (auto simp: c0_def window_ok_def)
qed

text \<open>A shutdown: what is held back leaves the queue, and the last publication may be one more than the window.\<close>

lemma hold_back_fields:
  "hold_back c = (c', h) \<Longrightarrow> c' = c\<lparr>mq_q := filter (\<lambda>m. \<not> is_status c m) (mq_q c)\<rparr> \<and>
     h = (if filter (is_status c) (mq_q c) = [] then None else Some (last (filter (is_status c) (mq_q c))))"
  by (auto simp: hold_back_def hd_rev [symmetric] split: list.splits)

lemma part_window:
  assumes "window_ok inflight_limit c"
  shows "window_ok (Suc inflight_limit) (part w bye m c)" "mq_q (part w bye m c) = mq_q c" "mq_dropped (part w bye m c) = mq_dropped c"
proof -
  obtain c' ok where p: "publish_now w m c = (c', ok)" by fastforce
  have "length (mq_inflight c) < Suc inflight_limit" using assms by (simp add: window_ok_def)
  note w = publish_now_window [OF p window_ok_more [OF assms] this]
  have "core (part w bye m c) = core c'" by (simp add: part_def p)
  from window_ok_core [OF this] w(1) show "window_ok (Suc inflight_limit) (part w bye m c)" by simp
  from core_eqD(1,4) [OF \<open>core (part w bye m c) = core c'\<close>] w show "mq_q (part w bye m c) = mq_q c"
    "mq_dropped (part w bye m c) = mq_dropped c" by simp_all
qed

lemma mqtt_step_ok: "mqtt_step s a t \<Longrightarrow> mqtt_ok s \<Longrightarrow> mqtt_ok t"
proof (induction rule: mqtt_step.induct)
  case (step_publish c ph suffix payload qos rtn)
  then show ?case using evict_oldest_room [of c]
    by (auto simp: mqtt_ok_iff mqtt_publish_def Let_def window_ok_def split: conn_phase.splits)
next
  case (step_refused env c c' pkts e)
  note k = mqtt_connect_core [OF step_refused(1)]
  show ?case using step_refused(2) by (simp add: lost_ok mqtt_ok_iff window_ok_core [OF k] core_eqD [OF k])
next
  case (step_connected env c c' pkts now w c'')
  note k = mqtt_connect_core [OF step_connected(1)]
  have "mq_inflight c' = []" "window_ok inflight_limit c'" "length (mq_q c') \<le> queue_limit"
    using step_connected(3) by (simp_all add: mqtt_ok_iff window_ok_core [OF k] core_eqD [OF k])
  from greet_ok [OF this(1,2), of now w] this(3) step_connected(2) show ?case by (auto simp: lost_ok mqtt_ok_iff)
next
  case (step_take w c c' m ok)
  then show ?case using take_and_publish_ok [OF step_take(1)] by (auto simp: mqtt_ok_iff lost_ok)
next
  case (step_drain now rd ping c c' pkts ok)
  note d = drain_and_read_core [OF step_drain(1)]
  show ?case using step_drain(2) d window_ok_subseq [OF d(6,2)] by (auto simp: mqtt_ok_iff lost_ok)
next
  case (step_push c m ms)
  then show ?case using evict_oldest_room [of c]
    by (auto simp: mqtt_ok_iff push_front_bounded_def Let_def window_ok_def)
next
  case (step_closed c)
  then show ?case by (auto simp: mqtt_ok_iff after_loss_def Let_def close_socket_def window_ok_def)
next
  case (step_stop ph c)
  then show ?case by (auto simp: mqtt_ok_iff)
next
  case (step_last_connect c env c0 pkts e c')
  have k: "core c' = core c" using mqtt_connect_core [OF step_last_connect(2)] step_last_connect(3) by simp
  then have "core (close_socket c') = core c" by simp
  with k step_last_connect(4) show ?case
    using window_ok_more [of inflight_limit c] window_ok_core [of c' c] window_ok_core [of "close_socket c'" c]
      core_eqD(1) [of c' c] core_eqD(1) [of "close_socket c'" c] by (simp add: mqtt_ok_iff)
next
  case (step_hold c c' held)
  have "window_ok inflight_limit c" "length (mq_q c) \<le> queue_limit" using step_hold(3) by (simp_all add: mqtt_ok_iff)
  then show ?case using hold_back_fields [OF step_hold(2)] order_trans [OF length_filter_le, of "mq_q c" queue_limit]
    by (simp add: mqtt_ok_iff window_ok_def)
next
  case (step_drain_take c w c' m ok held)
  then show ?case using take_and_publish_ok [OF step_drain_take(2)] by (auto simp: mqtt_ok_iff)
next
  case (step_drain_read now rd ping c c' pkts ok held)
  note d = drain_and_read_core [OF step_drain_read(1)]
  show ?case using step_drain_read(2) d window_ok_subseq [OF d(6,2)] by (auto simp: mqtt_ok_iff)
next
  case (step_drained c held)
  then show ?case by (simp add: mqtt_ok_iff)
next
  case (step_await c now rd ping c' pkts ok held)
  note d = drain_and_read_core [OF step_await(3)]
  show ?case using step_await(4) d window_ok_subseq [OF d(6,2)] by (auto simp: mqtt_ok_iff)
next
  case (step_awaited c held)
  then show ?case by (simp add: mqtt_ok_iff)
next
  case (step_final c m w bye)
  then show ?case using part_window [of c w bye m] by (simp add: mqtt_ok_iff)
next
  case (step_offline lb c body w bye)
  then show ?case using part_window [of c w bye "offline_msg c body"] by (simp add: mqtt_ok_iff)
qed

lemma mqtt_run_ok: "mqtt_run s as t \<Longrightarrow> mqtt_ok s \<Longrightarrow> mqtt_ok t"
  by (induction rule: mqtt_run.induct) (auto dest: mqtt_step_ok)

lemma fresh_ok: "mqtt_ok (new_mqtt_client lb cfg, Down)"
  by (simp add: mqtt_ok_def new_mqtt_client_def)

section \<open>How often a message can still be transmitted\<close>

definition msg_key :: "mqtt_msg \<Rightarrow> mqtt_msg" where
  "msg_key m = m\<lparr>mm_retried := False\<rparr>"

definition q_credit :: "mqtt_msg \<Rightarrow> mqtt_msg list \<Rightarrow> nat" where
  "q_credit k q = sum_list (map (\<lambda>m. if msg_key m = k then (if mm_retried m then 1 else 2) else 0) q)"

definition window_credit :: "mqtt_msg \<Rightarrow> (u16, mqtt_msg \<times> f64) omap \<Rightarrow> nat" where
  "window_credit k infl = length (filter (\<lambda>(_, m, _). \<not> mm_retried m \<and> msg_key m = k) infl)"

fun credit :: "mqtt_msg \<Rightarrow> mqtt_client \<times> conn_phase \<Rightarrow> nat" where
  "credit k (c, Down) = q_credit k (mq_q c)"
| "credit k (c, Up) = q_credit k (mq_q c) + window_credit k (mq_inflight c)"
| "credit k (c, Lost ms) = q_credit k (mq_q c) + q_credit k ms"
| "credit k (c, Draining h) = q_credit k (mq_q c) + q_credit k (case h of None \<Rightarrow> [] | Some m \<Rightarrow> [m])"
| "credit k (c, Awaiting h) = q_credit k (mq_q c) + q_credit k (case h of None \<Rightarrow> [] | Some m \<Rightarrow> [m])"
| "credit k (c, Closing h) = q_credit k (mq_q c) + q_credit k (case h of None \<Rightarrow> [] | Some m \<Rightarrow> [m])"
| "credit k (c, _) = q_credit k (mq_q c)"

fun attempt :: "mqtt_msg \<Rightarrow> mqtt_act \<Rightarrow> nat" where
  "attempt k (Act_Take m) = (if msg_key m = k then 1 else 0)"
| "attempt k (Act_Online m) = (if msg_key m = k then 1 else 0)"
| "attempt k (Act_Final m) = (if msg_key m = k then 1 else 0)"
| "attempt k (Act_Offline m) = (if msg_key m = k then 1 else 0)"
| "attempt k _ = 0"

fun handed :: "mqtt_msg \<Rightarrow> mqtt_act \<Rightarrow> nat" where
  "handed k (Act_Publish m) = (if msg_key m = k then 1 else 0)"
| "handed k (Act_Online m) = (if msg_key m = k then 1 else 0)"
| "handed k (Act_Offline m) = (if msg_key m = k then 1 else 0)"
| "handed k _ = 0"

lemma q_credit_simps [simp]:
  "q_credit k [] = 0" "q_credit k (m # q) = (if msg_key m = k then (if mm_retried m then 1 else 2) else 0) + q_credit k q"
  "q_credit k (q @ q') = q_credit k q + q_credit k q'" "q_credit k (rev q) = q_credit k q"
  by (simp_all add: q_credit_def rev_map [symmetric])

lemma q_credit_evict: "q_credit k (mq_q (evict_oldest c)) \<le> q_credit k (mq_q c)"
  by (cases "mq_q c") (simp_all add: evict_oldest_def)

lemma window_credit_put: "window_credit k (om_put p (m, t) infl) \<le> window_credit k infl + (if \<not> mm_retried m \<and> msg_key m = k then 1 else 0)"
  by (induction infl) (auto simp: window_credit_def)

lemma window_credit_subseq: "subseq infl' infl \<Longrightarrow> window_credit k infl' \<le> window_credit k infl"
  unfolding window_credit_def by (rule list_emb_length [OF subseq_filter])

lemma credit_lost: "credit k (lose_conn c) = q_credit k (mq_q c) + window_credit k (mq_inflight c)"
proof -
  have "q_credit k (map (\<lambda>(_, m, _). m\<lparr>mm_retried := True\<rparr>) (filter (\<lambda>(_, m, _). \<not> mm_retried m) infl)) = window_credit k infl"
    for infl :: "(u16, mqtt_msg \<times> f64) omap"
    by (induction infl) (auto simp: window_credit_def msg_key_def)
  then show ?thesis by (simp add: lose_conn_def to_requeue_def)
qed

lemma publish_now_credit:
  assumes "publish_now w m c = (c', ok)"
  shows "window_credit k (mq_inflight c') \<le> window_credit k (mq_inflight c) + (if \<not> mm_retried m \<and> msg_key m = k then 1 else 0)"
    "mq_q c' = mq_q c" "\<not> ok \<Longrightarrow> mq_inflight c' = mq_inflight c"
  using assms window_credit_put [of k "mq_next_pid c" m "snd w" "mq_inflight c"]
  by (auto simp: publish_now_def Let_def send_packet_def split: if_splits)

lemma take_and_publish_credit:
  assumes "take_and_publish w c = (c', m, ok)"
  shows "(case m of None \<Rightarrow> 0 | Some m \<Rightarrow> if msg_key m = k then 1 else 0) + q_credit k (mq_q c') + window_credit k (mq_inflight c')
    \<le> q_credit k (mq_q c) + window_credit k (mq_inflight c)"
proof (cases "inflight_limit \<le> length (mq_inflight c) \<or> mq_q c = []")
  case True
  then show ?thesis using assms by (auto simp: take_and_publish_def split: if_splits list.splits)
next
  case False
  then obtain m0 q where q: "mq_q c = m0 # q" by (cases "mq_q c") auto
  then have p: "publish_now w m0 (c\<lparr>mq_q := q\<rparr>) = (c', ok)" "m = Some m0"
    using assms(1) False by (auto simp: take_and_publish_def split: prod.splits)
  from publish_now_credit(1) [OF p(1), of k] publish_now_credit(2) [OF p(1)] q p(2) show ?thesis by auto
qed

text \<open>In a shutdown nothing is pushed back: what counts is the queue and what is held back.\<close>

lemma take_and_publish_queue_credit:
  assumes "take_and_publish w c = (c', m, ok)"
  shows "(case m of None \<Rightarrow> 0 | Some m \<Rightarrow> if msg_key m = k then 1 else 0) + q_credit k (mq_q c') \<le> q_credit k (mq_q c)"
proof (cases "inflight_limit \<le> length (mq_inflight c) \<or> mq_q c = []")
  case True
  then show ?thesis using assms by (auto simp: take_and_publish_def split: if_splits list.splits)
next
  case False
  then obtain m0 q where q: "mq_q c = m0 # q" by (cases "mq_q c") auto
  then have p: "publish_now w m0 (c\<lparr>mq_q := q\<rparr>) = (c', ok)" "m = Some m0"
    using assms(1) False by (auto simp: take_and_publish_def split: prod.splits)
  from publish_now_credit(2) [OF p(1)] q p(2) show ?thesis by auto
qed

lemma held_credit: "q_credit k (filter (\<lambda>m. \<not> P m) q) + q_credit k (if filter P q = [] then [] else [last (filter P q)]) \<le> q_credit k q"
proof -
  have "q_credit k [last xs] \<le> q_credit k xs" if "xs \<noteq> []" for xs
    using that by (metis append_butlast_last_id le_add2 q_credit_simps(3))
  then have "q_credit k (if filter P q = [] then [] else [last (filter P q)]) \<le> q_credit k (filter P q)" by simp
  moreover have "q_credit k (filter (\<lambda>m. \<not> P m) q) + q_credit k (filter P q) = q_credit k q" by (induction q) auto
  ultimately show ?thesis by simp
qed

lemma part_queue [simp]: "mq_q (part w bye m c) = mq_q c"
  by (auto simp: part_def publish_now_def Let_def send_packet_def close_socket_def)

lemma mqtt_step_credit:
  "mqtt_step s a t \<Longrightarrow> mqtt_ok s \<Longrightarrow> attempt k a + credit k t \<le> credit k s + 2 * handed k a"
proof (induction rule: mqtt_step.induct)
  case (step_publish c ph suffix payload qos rtn)
  then show ?case using q_credit_evict [of k c]
    by (cases ph) (auto simp: mqtt_publish_def Let_def msg_key_def new_msg_def split: option.split)
next
  case (step_refused env c c' pkts e)
  note k = core_eqD [OF mqtt_connect_core [OF step_refused(1)]]
  show ?case using step_refused(2) k by (simp add: credit_lost mqtt_ok_iff window_credit_def)
next
  case (step_connected env c c' pkts now w c'')
  note k = core_eqD [OF mqtt_connect_core [OF step_connected(1)]]
  define c0 where "c0 = c'\<lparr>mq_backoff_s := 0, mq_last_rx_s := now, mq_last_tx_s := now, mq_reconnects := mq_reconnects c' + 1\<rparr>"
  obtain c1 ok where p: "publish_now w (online_msg c0) c0 = (c1, ok)" by fastforce
  have e: "mq_inflight c0 = []" "mq_q c0 = mq_q c" "online_msg c0 = online_msg c'"
    using step_connected(3) k by (simp_all add: c0_def mqtt_ok_iff online_msg_def)
  have c'': "c'' = (if ok then c1 else c1\<lparr>mq_connected := False\<rparr>)"
    using step_connected(2) by (simp add: greet_def c0_def [symmetric] p)
  have "q_credit k (mq_q c'') + window_credit k (mq_inflight c'') \<le> q_credit k (mq_q c) + (if msg_key (online_msg c') = k then 1 else 0)"
    using publish_now_credit(1) [OF p, of k] publish_now_credit(2) [OF p] e by (auto simp: c'' window_credit_def split: if_splits)
  then show ?case by (auto simp: credit_lost)
next
  case (step_take w c c' m ok)
  from take_and_publish_credit [OF step_take(1), of k] show ?case by (cases m) (auto simp: credit_lost)
next
  case (step_drain now rd ping c c' pkts ok)
  note d = drain_and_read_core [OF step_drain(1)]
  show ?case using window_credit_subseq [OF d(6), of k] d(1) by (simp add: credit_lost)
next
  case (step_push c m ms)
  then show ?case using q_credit_evict [of k c] by (simp add: push_front_bounded_def Let_def mqtt_ok_iff)
next
  case (step_closed c)
  then show ?case by (simp add: after_loss_def Let_def close_socket_def)
next
  case (step_stop ph c)
  then show ?case by auto
next
  case (step_last_connect c env c0 pkts e c')
  have "mq_q c' = mq_q c" using core_eqD(1) [OF mqtt_connect_core [OF step_last_connect(2)]] step_last_connect(3) by simp
  then show ?case by (simp add: close_socket_def)
next
  case (step_hold c c' held)
  have "(case held of None \<Rightarrow> [] | Some m \<Rightarrow> [m]) = (if filter (is_status c) (mq_q c) = [] then [] else [last (filter (is_status c) (mq_q c))])"
    "mq_q c' = filter (\<lambda>m. \<not> is_status c m) (mq_q c)"
    using hold_back_fields [OF step_hold(2)] by simp_all
  then show ?case using held_credit [of k "is_status c" "mq_q c"] by simp
next
  case (step_drain_take c w c' m ok held)
  from take_and_publish_queue_credit [OF step_drain_take(2), of k] show ?case by (cases m) auto
next
  case (step_drain_read now rd ping c c' pkts ok held)
  show ?case using drain_and_read_core(1) [OF step_drain_read(1)] by simp
next
  case (step_await c now rd ping c' pkts ok held)
  show ?case using drain_and_read_core(1) [OF step_await(3)] by simp
next
  case (step_offline lb c body w bye)
  show ?case by simp
qed auto

lemma mqtt_run_credit:
  "mqtt_run s as t \<Longrightarrow> mqtt_ok s \<Longrightarrow> sum_list (map (attempt k) as) + credit k t \<le> credit k s + 2 * sum_list (map (handed k) as)"
proof (induction rule: mqtt_run.induct)
  case (run_step as t a u)
  from mqtt_step_credit [OF run_step(2) mqtt_run_ok [OF run_step(1,4)], of k] run_step(3) [OF run_step(4)] show ?case by simp
qed simp

section \<open>Where the messages are\<close>

fun enters :: "mqtt_act \<Rightarrow> nat" where
  "enters (Act_Publish _) = 1"
| "enters (Act_Push _) = 1"
| "enters _ = 0"

fun leaves :: "mqtt_act \<Rightarrow> nat" where
  "leaves (Act_Take _) = 1"
| "leaves (Act_Hold ms) = length ms"
| "leaves _ = 0"

lemma evict_oldest_account:
  "of_nat (length (mq_q (evict_oldest c))) + mq_dropped (evict_oldest c) = of_nat (length (mq_q c)) + mq_dropped c"
  by (cases "mq_q c") (simp_all add: evict_oldest_def queue_limit_def)

lemma mqtt_step_account:
  "mqtt_step s a t \<Longrightarrow> mqtt_ok s \<Longrightarrow>
    of_nat (length (mq_q (fst t)) + leaves a) + mq_dropped (fst t) = of_nat (length (mq_q (fst s)) + enters a) + mq_dropped (fst s)"
proof (induction rule: mqtt_step.induct)
  case (step_publish c ph suffix payload qos rtn)
  then show ?case using evict_oldest_account [of c] by (simp add: mqtt_publish_def Let_def add.assoc)
next
  case (step_refused env c c1 pkts e)
  note k = core_eqD [OF mqtt_connect_core [OF step_refused(1)]]
  show ?case using k by (simp add: lose_conn_def)
next
  case (step_connected env c c1 pkts now w c2)
  note k = core_eqD [OF mqtt_connect_core [OF step_connected(1)]]
  have "mq_inflight c1 = []" "window_ok inflight_limit c1"
    using step_connected(3) k window_ok_core [OF mqtt_connect_core [OF step_connected(1)]] by (simp_all add: mqtt_ok_iff)
  from greet_ok [OF this, of now w] have "mq_q (greet now w c1) = mq_q c" using k by simp
  moreover have "mq_dropped (greet now w c1) = mq_dropped c"
    using k by (auto simp: greet_def publish_now_def Let_def send_packet_def)
  ultimately show ?case using step_connected(2) by (auto simp: lose_conn_def)
next
  case (step_take w c c1 m ok)
  have "mq_dropped c1 = mq_dropped c \<and> length (mq_q c1) + leaves (case m of None \<Rightarrow> Act_Internal | Some m \<Rightarrow> Act_Take m) = length (mq_q c)"
    using step_take(1) by (auto simp: take_and_publish_def publish_now_def Let_def send_packet_def split: if_splits list.splits)
  then show ?case by (cases m) (auto simp: lose_conn_def dest!: sym [of "Suc _"])
next
  case (step_drain now rd ping c c1 pkts ok)
  show ?case using drain_and_read_core(1,3) [OF step_drain(1)] by (simp add: lose_conn_def)
next
  case (step_push c m)
  then show ?case using evict_oldest_account [of c] by (simp add: push_front_bounded_def Let_def add.assoc)
next
  case (step_closed c)
  then show ?case by (simp add: after_loss_def Let_def close_socket_def)
next
  case (step_last_connect c env c0 pkts e c')
  note k = core_eqD [OF mqtt_connect_core [OF step_last_connect(2)]]
  have "mq_q c' = mq_q c" "mq_dropped c' = mq_dropped c" using k step_last_connect(3) by simp_all
  then show ?case by (simp add: close_socket_def)
next
  case (step_hold c c' held)
  have "length (filter (\<lambda>m. \<not> is_status c m) (mq_q c)) + length (filter (is_status c) (mq_q c)) = length (mq_q c)"
    using sum_length_filter_compl [of "is_status c" "mq_q c"] by simp
  then show ?case using hold_back_fields [OF step_hold(2)] by simp
next
  case (step_drain_take c w c1 m ok held)
  have "mq_dropped c1 = mq_dropped c \<and> length (mq_q c1) + leaves (case m of None \<Rightarrow> Act_Internal | Some m \<Rightarrow> Act_Take m) = length (mq_q c)"
    using step_drain_take(2) by (auto simp: take_and_publish_def publish_now_def Let_def send_packet_def split: if_splits list.splits)
  then show ?case by (cases m) (auto dest!: sym [of "Suc _"])
next
  case (step_drain_read now rd ping c c1 pkts ok held)
  show ?case using drain_and_read_core(1,3) [OF step_drain_read(1)] by simp
next
  case (step_await c now rd ping c1 pkts ok held)
  show ?case using drain_and_read_core(1,3) [OF step_await(3)] by simp
next
  case (step_final c m w bye)
  then show ?case using part_window [of c w bye m] by (simp add: mqtt_ok_iff)
next
  case (step_offline lb c body w bye)
  then show ?case using part_window [of c w bye "offline_msg c body"] by (simp add: mqtt_ok_iff)
qed simp_all

lemma chain_sums: "p + l = q + e \<Longrightarrow> q + m = r + f \<Longrightarrow> p + (l + m) = r + (e + (f :: 'a::ab_group_add))"
  by (metis add.assoc add.commute)

lemma mqtt_run_account:
  "mqtt_run s as t \<Longrightarrow> mqtt_ok s \<Longrightarrow>
    (of_nat (length (mq_q (fst t))) + mq_dropped (fst t)) + of_nat (sum_list (map leaves as)) =
    (of_nat (length (mq_q (fst s))) + mq_dropped (fst s)) + of_nat (sum_list (map enters as))"
proof (induction rule: mqtt_run.induct)
  case (run_step as t a u)
  have "(of_nat (length (mq_q (fst u))) + mq_dropped (fst u)) + of_nat (leaves a) =
      (of_nat (length (mq_q (fst t))) + mq_dropped (fst t)) + of_nat (enters a)"
    using mqtt_step_account [OF run_step(2) mqtt_run_ok [OF run_step(1,4)]] by (simp add: ac_simps)
  from chain_sums [OF this run_step(3) [OF run_step(4)]] show ?case by (simp add: ac_simps)
qed simp

section \<open>What a shutdown holds back\<close>

fun parting :: "mqtt_act \<Rightarrow> bool" where
  "parting (Act_Hold _) = True"
| "parting (Act_Final _) = True"
| "parting (Act_Offline _) = True"
| "parting _ = False"

text \<open>What a run has said of the shutdown when the worker is in a phase.\<close>

fun parted :: "conn_phase \<Rightarrow> mqtt_act list \<Rightarrow> bool" where
  "parted (Draining h) ps \<longleftrightarrow> (\<exists>ms. ps = [Act_Hold ms] \<and> h = (if ms = [] then None else Some (last ms)))"
| "parted (Awaiting h) ps \<longleftrightarrow> (\<exists>ms. ps = [Act_Hold ms] \<and> h = (if ms = [] then None else Some (last ms)))"
| "parted (Closing h) ps \<longleftrightarrow> (\<exists>ms. ps = [Act_Hold ms] \<and> h = (if ms = [] then None else Some (last ms)))"
| "parted Ended ps \<longleftrightarrow> ps = [] \<or> (\<exists>ms. ms \<noteq> [] \<and> ps = [Act_Hold ms, Act_Final (last ms)]) \<or> (\<exists>m. ps = [Act_Hold [], Act_Offline m])"
| "parted _ ps \<longleftrightarrow> ps = []"

lemma mqtt_step_parted: "mqtt_step s a t \<Longrightarrow> parted (snd s) ps \<Longrightarrow> parted (snd t) (ps @ (if parting a then [a] else []))"
proof (induction rule: mqtt_step.induct)
  case (step_take w c c' m ok)
  then show ?case by (cases m) (auto simp: lose_conn_def)
next
  case (step_hold c c' held)
  then show ?case using hold_back_fields [OF step_hold(2)] by auto
next
  case (step_drain_take c w c' m ok held)
  then show ?case by (cases m) auto
next
  case (step_final c m w bye)
  then show ?case by (auto split: if_splits)
next
  case (step_offline lb c body w bye)
  then show ?case by (auto split: if_splits)
qed (auto simp: lose_conn_def)

lemma mqtt_run_parted: "mqtt_run s as t \<Longrightarrow> parted (snd s) [] \<Longrightarrow> parted (snd t) (filter parting as)"
  by (induction rule: mqtt_run.induct) (auto dest: mqtt_step_parted)

section \<open>The last words\<close>

lemma take_and_publish_cfg: "take_and_publish w c = (c', m, ok) \<Longrightarrow> mq_cfg c' = mq_cfg c"
  by (auto simp: take_and_publish_def publish_now_def Let_def send_packet_def split: if_splits list.splits)

lemma drain_queue_cfg: "drain_queue ts c = Some (c', ps) \<Longrightarrow> mq_cfg c' = mq_cfg c"
proof (induction ts arbitrary: c c' ps)
  case (Cons t ts)
  show ?case
  proof (cases "mq_q c = [] \<or> dt_late t")
    case False
    obtain c1 m ok where t: "take_and_publish (dt_write t) c = (c1, m, ok)" by (metis prod_cases3)
    note k = take_and_publish_cfg [OF t]
    show ?thesis
    proof (cases "ok \<and> (\<exists>c2 ps2. drain_and_read (dt_now t) (dt_read t) (dt_ping t) c1 = Some (c2, ps2, True))")
      case True
      then obtain c2 ps2 where d: "drain_and_read (dt_now t) (dt_read t) (dt_ping t) c1 = Some (c2, ps2, True)" by blast
      then obtain ps3 where "drain_queue ts c2 = Some (c', ps3)" using Cons.prems False t True by (auto simp: Let_def)
      from Cons.IH [OF this] drain_and_read_core(4) [OF d] k show ?thesis by simp
    next
      case False
      then show ?thesis using Cons.prems \<open>\<not> (mq_q c = [] \<or> dt_late t)\<close> t k
        by (auto simp: Let_def split: if_splits option.splits dest: drain_and_read_core(4))
    qed
  qed (use Cons in auto)
qed simp

lemma await_acks_cfg: "await_acks ts c = Some (c', ps) \<Longrightarrow> mq_cfg c' = mq_cfg c"
proof (induction ts arbitrary: c c' ps)
  case (Cons t ts)
  show ?case
  proof (cases "\<not> (\<not> mq_connected c \<or> mq_inflight c = [] \<or> dt_late t) \<and> (\<exists>c2 ps2. drain_and_read (dt_now t) (dt_read t) (dt_ping t) c = Some (c2, ps2, True))")
    case True
    then obtain c2 ps2 where d: "drain_and_read (dt_now t) (dt_read t) (dt_ping t) c = Some (c2, ps2, True)" by blast
    then obtain ps3 where "await_acks ts c2 = Some (c', ps3)" using Cons.prems True by (auto simp: Let_def)
    from Cons.IH [OF this] drain_and_read_core(4) [OF d] show ?thesis by simp
  next
    case False
    then show ?thesis using Cons.prems by (auto split: if_splits option.splits dest: drain_and_read_core(4))
  qed
qed simp

text \<open>The shutdown of a worker that no caller interrupts is a run of the steps.\<close>

lemma mqtt_run_trans: "mqtt_run t bs u \<Longrightarrow> mqtt_run s as t \<Longrightarrow> mqtt_run s (as @ bs) u"
proof (induction rule: mqtt_run.induct)
  case (run_step bs u a v)
  from run_step(3) [OF run_step(4)] run_step(2) have "mqtt_run s ((as @ bs) @ [a]) v" by (rule mqtt_run.run_step)
  then show ?case by simp
qed simp

lemma mqtt_run_Cons: "mqtt_step s a t \<Longrightarrow> mqtt_run t as u \<Longrightarrow> mqtt_run s (a # as) u"
  using mqtt_run_trans [of t as u s "[a]"] mqtt_run.run_step [OF mqtt_run.run_start, of s a t] by simp

lemma drain_queue_run: "drain_queue ts c = Some (c', ps) \<Longrightarrow> \<exists>as. mqtt_run (c, Draining h) as (c', Awaiting h)"
proof (induction ts arbitrary: c ps)
  case (Cons t ts)
  show ?case
  proof (cases "mq_q c = [] \<or> dt_late t")
    case True
    with Cons.prems show ?thesis using mqtt_run_Cons [OF step_drained run_start] by auto
  next
    case False
    obtain c1 m ok where t: "take_and_publish (dt_write t) c = (c1, m, ok)" by (metis prod_cases3)
    note take = step_drain_take [OF _ t, of h]
    show ?thesis
    proof (cases ok)
      case False
      with Cons.prems \<open>\<not> (mq_q c = [] \<or> dt_late t)\<close> t show ?thesis using mqtt_run_Cons [OF take run_start] by (auto simp: Let_def)
    next
      case True
      then obtain c2 pings ok2 where d: "drain_and_read (dt_now t) (dt_read t) (dt_ping t) c1 = Some (c2, pings, ok2)"
        using Cons.prems False t by (auto simp: Let_def split: option.splits)
      have "\<exists>as. mqtt_run (c2, if ok2 then Draining h else Awaiting h) as (c', Awaiting h)"
      proof (cases ok2)
        case ok2: True
        then obtain ps3 where "drain_queue ts c2 = Some (c', ps3)" using Cons.prems False t True d by (auto simp: Let_def)
        from Cons.IH [OF this] ok2 show ?thesis by simp
      next
        case ok2: False
        then show ?thesis using Cons.prems False t True d run_start by (auto simp: Let_def)
      qed
      then obtain as where "mqtt_run (c2, if ok2 then Draining h else Awaiting h) as (c', Awaiting h)" by blast
      from mqtt_run_Cons [OF step_drain_read [OF d] this] take True False show ?thesis using mqtt_run_Cons by fastforce
    qed
  qed
qed simp

lemma await_acks_run: "await_acks ts c = Some (c', ps) \<Longrightarrow> \<exists>as. mqtt_run (c, Awaiting h) as (c', Closing h)"
proof (induction ts arbitrary: c ps)
  case (Cons t ts)
  show ?case
  proof (cases "\<not> mq_connected c \<or> mq_inflight c = [] \<or> dt_late t")
    case True
    with Cons.prems show ?thesis using mqtt_run_Cons [OF step_awaited run_start] by auto
  next
    case False
    then obtain c1 pings ok where d: "drain_and_read (dt_now t) (dt_read t) (dt_ping t) c = Some (c1, pings, ok)"
      using Cons.prems by (auto split: option.splits)
    have "\<exists>as. mqtt_run (c1, if ok then Awaiting h else Closing h) as (c', Closing h)"
    proof (cases ok)
      case True
      then obtain ps3 where "await_acks ts c1 = Some (c', ps3)" using Cons.prems False d by auto
      from Cons.IH [OF this] True show ?thesis by simp
    qed (use Cons.prems False d run_start in auto)
    then obtain as where "mqtt_run (c1, if ok then Awaiting h else Closing h) as (c', Closing h)" by blast
    from mqtt_run_Cons [OF step_await [OF _ _ d] this] False show ?thesis by blast
  qed
qed simp

lemma last_words_run:
  assumes "last_words lb env c = Some (c', ps)" "mq_connected c"
  shows "\<exists>as. mqtt_run (c, Stopping) as (close_socket c', Ended)"
proof -
  obtain c0 held where h: "hold_back c = (c0, held)" by fastforce
  with assms(1) obtain c1 ps1 c2 ps2 m where d: "drain_queue (de_drain env) c0 = Some (c1, ps1)" "await_acks (de_acks env) c1 = Some (c2, ps2)"
    and m: "held = Some m \<or> (held = None \<and> (\<exists>t. offline_status_json lb c2 = Some t \<and> m = offline_msg c2 t))"
    and c': "close_socket c' = part (de_final env) (de_bye env) m c2"
    by (cases held) (fastforce simp: last_words_def Let_def part_def Option.bind_eq_Some_conv)+
  obtain as bs where "mqtt_run (c0, Draining held) as (c1, Awaiting held)" "mqtt_run (c1, Awaiting held) bs (c2, Closing held)"
    using drain_queue_run [OF d(1)] await_acks_run [OF d(2)] by blast
  then have r: "mqtt_run (c, Stopping) (Act_Hold (filter (is_status c) (mq_q c)) # as @ bs) (c2, Closing held)"
    using mqtt_run_Cons [OF step_hold [OF assms(2) h] mqtt_run_trans] by blast
  have "\<exists>a. mqtt_step (c2, Closing held) a (part (de_final env) (de_bye env) m c2, Ended)"
    using m step_final step_offline by blast
  with run_step [OF r] show ?thesis unfolding c' by blast
qed

lemma shut_down_run:
  assumes "shut_down lb env c = Some (c', ps)"
  shows "\<exists>as. mqtt_run (c, Stopping) as (c', Ended)"
proof (cases "mq_connected c")
  case True
  with assms obtain c2 ps2 where "last_words lb env c = Some (c2, ps2)" "c' = close_socket c2"
    by (auto simp: shut_down_def Option.bind_eq_Some_conv)
  with last_words_run True show ?thesis by blast
next
  case False
  then obtain c0 pk e c1 where k: "mqtt_connect (de_connect env) c = Some (c0, pk, e)"
    "c1 = (if e = None then c0\<lparr>mq_reconnects := mq_reconnects c0 + 1\<rparr> else c0)"
    using assms by (auto simp: shut_down_def Option.bind_eq_Some_conv)
  note first = step_last_connect [OF False k]
  show ?thesis
  proof (cases "mq_connected c1")
    case True
    then obtain c2 ps2 where "last_words lb env c1 = Some (c2, ps2)" "c' = close_socket c2"
      using assms False k by (auto simp: shut_down_def Option.bind_eq_Some_conv)
    with last_words_run [OF _ True] obtain as where "mqtt_run (c1, Stopping) as (c', Ended)" by blast
    with mqtt_run_Cons [OF first] True show ?thesis by auto
  next
    case no: False
    then have "c' = close_socket c1" using assms False k by (auto simp: shut_down_def Option.bind_eq_Some_conv)
    with mqtt_run_Cons [OF first run_start] no show ?thesis by auto
  qed
qed

section \<open>Properties\<close>

text \<open>C28: whatever the broker and the callers do, from the first connection to the end of the shutdown, the publisher's queue never
  holds more than 1024 messages, at most 16 are in flight, and 17 after the final status that the shutdown publishes
  whatever is in flight, under distinct identifiers that are not 0, none of them with QoS 0, and none is in flight while the worker waits
  to connect again.\<close>

theorem mqtt_limits_hold:
  assumes "mqtt_run (new_mqtt_client lb cfg, Down) as s"
  shows "mqtt_ok s"
  using mqtt_run_ok [OF assms fresh_ok] .

text \<open>C29: over any run, a message is transmitted at most twice for every time that it was handed to the publisher, so a
  message that was handed over once goes out at most twice, however often the connection is lost.\<close>

theorem mqtt_sends_at_most_twice:
  assumes "mqtt_run (new_mqtt_client lb cfg, Down) as s"
  shows "sum_list (map (attempt m) as) \<le> 2 * sum_list (map (handed m) as)"
proof -
  have "credit m (new_mqtt_client lb cfg, Down) = 0" by (simp add: new_mqtt_client_def)
  with mqtt_run_credit [OF assms fresh_ok, of m] show ?thesis by simp
qed

text \<open>C30: every message that entered the queue is still there, was taken for transmission, is in the count of dropped messages
  (which has 64 bits), or was held back by the shutdown. That happens once, to the retained status messages that are in the queue then;
  the last of them is the one that the shutdown ends with, the others are discarded without being counted, and if there was none
  the shutdown ends with an offline status of its own.\<close>

theorem mqtt_queue_accounts:
  assumes "mqtt_run (new_mqtt_client lb cfg, Down) as (c, ph)"
  shows "(of_nat (length (mq_q c)) + mq_dropped c) + of_nat (sum_list (map leaves as)) = of_nat (sum_list (map enters as)) \<and>
    (filter parting as = [] \<or> (\<exists>ms. filter parting as = [Act_Hold ms] \<and> ph \<noteq> Ended) \<or>
     (\<exists>ms. ms \<noteq> [] \<and> filter parting as = [Act_Hold ms, Act_Final (last ms)]) \<or> (\<exists>m. filter parting as = [Act_Hold [], Act_Offline m]))"
proof -
  have "parted ph (filter parting as)" using mqtt_run_parted [OF assms] by simp
  then show ?thesis using mqtt_run_account [OF assms fresh_ok] by (cases ph) (auto simp: new_mqtt_client_def)
qed

text \<open>At a shutdown with a working connection, the last packets are the publication of the caller's last retained
  status, however the queue was drained, and DISCONNECT.\<close>

lemma final_status_is_last:
  assumes "shut_down lb env c = Some (c', pkts)" "mq_connected c" "fst (de_final env)" "fst (de_bye env)"
    "mq_q c = q @ [m]" "is_status c m"
  shows "\<exists>ps pid. pkts = ps @ [encode_publish m pid, [0xE0, 0]]"
proof -
  have "hold_back c = (c\<lparr>mq_q := filter (\<lambda>m. \<not> is_status c m) (mq_q c)\<rparr>, Some m)"
    using assms(5,6) by (simp add: hold_back_def)
  then show ?thesis using assms(1-4)
    by (auto simp: shut_down_def last_words_def Let_def published_packet_def split: Option.bind_splits if_splits) blast+
qed

text \<open>What is acknowledged, and whether the input is malformed, does not depend on how the incoming bytes are split into
  reads.\<close>

theorem acks_ignore_segments:
  "foldl (\<lambda>(ok, buf, infl) seg. if ok then take_acks (buf @ seg) infl else (False, buf @ seg, infl)) (True, [], infl) segs =
    take_acks (concat segs) infl"
proof (induction segs rule: rev_induct)
  case Nil
  show ?case by (simp add: take_acks_simps(2) mqtt_take_packet_def)
next
  case (snoc seg segs)
  obtain ok buf infl' where "take_acks (concat segs) infl = (ok, buf, infl')" by (metis prod_cases3)
  with snoc show ?case by (simp add: take_acks_append [of "concat segs" seg])
qed

section \<open>The parse loop ends\<close>

text \<open>The loop over complete packets as it is written, without an end of its own: \<open>n\<close> is the number of rounds it may make.\<close>

fun ack_rounds :: "nat \<Rightarrow> u8 list \<Rightarrow> (u16, mqtt_msg \<times> f64) omap \<Rightarrow> (bool \<times> u8 list \<times> (u16, mqtt_msg \<times> f64) omap) option" where
  "ack_rounds 0 buf infl = None"
| "ack_rounds (Suc n) buf infl =
    (case mqtt_take_packet buf of
       Malformed \<Rightarrow> Some (False, buf, infl)
     | Need_More \<Rightarrow> Some (True, buf, infl)
     | Packet ty body rest \<Rightarrow> ack_rounds n rest (if ty = 4 \<and> 2 \<le> length body then om_del (puback_pid body) infl else infl))"

lemma frame_len_consumes: "frame_len bs len m d = Header n rest \<Longrightarrow> length rest < length bs"
  by (induction bs len m d rule: frame_len.induct) (force simp: Let_def split: if_splits)+

lemma take_packet_consumes_two: "mqtt_take_packet buf = Packet ty body rest \<Longrightarrow> length rest + 2 \<le> length buf"
  by (auto simp: mqtt_take_packet_def Let_def neq_Nil_conv split: if_splits frame_header.splits list.splits dest!: frame_len_consumes)

text \<open>C31: whatever bytes a broker sends, the loop that takes packets out of the receive buffer ends, after one round more than half
  the buffered bytes at most, with the result of \<open>take_acks\<close>.\<close>

theorem packet_loop_returns: "ack_rounds (Suc (length buf div 2)) buf infl = Some (take_acks buf infl)"
proof -
  have "length buf div 2 < n \<Longrightarrow> ack_rounds n buf infl = Some (take_acks buf infl)" for n
  proof (induction n arbitrary: buf infl)
    case (Suc n)
    show ?case
    proof (cases "mqtt_take_packet buf")
      case (Packet ty body rest)
      then have "length rest div 2 < n" using Suc.prems take_packet_consumes_two [OF Packet] by linarith
      then show ?thesis by (simp add: Packet Suc.IH take_acks_simps(3) [OF Packet])
    qed (simp_all add: take_acks_simps)
  qed simp
  from this [OF lessI] show ?thesis .
qed

section \<open>What is lost\<close>

text \<open>A message that was taken from the queue is gone when its transmission fails: it is neither in flight nor queued nor
  counted.\<close>

lemma failed_send_loses_the_message:
  assumes "mq_q c = m # q" "length (mq_inflight c) < inflight_limit"
  shows "\<exists>c'. take_and_publish (False, t) c = (c', Some m, False) \<and> mq_q c' = q \<and> mq_inflight c' = mq_inflight c \<and> mq_dropped c' = mq_dropped c"
  using assms by (auto simp: take_and_publish_def publish_now_def Let_def send_packet_def)

text \<open>Pushing back into a full queue: each message evicts the one pushed before it, so that only the oldest one is left, together
  with the queue less its head.\<close>

lemma requeue_into_a_full_queue:
  "length (mq_q c) = queue_limit \<Longrightarrow> ms \<noteq> [] \<Longrightarrow> mq_q (foldr push_front_bounded ms c) = hd ms # drop 1 (mq_q c)"
proof (induction ms)
  case (Cons m ms)
  show ?case
  proof (cases "ms = []")
    case True
    then show ?thesis using Cons.prems by (simp add: push_front_bounded_def Let_def evict_oldest_def)
  next
    case False
    define d where "d = foldr push_front_bounded ms c"
    have "mq_q d = hd ms # drop 1 (mq_q c)" using Cons False by (simp add: d_def)
    then have "mq_q (push_front_bounded m d) = m # drop 1 (mq_q c)"
      using Cons.prems(1) by (simp add: push_front_bounded_def Let_def evict_oldest_def queue_limit_def)
    then show ?thesis by (simp add: d_def)
  qed
qed simp

section \<open>Concrete instances\<close>

definition demo_mqtt_config :: mqtt_config where
  "demo_mqtt_config = \<lparr>mc_host = ''h'', mc_client_id = ''c'', mc_username = ''u'', mc_password = ''p'', mc_topic_root = ''r'',
     mc_keepalive_s = lit 30, mc_tls = False, mc_cert_file = [], mc_key_file = [], mc_reconnect_min_s = 1, mc_reconnect_max_s = lit 60\<rparr>"

definition quiet_libs :: libs where
  "quiet_libs = \<lparr>lb_parse = (\<lambda>s. Inr JNull), lb_dump = (\<lambda>j. ''j''), lb_math = \<lparr>lm_atan2 = (\<lambda>y x. 0), lm_acos = (\<lambda>x. 0)\<rparr>\<rparr>"

definition demo_client :: mqtt_client where "demo_client = new_mqtt_client quiet_libs demo_mqtt_config"

definition demo_msg :: mqtt_msg where
  "demo_msg = \<lparr>mm_topic = ''r/status'', mm_payload = ''j'', mm_qos = 1, mm_retain = True, mm_retried = False\<rparr>"

text \<open>A message is published, the broker accepts a connection, and the message is transmitted.\<close>

lemma demo_mqtt_run: "\<exists>s. mqtt_run (demo_client, Down) [Act_Publish demo_msg, Act_Internal] s"
proof -
  have "mqtt_step (demo_client, Down) (Act_Publish (new_msg ''status'' ''j'' 1 True demo_client)) (mqtt_publish ''status'' ''j'' 1 True demo_client, Down)"
    by (rule step_publish)
  moreover have "new_msg ''status'' ''j'' 1 True demo_client = demo_msg"
    by (simp add: new_msg_def demo_msg_def demo_client_def new_mqtt_client_def demo_mqtt_config_def)
  ultimately have 1: "mqtt_run (demo_client, Down) ([] @ [Act_Publish demo_msg]) (mqtt_publish ''status'' ''j'' 1 True demo_client, Down)"
    by (metis run_start run_step)
  have "mqtt_connect \<lparr>ce_socket = Some [], ce_write = (False, 0), ce_wait = []\<rparr> c = Some (c, [], Some [])" for c
    by (simp add: mqtt_connect_def)
  from run_step [OF 1 step_refused [OF this]] show ?thesis by (metis append_Cons append_Nil)
qed

theorem mqtt_limits_hold_witness: "\<exists>s. mqtt_run (demo_client, Down) [Act_Publish demo_msg, Act_Internal] s \<and> mqtt_ok s"
  using demo_mqtt_run mqtt_limits_hold [where lb = quiet_libs and cfg = demo_mqtt_config] unfolding demo_client_def by blast

theorem mqtt_sends_at_most_twice_witness:
  "sum_list (map (attempt demo_msg) [Act_Publish demo_msg, Act_Internal]) \<le> 2 * sum_list (map (handed demo_msg) [Act_Publish demo_msg, Act_Internal])"
  using demo_mqtt_run mqtt_sends_at_most_twice [where lb = quiet_libs and cfg = demo_mqtt_config] unfolding demo_client_def by blast

theorem mqtt_queue_accounts_witness:
  "\<exists>c ph. mqtt_run (demo_client, Down) [Act_Publish demo_msg, Act_Internal] (c, ph) \<and> of_nat (length (mq_q c)) + mq_dropped c = 1"
proof -
  obtain c ph where r: "mqtt_run (demo_client, Down) [Act_Publish demo_msg, Act_Internal] (c, ph)" using demo_mqtt_run by fastforce
  from mqtt_queue_accounts [OF r [unfolded demo_client_def]] r show ?thesis by auto
qed

end
