(* ===== verification/Mqtt_Packets.thy ===== *)
theory Mqtt_Packets
  imports Mqtt_Client "HOL-Library.Monad_Syntax"
begin

text \<open>
  Readers of the MQTT packets that the publisher writes, as the MQTT 3.1.1 standard has a broker read them, and the
  proof that they get back what was encoded.
\<close>

section \<open>Readers\<close>

definition read_str :: "u8 list \<Rightarrow> (u8 list \<times> u8 list) option" where
  "read_str bs =
    (case bs of
       h # l # rest \<Rightarrow> (let n = 256 * unat h + unat l in if length rest < n then None else Some (take n rest, drop n rest))
     | _ \<Rightarrow> None)"

text \<open>The first byte, the body, and what follows the packet.\<close>

definition read_packet :: "u8 list \<Rightarrow> (u8 \<times> u8 list \<times> u8 list) option" where
  "read_packet bs =
    (case bs of
       [] \<Rightarrow> None
     | h # ds \<Rightarrow>
         (case frame_len ds 0 1 0 of
            Header len r \<Rightarrow> if length r < unat len then None else Some (h, take (unat len) r, drop (unat len) r)
          | _ \<Rightarrow> None))"

record seen_publish =
  sp_topic :: "u8 list"
  sp_pid :: "u16 option"
  sp_payload :: "u8 list"
  sp_qos :: int
  sp_retain :: bool

definition read_publish :: "u8 \<Rightarrow> u8 list \<Rightarrow> seen_publish option" where
  "read_publish h body =
    (if drop_bit 4 h \<noteq> 3 then None
     else
       let qos = unat (and (drop_bit 1 h) 3) in
         case read_str body of
           None \<Rightarrow> None
         | Some (topic, rest) \<Rightarrow>
             if qos = 0 then
               Some \<lparr>sp_topic = topic, sp_pid = None, sp_payload = rest, sp_qos = 0, sp_retain = and h 1 \<noteq> 0\<rparr>
             else if length rest < 2 then None
             else Some \<lparr>sp_topic = topic, sp_pid = Some (of_nat (256 * unat (rest ! 0) + unat (rest ! 1))), sp_payload = drop 2 rest,
               sp_qos = int qos, sp_retain = and h 1 \<noteq> 0\<rparr>)"

record seen_connect =
  sc_level :: u8
  sc_clean :: bool
  sc_keepalive :: nat
  sc_client_id :: "u8 list"
  sc_will :: "(u8 list \<times> u8 list) option"
  sc_username :: "u8 list option"
  sc_password :: "u8 list option"

definition read_optional :: "bool \<Rightarrow> u8 list \<Rightarrow> (u8 list option \<times> u8 list) option" where
  "read_optional present bs = (if present then map_option (\<lambda>(v, rest). (Some v, rest)) (read_str bs) else Some (None, bs))"

text \<open>The payload follows the flags; a password without a user name and bytes left over are refused.\<close>

definition read_connect :: "u8 \<Rightarrow> u8 list \<Rightarrow> seen_connect option" where
  "read_connect h body =
    do {
      (proto, r0) \<leftarrow> read_str body;
      if h \<noteq> 0x10 \<or> proto \<noteq> ascii ''MQTT'' \<or> length r0 < 4 then None
      else do {
        let flags = r0 ! 1;
        if and flags 0x40 \<noteq> 0 \<and> and flags 0x80 = 0 then None
        else do {
          (client, r1) \<leftarrow> read_str (drop 4 r0);
          (topic, r2) \<leftarrow> read_optional (and flags 0x04 \<noteq> 0) r1;
          (msg, r3) \<leftarrow> read_optional (and flags 0x04 \<noteq> 0) r2;
          (user, r4) \<leftarrow> read_optional (and flags 0x80 \<noteq> 0) r3;
          (pass, r5) \<leftarrow> read_optional (and flags 0x40 \<noteq> 0) r4;
          if r5 \<noteq> [] then None
          else Some \<lparr>sc_level = r0 ! 0, sc_clean = (and flags 0x02 \<noteq> 0), sc_keepalive = 256 * unat (r0 ! 2) + unat (r0 ! 3),
            sc_client_id = client, sc_will = (case (topic, msg) of (Some t, Some m) \<Rightarrow> Some (t, m) | _ \<Rightarrow> None),
            sc_username = user, sc_password = pass\<rparr>
        }
      }
    }"

section \<open>Strings and numbers\<close>

lemma be_u16_value: "256 * unat (be_u16 v ! 0) + unat (be_u16 v ! 1) = unat v"
proof -
  have "unat (be_u16 v ! 0) = unat v div 256 mod 256" "unat (be_u16 v ! 1) = unat v mod 256"
    using byte_value [of 1 v] byte_value [of 0 v] by (simp_all add: be_u16_def)
  moreover have "unat v div 256 < 256" using unsigned_less [where ?'a = nat, of v] by (simp add: div_less_iff_less_mult)
  ultimately show ?thesis by simp
qed

lemma length_be_u16 [simp]: "length (be_u16 v) = 2"
  by (simp add: be_u16_def)

lemma be_u16_split: "\<exists>h l. be_u16 v = [h, l] \<and> 256 * unat h + unat l = unat v"
  using be_u16_value [of v] by (simp add: be_u16_def)

lemma read_str_put: "length v < 65536 \<Longrightarrow> read_str (put_str v @ rest) = Some (v, rest)"
proof -
  assume "length v < 65536"
  then have "unat (of_nat (length v) :: u16) = length v" by (simp add: unat_of_nat)
  moreover obtain h l where "be_u16 (of_nat (length v)) = [h, l]" "256 * unat h + unat l = unat (of_nat (length v) :: u16)"
    using be_u16_split by blast
  ultimately show ?thesis by (simp add: read_str_def put_str_def)
qed

lemma length_put_str [simp]: "length (put_str v) = 2 + length v"
  by (simp add: put_str_def)

lemma length_ascii [simp]: "length (ascii s) = length s"
  by (simp add: ascii_def)

lemma read_packet_put:
  assumes "length body < 2 ^ 28"
  shows "read_packet (h # remaining_length (length body) @ body @ rest) = Some (h, body, rest)"
  using frame_len_0 [OF assms, of "body @ rest"] by (auto simp: read_packet_def)

section \<open>Properties\<close>

text \<open>C32: a broker that reads a PUBLISH packet of the publisher gets back the topic, the payload, the quality of service, the
  retain flag and, with QoS 1, the packet identifier, and continues at the byte after the packet.\<close>

theorem publish_roundtrip:
  assumes "mm_qos m = 0 \<or> mm_qos m = 1" "length (mm_topic m) < 65536" "length (mm_topic m) + length (mm_payload m) + 4 < 2 ^ 28"
  shows "\<exists>h body. read_packet (encode_publish m pid @ rest) = Some (h, body, rest) \<and>
    read_publish h body = Some \<lparr>sp_topic = ascii (mm_topic m), sp_pid = (if mm_qos m = 1 then Some pid else None),
      sp_payload = ascii (mm_payload m), sp_qos = mm_qos m, sp_retain = mm_retain m\<rparr>"
proof -
  define vh where "vh = put_str (ascii (mm_topic m)) @ (if mm_qos m > 0 then be_u16 pid else [])"
  define h :: u8 where "h = or (or 0x30 (if mm_qos m = 1 then 0x02 else 0)) (if mm_retain m then 0x01 else 0)"
  have e: "encode_publish m pid = h # remaining_length (length vh + length (mm_payload m)) @ vh @ ascii (mm_payload m)"
    by (simp add: encode_publish_def vh_def h_def Let_def)
  have l: "length (vh @ ascii (mm_payload m)) < 2 ^ 28" using assms(3) by (simp add: vh_def)
  have 1: "read_packet (encode_publish m pid @ rest) = Some (h, vh @ ascii (mm_payload m), rest)"
    using read_packet_put [OF l, of h rest] by (simp add: e)
  have hb: "drop_bit 4 h = 3" "unat (and (drop_bit 1 h) 3) = nat (mm_qos m)" "and h 1 \<noteq> 0 \<longleftrightarrow> mm_retain m"
    using assms(1) by (auto simp: h_def)
  obtain a b where ab: "be_u16 pid = [a, b]" "256 * unat a + unat b = unat pid" using be_u16_split by blast
  have pid: "(of_nat (256 * unat a + unat b) :: u16) = pid" unfolding ab(2) by simp
  have "read_str (vh @ ascii (mm_payload m)) = Some (ascii (mm_topic m), (if mm_qos m > 0 then be_u16 pid else []) @ ascii (mm_payload m))"
    using read_str_put [of "ascii (mm_topic m)"] assms(2) by (simp add: vh_def)
  then have "read_publish h (vh @ ascii (mm_payload m)) = Some \<lparr>sp_topic = ascii (mm_topic m),
      sp_pid = (if mm_qos m = 1 then Some pid else None), sp_payload = ascii (mm_payload m), sp_qos = mm_qos m, sp_retain = mm_retain m\<rparr>"
    using assms(1) hb ab(1) pid by (auto simp: read_publish_def Let_def)
  with 1 show ?thesis by blast
qed

text \<open>A broker that reads the CONNECT packet of a configuration that \<open>start\<close> accepted gets back the client, a clean session,
  the offline status as the will, and the credentials exactly when they are configured.\<close>

theorem connect_roundtrip:
  assumes "mqtt_start tls cfg = Inr ()" "fl_to_int (mc_keepalive_s cfg) = int keep" "keep < 65536"
    "length (mc_client_id cfg) < 65536" "length (status_topic cfg) < 65536" "length offline < 65536"
    "length (mc_username cfg) < 65536" "length (mc_password cfg) < 65536"
  shows "\<exists>body. read_packet (connect_packet cfg offline @ rest) = Some (0x10, body, rest) \<and>
    read_connect 0x10 body = Some \<lparr>sc_level = 4, sc_clean = True, sc_keepalive = keep, sc_client_id = ascii (mc_client_id cfg),
      sc_will = Some (ascii (status_topic cfg), ascii offline),
      sc_username = (if mc_username cfg = [] then None else Some (ascii (mc_username cfg))),
      sc_password = (if mc_password cfg = [] then None else Some (ascii (mc_password cfg)))\<rparr>"
proof -
  define creds where "creds = (if mc_username cfg \<noteq> [] then
      put_str (ascii (mc_username cfg)) @ (if mc_password cfg \<noteq> [] then put_str (ascii (mc_password cfg)) else []) else [])"
  define payload where "payload = put_str (ascii (mc_client_id cfg)) @ put_str (ascii (status_topic cfg)) @ put_str (ascii offline) @ creds"
  obtain k1 k2 where k: "be_u16 (word_of_int (fl_to_int (mc_keepalive_s cfg))) = [k1, k2]" "256 * unat k1 + unat k2 = keep"
    using be_u16_split [of "word_of_int (int keep)"] assms(2,3) by (auto simp: unat_of_nat)
  define vh where "vh = put_str (ascii ''MQTT'') @ [4, connect_flags cfg, k1, k2]"
  have e: "connect_packet cfg offline = 0x10 # remaining_length (length vh + length payload) @ vh @ payload"
    by (simp add: connect_packet_def Let_def vh_def payload_def creds_def k(1))
  have "length creds < 131100" using assms(7,8) by (simp add: creds_def)
  then have "length (vh @ payload) < 2 ^ 28" using assms(4,5,6) by (simp add: vh_def payload_def ascii_def)
  from read_packet_put [OF this, of "0x10" rest]
  have 1: "read_packet (connect_packet cfg offline @ rest) = Some (0x10, vh @ payload, rest)" by (simp add: e)
  have pw: "mc_password cfg \<noteq> [] \<Longrightarrow> mc_username cfg \<noteq> []" using assms(1) by (auto simp: mqtt_start_def split: if_splits)
  have fl: "and (connect_flags cfg) 0x80 \<noteq> 0 \<longleftrightarrow> mc_username cfg \<noteq> []" "and (connect_flags cfg) 0x40 \<noteq> 0 \<longleftrightarrow> mc_password cfg \<noteq> []"
    "and (connect_flags cfg) 0x04 \<noteq> 0" "and (connect_flags cfg) 0x02 \<noteq> 0"
    by (simp_all add: connect_flags_def)
  have rd: "read_str (vh @ payload) = Some (ascii ''MQTT'', [4, connect_flags cfg, k1, k2] @ payload)"
    "read_str payload = Some (ascii (mc_client_id cfg), put_str (ascii (status_topic cfg)) @ put_str (ascii offline) @ creds)"
    "read_str (put_str (ascii (status_topic cfg)) @ put_str (ascii offline) @ creds) = Some (ascii (status_topic cfg), put_str (ascii offline) @ creds)"
    "read_str (put_str (ascii offline) @ creds) = Some (ascii offline, creds)"
    using assms(4-6) by (simp_all add: vh_def payload_def read_str_put)
  have ro: "read_optional (and (connect_flags cfg) 0x04 \<noteq> 0) (put_str (ascii (status_topic cfg)) @ put_str (ascii offline) @ creds) =
      Some (Some (ascii (status_topic cfg)), put_str (ascii offline) @ creds)"
    "read_optional (and (connect_flags cfg) 0x04 \<noteq> 0) (put_str (ascii offline) @ creds) = Some (Some (ascii offline), creds)"
    by (simp_all only: read_optional_def fl(3) rd if_True option.map prod.case not_False_eq_True)
  have "\<exists>r. read_optional (mc_username cfg \<noteq> []) creds = Some (if mc_username cfg = [] then None else Some (ascii (mc_username cfg)), r) \<and>
      read_optional (mc_password cfg \<noteq> []) r = Some (if mc_password cfg = [] then None else Some (ascii (mc_password cfg)), [])"
    using pw assms(7,8) read_str_put [of _ "[]"] by (auto simp: read_optional_def creds_def read_str_put)
  then obtain r where cr: "read_optional (and (connect_flags cfg) 0x80 \<noteq> 0) creds = Some (if mc_username cfg = [] then None else Some (ascii (mc_username cfg)), r)"
      "read_optional (and (connect_flags cfg) 0x40 \<noteq> 0) r = Some (if mc_password cfg = [] then None else Some (ascii (mc_password cfg)), [])"
    unfolding fl(1,2) by blast
  have nb: "\<not> (and (connect_flags cfg) 0x40 \<noteq> 0 \<and> and (connect_flags cfg) 0x80 = 0)" using fl(1,2) pw by blast
  have "read_connect 0x10 (vh @ payload) = Some \<lparr>sc_level = 4, sc_clean = True, sc_keepalive = keep, sc_client_id = ascii (mc_client_id cfg),
      sc_will = Some (ascii (status_topic cfg), ascii offline),
      sc_username = (if mc_username cfg = [] then None else Some (ascii (mc_username cfg))),
      sc_password = (if mc_password cfg = [] then None else Some (ascii (mc_password cfg)))\<rparr>"
    using nb k(2) by (simp add: read_connect_def rd(1,2) Let_def ro cr fl(4))
  with 1 show ?thesis by blast
qed

section \<open>Concrete instances\<close>

theorem publish_roundtrip_witness:
  "\<exists>h body. read_packet (encode_publish \<lparr>mm_topic = ''a'', mm_payload = ''b'', mm_qos = 1, mm_retain = False, mm_retried = False\<rparr> 7 @ [9]) =
      Some (h, body, [9]) \<and>
    read_publish h body = Some \<lparr>sp_topic = [97], sp_pid = Some 7, sp_payload = [98], sp_qos = 1, sp_retain = False\<rparr>"
  using publish_roundtrip [of "\<lparr>mm_topic = ''a'', mm_payload = ''b'', mm_qos = 1, mm_retain = False, mm_retried = False\<rparr>" 7 "[9]"]
  by (simp add: ascii_def)

definition small_config :: mqtt_config where
  "small_config = \<lparr>mc_host = ''h'', mc_client_id = ''c'', mc_username = ''u'', mc_password = [], mc_topic_root = ''r'',
     mc_keepalive_s = lit 30, mc_tls = False, mc_cert_file = [], mc_key_file = [], mc_reconnect_min_s = 1, mc_reconnect_max_s = lit 60\<rparr>"

lemma small_config_keepalive: "fl_to_int (lit 30 :: f64) = int 30" "\<not> lit 30 < (1 :: f64)"
  by code_simp+

theorem connect_roundtrip_witness:
  "\<exists>body. read_packet (connect_packet small_config ''off'' @ []) = Some (0x10, body, []) \<and>
    (\<exists>sc. read_connect 0x10 body = Some sc \<and> sc_username sc = Some [117] \<and> sc_password sc = None)"
proof -
  have "mqtt_start False small_config = Inr ()" "fl_to_int (mc_keepalive_s small_config) = int 30"
    using small_config_keepalive by (simp_all add: mqtt_start_def small_config_def)
  from connect_roundtrip [OF this, of "''off''" "[]"] show ?thesis
    by (auto simp: small_config_def status_topic_def ascii_def)
qed

end
