(* ===== verification/Event_Json.thy ===== *)
theory Event_Json
  imports Wire Json_Value Float_Bits Tensor_View
begin

text \<open>
  \<open>core-cpp/vb/src/out/event_document.cpp\<close> and the record reader of \<open>core-cpp/vb/src/out/standalone.cpp\<close>: the JSON
  documents of an event and of a frame. Floats are rounded to six decimals, coordinates are mapped back to the
  source picture in double precision and clipped to it. A read outside a record is \<open>None\<close>.
\<close>

section \<open>Numbers\<close>

text \<open>Printing with \<open>%.6f\<close> and reading back: the six decimals nearest to the exact value, then the double nearest to
  them. A value that is not finite keeps its class, and a zero its sign.\<close>

fun num6_value :: "f64 \<Rightarrow> f64" where
  "num6_value (FNum q) = fround (q < 0) (of_int (rne (q * 10 ^ 6)) / 10 ^ 6)"
| "num6_value x = x"

definition num6 :: "f64 \<Rightarrow> json" where
  "num6 v = JNum (num6_value v)"

text \<open>An object's keys are sorted and distinct, so inserting them again gives the same order.\<close>

fun round6_deep :: "json \<Rightarrow> json" where
  "round6_deep (JNum x) = num6 x"
| "round6_deep (JObj m) = JObj (map (\<lambda>(k, v). (k, round6_deep v)) m)"
| "round6_deep (JArr xs) = JArr (map round6_deep xs)"
| "round6_deep v = v"

definition clamp01d :: "f64 \<Rightarrow> f64" where
  "clamp01d v = (if v < 0 then 0 else if v > 1 then 1 else v)"

text \<open>A value outside \<open>int64_t\<close> is undefined in C++; one that is not finite is 0 here.\<close>

fun round_even :: "f64 \<Rightarrow> int" where
  "round_even (FNum q) = rne q"
| "round_even _ = 0"

section \<open>Coordinates\<close>

record inv_geom =
  ig_src_w :: f64
  ig_src_h :: f64
  ig_model_w :: f64
  ig_model_h :: f64
  ig_scale :: f64
  ig_pad_x :: f64
  ig_pad_y :: f64

definition inv_geom_of :: "wire_frame_rec \<Rightarrow> inv_geom" where
  "inv_geom_of r =
    \<lparr>ig_src_w = fl_of_int (sint (wf_src_w r)), ig_src_h = fl_of_int (sint (wf_src_h r)), ig_model_w = fl_of_int (sint (wf_model_w r)),
     ig_model_h = fl_of_int (sint (wf_model_h r)), ig_scale = fconv (bits_f32 (wf_scale r)), ig_pad_x = fconv (bits_f32 (wf_pad_x r)),
     ig_pad_y = fconv (bits_f32 (wf_pad_y r))\<rparr>"

definition ig_x :: "inv_geom \<Rightarrow> f64 \<Rightarrow> f64" where
  "ig_x g mx = ((mx * ig_model_w g - ig_pad_x g) / ig_scale g) / ig_src_w g"

definition ig_y :: "inv_geom \<Rightarrow> f64 \<Rightarrow> f64" where
  "ig_y g my = ((my * ig_model_h g - ig_pad_y g) / ig_scale g) / ig_src_h g"

definition ig_w :: "inv_geom \<Rightarrow> f64 \<Rightarrow> f64" where
  "ig_w g mw = mw * ig_model_w g / (ig_scale g * ig_src_w g)"

definition ig_h :: "inv_geom \<Rightarrow> f64 \<Rightarrow> f64" where
  "ig_h g mh = mh * ig_model_h g / (ig_scale g * ig_src_h g)"

section \<open>Reading members\<close>

text \<open>\<open>value(key, default)\<close>: it throws on a value that is not an object, and the conversion may throw.\<close>

definition json_value :: "(json \<Rightarrow> 'a outcome) \<Rightarrow> json \<Rightarrow> string \<Rightarrow> 'a \<Rightarrow> 'a outcome" where
  "json_value conv j key dflt =
    (if \<not> is_object j then Thrown
     else case json_find key j of None \<Rightarrow> Returned dflt | Some v \<Rightarrow> conv v)"

fun get_u64 :: "json \<Rightarrow> u64 outcome" where
  "get_u64 (JInt i) = Returned (word_of_int i)"
| "get_u64 (JNum x) = Returned (word_of_int (fl_to_int x))"
| "get_u64 _ = Thrown"

fun get_u32 :: "json \<Rightarrow> u32 outcome" where
  "get_u32 (JInt i) = Returned (word_of_int i)"
| "get_u32 (JNum x) = Returned (word_of_int (fl_to_int x))"
| "get_u32 (JBool b) = Returned (if b then 1 else 0)"
| "get_u32 _ = Thrown"

fun get_double :: "json \<Rightarrow> f64 outcome" where
  "get_double (JInt i) = Returned (num64 (JInt i))"
| "get_double (JNum x) = Returned x"
| "get_double _ = Thrown"

section \<open>Events\<close>

definition event_document :: "string \<Rightarrow> string \<Rightarrow> json \<Rightarrow> json outcome" where
  "event_document device_id stream_id body =
    and_then (json_value get_u64 body ''seq'' 0) (\<lambda>seq.
    and_then (json_value get_double body ''wall_ms'' 0) (\<lambda>wall.
    and_then (json_value get_string body ''analyzer'' []) (\<lambda>analyzer_name.
    and_then (json_value get_string body ''type'' []) (\<lambda>ty.
    and_then (json_value get_u32 body ''track_id'' 0) (\<lambda>tid.
    Returned (json_obj [(''schema'', JStr ''vb.event/1''), (''device_id'', JStr device_id), (''stream_id'', JStr stream_id),
      (''seq'', JInt (uint seq)), (''ts_ms'', JInt (round_even wall)), (''analyzer'', JStr analyzer_name), (''type'', JStr ty),
      (''track_id'', JInt (uint tid)),
      (''fields'', round6_deep (case json_find ''fields'' body of Some f \<Rightarrow> f | None \<Rightarrow> json_obj []))]))))))"

section \<open>Frames\<close>

definition det_box :: "inv_geom \<Rightarrow> wire_det \<Rightarrow> json" where
  "det_box g d =
    (let v = (\<lambda>w. fconv (bits_f32 w)); scx = ig_x g (v (wd_cx d)); scy = ig_y g (v (wd_cy d)); sw = ig_w g (v (wd_w d)); sh = ig_h g (v (wd_h d))
     in JArr [num6 (clamp01d (scx - sw / lit 2)), num6 (clamp01d (scy - sh / lit 2)),
              num6 (clamp01d (scx + sw / lit 2)), num6 (clamp01d (scy + sh / lit 2))])"

definition det_keypoint :: "inv_geom \<Rightarrow> u32 list \<Rightarrow> nat \<Rightarrow> json option" where
  "det_keypoint g kpts k =
    do {
      mx \<leftarrow> rd kpts (k * 3);
      my \<leftarrow> rd kpts (k * 3 + 1);
      mc \<leftarrow> rd kpts (k * 3 + 2);
      let v = (\<lambda>w. fconv (bits_f32 w))
      in Some (JArr [num6 (clamp01d (ig_x g (v mx))), num6 (clamp01d (ig_y g (v my))), num6 (v mc)])
    }"

definition det_json :: "wire_frame_rec \<Rightarrow> nat \<Rightarrow> wire_det \<Rightarrow> json option" where
  "det_json r i d =
    (let g = inv_geom_of r; kn = unat (wf_kpt_per_det r); an = unat (wf_attr_per_det r) in
     do {
       kps \<leftarrow> collect_some (\<lambda>k. det_keypoint g (wf_kpts r) (i * kn + k)) [0..<kn];
       attrs \<leftarrow> collect_some (\<lambda>a. map_option (\<lambda>w. (''attr_'' @ dec_digits a, num6 (fconv (bits_f32 w)))) (rd (wf_attrs r) (i * an + a))) [0..<an];
       Some (json_obj ([(''track_id'', JInt (uint (wd_track_id d))), (''class_id'', JInt (sint (wd_class_id d))),
         (''score'', num6 (fconv (bits_f32 (wd_score d)))), (''box'', det_box g d)] @
         (if kn > 0 then [(''keypoints'', JArr kps)] else []) @ (if an > 0 then [(''attrs'', json_obj attrs)] else [])))
     })"

definition frame_json :: "string \<Rightarrow> string \<Rightarrow> wire_frame_rec \<Rightarrow> json option" where
  "frame_json device_id stream_id r =
    do {
      dets \<leftarrow> collect_some (\<lambda>(i, d). det_json r i d) (enumerate 0 (wf_dets r));
      Some (json_obj [(''schema'', JStr ''vb.frame/1''), (''device_id'', JStr device_id), (''stream_id'', JStr stream_id),
        (''seq'', JInt (uint (wf_seq r))), (''ts_ms'', JInt (round_even (bits_f64 (wf_wall_ms r)))),
        (''inference_ms'', num6 (fconv (bits_f32 (wf_inference_ms r)))), (''detections'', JArr dets)])
    }"

section \<open>Reading a frame record\<close>

definition rd_u32 :: "u8 list \<Rightarrow> nat \<Rightarrow> u32 option" where
  "rd_u32 p off = map_option (\<lambda>bs. of_nat (get_le bs)) (rds p [off, off + 1, off + 2, off + 3])"

definition rd_u64 :: "u8 list \<Rightarrow> nat \<Rightarrow> u64 option" where
  "rd_u64 p off = do { lo \<leftarrow> rd_u32 p off; hi \<leftarrow> rd_u32 p (off + 4); Some (or (ucast lo) (push_bit 32 (ucast hi))) }"

definition rd_det :: "u8 list \<Rightarrow> nat \<Rightarrow> wire_det option" where
  "rd_det p off =
    do {
      cx \<leftarrow> rd_u32 p off; cy \<leftarrow> rd_u32 p (off + 4); w \<leftarrow> rd_u32 p (off + 8); h \<leftarrow> rd_u32 p (off + 12);
      score \<leftarrow> rd_u32 p (off + 16); cls \<leftarrow> rd_u32 p (off + 20); tid \<leftarrow> rd_u32 p (off + 24);
      Some \<lparr>wd_cx = cx, wd_cy = cy, wd_w = w, wd_h = h, wd_score = score, wd_class_id = cls, wd_track_id = tid\<rparr>
    }"

text \<open>The result is \<open>Some None\<close> when the record is refused. First the lists after the head.\<close>

definition decode_rows :: "u8 list \<Rightarrow> nat \<Rightarrow> nat \<Rightarrow> nat \<Rightarrow> (wire_det list \<times> u32 list \<times> u32 list) option option" where
  "decode_rows p n nk na =
    (if 64 + n * 28 > length p then Some None
     else if 64 + n * 28 + (nk + na) * 4 > length p then Some None
     else do {
       dets \<leftarrow> collect_some (\<lambda>i. rd_det p (64 + 28 * i)) [0..<n];
       kpts \<leftarrow> collect_some (\<lambda>i. rd_u32 p (64 + n * 28 + i * 4)) [0..<nk];
       attrs \<leftarrow> collect_some (\<lambda>i. rd_u32 p (64 + n * 28 + nk * 4 + i * 4)) [0..<na];
       Some (Some (dets, kpts, attrs))
     })"

definition decode_vbr1 :: "u8 list \<Rightarrow> wire_frame_rec option option" where
  "decode_vbr1 p =
    (if length p < 64 then Some None
     else
       do {
         idx \<leftarrow> rd_u32 p 0; seq \<leftarrow> rd_u64 p 4; wall \<leftarrow> rd_u64 p 12;
         sw \<leftarrow> rd_u32 p 20; sh \<leftarrow> rd_u32 p 24; mw \<leftarrow> rd_u32 p 28; mh \<leftarrow> rd_u32 p 32;
         scale \<leftarrow> rd_u32 p 36; padx \<leftarrow> rd_u32 p 40; pady \<leftarrow> rd_u32 p 44;
         al \<leftarrow> rd p 48; kn \<leftarrow> rd p 49; n0 \<leftarrow> rd_u32 p 50; inf \<leftarrow> rd_u32 p 52; qd \<leftarrow> rd_u32 p 56; an \<leftarrow> rd p 60;
         let n = unat (and n0 0xffff);
         rows \<leftarrow> decode_rows p n (n * unat kn * 3) (n * unat an);
         Some (map_option (\<lambda>(dets, kpts, attrs).
           \<lparr>wf_stream_index = idx, wf_seq = seq, wf_wall_ms = wall, wf_src_w = sw, wf_src_h = sh, wf_model_w = mw,
             wf_model_h = mh, wf_scale = scale, wf_pad_x = padx, wf_pad_y = pady, wf_align = al, wf_kpt_per_det = kn,
             wf_inference_ms = inf, wf_queue_delay_ms = qd, wf_attr_per_det = an, wf_dets = dets, wf_kpts = kpts, wf_attrs = attrs\<rparr>) rows)
       })"

section \<open>Reads stay inside\<close>

lemma rd_Some: "i < length xs \<Longrightarrow> rd xs i = Some (xs ! i)"
  by (simp add: rd_def)

lemma rd_u32_eq: "off + 4 \<le> length p \<Longrightarrow> rd_u32 p off = Some (of_nat (get_le (take 4 (drop off p))))"
proof -
  assume l: "off + 4 \<le> length p"
  have "take 4 (drop off p) = [p ! off, p ! (off + 1), p ! (off + 2), p ! (off + 3)]"
    using l by (simp add: list_eq_iff_nth_eq less_Suc_eq numeral_eq_Suc)
  then show ?thesis using l by (simp add: rd_u32_def rd_def)
qed

lemma rd_u64_defined: "off + 8 \<le> length p \<Longrightarrow> \<exists>v. rd_u64 p off = Some v"
  by (simp add: rd_u64_def rd_u32_eq)

lemma rd_det_defined: "off + 28 \<le> length p \<Longrightarrow> \<exists>v. rd_det p off = Some v"
  by (simp add: rd_det_def rd_u32_eq)

end
