(* ===== verification/Event_Properties.thy ===== *)
theory Event_Properties
  imports Event_Json
begin

text \<open>
  What the frame documents promise: the record reader stays inside the record and inverts the encoder of
  \<open>wire.cpp\<close>, every record it accepts can be printed, and printed coordinates lie in the picture.
\<close>

section \<open>The reader against the format\<close>

lemma collect_some_map: "(\<And>x. x \<in> set xs \<Longrightarrow> f x = Some (g x)) \<Longrightarrow> collect_some f xs = Some (map g xs)"
  by (induction xs) simp_all

lemma get_le_append: "get_le (xs @ ys) = get_le xs + 256 ^ length xs * get_le ys"
  by (induction xs) (simp_all add: get_le_def algebra_simps)

lemma get_le_bound: "get_le xs < 256 ^ length xs"
proof (induction xs)
  case (Cons x xs)
  have "unat x < 256" using unsigned_less [where ?'a = nat, of x] by simp
  with Cons show ?case by (simp add: get_le_def)
qed (simp add: get_le_def)

lemma chunks_map: "chunks k n bs = map (\<lambda>i. take k (drop (k * i) bs)) [0..<n]"
proof (induction n arbitrary: bs)
  case (Suc n)
  have "[0..<Suc n] = 0 # map Suc [0..<n]" by (simp add: upt_conv_Cons map_Suc_upt)
  with Suc show ?case by (simp add: comp_def add.commute)
qed simp

lemma join_halves: "or (ucast (lo :: u32)) (push_bit 32 (ucast (hi :: u32))) = (ucast lo + 2 ^ 32 * ucast hi :: u64)"
proof -
  have "and (ucast lo) (push_bit 32 (ucast hi)) = (0 :: u64)"
    by (rule bit_word_eqI) (auto simp: bit_and_iff bit_push_bit_iff bit_ucast_iff dest: bit_imp_le_length)
  then have "or (ucast lo) (push_bit 32 (ucast hi)) = (ucast lo + push_bit 32 (ucast hi) :: u64)"
    by (simp add: disjunctive_add_eq_or)
  then show ?thesis by (simp add: push_bit_eq_mult)
qed

lemma rd_u64_eq: "off + 8 \<le> length p \<Longrightarrow> rd_u64 p off = Some (of_nat (get_le (take 8 (drop off p))))"
proof -
  assume l: "off + 8 \<le> length p"
  have s: "take 8 (drop off p) = take 4 (drop off p) @ take 4 (drop (off + 4) p)"
    using take_add [of 4 4 "drop off p"] by (simp add: add.commute)
  have b: "get_le (take 4 (drop k p)) < 2 ^ 32" for k
  proof -
    have "length (take 4 (drop k p)) \<le> 4" by simp
    then have "(256 :: nat) ^ length (take 4 (drop k p)) \<le> 256 ^ 4" by (intro power_increasing) auto
    with get_le_bound [of "take 4 (drop k p)"] show ?thesis by simp
  qed
  have u: "unat (of_nat (get_le (take 4 (drop k p))) :: u32) = get_le (take 4 (drop k p))" for k
    using b [of k] by (simp add: unat_of_nat)
  have c: "ucast (of_nat (get_le (take 4 (drop k p))) :: u32) = (of_nat (get_le (take 4 (drop k p))) :: u64)" for k
    by (metis of_nat_unat u)
  show ?thesis using l by (simp add: rd_u64_def rd_u32_eq join_halves c s get_le_append)
qed

lemma rd_det_eq: "off + 28 \<le> length p \<Longrightarrow> rd_det p off = Some (get_det (take 28 (drop off p)))"
  by (simp add: rd_det_def rd_u32_eq get_det_def Let_def drop_take min_def add.commute)

lemma low_half: "64 \<le> length p \<Longrightarrow>
    unat (and (of_nat (get_le (take 4 (drop 50 p))) :: u32) 0xffff) = get_le (take 2 (drop 50 p))"
proof -
  assume l: "64 \<le> length p"
  have s: "take 4 (drop 50 p) = take 2 (drop 50 p) @ take 2 (drop 52 p)"
    using take_add [of 2 2 "drop 50 p"] by simp
  have b: "get_le (take 2 (drop 50 p)) < 65536" using l get_le_bound [of "take 2 (drop 50 p)"] by simp
  have m: "and (w :: u32) 0xffff = take_bit 16 w" for w by (simp add: take_bit_eq_mask mask_eq_exp_minus_1)
  have "unat (and (of_nat k :: u32) 0xffff) = k mod 65536" for k
  proof -
    have "unat (take_bit 16 (of_nat k :: u32)) = take_bit 16 (unat (of_nat k :: u32))" by (simp only: unsigned_take_bit_eq)
    also have "\<dots> = (k mod 2 ^ 32) mod 2 ^ 16" by (simp only: take_bit_eq_mod unat_of_nat len_of_numeral_defs) simp
    also have "\<dots> = k mod 65536" by (simp add: mod_mod_cancel)
    finally show ?thesis by (simp only: m)
  qed
  then have "unat (and (of_nat (get_le (take 4 (drop 50 p))) :: u32) 0xffff) = get_le (take 4 (drop 50 p)) mod 65536" by blast
  also have "\<dots> = get_le (take 2 (drop 50 p))" using l b by (simp add: s get_le_append)
  finally show ?thesis .
qed

definition frame_size :: "u8 list \<Rightarrow> nat" where
  "frame_size p = (let n = get_le (take 2 (drop 50 p)) in 64 + n * 28 + (n * unat (p ! 49) * 3 + n * unat (p ! 60)) * 4)"

lemma decode_rows_eq:
  "decode_rows p n nk na = (if length p < 64 + n * 28 + (nk + na) * 4 then Some None
    else Some (Some (map get_det (chunks 28 n (drop 64 p)), map (\<lambda>c. of_nat (get_le c)) (chunks 4 nk (drop (64 + 28 * n) p)),
      map (\<lambda>c. of_nat (get_le c)) (chunks 4 na (drop (64 + 28 * n + 4 * nk) p)))))"
proof (cases "length p < 64 + n * 28 + (nk + na) * 4")
  case False
  then have l: "64 + 28 * n + 4 * nk + 4 * na \<le> length p" by simp
  have "collect_some (\<lambda>i. rd_det p (64 + 28 * i)) [0..<n] = Some (map get_det (chunks 28 n (drop 64 p)))"
    unfolding chunks_map map_map comp_def using l by (intro collect_some_map) (simp add: rd_det_eq add.commute)
  moreover have "collect_some (\<lambda>i. rd_u32 p (64 + n * 28 + i * 4)) [0..<nk] = Some (map (\<lambda>c. of_nat (get_le c)) (chunks 4 nk (drop (64 + 28 * n) p)))"
    unfolding chunks_map map_map comp_def using l by (intro collect_some_map) (simp add: rd_u32_eq ac_simps)
  moreover have "collect_some (\<lambda>i. rd_u32 p (64 + n * 28 + nk * 4 + i * 4)) [0..<na] =
      Some (map (\<lambda>c. of_nat (get_le c)) (chunks 4 na (drop (64 + 28 * n + 4 * nk) p)))"
    unfolding chunks_map map_map comp_def using l by (intro collect_some_map) (simp add: rd_u32_eq ac_simps)
  ultimately show ?thesis using False by (simp add: decode_rows_def)
qed (simp add: decode_rows_def)

lemma decode_vbr1_eq:
  "decode_vbr1 p = (if length p < 64 \<or> length p < frame_size p then Some None else Some (Some (read_frame p)))"
proof (cases "length p < 64")
  case False
  then have l: "64 \<le> length p" by simp
  show ?thesis using l
    by (simp add: decode_vbr1_def rd_u32_eq rd_u64_eq rd_def low_half [OF l] decode_rows_eq read_frame_def Let_def frame_size_def)
qed (simp add: decode_vbr1_def)

lemma read_frame_counts:
  "length (wf_kpts (read_frame p)) = length (wf_dets (read_frame p)) * unat (wf_kpt_per_det (read_frame p)) * 3"
  "length (wf_attrs (read_frame p)) = length (wf_dets (read_frame p)) * unat (wf_attr_per_det (read_frame p))"
  by (simp_all add: read_frame_def Let_def chunks_map)

section \<open>Documents\<close>

lemma row_index: "i < n \<Longrightarrow> j < k \<Longrightarrow> i * k + j < n * (k :: nat)"
proof -
  assume "i < n" "j < k"
  then have "i * k + j < i * k + k" "Suc i * k \<le> n * k" by (simp_all only: add_less_cancel_left mult_le_mono1 Suc_leI)
  then show ?thesis by simp
qed

lemma det_json_defined:
  assumes "i < length (wf_dets r)" "length (wf_kpts r) = length (wf_dets r) * unat (wf_kpt_per_det r) * 3"
    "length (wf_attrs r) = length (wf_dets r) * unat (wf_attr_per_det r)"
  shows "det_json r i d \<noteq> None"
proof -
  have "det_keypoint (inv_geom_of r) (wf_kpts r) (i * unat (wf_kpt_per_det r) + k) \<noteq> None" if "k < unat (wf_kpt_per_det r)" for k
  proof -
    have "i * unat (wf_kpt_per_det r) + k < length (wf_dets r) * unat (wf_kpt_per_det r)" using row_index [OF assms(1) that] .
    then show ?thesis by (simp add: det_keypoint_def rd_def assms(2) Let_def)
  qed
  then have 1: "collect_some (\<lambda>k. det_keypoint (inv_geom_of r) (wf_kpts r) (i * unat (wf_kpt_per_det r) + k)) [0..<unat (wf_kpt_per_det r)] \<noteq> None"
    by (intro collect_some_defined) simp
  have 2: "collect_some (\<lambda>a. map_option (\<lambda>w. (''attr_'' @ dec_digits a, num6 (fconv (bits_f32 w)))) (rd (wf_attrs r) (i * unat (wf_attr_per_det r) + a)))
      [0..<unat (wf_attr_per_det r)] \<noteq> None"
    by (intro collect_some_defined) (simp add: rd_def assms(3) row_index [OF assms(1)])
  from 1 2 show ?thesis by (auto simp: det_json_def Let_def)
qed

lemma frame_json_defined:
  assumes "length (wf_kpts r) = length (wf_dets r) * unat (wf_kpt_per_det r) * 3"
    "length (wf_attrs r) = length (wf_dets r) * unat (wf_attr_per_det r)"
  shows "frame_json dev sid r \<noteq> None"
proof -
  have "collect_some (\<lambda>(i, d). det_json r i d) (enumerate 0 (wf_dets r)) \<noteq> None"
  proof (rule collect_some_defined)
    fix x assume m: "x \<in> set (enumerate 0 (wf_dets r))"
    obtain i d where x: "x = (i, d)" by fastforce
    have "i < length (wf_dets r)" using m in_set_enumerate_eq [of "(i, d)" 0 "wf_dets r"] by (simp add: x)
    then show "(case x of (i, d) \<Rightarrow> det_json r i d) \<noteq> None" using det_json_defined [OF _ assms] by (simp add: x)
  qed
  then show ?thesis by (auto simp: frame_json_def)
qed

lemma num6_unit:
  assumes "0 \<le> v" "v \<le> 1" shows "0 \<le> num6_value v \<and> num6_value v \<le> (1 :: f64)"
proof (cases v)
  case (FNum q)
  have one: "(1 :: f64) = fround False 1" by code_simp
  have "0 \<le> q" "q \<le> 1" using assms by (simp_all add: FNum zero_fl_def one_fl_def)
  then have "rne (0 :: rat) \<le> rne (q * 10 ^ 6)" "rne (q * 10 ^ 6) \<le> rne (of_int (10 ^ 6) :: rat)"
    by (intro rne_mono; simp)+
  then have "0 \<le> rne (q * 10 ^ 6)" "rne (q * 10 ^ 6) \<le> 10 ^ 6"
    using rne_of_int [of 0] rne_of_int [of "10 ^ 6"] by simp_all
  then have r: "0 \<le> (of_int (rne (q * 10 ^ 6)) / 10 ^ 6 :: rat)" "(of_int (rne (q * 10 ^ 6)) / 10 ^ 6 :: rat) \<le> 1"
    by (simp_all add: divide_le_eq)
  show ?thesis using fround_mono [OF r(1), of False "q < 0"] fround_mono [OF r(2), of "q < 0" False]
    by (simp add: FNum one zero_fl_def)
next
  case (FInf s)
  then show ?thesis using assms by (cases s) (simp_all add: zero_fl_def one_fl_def)
qed (use assms in \<open>simp_all add: zero_fl_def one_fl_def\<close>)

text \<open>A printed coordinate: between 0 and 1, or NaN (which the printer writes as null).\<close>

fun in_picture :: "json \<Rightarrow> bool" where
  "in_picture (JNum v) \<longleftrightarrow> is_nan v \<or> 0 \<le> v \<and> v \<le> 1"
| "in_picture _ \<longleftrightarrow> False"

lemma in_picture_num6: "in_picture (num6 (clamp01d v))"
proof (cases "is_nan v")
  case True
  then have "clamp01d v = v" using fl_less_not_nan by (auto simp: clamp01d_def)
  with True show ?thesis by (cases v) (simp_all add: num6_def)
next
  case False
  have nn: "\<not> is_nan (0 :: f64)" "\<not> is_nan (1 :: f64)" by (simp_all add: zero_fl_def one_fl_def)
  have "(0 :: f64) \<le> 1" by (simp add: zero_fl_def one_fl_def)
  then have "0 \<le> clamp01d v \<and> clamp01d v \<le> 1"
    using fl_not_less [OF False nn(1)] fl_not_less [OF nn(2) False] fl_le_refl [OF nn(1)] fl_le_refl [OF nn(2)] by (auto simp: clamp01d_def)
  with num6_unit show ?thesis by (simp add: num6_def)
qed

text \<open>The coordinates of a detection's document.\<close>

fun keypoint_in_picture :: "json \<Rightarrow> bool" where
  "keypoint_in_picture (JArr [x, y, c]) \<longleftrightarrow> in_picture x \<and> in_picture y"
| "keypoint_in_picture _ \<longleftrightarrow> False"

definition det_in_picture :: "json \<Rightarrow> bool" where
  "det_in_picture j \<longleftrightarrow>
    (case json_find ''box'' j of Some (JArr xs) \<Rightarrow> length xs = 4 \<and> list_all in_picture xs | _ \<Rightarrow> False) \<and>
    (case json_find ''keypoints'' j of Some (JArr ks) \<Rightarrow> list_all keypoint_in_picture ks | Some _ \<Rightarrow> False | None \<Rightarrow> True)"

lemma det_json_in_picture: "det_json r i d = Some j \<Longrightarrow> det_in_picture j"
proof -
  assume "det_json r i d = Some j"
  then obtain kps attrs where k: "collect_some (\<lambda>k. det_keypoint (inv_geom_of r) (wf_kpts r) (i * unat (wf_kpt_per_det r) + k)) [0..<unat (wf_kpt_per_det r)] = Some kps"
    and j: "j = json_obj ([(''track_id'', JInt (uint (wd_track_id d))), (''class_id'', JInt (sint (wd_class_id d))),
         (''score'', num6 (fconv (bits_f32 (wd_score d)))), (''box'', det_box (inv_geom_of r) d)] @
         (if unat (wf_kpt_per_det r) > 0 then [(''keypoints'', JArr kps)] else []) @
         (if unat (wf_attr_per_det r) > 0 then [(''attrs'', json_obj attrs)] else []))"
    by (auto simp: det_json_def Let_def split: Option.bind_splits)
  have "list_all keypoint_in_picture kps"
    using collect_some_set [OF k] by (fastforce simp: list_all_iff det_keypoint_def Let_def in_picture_num6 split: Option.bind_splits)
  then show ?thesis by (auto simp: j det_in_picture_def det_box_def Let_def in_picture_num6)
qed

lemma decode_vbr1_body: "vbr1_ok r \<Longrightarrow> decode_vbr1 (vbr1_body r) = Some (Some r)"
proof -
  assume ok: "vbr1_ok r"
  have "vbr1_body r = vbr1_head r @ concat (map put_det (wf_dets r)) @ concat (map put_u32 (wf_kpts r)) @ concat (map put_u32 (wf_attrs r))"
    by (simp add: vbr1_body_def)
  then have "frame_size (vbr1_body r) = vbr1_body_len r"
    using vbr1_head_fields(1,3,4) [OF ok] ok by (simp add: frame_size_def Let_def vbr1_body_len_def vbr1_ok_def)
  moreover have "64 \<le> vbr1_body_len r" by (simp add: vbr1_body_len_def Let_def)
  ultimately show ?thesis using read_frame_body [OF ok] by (simp add: decode_vbr1_eq vbr1_body_length [OF ok])
qed

lemma decoded_is_printed: "decode_vbr1 p = Some (Some q) \<Longrightarrow> frame_json dev sid q \<noteq> None"
proof -
  assume "decode_vbr1 p = Some (Some q)"
  then have "q = read_frame p" by (auto simp: decode_vbr1_eq split: if_splits)
  then show ?thesis using read_frame_counts by (intro frame_json_defined) simp_all
qed

section \<open>Properties\<close>

text \<open>C35: the reader of frame records never reads outside the record, whatever bytes it is given, it inverts the encoder, and
  every record it accepts can be printed without a read outside its lists.\<close>

theorem frame_records_are_read_safely:
  "decode_vbr1 p \<noteq> None \<and>
   (vbr1_ok r \<longrightarrow> decode_vbr1 (vbr1_body r) = Some (Some r)) \<and>
   (decode_vbr1 p = Some (Some q) \<longrightarrow> frame_json dev sid q \<noteq> None)"
  using decode_vbr1_body decoded_is_printed by (simp add: decode_vbr1_eq)

text \<open>C36: in every frame document each detection has a box of four coordinates, and these and the coordinates of its keypoints are
  between 0 and 1 or NaN, whatever the record holds.\<close>

theorem printed_coordinates_lie_in_the_picture:
  assumes "frame_json dev sid r = Some j"
  shows "\<exists>ds. json_find ''detections'' j = Some (JArr ds) \<and> length ds = length (wf_dets r) \<and> list_all det_in_picture ds"
proof -
  obtain ds where c: "collect_some (\<lambda>(i, d). det_json r i d) (enumerate 0 (wf_dets r)) = Some ds"
    and j: "json_find ''detections'' j = Some (JArr ds)"
    using assms by (auto simp: frame_json_def split: Option.bind_splits)
  have "collect_some f xs = Some ys \<Longrightarrow> length ys = length xs" for f :: "nat \<times> wire_det \<Rightarrow> json option" and xs ys
    by (induction xs arbitrary: ys) (auto split: Option.bind_splits)
  from this [OF c] have "length ds = length (wf_dets r)" by simp
  moreover have "list_all det_in_picture ds"
    using collect_some_set [OF c] by (fastforce simp: list_all_iff intro: det_json_in_picture)
  ultimately show ?thesis using j by blast
qed

theorem frame_records_are_read_safely_witness:
  "decode_vbr1 (vbr1_body rec0) = Some (Some rec0) \<and> frame_json ''d'' ''s'' rec0 \<noteq> None \<and> decode_vbr1 [1, 2] = Some None"
proof -
  have ok: "vbr1_ok rec0" by (simp add: vbr1_ok_def rec0_def)
  from frame_records_are_read_safely [of "vbr1_body rec0" rec0 rec0 "''d''" "''s''"] ok show ?thesis
    by (simp add: decode_vbr1_def)
qed

theorem printed_coordinates_lie_in_the_picture_witness:
  "\<exists>j ds. frame_json ''d'' ''s'' rec0 = Some j \<and> json_find ''detections'' j = Some (JArr ds) \<and> length ds = 1 \<and> list_all det_in_picture ds"
proof -
  have "frame_json ''d'' ''s'' rec0 \<noteq> None" by (rule frame_json_defined) (simp_all add: rec0_def)
  then obtain j where j: "frame_json ''d'' ''s'' rec0 = Some j" by blast
  from printed_coordinates_lie_in_the_picture [OF j] j show ?thesis by (auto simp: rec0_def)
qed

end
