(* ===== verification/Standalone.thy ===== *)
theory Standalone
  imports Control_Lines Scheduling Mqtt_Client Event_Json
begin

text \<open>
  \<open>core-cpp/vb/src/out/standalone.cpp\<close> and \<open>jsonl_out.h\<close>: the process without a control socket. It reads a
  configuration, adds its streams through control lines, turns the writer's records into JSON documents on the
  standard output or an MQTT broker, and reports a status. An exception that leaves \<open>run_standalone\<close> ends the
  process; it is \<open>Uncaught\<close>.
\<close>

section \<open>Records to documents\<close>

record standalone_opts =
  so_output :: string
  so_frame_every :: int
  so_status_every :: int
  so_dev :: bool

record standalone_app =
  sa_opts :: standalone_opts
  sa_device_id :: string
  sa_stream_ids :: "(u32, string) omap"
  sa_frame_counts :: "(u32, u64) omap"

record document =
  do_topic :: string
  do_line :: string
  do_qos :: int
  do_retain :: bool

definition id_of :: "standalone_app \<Rightarrow> u32 \<Rightarrow> string" where
  "id_of app index = (case om_find index (sa_stream_ids app) of None \<Rightarrow> [] | Some s \<Rightarrow> s)"

definition text_of_bytes :: "u8 list \<Rightarrow> string" where
  "text_of_bytes bs = map (\<lambda>b. char_of (unat b)) bs"

text \<open>\<open>None\<close> is a read outside the record; a record that is not understood gives no document.\<close>

definition on_event_record :: "libs \<Rightarrow> u8 list \<Rightarrow> standalone_app \<Rightarrow> document list" where
  "on_event_record lb body app =
    (case lb_parse lb (text_of_bytes body) of
       Inl _ \<Rightarrow> []
     | Inr j \<Rightarrow>
         (case json_value get_u32 j ''stream_index'' 0 of
            Returned index \<Rightarrow>
              (case event_document (sa_device_id app) (id_of app index) j of
                 Returned doc \<Rightarrow> [\<lparr>do_topic = ''events/'' @ id_of app index, do_line = lb_dump lb doc, do_qos = 1, do_retain = False\<rparr>]
               | _ \<Rightarrow> [])
          | _ \<Rightarrow> []))"

definition on_frame_record :: "libs \<Rightarrow> u8 list \<Rightarrow> standalone_app \<Rightarrow> (standalone_app \<times> document list) option" where
  "on_frame_record lb body app =
    do {
      res \<leftarrow> decode_vbr1 body;
      case res of
        None \<Rightarrow> Some (app, [])
      | Some r \<Rightarrow>
          let index = wf_stream_index r; sid = id_of app index;
              n = (case om_find index (sa_frame_counts app) of None \<Rightarrow> 0 | Some n \<Rightarrow> n) + 1;
              app' = app\<lparr>sa_frame_counts := om_put index n (sa_frame_counts app)\<rparr>
          in if n mod word_of_int (so_frame_every (sa_opts app)) \<noteq> 0 then Some (app', [])
             else do {
               j \<leftarrow> frame_json (sa_device_id app) sid r;
               Some (app', [\<lparr>do_topic = ''frames/'' @ sid, do_line = lb_dump lb j, do_qos = 0, do_retain = False\<rparr>])
             }
    }"

definition on_record :: "libs \<Rightarrow> u8 list \<Rightarrow> standalone_app \<Rightarrow> (standalone_app \<times> document list) option" where
  "on_record lb rec app =
    (if length rec < 8 then Some (app, [])
     else
       let magic = take 4 rec; body = drop 8 rec in
         if magic = ascii ''VBE1'' then Some (app, on_event_record lb body app)
         else if magic = ascii ''VBR1'' \<and> so_frame_every (sa_opts app) > 0 then on_frame_record lb body app
         else Some (app, []))"

text \<open>A document goes to the broker, or as one line to the standard output.\<close>

definition emit_document :: "standalone_app \<Rightarrow> document \<Rightarrow> mqtt_client \<times> string \<Rightarrow> mqtt_client \<times> string" where
  "emit_document app d s =
    (if so_output (sa_opts app) = ''mqtt'' then (mqtt_publish (do_topic d) (do_line d) (do_qos d) (do_retain d) (fst s), snd s)
     else (fst s, snd s @ do_line d @ [newline]))"

fun on_records :: "libs \<Rightarrow> u8 list list \<Rightarrow> standalone_app \<Rightarrow> (standalone_app \<times> document list) option" where
  "on_records lb [] app = Some (app, [])"
| "on_records lb (r # rs) app =
    do { (app1, d1) \<leftarrow> on_record lb r app; (app2, d2) \<leftarrow> on_records lb rs app1; Some (app2, d1 @ d2) }"

section \<open>Configuration\<close>

datatype 'a launch = Exit int | Uncaught | Go 'a

fun go :: "'a outcome \<Rightarrow> ('a \<Rightarrow> 'b launch) \<Rightarrow> 'b launch" where
  "go (Returned x) f = f x"
| "go _ f = Uncaught"

fun get_bool :: "json \<Rightarrow> bool outcome" where
  "get_bool (JBool b) = Returned b"
| "get_bool _ = Thrown"

definition mqtt_section :: "json \<Rightarrow> (mqtt_config \<times> f64) outcome" where
  "mqtt_section m =
    and_then (json_value get_string m ''host'' []) (\<lambda>host.
    and_then (json_value get_int m ''port'' 1883) (\<lambda>port.
    and_then (json_value get_string m ''client_id'' []) (\<lambda>client.
    and_then (json_value get_string m ''username'' []) (\<lambda>user.
    and_then (json_value get_string m ''password'' []) (\<lambda>pass.
    and_then (json_value get_string m ''topic_root'' []) (\<lambda>root.
    and_then (json_value get_double m ''keepalive_s'' (lit 30)) (\<lambda>keep.
    and_then (json_value get_bool m ''tls'' False) (\<lambda>tls.
    and_then (json_value get_string m ''ca_file'' []) (\<lambda>ca.
    and_then (json_value get_string m ''cert_file'' []) (\<lambda>cert.
    and_then (json_value get_string m ''key_file'' []) (\<lambda>key.
    and_then (json_value get_double m ''status_interval_s'' (lit 10)) (\<lambda>interval.
    Returned (\<lparr>mc_host = host, mc_client_id = client, mc_username = user, mc_password = pass, mc_topic_root = root, mc_keepalive_s = keep,
      mc_tls = tls, mc_cert_file = cert, mc_key_file = key, mc_reconnect_min_s = 1, mc_reconnect_max_s = lit 60\<rparr>, interval)))))))))))))"

record standalone_config =
  sk_device_id :: string
  sk_streams :: "json list"
  sk_runtime :: runtime_config
  sk_mqtt :: "mqtt_config option"
  sk_status_interval :: f64

text \<open>\<open>content\<close> is the file, if it can be opened; \<open>what\<close> the text of an exception inside \<open>from_json\<close>.\<close>

definition read_standalone :: "libs \<Rightarrow> string \<Rightarrow> standalone_opts \<Rightarrow> string option \<Rightarrow> standalone_config launch" where
  "read_standalone lb what opts content =
    (if so_dev opts then Exit 2
     else
       case content of
         None \<Rightarrow> Exit 1
       | Some txt \<Rightarrow>
           (case lb_parse lb txt of
              Inl _ \<Rightarrow> Exit 1
            | Inr cfg \<Rightarrow>
                go (json_value get_string cfg ''schema'' []) (\<lambda>schema.
                if schema \<noteq> ''vb.config/1'' then Exit 1
                else
                  go (json_value get_string cfg ''device_id'' []) (\<lambda>device.
                  let streams = (case json_find ''streams'' cfg of Some (JArr xs) \<Rightarrow> xs | _ \<Rightarrow> []) in
                    if streams = [] then Exit 1
                    else
                      case from_json lb what cfg (so_dev opts) of
                        Inl _ \<Rightarrow> Exit 1
                      | Inr rcfg \<Rightarrow>
                          let done = (\<lambda>mq interval. Go \<lparr>sk_device_id = device, sk_streams = streams, sk_runtime = rcfg, sk_mqtt = mq,
                                sk_status_interval = (if so_status_every opts > 0 then fl_of_int (so_status_every opts) else interval)\<rparr>)
                          in if so_output opts = ''mqtt'' then
                               (case json_find ''mqtt'' cfg of
                                  Some m \<Rightarrow> if is_object m then go (mqtt_section m) (\<lambda>(mc, interval). done (Some mc) interval) else Exit 1
                                | None \<Rightarrow> Exit 1)
                             else done None (lit 10)))))"

section \<open>Adding the streams\<close>

definition json_put :: "string \<Rightarrow> json \<Rightarrow> json \<Rightarrow> json" where
  "json_put k v j = (case j of JObj m \<Rightarrow> JObj (om_put k v m) | _ \<Rightarrow> j)"

text \<open>The control line for the stream with this number, and its id.\<close>

definition add_request :: "nat \<Rightarrow> json \<Rightarrow> (json \<times> string) outcome" where
  "add_request i sj =
    and_then (json_value get_string sj ''stream_id'' (''stream-'' @ dec_digits i)) (\<lambda>sid.
    and_then (and_then (get_at ''url'' sj) get_string) (\<lambda>url.
    and_then (json_value get_string sj ''transport'' ''tcp'') (\<lambda>transport.
    and_then (json_value Returned sj ''options'' (json_obj [])) (\<lambda>options.
    let st = json_obj ([(''index'', JInt (uint (of_nat i :: u32))), (''id'', JStr sid), (''url'', JStr url), (''transport'', JStr transport)] @
          (case json_find ''score_threshold'' sj of Some t \<Rightarrow> [(''score_threshold'', t)] | None \<Rightarrow> []) @ [(''options'', options)]);
        analyzers = (case json_find ''analyzers'' options of Some (JArr xs) \<Rightarrow> JArr xs | _ \<Rightarrow> JArr [])
    in Returned (json_obj [(''op'', JStr ''add''), (''req'', JStr (''standalone-'' @ dec_digits i)), (''stream'', st), (''analyzers'', analyzers)], sid)))))"

text \<open>What the watcher sees of the replies: whether the last one to this request was positive.\<close>

fun add_acknowledged :: "string \<Rightarrow> sent_record list \<Rightarrow> bool \<Rightarrow> bool" where
  "add_acknowledged req [] ok = ok"
| "add_acknowledged req (Control j # rs) ok =
    add_acknowledged req rs (if json_find ''req'' j = Some (JStr req) then json_find ''ok'' j = Some (JBool True) else ok)"
| "add_acknowledged req (_ # rs) ok = add_acknowledged req rs ok"

fun add_streams :: "libs \<Rightarrow> (nat \<Rightarrow> control_env) \<Rightarrow> nat \<Rightarrow> json list \<Rightarrow> 'p runtime \<times> (u32, string) omap \<Rightarrow>
    ('p runtime \<times> (u32, string) omap) option" where
  "add_streams lb envs i [] s = Some s"
| "add_streams lb envs i (sj # rest) s =
    (case add_request i sj of
       Returned (line, sid) \<Rightarrow>
         (case handle_line lb (envs i) line (fst s) of
            None \<Rightarrow> None
          | Some (rt', out, _) \<Rightarrow>
              add_streams lb envs (Suc i) rest
                (rt', if add_acknowledged (''standalone-'' @ dec_digits i) out False then om_put (of_nat i) sid (snd s)
                      else om_del (of_nat i) (snd s)))
     | _ \<Rightarrow> None)"

text \<open>The process up to its main loop, given the backend's capabilities and whether TLS is compiled in.\<close>

definition start_standalone :: "libs \<Rightarrow> bool \<Rightarrow> string \<Rightarrow> (nat \<Rightarrow> control_env) \<Rightarrow> (runtime_config \<Rightarrow> string + caps) \<Rightarrow>
    (string \<Rightarrow> string + 'p vb_analyzer_api) \<Rightarrow> (int \<Rightarrow> string + 'c) \<Rightarrow> standalone_opts \<Rightarrow> string option \<Rightarrow>
    ('p runtime \<times> standalone_app \<times> mqtt_client option) launch" where
  "start_standalone lb tls what envs backend load mk opts content =
    (case read_standalone lb what opts content of
       Exit k \<Rightarrow> Exit k
     | Uncaught \<Rightarrow> Uncaught
     | Go sk \<Rightarrow>
         (case backend (sk_runtime sk) of
            Inl _ \<Rightarrow> Exit 1
          | Inr cp \<Rightarrow>
              (case (case sk_mqtt sk of None \<Rightarrow> Inr () | Some mc \<Rightarrow> mqtt_start tls mc) of
                 Inl _ \<Rightarrow> Exit 1
               | Inr _ \<Rightarrow>
                   (case start_runtime load mk (new_runtime lb cp (sk_runtime sk)) of
                      Inl _ \<Rightarrow> Exit 1
                    | Inr (rt, cs) \<Rightarrow>
                        (case add_streams lb envs 0 (sk_streams sk) (rt, []) of
                           None \<Rightarrow> Uncaught
                         | Some (rt', ids) \<Rightarrow>
                             if ids = [] then Exit 1
                             else Go (rt', \<lparr>sa_opts = opts, sa_device_id = sk_device_id sk, sa_stream_ids = ids, sa_frame_counts = []\<rparr>,
                               map_option (new_mqtt_client lb) (sk_mqtt sk)))))))"

section \<open>The status\<close>

definition json_del :: "string \<Rightarrow> json \<Rightarrow> json" where
  "json_del k j = (case j of JObj m \<Rightarrow> JObj (om_del k m) | _ \<Rightarrow> j)"

fun status_streams :: "f64 \<Rightarrow> (u32, string) omap \<Rightarrow> 'p runtime \<Rightarrow> 'p runtime \<times> json list" where
  "status_streams now [] rt = (rt, [])"
| "status_streams now ((index, sid) # rest) rt =
    (case om_find index (rt_streams rt) of
       None \<Rightarrow> status_streams now rest rt
     | Some s \<Rightarrow>
         let (sm, e) = metrics_to_json index now (ss_metrics s);
             rt1 = rt\<lparr>rt_streams := om_put index (s\<lparr>ss_metrics := sm\<rparr>) (rt_streams rt)\<rparr>;
             (rt2, es) = status_streams now rest rt1
         in (rt2, json_del ''stream_index'' (json_put ''fallback_active'' (JBool False) (json_put ''stream_id'' (JStr sid) e)) # es))"

text \<open>\<open>now\<close> is the clock of the metrics, \<open>ms\<close> and \<open>session\<close> the wall clock in milliseconds, now and at the start.\<close>

definition app_status :: "f64 \<Rightarrow> int \<Rightarrow> int \<Rightarrow> bool \<Rightarrow> mqtt_client option \<Rightarrow> standalone_app \<Rightarrow> 'p runtime \<Rightarrow> 'p runtime \<times> json" where
  "app_status now ms session online mq app rt =
    (let (rt', es) = status_streams now (sa_stream_ids app) rt in
     (rt', json_obj ([(''schema'', JStr ''vb.status/1''), (''timestamp'', JInt (ms sdiv 1000)), (''session_id'', JStr (show_int session)),
       (''device_id'', JStr (sa_device_id app)), (''online'', JBool online), (''shards'', JInt 1),
       (''uptime_s'', JNum (fl_of_int (ms - session) / lit 1000)), (''streams'', JArr es)] @
       (case mq of Some c \<Rightarrow> if mq_dropped c > 0 then [(''mqtt_dropped'', JInt (uint (mq_dropped c)))] else [] | None \<Rightarrow> []))))"

definition status_document :: "libs \<Rightarrow> json \<Rightarrow> document" where
  "status_document lb j = \<lparr>do_topic = ''status'', do_line = lb_dump lb j, do_qos = 1, do_retain = True\<rparr>"

end
