(* ===== verification/Standalone_Properties.thy ===== *)
theory Standalone_Properties
  imports Standalone Event_Properties Mqtt_Properties
begin

text \<open>
  The process without a control socket, end to end: which frame records become documents, what the last packets of
  the process are, and which configurations end it with an exception.
\<close>

section \<open>Thinned frames\<close>

definition frame_of :: "u8 list \<Rightarrow> wire_frame_rec option" where
  "frame_of rec =
    (if length rec < 8 \<or> take 4 rec \<noteq> ascii ''VBR1'' then None
     else case decode_vbr1 (drop 8 rec) of Some (Some r) \<Rightarrow> Some r | _ \<Rightarrow> None)"

definition stream_frames :: "u32 \<Rightarrow> u8 list list \<Rightarrow> nat" where
  "stream_frames s recs = length (filter (\<lambda>rec. map_option wf_stream_index (frame_of rec) = Some s) recs)"

lemma magics_differ: "ascii ''VBE1'' \<noteq> ascii ''VBR1''"
  by (simp add: ascii_def)

lemma on_record_frame:
  assumes "frame_of rec = Some r" "0 < so_frame_every (sa_opts app)"
  shows "on_record lb rec app = on_frame_record lb (drop 8 rec) app" "decode_vbr1 (drop 8 rec) = Some (Some r)"
  using assms magics_differ by (auto simp: frame_of_def on_record_def Let_def split: if_splits option.splits)

lemma on_record_other:
  assumes "frame_of rec = None"
  shows "\<exists>ds. on_record lb rec app = Some (app, ds)"
proof (cases "length rec < 8 \<or> take 4 rec \<noteq> ascii ''VBR1''")
  case True
  then show ?thesis using assms by (auto simp: on_record_def Let_def)
next
  case False
  then have "decode_vbr1 (drop 8 rec) = Some None"
    using assms by (auto simp: frame_of_def decode_vbr1_eq split: if_splits)
  then show ?thesis using False magics_differ by (auto simp: on_record_def on_frame_record_def Let_def)
qed

lemma on_frame_record_counts:
  assumes "decode_vbr1 body = Some (Some r)"
  shows "\<exists>ds. on_frame_record lb body app =
    Some (app\<lparr>sa_frame_counts := om_put (wf_stream_index r)
      ((case om_find (wf_stream_index r) (sa_frame_counts app) of None \<Rightarrow> 0 | Some n \<Rightarrow> n) + 1) (sa_frame_counts app)\<rparr>, ds) \<and>
    length ds = (if ((case om_find (wf_stream_index r) (sa_frame_counts app) of None \<Rightarrow> 0 | Some n \<Rightarrow> n) + 1) mod
      word_of_int (so_frame_every (sa_opts app)) = 0 then 1 else 0)"
proof -
  have "frame_json (sa_device_id app) (id_of app (wf_stream_index r)) r \<noteq> None"
    using decoded_is_printed [OF assms] .
  then show ?thesis using assms by (auto simp: on_frame_record_def Let_def)
qed

lemma on_record_step:
  assumes "0 < so_frame_every (sa_opts app)"
  shows "\<exists>app' ds. on_record lb rec app = Some (app', ds) \<and> sa_opts app' = sa_opts app \<and>
    (\<forall>s. om_find s (sa_frame_counts app') =
      (if map_option wf_stream_index (frame_of rec) = Some s
       then Some ((case om_find s (sa_frame_counts app) of None \<Rightarrow> 0 | Some n \<Rightarrow> n) + 1) else om_find s (sa_frame_counts app)))"
proof (cases "frame_of rec")
  case None
  then show ?thesis using on_record_other [OF None, of lb app] by auto
next
  case (Some r)
  note f = on_record_frame(1) [OF Some assms, of lb] on_record_frame(2) [OF Some assms]
  from on_frame_record_counts [OF f(2), of lb app] show ?thesis by (auto simp: f(1) Some)
qed

lemma on_records_counts:
  assumes "0 < so_frame_every (sa_opts app)" "sa_frame_counts app = []"
  shows "\<exists>app' ds. on_records lb recs app = Some (app', ds) \<and> sa_opts app' = sa_opts app \<and>
    (\<forall>s. (case om_find s (sa_frame_counts app') of None \<Rightarrow> 0 | Some n \<Rightarrow> n) = of_nat (stream_frames s recs))"
proof -
  have "\<exists>app' ds. on_records lb recs app = Some (app', ds) \<and> sa_opts app' = sa_opts app \<and>
    (\<forall>s. (case om_find s (sa_frame_counts app') of None \<Rightarrow> 0 | Some n \<Rightarrow> n) =
      (case om_find s (sa_frame_counts app) of None \<Rightarrow> 0 | Some n \<Rightarrow> n) + of_nat (stream_frames s recs))"
    if "0 < so_frame_every (sa_opts app)" for app
    using that
  proof (induction recs arbitrary: app)
    case (Cons rec recs)
    obtain a1 d1 where 1: "on_record lb rec app = Some (a1, d1)" "sa_opts a1 = sa_opts app"
      "\<forall>s. om_find s (sa_frame_counts a1) = (if map_option wf_stream_index (frame_of rec) = Some s
        then Some ((case om_find s (sa_frame_counts app) of None \<Rightarrow> 0 | Some n \<Rightarrow> n) + 1) else om_find s (sa_frame_counts app))"
      using on_record_step [OF Cons.prems] by blast
    obtain a2 d2 where 2: "on_records lb recs a1 = Some (a2, d2)" "sa_opts a2 = sa_opts app"
      "\<forall>s. (case om_find s (sa_frame_counts a2) of None \<Rightarrow> 0 | Some n \<Rightarrow> n) =
        (case om_find s (sa_frame_counts a1) of None \<Rightarrow> 0 | Some n \<Rightarrow> n) + of_nat (stream_frames s recs)"
      using Cons.IH [of a1] Cons.prems 1(2) by auto
    show ?case using 1 2 by (auto simp: stream_frames_def)
  qed (simp add: stream_frames_def)
  from this [OF assms(1)] assms(2) show ?thesis by simp
qed

lemma small_word_0: "v < 2 ^ 64 \<Longrightarrow> (of_nat v :: u64) = 0 \<longleftrightarrow> v = 0"
proof -
  assume "v < 2 ^ 64"
  then have "unat (of_nat v :: u64) = v" by (simp add: unat_of_nat)
  then show ?thesis by auto
qed

section \<open>Properties\<close>

text \<open>C34: of the frame records of a stream, exactly every k-th becomes a document, where k is the configured period, whatever
  records of other streams, events and other bytes come in between; no record makes the process read outside it.\<close>

theorem every_kth_frame_is_printed:
  assumes "sa_frame_counts app = []" "so_frame_every (sa_opts app) = int k" "0 < k" "k < 2 ^ 31" "length recs < 2 ^ 63"
    "frame_of rec = Some r"
  shows "\<exists>app1 ds1 app2 ds2. on_records lb recs app = Some (app1, ds1) \<and> on_record lb rec app1 = Some (app2, ds2) \<and>
    length ds2 = (if k dvd Suc (stream_frames (wf_stream_index r) recs) then 1 else 0)"
proof -
  have k: "0 < so_frame_every (sa_opts app)" using assms(2,3) by simp
  obtain a1 d1 where 1: "on_records lb recs app = Some (a1, d1)" "sa_opts a1 = sa_opts app"
    "\<forall>s. (case om_find s (sa_frame_counts a1) of None \<Rightarrow> 0 | Some n \<Rightarrow> n) = of_nat (stream_frames s recs)"
    using on_records_counts [OF k assms(1)] by blast
  have k1: "0 < so_frame_every (sa_opts a1)" using k 1(2) by simp
  note f = on_record_frame(1) [OF assms(6) k1, of lb] on_record_frame(2) [OF assms(6) k1]
  obtain d2 a2 where 2: "on_record lb rec a1 = Some (a2, d2)"
    "length d2 = (if (of_nat (stream_frames (wf_stream_index r) recs) + 1 :: u64) mod word_of_int (int k) = 0 then 1 else 0)"
    using on_frame_record_counts [OF f(2), of lb a1] 1(3) assms(2) 1(2) by (auto simp: f(1))
  define n where "n = Suc (stream_frames (wf_stream_index r) recs)"
  have "stream_frames (wf_stream_index r) recs \<le> length recs" by (simp add: stream_frames_def)
  then have n: "n < 2 ^ 64" using assms(5) by (simp add: n_def)
  have e1: "(of_nat (stream_frames (wf_stream_index r) recs) + 1 :: u64) = of_nat n" by (simp add: n_def)
  have e2: "(of_nat n :: u64) mod of_nat k = of_nat (n mod k)"
  proof -
    have "unat (of_nat n :: u64) = n" "unat (of_nat k :: u64) = k" using n assms(4) by (simp_all add: unat_of_nat)
    then show ?thesis using word_arith_nat_mod [of "of_nat n :: u64" "of_nat k"] by simp
  qed
  have e3: "(of_nat (n mod k) :: u64) = 0 \<longleftrightarrow> k dvd n"
  proof -
    have "n mod k < 2 ^ 64" using n by (meson le_less_trans mod_less_eq_dividend)
    then have "(of_nat (n mod k) :: u64) = 0 \<longleftrightarrow> n mod k = 0" by (rule small_word_0)
    then show ?thesis by (simp only: dvd_eq_mod_eq_0)
  qed
  have "word_of_int (int k) = (of_nat k :: u64)" by simp
  then have "length d2 = (if k dvd n then 1 else 0)" unfolding 2(2) e1 by (simp only: e2 e3)
  then show ?thesis unfolding n_def [symmetric] using 1(1) 2(1) by blast
qed

text \<open>C33: when the process stops with a broker connection, its last packets are the publication of its own final status, retained and
  with QoS 1, and DISCONNECT.\<close>

theorem final_status_goes_out_last:
  assumes "so_output (sa_opts app) = ''mqtt''" "mq_connected c"
    "shut_down lb env (fst (emit_document app (status_document lb j) (c, out))) = Some (c', pkts)" "fst (de_final env)" "fst (de_bye env)"
  shows "\<exists>ps pid. pkts = ps @ [encode_publish \<lparr>mm_topic = mc_topic_root (mq_cfg c) @ ''/status'', mm_payload = lb_dump lb j, mm_qos = 1,
    mm_retain = True, mm_retried = False\<rparr> pid, [0xE0, 0]]"
proof -
  define c1 where "c1 = mqtt_publish ''status'' (lb_dump lb j) 1 True c"
  have e: "fst (emit_document app (status_document lb j) (c, out)) = c1"
    using assms(1) by (simp add: emit_document_def status_document_def c1_def)
  define m where "m = new_msg ''status'' (lb_dump lb j) 1 True c"
  have q: "mq_q c1 = mq_q (evict_oldest c) @ [m]" by (simp add: c1_def mqtt_publish_def m_def Let_def)
  have "mq_connected c1" using assms(2) by (simp add: c1_def mqtt_publish_def Let_def evict_oldest_def)
  moreover have "is_status c1 m"
    by (simp add: is_status_def m_def new_msg_def status_topic_def c1_def mqtt_publish_def Let_def)
  ultimately show ?thesis
    using final_status_is_last [OF assms(3) [unfolded e] _ assms(4,5) q] by (simp add: m_def new_msg_def)
qed

section \<open>Configurations that end the process\<close>

text \<open>A stream without a URL is not skipped: the access throws and nothing catches it. The same holds for a schema that is not a
  string.\<close>

lemma stream_without_url_ends_the_process: "add_streams lb envs 0 [json_obj [(''stream_id'', JStr ''a'')]] s = None"
  by (simp add: add_request_def json_value_def get_at_def json_obj_def)

lemma numeric_schema_ends_the_process:
  "lb_parse lb txt = Inr (json_obj [(''schema'', JInt 1)]) \<Longrightarrow> \<not> so_dev opts \<Longrightarrow> read_standalone lb what opts (Some txt) = Uncaught"
  by (simp add: read_standalone_def json_value_def json_obj_def)

section \<open>Concrete instances\<close>

definition demo_app :: standalone_app where
  "demo_app = \<lparr>sa_opts = \<lparr>so_output = ''mqtt'', so_frame_every = 1, so_status_every = -1, so_dev = False\<rparr>, sa_device_id = ''d'',
     sa_stream_ids = [], sa_frame_counts = []\<rparr>"

theorem every_kth_frame_is_printed_witness:
  "\<exists>app1 app2 ds. on_records quiet_libs [] demo_app = Some (app1, []) \<and>
    on_record quiet_libs (put_header ''VBR1'' 0 @ vbr1_body rec0) app1 = Some (app2, ds) \<and> length ds = 1"
proof -
  have "decode_vbr1 (vbr1_body rec0) = Some (Some rec0)"
    by (rule decode_vbr1_body) (simp add: vbr1_ok_def rec0_def)
  then have f: "frame_of (put_header ''VBR1'' 0 @ vbr1_body rec0) = Some rec0"
    by (simp add: frame_of_def put_header_def ascii_def)
  from every_kth_frame_is_printed [where app = demo_app and k = 1 and recs = "[]" and lb = quiet_libs, OF _ _ _ _ _ f] show ?thesis
    by (auto simp: demo_app_def stream_frames_def)
qed

theorem final_status_goes_out_last_witness:
  "\<exists>c' pkts ps pid. shut_down quiet_libs \<lparr>de_connect = \<lparr>ce_socket = None, ce_write = (True, 0), ce_wait = []\<rparr>,
      de_drain = [\<lparr>dt_late = True, dt_now = 0, dt_write = (True, 0), dt_read = None, dt_ping = (True, 0)\<rparr>],
      de_acks = [\<lparr>dt_late = True, dt_now = 0, dt_write = (True, 0), dt_read = None, dt_ping = (True, 0)\<rparr>],
      de_final = (True, 0), de_bye = (True, 0)\<rparr>
      (fst (emit_document demo_app (status_document quiet_libs JNull) (demo_client\<lparr>mq_connected := True\<rparr>, []))) = Some (c', pkts) \<and>
    pkts = ps @ [encode_publish demo_msg pid, [0xE0, 0]]"
proof -
  define env where "env = \<lparr>de_connect = \<lparr>ce_socket = None, ce_write = (True, 0), ce_wait = []\<rparr>,
      de_drain = [\<lparr>dt_late = True, dt_now = 0, dt_write = (True, 0), dt_read = None, dt_ping = (True, 0)\<rparr>],
      de_acks = [\<lparr>dt_late = True, dt_now = 0, dt_write = (True, 0), dt_read = None, dt_ping = (True, 0)\<rparr>],
      de_final = (True, 0), de_bye = (True, 0 :: f64)\<rparr>"
  define c where "c = demo_client\<lparr>mq_connected := True\<rparr>"
  have o: "so_output (sa_opts demo_app) = ''mqtt''" "mq_connected c" by (simp_all add: demo_app_def c_def)
  define c1 where "c1 = fst (emit_document demo_app (status_document quiet_libs JNull) (c, []))"
  have c1: "c1 = c\<lparr>mq_q := [demo_msg]\<rparr>"
    by (simp add: c1_def emit_document_def o(1) status_document_def mqtt_publish_def evict_oldest_def queue_limit_def c_def
        demo_client_def new_mqtt_client_def new_msg_def demo_msg_def quiet_libs_def demo_mqtt_config_def Let_def)
  have "hold_back c1 = (c1\<lparr>mq_q := []\<rparr>, Some demo_msg)"
    by (simp add: c1 hold_back_def is_status_def status_topic_def c_def demo_client_def new_mqtt_client_def demo_msg_def demo_mqtt_config_def)
  then have "shut_down quiet_libs env c1 \<noteq> None"
    by (simp add: shut_down_def last_words_def env_def Let_def c1 c_def)
  then obtain c' pkts where r: "shut_down quiet_libs env c1 = Some (c', pkts)" by auto
  have "fst (de_final env)" "fst (de_bye env)" by (simp_all add: env_def)
  from final_status_goes_out_last [OF o r [unfolded c1_def] this]
  have "\<exists>ps pid. pkts = ps @ [encode_publish demo_msg pid, [0xE0, 0]]"
    by (simp add: c_def demo_client_def new_mqtt_client_def demo_msg_def quiet_libs_def demo_mqtt_config_def)
  with r show ?thesis unfolding env_def c1_def c_def by blast
qed

end
