(* ===== verification/Sha256.thy ===== *)
theory Sha256
  imports Prelude Tensor_View
begin

text \<open>
  \<open>core-cpp/vb/backends/cpu/sha256.cpp\<close>: the digest of a model file. The code hashes the whole blocks in place and
  builds one or two blocks for the rest; the reference pads the message first, as FIPS 180-4 describes it.
\<close>

section \<open>Blocks\<close>

text \<open>The constants of the rounds, in decimal.\<close>

definition sha_k :: "u32 list" where
  "sha_k = [
    1116352408, 1899447441, 3049323471, 3921009573, 961987163, 1508970993, 2453635748, 2870763221,
    3624381080, 310598401, 607225278, 1426881987, 1925078388, 2162078206, 2614888103, 3248222580,
    3835390401, 4022224774, 264347078, 604807628, 770255983, 1249150122, 1555081692, 1996064986,
    2554220882, 2821834349, 2952996808, 3210313671, 3336571891, 3584528711, 113926993, 338241895,
    666307205, 773529912, 1294757372, 1396182291, 1695183700, 1986661051, 2177026350, 2456956037,
    2730485921, 2820302411, 3259730800, 3345764771, 3516065817, 3600352804, 4094571909, 275423344,
    430227734, 506948616, 659060556, 883997877, 958139571, 1322822218, 1537002063, 1747873779,
    1955562222, 2024104815, 2227730452, 2361852424, 2428436474, 2756734187, 3204031479, 3329325298]"

definition rotr :: "u32 \<Rightarrow> nat \<Rightarrow> u32" where
  "rotr x n = or (drop_bit n x) (push_bit (32 - n) x)"

definition big_endian :: "u8 list \<Rightarrow> nat \<Rightarrow> u32" where
  "big_endian p i =
    or (or (or (push_bit 24 (ucast (p ! (i * 4)))) (push_bit 16 (ucast (p ! (i * 4 + 1))))) (push_bit 8 (ucast (p ! (i * 4 + 2)))))
      (ucast (p ! (i * 4 + 3)))"

definition next_word :: "u32 list \<Rightarrow> u32" where
  "next_word w =
    (let i = length w; s0 = xor (xor (rotr (w ! (i - 15)) 7) (rotr (w ! (i - 15)) 18)) (drop_bit 3 (w ! (i - 15)));
         s1 = xor (xor (rotr (w ! (i - 2)) 17) (rotr (w ! (i - 2)) 19)) (drop_bit 10 (w ! (i - 2)))
     in w ! (i - 16) + s0 + w ! (i - 7) + s1)"

definition schedule :: "u8 list \<Rightarrow> u32 list" where
  "schedule p = ((\<lambda>w. w @ [next_word w]) ^^ 48) (map (big_endian p) [0..<16])"

type_synonym sha_state = "u32 \<times> u32 \<times> u32 \<times> u32 \<times> u32 \<times> u32 \<times> u32 \<times> u32"

definition sha_round :: "u32 \<times> u32 \<Rightarrow> sha_state \<Rightarrow> sha_state" where
  "sha_round kw s =
    (case s of (a, b, c, d, e, f, g, h) \<Rightarrow>
       let S1 = xor (xor (rotr e 6) (rotr e 11)) (rotr e 25); ch = xor (and e f) (and (not e) g); t1 = h + S1 + ch + fst kw + snd kw;
           S0 = xor (xor (rotr a 2) (rotr a 13)) (rotr a 22); maj = xor (xor (and a b) (and a c)) (and b c); t2 = S0 + maj
       in (t1 + t2, a, b, c, d + t1, e, f, g))"

definition process_block :: "u8 list \<Rightarrow> sha_state \<Rightarrow> sha_state" where
  "process_block p h =
    (case h of (h0, h1, h2, h3, h4, h5, h6, h7) \<Rightarrow>
       case fold sha_round (zip sha_k (schedule p)) h of (a, b, c, d, e, f, g, i) \<Rightarrow>
         (h0 + a, h1 + b, h2 + c, h3 + d, h4 + e, h5 + f, h6 + g, h7 + i))"

section \<open>The digest\<close>

definition sha_init :: sha_state where
  "sha_init = (0x6a09e667, 0xbb67ae85, 0x3c6ef372, 0xa54ff53a, 0x510e527f, 0x9b05688c, 0x1f83d9ab, 0x5be0cd19)"

definition length_bytes :: "nat \<Rightarrow> u8 list" where
  "length_bytes len = map (\<lambda>i. ucast (drop_bit (8 * (7 - i)) (of_nat len * 8 :: u64))) [0..<8]"

definition sha_tail :: "u8 list \<Rightarrow> u8 list" where
  "sha_tail data =
    (let full = length data div 64; rm = length data - full * 64; padded = (if rm + 9 \<le> 64 then 64 else 128)
     in drop (full * 64) data @ [0x80] @ replicate (padded - rm - 9) 0 @ length_bytes (length data))"

definition hex_digit :: "u32 \<Rightarrow> char" where
  "hex_digit d = ''0123456789abcdef'' ! unat d"

definition hex_word :: "u32 \<Rightarrow> string" where
  "hex_word h = map (\<lambda>b. hex_digit (and (drop_bit b h) 0xf)) [28, 24, 20, 16, 12, 8, 4, 0]"

definition sha_hex :: "sha_state \<Rightarrow> string" where
  "sha_hex s = (case s of (a, b, c, d, e, f, g, h) \<Rightarrow> concat (map hex_word [a, b, c, d, e, f, g, h]))"

definition sha256_hex :: "u8 list \<Rightarrow> string" where
  "sha256_hex data =
    (let full = length data div 64; tail_bs = sha_tail data;
         h = fold (\<lambda>i. process_block (take 64 (drop (i * 64) data))) [0..<full] sha_init
     in sha_hex (fold (\<lambda>i. process_block (take 64 (drop (i * 64) tail_bs))) [0..<length tail_bs div 64] h))"

section \<open>The reference\<close>

text \<open>The padding of the standard: a one bit, the least number of zeros that makes the length right, and the length.\<close>

definition fips_zeros :: "nat \<Rightarrow> nat" where
  "fips_zeros len = (119 - len mod 64) mod 64"

definition fips_pad :: "u8 list \<Rightarrow> u8 list" where
  "fips_pad data = data @ [0x80] @ replicate (fips_zeros (length data)) 0 @ length_bytes (length data)"

fun blocks_of :: "u8 list \<Rightarrow> u8 list list" where
  "blocks_of [] = []"
| "blocks_of (b # bs) = take 64 (b # bs) # blocks_of (drop 63 bs)"

definition fips_sha256 :: "u8 list \<Rightarrow> string" where
  "fips_sha256 data = sha_hex (fold process_block (blocks_of (fips_pad data)) sha_init)"

lemma blocks_of_step: "xs \<noteq> [] \<Longrightarrow> blocks_of xs = take 64 xs # blocks_of (drop 64 xs)"
  by (cases xs) (simp_all add: numeral_eq_Suc)

lemma blocks_of_map: "length xs = n * 64 \<Longrightarrow> blocks_of xs = map (\<lambda>i. take 64 (drop (i * 64) xs)) [0..<n]"
proof (induction n arbitrary: xs)
  case (Suc n)
  then have "xs \<noteq> []" "length (drop 64 xs) = n * 64" by auto
  moreover have "[0..<Suc n] = 0 # map Suc [0..<n]" by (simp add: upt_conv_Cons map_Suc_upt)
  ultimately show ?case using Suc.IH [of "drop 64 xs"] by (simp add: blocks_of_step comp_def add.commute)
qed simp

lemma blocks_of_append: "length xs = n * 64 \<Longrightarrow> blocks_of (xs @ ys) = blocks_of xs @ blocks_of ys"
proof (induction n arbitrary: xs)
  case (Suc n)
  then have "xs \<noteq> []" "64 \<le> length xs" "length (drop 64 xs) = n * 64" by auto
  then show ?case using Suc.IH [of "drop 64 xs"] by (simp add: blocks_of_step)
qed simp

lemma length_length_bytes [simp]: "length (length_bytes n) = 8"
  by (simp add: length_bytes_def)

lemma fips_zeros_cases: "r < 64 \<Longrightarrow> (119 - r) mod 64 = (if r \<le> 55 then 55 - r else 119 - (r :: nat))"
proof (cases "r \<le> 55")
  case True
  then have "119 - r = (55 - r) + 64" by simp
  then show ?thesis using True by (simp only: mod_add_self2) simp
qed simp

lemma fips_zeros_least:
  "(len + 1 + fips_zeros len + 8) mod 64 = 0" "k < fips_zeros len \<Longrightarrow> (len + 1 + k + 8) mod 64 \<noteq> 0"
proof -
  define r where "r = len mod 64"
  define z where "z = fips_zeros len"
  have r: "r < 64" by (simp add: r_def)
  have c: "z = (if r \<le> 55 then 55 - r else 119 - r)" using fips_zeros_cases [OF r] by (simp add: z_def fips_zeros_def r_def)
  have e: "(len + 1 + x + 8) mod 64 = (r + 1 + x + 8) mod 64" for x
    unfolding r_def by (simp only: mod_add_left_eq add.assoc)
  have "r + 1 + z + 8 = 64 \<or> r + 1 + z + 8 = 128" using r c by (cases "r \<le> 55") simp_all
  then have "(r + 1 + z + 8) mod 64 = 0" by (elim disjE) (simp_all only:, simp_all)
  then show "(len + 1 + fips_zeros len + 8) mod 64 = 0" using e [of z] by (simp add: z_def)
  have "(r + 1 + k + 8) mod 64 \<noteq> 0" if "k < z"
  proof (cases "r \<le> 55")
    case True
    then show ?thesis using c that by simp
  next
    case False
    then have "r + 1 + k + 8 = (r + k - 55) + 64" "r + k - 55 < 64" "0 < r + k - 55" using r c that by simp_all
    then show ?thesis by (simp only: mod_add_self2 mod_less)
  qed
  then show "k < fips_zeros len \<Longrightarrow> (len + 1 + k + 8) mod 64 \<noteq> 0" using e [of k] by (simp add: z_def)
qed

lemma sha_tail_eq: "sha_tail data = drop (length data div 64 * 64) (fips_pad data)"
proof -
  define r where "r = length data mod 64"
  have r: "r < 64" "length data - length data div 64 * 64 = r" by (simp_all add: r_def minus_div_mult_eq_mod)
  have "(if r + 9 \<le> 64 then 64 else 128) - r - 9 = fips_zeros (length data)"
    using fips_zeros_cases [OF r(1)] by (simp add: fips_zeros_def r_def [symmetric])
  moreover have "length data div 64 * 64 \<le> length data" by simp
  ultimately show ?thesis by (simp add: sha_tail_def fips_pad_def Let_def r(2))
qed

section \<open>Property\<close>

text \<open>The digest is that of the padded message of the standard: the blocks that are hashed in place, followed by the one or two blocks built for the
  rest, are the blocks of the padded message, for every length.\<close>

theorem digest_of_the_padded_message: "sha256_hex data = fips_sha256 data"
proof -
  define m where "m = length data div 64 * 64"
  have m: "m \<le> length data" "length (take m data) = length data div 64 * 64" by (simp_all add: m_def)
  have pad: "fips_pad data = take m data @ sha_tail data"
    using m(1) by (simp add: sha_tail_eq m_def [symmetric] fips_pad_def)
  have "length (fips_pad data) mod 64 = 0"
    using fips_zeros_least(1) [of "length data"] by (simp add: fips_pad_def ac_simps)
  then have "length (sha_tail data) mod 64 = 0" using pad m(2) by (metis length_append mod_mult_self3)
  then have t: "length (sha_tail data) = length (sha_tail data) div 64 * 64" by (metis div_mult_mod_eq add_0_right)
  have "blocks_of (fips_pad data) = map (\<lambda>i. take 64 (drop (i * 64) (take m data))) [0..<length data div 64] @
      map (\<lambda>i. take 64 (drop (i * 64) (sha_tail data))) [0..<length (sha_tail data) div 64]"
    by (simp only: pad blocks_of_append [OF m(2)] blocks_of_map [OF m(2)] blocks_of_map [OF t])
  also have "map (\<lambda>i. take 64 (drop (i * 64) (take m data))) [0..<length data div 64] =
      map (\<lambda>i. take 64 (drop (i * 64) data)) [0..<length data div 64]"
    by (rule map_cong) (auto simp: m_def drop_take min_def)
  finally show ?thesis by (simp add: fips_sha256_def sha256_hex_def Let_def fold_map comp_def)
qed

end
