(* ===== verification/Batching.thy ===== *)
theory Batching
  imports Runtime_Config
begin

text \<open>
  The shared batch of the Hailo backend: the batch policy (\<open>batch_policy.cpp\<close>) and the queues of frames that
  feed the batch (\<open>frame_batcher.cpp\<close>). Each critical section is a function; a worker that waits for a fuller
  batch gives up the lock, so the callers form a step relation. Times are in nanoseconds.
\<close>

section \<open>Policy\<close>

datatype batch_mode = Auto | Off | Fixed

record batch_config =
  bc_mode :: batch_mode
  bc_fixed_size :: int

record batch_decision =
  bd_multi_context :: bool
  bd_shared :: bool
  bd_batch_size :: int

text \<open>\<open>std::from_chars\<close> for a decimal \<open>int\<close>, all of the text: a minus sign or none, digits, within the type.\<close>

definition from_chars :: "string \<Rightarrow> int option" where
  "from_chars s =
    (let (neg, ds) = (case s of [] \<Rightarrow> (False, []) | ch # rest \<Rightarrow> if ch = CHR ''-'' then (True, rest) else (False, s));
         v = foldl (\<lambda>a ch. 10 * a + (of_char ch - 48)) 0 ds; n = (if neg then - v else v)
     in if ds \<noteq> [] \<and> list_all is_digit ds \<and> - (2 ^ 31) \<le> n \<and> n < 2 ^ 31 then Some n else None)"

definition batch_integer :: "string \<Rightarrow> string \<Rightarrow> int \<Rightarrow> int \<Rightarrow> string + int" where
  "batch_integer name s lo hi =
    (case from_chars s of
       Some n \<Rightarrow> if n < lo \<or> n > hi then Inl (name @ '' out of range'') else Inr n
     | None \<Rightarrow> Inl (name @ '' out of range''))"

definition parse_batch_mode :: "string \<Rightarrow> string + batch_config" where
  "parse_batch_mode v =
    (if v = ''auto'' then Inr \<lparr>bc_mode = Auto, bc_fixed_size = 1\<rparr>
     else if v = ''off'' then Inr \<lparr>bc_mode = Off, bc_fixed_size = 1\<rparr>
     else if v = ''1'' \<or> v = ''4'' \<or> v = ''8'' then
       (case batch_integer ''HAILO_BATCH_MODE'' v 1 8 of
          Inl e \<Rightarrow> Inl e
        | Inr n \<Rightarrow> Inr \<lparr>bc_mode = Fixed, bc_fixed_size = n\<rparr>)
     else Inl ''HAILO_BATCH_MODE must be auto, off, 1, 4, or 8'')"

definition parse_batch_wait_ms :: "string \<Rightarrow> string + int" where
  "parse_batch_wait_ms v = batch_integer ''HAILO_BATCH_WAIT_MS'' v 0 1000"

definition choose_batch :: "batch_config \<Rightarrow> int \<Rightarrow> bool \<Rightarrow> int \<Rightarrow> string + batch_decision" where
  "choose_batch c groups mc streams =
    (if groups < 1 \<or> streams < 1 then Inl ''invalid network group or stream count''
     else if bc_mode c = Off then Inr \<lparr>bd_multi_context = False, bd_shared = False, bd_batch_size = 1\<rparr>
     else if bc_mode c = Fixed then Inr \<lparr>bd_multi_context = mc, bd_shared = True, bd_batch_size = bc_fixed_size c\<rparr>
     else if groups \<noteq> 1 \<or> \<not> mc then Inr \<lparr>bd_multi_context = mc, bd_shared = False, bd_batch_size = 1\<rparr>
     else Inr \<lparr>bd_multi_context = True, bd_shared = True, bd_batch_size = (if streams \<le> 3 then 1 else if streams = 4 then 4 else 8)\<rparr>)"

definition batch_mode_name :: "batch_config \<Rightarrow> string" where
  "batch_mode_name c = (if bc_mode c = Auto then ''auto'' else if bc_mode c = Off then ''off'' else ''fixed'')"

section \<open>Queues\<close>

record batch_frame =
  bf_stream :: int
  bf_seq :: u64
  bf_timestamp :: int
  bf_rgb :: "u8 list"

record frame_batcher =
  ba_queues :: "batch_frame list list"
  ba_batch_size :: nat
  ba_wait_ms :: int
  ba_depth :: nat
  ba_rr :: nat
  ba_stopped :: bool
  ba_drops :: "u64 list"
  ba_hist :: "u64 list"

text \<open>A negative size makes the vectors throw before the check does.\<close>

definition new_batcher :: "int \<Rightarrow> int \<Rightarrow> int \<Rightarrow> nat \<Rightarrow> frame_batcher option" where
  "new_batcher n b wait d =
    (if n < 1 \<or> b < 1 \<or> wait < 0 \<or> d < 1 then None
     else Some \<lparr>ba_queues = replicate (nat n) [], ba_batch_size = nat b, ba_wait_ms = wait, ba_depth = d, ba_rr = 0, ba_stopped = False,
       ba_drops = replicate (nat n) 0, ba_hist = replicate (nat b + 1) 0\<rparr>)"

definition batch_enqueue :: "batch_frame \<Rightarrow> frame_batcher \<Rightarrow> frame_batcher \<times> bool" where
  "batch_enqueue f b =
    (if ba_stopped b \<or> bf_stream f < 0 \<or> length (ba_queues b) \<le> nat (bf_stream f) then (b, False)
     else
       let i = nat (bf_stream f); q = ba_queues b ! i;
           (q1, drops) = (if ba_depth b \<le> length q then (tl q, (ba_drops b)[i := ba_drops b ! i + 1]) else (q, ba_drops b))
       in (b\<lparr>ba_queues := (ba_queues b)[i := q1 @ [f]], ba_drops := drops\<rparr>, True))"

definition queued_frames :: "frame_batcher \<Rightarrow> nat" where
  "queued_frames b = sum_list (map length (ba_queues b))"

text \<open>The deadline of the oldest frame, of all queues.\<close>

definition take_deadline :: "frame_batcher \<Rightarrow> int option" where
  "take_deadline b =
    foldl (\<lambda>d q. case q of [] \<Rightarrow> d
      | f # _ \<Rightarrow> let t = bf_timestamp f + ba_wait_ms b * 1000000 in Some (case d of None \<Rightarrow> t | Some d \<Rightarrow> min d t)) None (ba_queues b)"

text \<open>One round over the queues: the oldest frame of each, as long as there is room.\<close>

fun fill_round :: "nat \<Rightarrow> nat list \<Rightarrow> batch_frame list list \<times> batch_frame list \<Rightarrow> batch_frame list list \<times> batch_frame list" where
  "fill_round room [] s = s"
| "fill_round room (i # is) (qs, out) =
    (if length out < room then
       (case qs ! i of [] \<Rightarrow> fill_round room is (qs, out) | f # q \<Rightarrow> fill_round room is (qs[i := q], out @ [f]))
     else (qs, out))"

definition take_out :: "frame_batcher \<Rightarrow> frame_batcher \<times> batch_frame list" where
  "take_out b =
    (let n = length (ba_queues b); order = map (\<lambda>k. (ba_rr b + k) mod n) [0..<n];
         (qs, out) = fill_round (ba_batch_size b) order (fill_round (ba_batch_size b) order (ba_queues b, []))
     in (b\<lparr>ba_queues := qs, ba_rr := (ba_rr b + 1) mod n, ba_hist := (ba_hist b)[length out := ba_hist b ! length out + 1]\<rparr>, out))"

text \<open>A call of \<open>take\<close> when it has the lock: it sleeps, finds the end, waits for more frames, or has its batch.\<close>

datatype take_call = Asleep | Over | Gather | Batch frame_batcher "batch_frame list"

definition take_call_of :: "int \<Rightarrow> frame_batcher \<Rightarrow> take_call" where
  "take_call_of now b =
    (if \<not> (queued_frames b > 0 \<or> ba_stopped b) then Asleep
     else if ba_stopped b then Over
     else if ba_wait_ms b > 0 \<and> (case take_deadline b of None \<Rightarrow> True | Some d \<Rightarrow> now < d) \<and> queued_frames b < ba_batch_size b then Gather
     else (case take_out b of (b', out) \<Rightarrow> Batch b' out))"

definition batch_stop :: "bool \<Rightarrow> frame_batcher \<Rightarrow> frame_batcher" where
  "batch_stop discard b = b\<lparr>ba_stopped := True, ba_queues := (if discard then map (\<lambda>_. []) (ba_queues b) else ba_queues b)\<rparr>"

definition batch_stats :: "frame_batcher \<Rightarrow> u64 list \<times> u64 list" where
  "batch_stats b = (ba_drops b, ba_hist b)"

section \<open>Steps\<close>

text \<open>The number counts the calls that wait for a fuller batch; such a wait ends with whatever is there then.\<close>

datatype batch_act = Put batch_frame bool | Took "batch_frame list" | Halted bool | Silent

inductive batch_step :: "frame_batcher \<times> nat \<Rightarrow> batch_act \<Rightarrow> frame_batcher \<times> nat \<Rightarrow> bool" where
  batch_put: "batch_enqueue f b = (b', ok) \<Longrightarrow> batch_step (b, g) (Put f ok) (b', g)"
| batch_now: "take_call_of now b = Batch b' out \<Longrightarrow> batch_step (b, g) (Took out) (b', g)"
| batch_gather: "take_call_of now b = Gather \<Longrightarrow> batch_step (b, g) Silent (b, Suc g)"
| batch_late: "take_out b = (b', out) \<Longrightarrow> batch_step (b, Suc g) (Took out) (b', g)"
| batch_over: "take_call_of now b = Over \<Longrightarrow> batch_step (b, g) Silent (b, g)"
| batch_halt: "batch_step (b, g) (Halted discard) (batch_stop discard b, g)"

inductive_cases batch_stepE: "batch_step s a s'"

inductive batch_run :: "frame_batcher \<times> nat \<Rightarrow> batch_act list \<Rightarrow> frame_batcher \<times> nat \<Rightarrow> bool" for s where
  batch_start: "batch_run s [] s"
| batch_next: "batch_run s as t \<Longrightarrow> batch_step t a u \<Longrightarrow> batch_run s (as @ [a]) u"

end
