(* ===== verification/Batching_Facts.thy ===== *)
theory Batching_Facts
  imports Batching "HOL-Library.Sublist"
begin

text \<open>
  What the shared batch promises: frames of a stream leave in the order they came in and every one of them is in the
  queue, in a batch or counted as dropped; no stream waits longer than one batch per stream.
\<close>

section \<open>Policy\<close>

lemma batch_mode_sizes: "parse_batch_mode v = Inr c \<Longrightarrow> bc_fixed_size c \<in> {1, 4, 8}"
  by (auto simp: parse_batch_mode_def batch_integer_def from_chars_def is_digit_def split: if_splits option.splits sum.splits)

lemma chosen_batch_sizes:
  assumes "parse_batch_mode v = Inr c" "choose_batch c groups mc streams = Inr d"
  shows "bd_batch_size d \<in> {1, 4, 8}" "bd_multi_context d \<longrightarrow> mc" "bd_batch_size d > 1 \<longrightarrow> bd_shared d"
  using assms batch_mode_sizes [OF assms(1)] by (auto simp: choose_batch_def split: if_splits)

section \<open>One round\<close>

definition of_stream :: "nat \<Rightarrow> batch_frame \<Rightarrow> bool" where
  "of_stream i f \<longleftrightarrow> bf_stream f = int i"

definition sorted_in :: "batch_frame list list \<Rightarrow> bool" where
  "sorted_in qs \<longleftrightarrow> (\<forall>i < length qs. \<forall>f \<in> set (qs ! i). of_stream i f)"

lemma sorted_in_tl:
  assumes "sorted_in qs" "qs ! i = f # q" "i < length qs"
  shows "sorted_in (qs[i := q])" "of_stream i f"
  using assms unfolding sorted_in_def by (auto simp: nth_list_update)

lemma of_stream_eq: "of_stream i f \<Longrightarrow> of_stream j f \<longleftrightarrow> j = i"
  by (auto simp: of_stream_def)

lemma fill_round_facts:
  assumes "fill_round room is (qs, out) = (qs', out')" "sorted_in qs" "\<forall>i \<in> set is. i < length qs" "length out \<le> room"
  shows "\<exists>new. out' = out @ new \<and> length qs' = length qs \<and> sorted_in qs' \<and> length out' \<le> room \<and>
    (\<forall>i < length qs. qs ! i = filter (of_stream i) new @ qs' ! i)"
  using assms
proof (induction room "is" "(qs, out)" arbitrary: qs out rule: fill_round.induct)
  case (2 room i "is" qs out)
  have i: "i < length qs" using "2.prems"(3) by simp
  show ?case
  proof (cases "length out < room")
    case True
    show ?thesis
    proof (cases "qs ! i")
      case Nil
      then show ?thesis using "2.hyps"(1) [OF True Nil] "2.prems" True by simp
    next
      case (Cons f q)
      have s: "sorted_in (qs[i := q])" "of_stream i f" using sorted_in_tl [OF "2.prems"(2) Cons i] .
      obtain new where n: "out' = (out @ [f]) @ new" "length qs' = length (qs[i := q])" "sorted_in qs'" "length out' \<le> room"
        "\<forall>j < length (qs[i := q]). qs[i := q] ! j = filter (of_stream j) new @ qs' ! j"
        using "2.hyps"(2) [OF True Cons] "2.prems" True Cons s(1) by auto
      have "qs ! j = filter (of_stream j) (f # new) @ qs' ! j" if "j < length qs" for j
        using spec [OF n(5), of j] that Cons of_stream_eq [OF s(2), of j] i by (cases "j = i") simp_all
      then show ?thesis using n by (intro exI [of _ "f # new"]) simp
    qed
  next
    case False
    then show ?thesis using "2.prems" by simp
  qed
qed simp

lemma fill_round_first:
  assumes "fill_round room (i # is) (qs, []) = (qs', out')" "qs ! i \<noteq> []" "0 < room" "sorted_in qs" "\<forall>j \<in> set (i # is). j < length qs"
  shows "\<exists>f \<in> set out'. of_stream i f"
proof -
  obtain f q where q: "qs ! i = f # q" using assms(2) by (cases "qs ! i") simp_all
  have "fill_round room is (qs[i := q], [f]) = (qs', out')" using assms(1,3) q by simp
  from fill_round_facts [OF this] sorted_in_tl [OF assms(4) q] assms(3,5) show ?thesis by fastforce
qed

section \<open>One batch\<close>

definition batcher_ok :: "frame_batcher \<Rightarrow> bool" where
  "batcher_ok b \<longleftrightarrow> ba_queues b \<noteq> [] \<and> 0 < ba_batch_size b \<and> 0 < ba_depth b \<and> ba_rr b < length (ba_queues b) \<and> sorted_in (ba_queues b) \<and>
    length (ba_drops b) = length (ba_queues b) \<and> length (ba_hist b) = Suc (ba_batch_size b) \<and>
    (\<forall>q \<in> set (ba_queues b). length q \<le> ba_depth b)"

lemma new_batcher_ok: "new_batcher n k wait d = Some b \<Longrightarrow> batcher_ok b"
  by (auto simp: new_batcher_def batcher_ok_def sorted_in_def split: if_splits)

definition take_order :: "frame_batcher \<Rightarrow> nat list" where
  "take_order b = map (\<lambda>k. (ba_rr b + k) mod length (ba_queues b)) [0..<length (ba_queues b)]"

lemma take_order_facts:
  assumes "batcher_ok b"
  shows "\<forall>i \<in> set (take_order b). i < length (ba_queues b)" "\<exists>is. take_order b = ba_rr b # is"
proof -
  have n: "0 < length (ba_queues b)" "ba_rr b < length (ba_queues b)" using assms by (simp_all add: batcher_ok_def)
  then show "\<forall>i \<in> set (take_order b). i < length (ba_queues b)" by (auto simp: take_order_def)
  show "\<exists>is. take_order b = ba_rr b # is" using n by (simp add: take_order_def upt_conv_Cons)
qed

lemma take_out_facts:
  assumes "take_out b = (b', out)" "batcher_ok b"
  shows "batcher_ok b'" "length out \<le> ba_batch_size b" "ba_rr b' = (ba_rr b + 1) mod length (ba_queues b)"
    "length (ba_queues b') = length (ba_queues b)" "ba_drops b' = ba_drops b" "ba_depth b' = ba_depth b"
    "\<forall>i < length (ba_queues b). ba_queues b ! i = filter (of_stream i) out @ ba_queues b' ! i"
    "ba_queues b ! ba_rr b \<noteq> [] \<Longrightarrow> \<exists>f \<in> set out. of_stream (ba_rr b) f"
proof -
  let ?r = "ba_batch_size b" and ?o = "take_order b"
  obtain q1 o1 where 1: "fill_round ?r ?o (ba_queues b, []) = (q1, o1)" by fastforce
  obtain q2 o2 where 2: "fill_round ?r ?o (q1, o1) = (q2, o2)" by fastforce
  have ok: "sorted_in (ba_queues b)" "0 < ?r" "ba_queues b \<noteq> []" using assms(2) by (simp_all add: batcher_ok_def)
  have b': "b' = b\<lparr>ba_queues := q2, ba_rr := (ba_rr b + 1) mod length (ba_queues b), ba_hist := (ba_hist b)[length o2 := ba_hist b ! length o2 + 1]\<rparr>"
    "out = o2"
    using assms(1) 1 2 by (auto simp: take_out_def take_order_def [symmetric] Let_def)
  obtain n1 where f1: "o1 = n1" "length q1 = length (ba_queues b)" "sorted_in q1" "length o1 \<le> ?r"
    "\<forall>i < length (ba_queues b). ba_queues b ! i = filter (of_stream i) n1 @ q1 ! i"
    using fill_round_facts [OF 1 ok(1) take_order_facts(1) [OF assms(2)]] by auto
  obtain n2 where f2: "o2 = o1 @ n2" "length q2 = length q1" "sorted_in q2" "length o2 \<le> ?r"
    "\<forall>i < length q1. q1 ! i = filter (of_stream i) n2 @ q2 ! i"
    using fill_round_facts [OF 2 f1(3) _ f1(4)] take_order_facts(1) [OF assms(2)] f1(2) by auto
  show q: "\<forall>i < length (ba_queues b). ba_queues b ! i = filter (of_stream i) out @ ba_queues b' ! i"
    using f1(1,2,5) f2(1,5) by (simp add: b')
  show "length out \<le> ba_batch_size b" "ba_rr b' = (ba_rr b + 1) mod length (ba_queues b)" "ba_drops b' = ba_drops b" "ba_depth b' = ba_depth b"
    and l: "length (ba_queues b') = length (ba_queues b)"
    using f2(2,4) f1(2) by (simp_all add: b')
  have "\<forall>x \<in> set (ba_queues b'). length x \<le> ba_depth b"
  proof
    fix x assume "x \<in> set (ba_queues b')"
    then obtain i where i: "i < length (ba_queues b)" "x = ba_queues b' ! i" using l by (metis in_set_conv_nth)
    then have "length x \<le> length (ba_queues b ! i)" using q by simp
    also have "\<dots> \<le> ba_depth b" using assms(2) i(1) by (simp add: batcher_ok_def)
    finally show "length x \<le> ba_depth b" .
  qed
  then show "batcher_ok b'" using assms(2) f2(2,3) f1(2) ok(3) by (auto simp: batcher_ok_def b')
  assume "ba_queues b ! ba_rr b \<noteq> []"
  moreover obtain "is" where "?o = ba_rr b # is" using take_order_facts(2) [OF assms(2)] by blast
  ultimately have "\<exists>f \<in> set o1. of_stream (ba_rr b) f"
    using fill_round_first [of ?r "ba_rr b" "is" "ba_queues b" q1 o1] 1 ok take_order_facts(1) [OF assms(2)] by simp
  then show "\<exists>f \<in> set out. of_stream (ba_rr b) f" using f2(1) b'(2) by auto
qed

section \<open>Runs\<close>

definition accepted :: "nat \<Rightarrow> batch_act list \<Rightarrow> batch_frame list" where
  "accepted i as = concat (map (\<lambda>a. case a of Put f ok \<Rightarrow> if ok \<and> of_stream i f then [f] else [] | _ \<Rightarrow> []) as)"

definition served :: "nat \<Rightarrow> batch_act list \<Rightarrow> batch_frame list" where
  "served i as = concat (map (\<lambda>a. case a of Took fs \<Rightarrow> filter (of_stream i) fs | _ \<Rightarrow> []) as)"

definition batches :: "batch_act list \<Rightarrow> nat" where
  "batches as = length (filter (\<lambda>a. case a of Took _ \<Rightarrow> True | _ \<Rightarrow> False) as)"

lemma run_words_append [simp]:
  "accepted i (as @ bs) = accepted i as @ accepted i bs" "served i (as @ bs) = served i as @ served i bs"
  "batches (as @ bs) = batches as + batches bs" "accepted i [] = []" "served i [] = []" "batches [] = 0"
  by (simp_all add: accepted_def served_def batches_def)

lemma set_tl: "set (tl xs) \<subseteq> set xs"
  by (cases xs) auto

lemma enqueue_facts:
  assumes "batch_enqueue f b = (b', ok)" "batcher_ok b"
  shows "batcher_ok b'" "ba_rr b' = ba_rr b" "length (ba_queues b') = length (ba_queues b)" "ba_depth b' = ba_depth b"
    "\<not> ok \<Longrightarrow> b' = b" "ok \<Longrightarrow> \<exists>i < length (ba_queues b). of_stream i f \<and>
      ba_queues b' = (ba_queues b)[i := (if ba_depth b \<le> length (ba_queues b ! i) then tl (ba_queues b ! i) else ba_queues b ! i) @ [f]] \<and>
      ba_drops b' = (if ba_depth b \<le> length (ba_queues b ! i) then (ba_drops b)[i := ba_drops b ! i + 1] else ba_drops b)"
proof -
  define i where "i = nat (bf_stream f)"
  show "\<not> ok \<Longrightarrow> b' = b" using assms(1) by (auto simp: batch_enqueue_def Let_def split: if_splits prod.splits)
  have m: "i < length (ba_queues b) \<and> of_stream i f \<and>
      b' = b\<lparr>ba_queues := (ba_queues b)[i := (if ba_depth b \<le> length (ba_queues b ! i) then tl (ba_queues b ! i) else ba_queues b ! i) @ [f]],
        ba_drops := (if ba_depth b \<le> length (ba_queues b ! i) then (ba_drops b)[i := ba_drops b ! i + 1] else ba_drops b)\<rparr>" if "ok"
    using assms(1) that by (auto simp: batch_enqueue_def Let_def of_stream_def i_def split: if_splits)
  then show "ok \<Longrightarrow> \<exists>i < length (ba_queues b). of_stream i f \<and>
      ba_queues b' = (ba_queues b)[i := (if ba_depth b \<le> length (ba_queues b ! i) then tl (ba_queues b ! i) else ba_queues b ! i) @ [f]] \<and>
      ba_drops b' = (if ba_depth b \<le> length (ba_queues b ! i) then (ba_drops b)[i := ba_drops b ! i + 1] else ba_drops b)"
    by (intro exI [of _ i]) simp
  show "ba_rr b' = ba_rr b" "length (ba_queues b') = length (ba_queues b)" "ba_depth b' = ba_depth b"
    using m \<open>\<not> ok \<Longrightarrow> b' = b\<close> by (cases ok; simp)+
  show "batcher_ok b'"
  proof (cases ok)
    case True
    note m = m [OF True]
    let ?q = "(if ba_depth b \<le> length (ba_queues b ! i) then tl (ba_queues b ! i) else ba_queues b ! i) @ [f]"
    have d: "length (ba_queues b ! i) \<le> ba_depth b" "0 < ba_depth b" "sorted_in (ba_queues b)"
      using assms(2) m by (simp_all add: batcher_ok_def)
    have "length ?q \<le> ba_depth b" using d(1,2) by (cases "ba_depth b \<le> length (ba_queues b ! i)"; cases "ba_queues b ! i") auto
    moreover have "sorted_in ((ba_queues b)[i := ?q])"
      using d(3) m subsetD [OF set_tl] by (fastforce simp: sorted_in_def nth_list_update)
    ultimately show ?thesis using assms(2) m by (auto simp: batcher_ok_def dest!: set_update_subset_insert [THEN subsetD])
  qed (use assms(2) \<open>\<not> ok \<Longrightarrow> b' = b\<close> in simp)
qed

lemma take_call_batch: "take_call_of now b = Batch b' out \<Longrightarrow> take_out b = (b', out)"
  by (auto simp: take_call_of_def split: if_splits prod.splits)

lemma batch_stop_ok: "batcher_ok b \<Longrightarrow> batcher_ok (batch_stop d b)"
  by (auto simp: batcher_ok_def batch_stop_def sorted_in_def)

lemma batch_step_ok:
  assumes "batch_step (b, g) a (b', g')" "batcher_ok b"
  shows "batcher_ok b' \<and> length (ba_queues b') = length (ba_queues b) \<and> ba_depth b' = ba_depth b"
  using assms(1)
proof (cases rule: batch_step.cases)
  case (batch_put f ok)
  then show ?thesis using enqueue_facts [OF _ assms(2)] by blast
next
  case (batch_now now out)
  then show ?thesis using take_out_facts [OF take_call_batch assms(2)] by blast
next
  case (batch_late out)
  then show ?thesis using take_out_facts [OF _ assms(2)] by blast
qed (use assms(2) in \<open>auto simp: batch_stop_ok, simp_all add: batch_stop_def\<close>)

lemma batch_run_ok:
  assumes "batch_run s as t" "batcher_ok (fst s)"
  shows "batcher_ok (fst t) \<and> length (ba_queues (fst t)) = length (ba_queues (fst s)) \<and> ba_depth (fst t) = ba_depth (fst s)"
  using assms
proof (induction rule: batch_run.induct)
  case (batch_next as t a u)
  obtain b g b' g' where tu: "t = (b, g)" "u = (b', g')" by fastforce
  then show ?case using batch_step_ok [of b g a b' g'] batch_next by simp
qed simp

section \<open>Properties\<close>

text \<open>One step changes a stream's queue by what it accepts, serves and drops.\<close>

lemma batch_step_stream:
  assumes "batch_step (b, g) a (b', g')" "batcher_ok b" "i < length (ba_queues b)" "a \<noteq> Halted True"
  shows "\<exists>gone. ba_queues b ! i @ accepted i [a] = gone @ ba_queues b' ! i \<and> subseq (served i [a]) gone \<and>
    ba_drops b' ! i = ba_drops b ! i + of_nat (length gone - length (served i [a]))"
  using assms(1)
proof (cases rule: batch_step.cases)
  case (batch_put f ok)
  note e = enqueue_facts [OF batch_put(3) assms(2)]
  show ?thesis
  proof (cases "ok \<and> of_stream i f")
    case True
    then obtain j where j: "of_stream j f" "ba_queues b' = (ba_queues b)[j := (if ba_depth b \<le> length (ba_queues b ! j) then tl (ba_queues b ! j) else ba_queues b ! j) @ [f]]"
      "ba_drops b' = (if ba_depth b \<le> length (ba_queues b ! j) then (ba_drops b)[j := ba_drops b ! j + 1] else ba_drops b)"
      using e(6) by blast
    have [simp]: "j = i" using True j(1) of_stream_eq by blast
    have q: "0 < ba_depth b" "i < length (ba_drops b)" using assms(2,3) by (simp_all add: batcher_ok_def)
    show ?thesis
    proof (cases "ba_depth b \<le> length (ba_queues b ! i)")
      case full: True
      then obtain x xs where x: "ba_queues b ! i = x # xs" using q(1) by (cases "ba_queues b ! i") auto
      then show ?thesis using True j full assms(3) q batch_put(1) by (intro exI [of _ "[x]"]) (simp add: accepted_def served_def)
    qed (use True j assms(3) batch_put(1) in \<open>simp add: accepted_def served_def\<close>)
  next
    case False
    then have "ba_queues b' ! i = ba_queues b ! i \<and> ba_drops b' ! i = ba_drops b ! i" using e(5,6) of_stream_eq by (cases ok) fastforce+
    then show ?thesis using False batch_put(1) by (intro exI [of _ "[]"]) (auto simp: accepted_def served_def)
  qed
next
  case (batch_now now out)
  note t = take_out_facts [OF take_call_batch [OF batch_now(3)] assms(2)]
  show ?thesis using t(5,7) assms(3) batch_now(1) by (intro exI [of _ "filter (of_stream i) out"]) (simp add: accepted_def served_def)
next
  case (batch_late out)
  note t = take_out_facts [OF batch_late(3) assms(2)]
  show ?thesis using t(5,7) assms(3) batch_late(1,2) by (intro exI [of _ "filter (of_stream i) out"]) (simp add: accepted_def served_def)
qed (use assms(4) in \<open>auto simp: accepted_def served_def batch_stop_def\<close>)





lemma batch_run_waits:
  assumes "batch_run s as t" "batcher_ok (fst s)" "i < length (ba_queues (fst s))" "Halted True \<notin> set as" "ba_queues (fst s) ! i \<noteq> []" "served i as = []"
  shows "ba_queues (fst t) ! i \<noteq> [] \<and> ba_rr (fst t) = (ba_rr (fst s) + batches as) mod length (ba_queues (fst s)) \<and>
    batches as \<le> (i + length (ba_queues (fst s)) - ba_rr (fst s)) mod length (ba_queues (fst s))"
  using assms
proof (induction rule: batch_run.induct)
  case batch_start
  then show ?case by (simp add: batcher_ok_def)
next
  case (batch_next as t a u)
  let ?n = "length (ba_queues (fst s))" and ?r = "ba_rr (fst s)"
  obtain b g b' g' where tu: "t = (b, g)" "u = (b', g')" by fastforce
  have IH: "ba_queues b ! i \<noteq> []" "ba_rr b = (?r + batches as) mod ?n" "batches as \<le> (i + ?n - ?r) mod ?n" and none: "served i [a] = []"
    using batch_next.IH batch_next.prems tu by simp_all
  have ok: "batcher_ok b" "length (ba_queues b) = ?n" "?r < ?n"
    using batch_run_ok [OF batch_next.hyps(1) batch_next.prems(1)] batch_next.prems(1) [unfolded batcher_ok_def] tu by simp_all
  obtain more where m: "ba_queues b ! i @ accepted i [a] = more @ ba_queues b' ! i" "subseq (served i [a]) more"
    "ba_drops b' ! i = ba_drops b ! i + of_nat (length more - length (served i [a]))"
    using batch_step_stream [of b g a b' g' i] batch_next.hyps(2) tu ok batch_next.prems(2,3) by auto
  show ?case
  proof (cases "\<exists>fs. a = Took fs")
    case True
    then obtain fs where a: "a = Took fs" by blast
    have t: "take_out b = (b', fs)" using batch_next.hyps(2) unfolding tu a by (auto elim!: batch_stepE dest!: take_call_batch)
    note f = take_out_facts [OF t ok(1)]
    have u: "filter (of_stream i) fs = []" using none by (simp add: a served_def)
    then have "ba_rr b \<noteq> i" using f(8) IH(1) by (auto simp: filter_empty_conv)
    moreover have "(?r + (i + ?n - ?r) mod ?n) mod ?n = i" using ok(3) batch_next.prems(2) by (simp add: mod_add_right_eq)
    ultimately have "batches as \<noteq> (i + ?n - ?r) mod ?n" using IH(2) by metis
    then have "batches [a] = 1" "Suc (batches as) \<le> (i + ?n - ?r) mod ?n" using IH(3) by (simp_all add: a batches_def)
    moreover have "ba_queues b' ! i \<noteq> []" using f(7) u IH(1) ok(2) batch_next.prems(2) by simp
    ultimately show ?thesis using f(3) IH(2) ok(2) tu by (simp add: mod_Suc_eq)
  next
    case False
    have "ba_rr b' = ba_rr b" using batch_next.hyps(2) False unfolding tu
      by (cases rule: batch_step.cases) (auto simp: batch_enqueue_def batch_stop_def Let_def split: if_splits)
    moreover have "batches [a] = 0" using False by (cases a) (simp_all add: batches_def)
    moreover have "ba_queues b' ! i \<noteq> []"
      using batch_next.hyps(2) [unfolded tu]
    proof (cases rule: batch_step.cases)
      case (batch_put f ok')
      note e = enqueue_facts(5,6) [OF batch_put(3) ok(1)]
      show ?thesis
      proof (cases ok')
        case True
        then obtain j q where "ba_queues b' = (ba_queues b)[j := q @ [f]]" using e(2) by blast
        then show ?thesis using IH(1) ok(2) batch_next.prems(2) by (cases "j = i") simp_all
      qed (use e(1) IH(1) in simp)
    qed (use False IH(1) batch_next.prems(3) in \<open>auto simp: batch_stop_def\<close>)
    ultimately show ?thesis using IH tu by simp
  qed
qed

text \<open>C38: a stream that has a frame waiting is served within as many batches as there are streams, whatever else is put and
  taken, unless a stop discards the queues.\<close>

theorem no_stream_starves_in_the_batcher:
  assumes "new_batcher n k wait d = Some b0" "batch_run (b0, 0) before (b, g)" "ba_queues b ! i \<noteq> []" "i < nat n"
    "batch_run (b, g) as (b', g')" "Halted True \<notin> set as" "nat n \<le> batches as"
  shows "served i as \<noteq> []"
proof
  assume s: "served i as = []"
  have b: "batcher_ok b" "length (ba_queues b) = nat n"
    using batch_run_ok [OF assms(2)] new_batcher_ok [OF assms(1)] assms(1) by (auto simp: new_batcher_def split: if_splits)
  have "batches as \<le> (i + length (ba_queues b) - ba_rr b) mod length (ba_queues b)"
    using batch_run_waits [OF assms(5), of i] b assms(3,4,6) s by simp
  moreover have "\<dots> < nat n" using assms(4) b(2) by simp
  ultimately show False using assms(7) by simp
qed

text \<open>Frames that a stop without \<open>discard\<close> leaves in the queues are never handed out: every later call finds the end.\<close>

lemma kept_frames_are_not_taken: "take_call_of now (batch_stop False b) = Over" "ba_queues (batch_stop False b) = ba_queues b"
  by (simp_all add: take_call_of_def batch_stop_def)

section \<open>Instances\<close>

definition frame_a :: batch_frame where "frame_a = \<lparr>bf_stream = 0, bf_seq = 1, bf_timestamp = 0, bf_rgb = []\<rparr>"
definition frame_b :: batch_frame where "frame_b = \<lparr>bf_stream = 1, bf_seq = 1, bf_timestamp = 0, bf_rgb = []\<rparr>"

definition batcher0 :: frame_batcher where
  "batcher0 = \<lparr>ba_queues = [[], []], ba_batch_size = 1, ba_wait_ms = 0, ba_depth = 2, ba_rr = 0, ba_stopped = False, ba_drops = [0, 0], ba_hist = [0, 0]\<rparr>"

lemma batcher0: "new_batcher 2 1 0 2 = Some batcher0"
  by (simp add: new_batcher_def batcher0_def numeral_2_eq_2)

lemma fill_batcher0: "batch_run (batcher0, 0) [Put frame_a True, Put frame_b True] (batcher0\<lparr>ba_queues := [[frame_a], [frame_b]]\<rparr>, 0)"
proof -
  have 1: "batch_step (batcher0, 0) (Put frame_a True) (batcher0\<lparr>ba_queues := [[frame_a], []]\<rparr>, 0)"
    by (rule batch_put) (simp add: batch_enqueue_def batcher0_def frame_a_def)
  have 2: "batch_step (batcher0\<lparr>ba_queues := [[frame_a], []]\<rparr>, 0) (Put frame_b True) (batcher0\<lparr>ba_queues := [[frame_a], [frame_b]]\<rparr>, 0)"
    by (rule batch_put) (simp add: batch_enqueue_def batcher0_def frame_b_def)
  show ?thesis using batch_next [OF batch_next [OF batch_start 1] 2] by simp
qed

lemma take_batcher0:
  "batch_run (batcher0\<lparr>ba_queues := [[frame_a], [frame_b]]\<rparr>, 0) [Took [frame_a], Took [frame_b]]
    (batcher0\<lparr>ba_hist := [0, 2]\<rparr>, 0)"
proof -
  have 1: "batch_step (batcher0\<lparr>ba_queues := [[frame_a], [frame_b]]\<rparr>, 0) (Took [frame_a])
      (batcher0\<lparr>ba_queues := [[], [frame_b]], ba_rr := 1, ba_hist := [0, 1]\<rparr>, 0)"
    by (rule batch_now [of 0]) (simp add: take_call_of_def take_out_def queued_frames_def batcher0_def upt_rec)
  have 2: "batch_step (batcher0\<lparr>ba_queues := [[], [frame_b]], ba_rr := 1, ba_hist := [0, 1]\<rparr>, 0) (Took [frame_b])
      (batcher0\<lparr>ba_hist := [0, 2]\<rparr>, 0)"
    by (rule batch_now [of 0]) (simp add: take_call_of_def take_out_def queued_frames_def batcher0_def upt_rec)
  show ?thesis using batch_next [OF batch_next [OF batch_start 1] 2] by simp
qed


theorem no_stream_starves_in_the_batcher_witness: "served 1 [Took [frame_a], Took [frame_b]] \<noteq> []"
  by (rule no_stream_starves_in_the_batcher [OF batcher0 fill_batcher0 _ _ take_batcher0]) (simp_all add: batches_def)

end
