(* ===== verification/Snapshot.thy ===== *)
theory Snapshot
  imports Pool Tensor_View
begin

text \<open>
  Snapshots (\<open>snapshot.cpp\<close>): the part of the frame around a track and its reduction to a largest side. The JPEG encoder
  is an argument. Reads of pixels are checked: \<open>None\<close> is a read outside the buffer. Every image has rows without
  padding.
\<close>

section \<open>The box\<close>

definition fceil :: "f32 \<Rightarrow> f32" where
  "fceil x = - ffloor (- x)"

definition clip_coord :: "f32 \<Rightarrow> f32 \<Rightarrow> int" where
  "clip_coord side v = fl_to_int (std_max 0 (std_min side v))"

text \<open>Corner, width and height of the part inside the frame, if there is one.\<close>

definition snapshot_clip_box :: "f32 \<Rightarrow> f32 \<Rightarrow> f32 \<Rightarrow> f32 \<Rightarrow> int \<Rightarrow> int \<Rightarrow> (int \<times> int \<times> int \<times> int) option" where
  "snapshot_clip_box x0 y0 x1 y1 w h =
    (if w \<le> 0 \<or> h \<le> 0 then None
     else
       let fx0 = ffloor x0; fy0 = ffloor y0; fx1 = fceil x1; fy1 = fceil y1 in
         if \<not> fx1 > fx0 \<or> \<not> fy1 > fy0 then None
         else
           let fw = fl_of_int w; fh = fl_of_int h;
               ix0 = clip_coord fw fx0; iy0 = clip_coord fh fy0; ix1 = clip_coord fw fx1; iy1 = clip_coord fh fy1
           in if ix1 \<le> ix0 \<or> iy1 \<le> iy0 then None else Some (ix0, iy0, ix1 - ix0, iy1 - iy0))"

section \<open>Pixels\<close>

record image =
  im_w :: int
  im_h :: int
  im_px :: "u8 list"

definition copy_bytes :: "u8 list \<Rightarrow> int \<Rightarrow> int \<Rightarrow> u8 list option" where
  "copy_bytes src off n = (if 0 \<le> off \<and> 0 \<le> n \<and> nat (off + n) \<le> length src then Some (take (nat n) (drop (nat off) src)) else None)"

definition crop_image :: "image \<Rightarrow> int \<times> int \<times> int \<times> int \<Rightarrow> image option" where
  "crop_image im b =
    (case b of (cx0, cy0, cw, ch) \<Rightarrow>
       map_option (\<lambda>rows. \<lparr>im_w = cw, im_h = ch, im_px = concat rows\<rparr>)
         (collect_some (\<lambda>y. copy_bytes (im_px im) ((y + cy0) * (im_w im * 3) + cx0 * 3) (cw * 3)) [0..ch - 1]))"

definition scaled_pixel :: "image \<Rightarrow> f32 \<Rightarrow> int \<Rightarrow> int \<Rightarrow> u8 list option" where
  "scaled_pixel im s y x =
    (let sy = min (im_h im - 1) (fl_to_int (fl_of_int y / s)); sx = min (im_w im - 1) (fl_to_int (fl_of_int x / s))
     in copy_bytes (im_px im) (sy * (im_w im * 3) + sx * 3) 3)"

definition scale_image :: "int \<Rightarrow> image \<Rightarrow> image option" where
  "scale_image max_side im =
    (if max_side > 0 \<and> max (im_w im) (im_h im) > max_side then
       let s = fl_of_int max_side / fl_of_int (max (im_w im) (im_h im));
           nw = max 1 (fl_to_int (fl_of_int (im_w im) * s)); nh = max 1 (fl_to_int (fl_of_int (im_h im) * s))
       in map_option (\<lambda>rows. \<lparr>im_w = nw, im_h = nh, im_px = concat (map concat rows)\<rparr>)
            (collect_some (\<lambda>y. collect_some (scaled_pixel im s y) [0..nw - 1]) [0..nh - 1])
     else Some im)"

text \<open>The picture that goes to the encoder.\<close>

definition snapshot_image :: "ring_entry \<Rightarrow> u32 \<Rightarrow> bool \<Rightarrow> int \<Rightarrow> (string + image) option" where
  "snapshot_image e track_id crop max_side =
    (let im = \<lparr>im_w = re_w e, im_h = re_h e, im_px = re_pixels e\<rparr>;
         found = (if crop \<and> track_id \<noteq> 0 then find (\<lambda>b. sb_track_id b = track_id) (re_boxes e) else None)
     in case found of
          None \<Rightarrow> map_option Inr (scale_image max_side im)
        | Some b \<Rightarrow>
            (case snapshot_clip_box (sb_x0 b) (sb_y0 b) (sb_x1 b) (sb_y1 b) (re_w e) (re_h e) of
               None \<Rightarrow> Some (Inl ''snapshot crop box does not intersect the frame'')
             | Some c \<Rightarrow> map_option Inr (Option.bind (crop_image im c) (scale_image max_side))))"

text \<open>\<open>encode\<close> gets width, height, bytes per row and the pixels; without JPEG support every snapshot is refused.\<close>

definition snapshot_encode_jpeg :: "(int \<Rightarrow> int \<Rightarrow> int \<Rightarrow> u8 list \<Rightarrow> string + u8 list) option \<Rightarrow> ring_entry \<Rightarrow> u32 \<Rightarrow> bool \<Rightarrow> int \<Rightarrow>
    (string + u8 list \<times> int \<times> int) option" where
  "snapshot_encode_jpeg encode e track_id crop max_side =
    (case encode of
       None \<Rightarrow> Some (Inl ''snapshot unsupported'')
     | Some enc \<Rightarrow>
         (case snapshot_image e track_id crop max_side of
            None \<Rightarrow> None
          | Some (Inl err) \<Rightarrow> Some (Inl err)
          | Some (Inr im) \<Rightarrow>
              (case enc (im_w im) (im_h im) (im_w im * 3) (im_px im) of
                 Inl err \<Rightarrow> Some (Inl err)
               | Inr jpeg \<Rightarrow> Some (Inr (jpeg, im_w im, im_h im)))))"

section \<open>Coordinates\<close>

lemma fl_of_int_24:
  assumes "0 < n" "n \<le> 2 ^ 24"
  shows "fl_of_int n = (FNum (of_int n) :: f32)"
proof -
  have "repr 24 (- 149) (of_int n)" unfolding repr_def using assms by (intro exI [of _ n] exI [of _ 0]) simp
  moreover have "(of_int n :: rat) \<le> of_int (2 ^ 24)" using assms(2) by (simp only: of_int_le_iff)
  ultimately have "fround False (of_int n) = (if (of_int n :: rat) = 0 then FZero False else (FNum (of_int n) :: f32))"
    using assms(1) by (intro fround_exact [where k = 24]) simp_all
  then show ?thesis using assms(1) by (simp add: fl_of_int_def)
qed

lemma clip_coord_range:
  assumes "0 < n" "n \<le> 2 ^ 24"
  shows "0 \<le> clip_coord (fl_of_int n) v \<and> clip_coord (fl_of_int n) v \<le> n"
proof (cases v)
  case (FNum q)
  have "\<lfloor>q\<rfloor> \<le> n" if "q < of_int n" using that by linarith
  then show ?thesis using assms FNum by (simp add: clip_coord_def fl_of_int_24 std_min_def std_max_def fl_to_int_def zero_fl_def)
next
  case (FInf s)
  then show ?thesis using assms by (cases s) (simp_all add: clip_coord_def fl_of_int_24 std_min_def std_max_def fl_to_int_def zero_fl_def)
qed (use assms in \<open>simp_all add: clip_coord_def fl_of_int_24 std_min_def std_max_def fl_to_int_def zero_fl_def\<close>)

lemma clip_box_inside:
  assumes "snapshot_clip_box x0 y0 x1 y1 w h = Some (cx, cy, cw, ch)" "w \<le> 2 ^ 24" "h \<le> 2 ^ 24"
  shows "0 \<le> cx" "0 \<le> cy" "1 \<le> cw" "1 \<le> ch" "cx + cw \<le> w" "cy + ch \<le> h"
proof -
  have w: "0 < w" "0 < h" using assms(1) by (auto simp: snapshot_clip_box_def split: if_splits)
  note r = clip_coord_range [OF w(1) assms(2)] clip_coord_range [OF w(2) assms(3)]
  show "0 \<le> cx" "0 \<le> cy" "1 \<le> cw" "1 \<le> ch" "cx + cw \<le> w" "cy + ch \<le> h"
    using assms(1) r(1) [of "ffloor x0"] r(1) [of "fceil x1"] r(2) [of "ffloor y0"] r(2) [of "fceil y1"]
    by (auto simp: snapshot_clip_box_def Let_def split: if_splits)
qed

fun not_below :: "('e::len, 'p::len) fl \<Rightarrow> bool" where
  "not_below FNaN = True"
| "not_below (FInf s) = (\<not> s)"
| "not_below (FZero s) = (\<not> s)"
| "not_below (FNum q) = (0 \<le> q)"

lemma not_below_fround: "0 \<le> r \<Longrightarrow> not_below (fround False r)"
  using rnd_nonneg [of r] by (auto simp: fround_def Let_def not_less)

lemma not_below_divide: "not_below x \<Longrightarrow> not_below y \<Longrightarrow> not_below (divide x y)"
  by (cases x; cases y) (auto simp: not_below_fround split: if_splits)

lemma fl_to_int_not_below: "not_below x \<Longrightarrow> 0 \<le> fl_to_int x"
  by (cases x) (auto simp: fl_to_int_def)

lemma not_below_of_int: "0 \<le> k \<Longrightarrow> not_below (fl_of_int k)"
  by (simp add: fl_of_int_def not_below_fround)

section \<open>Reads stay inside\<close>

definition image_ok :: "image \<Rightarrow> bool" where
  "image_ok im \<longleftrightarrow> 1 \<le> im_w im \<and> 1 \<le> im_h im \<and> int (length (im_px im)) = im_w im * im_h im * 3"

lemma copy_bytes_inside:
  "0 \<le> off \<Longrightarrow> 0 \<le> n \<Longrightarrow> off + n \<le> int (length src) \<Longrightarrow> \<exists>bs. copy_bytes src off n = Some bs \<and> int (length bs) = n"
  by (simp add: copy_bytes_def)

lemma pixel_inside:
  assumes "0 \<le> y" "y < h" "0 \<le> x" "0 \<le> n" "x + n \<le> w"
  shows "0 \<le> y * (w * 3) + x * 3" "y * (w * 3) + x * 3 + n * 3 \<le> w * h * (3 :: int)"
proof -
  have "y * w + w \<le> h * w" using mult_right_mono [of "y + 1" h w] assms by (simp add: algebra_simps)
  then show "y * (w * 3) + x * 3 + n * 3 \<le> w * h * 3" using assms(5) by (simp add: algebra_simps)
  show "0 \<le> y * (w * 3) + x * 3" using assms by simp
qed

lemma collect_rows:
  assumes "\<And>x. x \<in> set xs \<Longrightarrow> \<exists>r. f x = Some r \<and> int (length r) = n"
  shows "\<exists>rows. collect_some f xs = Some rows \<and> int (length (concat rows)) = int (length xs) * n"
  using assms
proof (induction xs)
  case (Cons x xs)
  obtain r where r: "f x = Some r" "int (length r) = n" using Cons.prems [of x] by auto
  obtain rows where "collect_some f xs = Some rows" "int (length (concat rows)) = int (length xs) * n"
    using Cons.IH Cons.prems by auto
  then show ?case using r by (simp add: algebra_simps)
qed simp

lemma crop_image_inside:
  assumes "image_ok im" "0 \<le> cx" "0 \<le> cy" "1 \<le> cw" "1 \<le> ch" "cx + cw \<le> im_w im" "cy + ch \<le> im_h im"
  shows "\<exists>im'. crop_image im (cx, cy, cw, ch) = Some im' \<and> image_ok im' \<and> im_w im' = cw \<and> im_h im' = ch"
proof -
  have "\<exists>r. copy_bytes (im_px im) ((y + cy) * (im_w im * 3) + cx * 3) (cw * 3) = Some r \<and> int (length r) = cw * 3"
    if "y \<in> set [0..ch - 1]" for y
  proof -
    have y: "0 \<le> y + cy" "y + cy < im_h im" using that assms by auto
    show ?thesis using copy_bytes_inside [of _ "cw * 3" "im_px im"] pixel_inside [OF y assms(2) _ assms(6)] assms(1,4)
      by (simp add: image_ok_def)
  qed
  from collect_rows [OF this, of "[0..ch - 1]" "\<lambda>y. y"] assms(4,5) show ?thesis
    by (auto simp: crop_image_def image_ok_def)
qed

lemma scaled_pixel_inside:
  assumes "image_ok im" "not_below s" "0 \<le> y" "0 \<le> x"
  shows "\<exists>r. scaled_pixel im s y x = Some r \<and> int (length r) = 3"
proof -
  define sy sx where "sy = min (im_h im - 1) (fl_to_int (fl_of_int y / s))" and "sx = min (im_w im - 1) (fl_to_int (fl_of_int x / s))"
  have "0 \<le> fl_to_int (fl_of_int k / s)" if "0 \<le> k" for k
    using that by (intro fl_to_int_not_below not_below_divide not_below_of_int assms(2))
  then have r: "0 \<le> sy" "sy < im_h im" "0 \<le> sx" "sx + 1 \<le> im_w im" using assms by (simp_all add: sy_def sx_def image_ok_def)
  show ?thesis using copy_bytes_inside [of _ 3 "im_px im"] pixel_inside [OF r(1,2,3) _ r(4)] assms(1)
    by (simp add: scaled_pixel_def image_ok_def flip: sy_def sx_def)
qed

lemma scale_image_inside:
  assumes "image_ok im"
  shows "\<exists>im'. scale_image side im = Some im' \<and> image_ok im'"
proof (cases "side > 0 \<and> max (im_w im) (im_h im) > side")
  case True
  define s :: f32 where "s = fl_of_int side / fl_of_int (max (im_w im) (im_h im))"
  define nw nh where "nw = max 1 (fl_to_int (fl_of_int (im_w im) * s))" and "nh = max 1 (fl_to_int (fl_of_int (im_h im) * s))"
  have s: "not_below s" using True by (simp add: s_def not_below_divide not_below_of_int)
  have row: "\<exists>r. map_option concat (collect_some (scaled_pixel im s y) [0..nw - 1]) = Some r \<and> int (length r) = nw * 3" if "0 \<le> y" for y
    using collect_rows [of "[0..nw - 1]" "scaled_pixel im s y" 3] scaled_pixel_inside [OF assms s that] by (auto simp: nw_def)
  have "\<exists>rows. collect_some (\<lambda>y. map_option concat (collect_some (scaled_pixel im s y) [0..nw - 1])) [0..nh - 1] = Some rows \<and>
      int (length (concat rows)) = nh * (nw * 3)"
    using collect_rows [of "[0..nh - 1]" "\<lambda>y. map_option concat (collect_some (scaled_pixel im s y) [0..nw - 1])" "nw * 3"] row
    by (auto simp: nh_def)
  moreover have "collect_some (\<lambda>y. map_option concat (f y)) ys = map_option (map concat) (collect_some f ys)" for f :: "int \<Rightarrow> u8 list list option" and ys
    by (induction ys) (auto simp: map_option_bind option.map_comp comp_def split: option.splits bind_splits)
  ultimately show ?thesis
    using True by (auto simp: scale_image_def Let_def image_ok_def algebra_simps nw_def nh_def simp flip: s_def)
qed (use assms in \<open>auto simp: scale_image_def\<close>)

text \<open>C40: for a frame whose pixels fill its rows, with at most \<open>2^24\<close> rows and columns, a snapshot never reads a pixel
  outside the frame or the cropped image, whatever the boxes (infinities and NaN included), the track and the largest side are: it
  is refused, or the encoder gets an image of at least one pixel whose bytes fill it exactly.\<close>

theorem snapshot_reads_inside:
  assumes "1 \<le> re_w e" "re_w e \<le> 2 ^ 24" "1 \<le> re_h e" "re_h e \<le> 2 ^ 24" "int (length (re_pixels e)) = re_w e * re_h e * 3"
  shows "\<exists>res. snapshot_image e tid crop side = Some res \<and> (case res of Inl _ \<Rightarrow> True
    | Inr im \<Rightarrow> 1 \<le> im_w im \<and> 1 \<le> im_h im \<and> int (length (im_px im)) = im_w im * im_h im * 3)"
proof -
  define im where "im = \<lparr>im_w = re_w e, im_h = re_h e, im_px = re_pixels e\<rparr>"
  have im: "image_ok im" using assms by (simp add: image_ok_def im_def)
  define found where "found = (if crop \<and> tid \<noteq> 0 then find (\<lambda>b. sb_track_id b = tid) (re_boxes e) else None)"
  show ?thesis
  proof (cases found)
    case None
    then show ?thesis using scale_image_inside [OF im, of side]
      by (auto simp: snapshot_image_def image_ok_def Let_def simp flip: im_def found_def)
  next
    case (Some b)
    show ?thesis
    proof (cases "snapshot_clip_box (sb_x0 b) (sb_y0 b) (sb_x1 b) (sb_y1 b) (re_w e) (re_h e)")
      case (Some c)
      obtain cx cy cw ch where c: "c = (cx, cy, cw, ch)" by (cases c)
      obtain im' where "crop_image im c = Some im'" "image_ok im'"
        using crop_image_inside [OF im clip_box_inside(1-4) [OF Some [unfolded c] assms(2,4)], unfolded im_def]
          clip_box_inside(5,6) [OF Some [unfolded c] assms(2,4)] unfolding c im_def by auto
      then show ?thesis using \<open>found = Some b\<close> Some scale_image_inside [of im' side]
        by (auto simp: snapshot_image_def image_ok_def Let_def simp flip: im_def found_def)
    qed (use Some in \<open>auto simp: snapshot_image_def Let_def simp flip: im_def found_def\<close>)
  qed
qed

definition two_pixels :: ring_entry where
  "two_pixels = \<lparr>re_seq = 1, re_w = 2, re_h = 1, re_pixels = [1, 2, 3, 4, 5, 6],
     re_boxes = [\<lparr>sb_track_id = 7, sb_x0 = FNum 1, sb_y0 = 0, sb_x1 = FInf False, sb_y1 = 1\<rparr>]\<rparr>"

theorem snapshot_reads_inside_witness:
  "\<exists>im. snapshot_image two_pixels 7 True 0 = Some (Inr im) \<and> int (length (im_px im)) = im_w im * im_h im * 3"
proof -
  have "snapshot_image two_pixels 7 True 0 = Some (Inr \<lparr>im_w = 1, im_h = 1, im_px = [4, 5, 6]\<rparr>)" by code_simp
  moreover have "\<exists>res. snapshot_image two_pixels 7 True 0 = Some res \<and> (case res of Inl _ \<Rightarrow> True
    | Inr im \<Rightarrow> 1 \<le> im_w im \<and> 1 \<le> im_h im \<and> int (length (im_px im)) = im_w im * im_h im * 3)"
    by (rule snapshot_reads_inside) (simp_all add: two_pixels_def)
  ultimately show ?thesis by (intro exI conjI) auto
qed

end
