(* ===== verification/Cpu_Backend.thy ===== *)
theory Cpu_Backend
  imports Event_Json Decoders Runtime_Config Sha256
begin

text \<open>
  The CPU backend (\<open>backends/cpu/cpu_backend.cpp\<close>): its configuration with the check of the model's digest, the
  conversion of a frame into the input tensor, and the path of the outputs through the decoders. ONNX Runtime is a
  parameter: what it says of a model and what a run gives. Reads of pixels are checked: \<open>None\<close> is a read outside the frame or
  a tensor.
\<close>

section \<open>The model file\<close>

definition cpu_max_model_bytes :: nat where "cpu_max_model_bytes = 256 * 1024 * 1024"
definition cpu_max_model_dim :: int where "cpu_max_model_dim = 4096"
definition cpu_max_input_bytes :: int where "cpu_max_input_bytes = 128 * 1024 * 1024"

text \<open>\<open>known\<close> is the size that seeking to the end gives, \<open>chunks\<close> are the reads until the end.\<close>

fun read_chunks :: "string \<Rightarrow> u8 list list \<Rightarrow> u8 list \<Rightarrow> string + u8 list" where
  "read_chunks path [] bytes = (if bytes = [] then Inl (''empty model file: '' @ path) else Inr bytes)"
| "read_chunks path (c # cs) bytes =
    (if length bytes + length c > cpu_max_model_bytes then Inl (''model file too large: '' @ path) else read_chunks path cs (bytes @ c))"

definition read_model_file :: "string \<Rightarrow> (nat option \<times> u8 list list) option \<Rightarrow> string + u8 list" where
  "read_model_file path file =
    (case file of
       None \<Rightarrow> Inl (''cannot open model: '' @ path)
     | Some (known, reads) \<Rightarrow>
         (case known of
            Some n \<Rightarrow>
              if n > cpu_max_model_bytes then
                Inl (''model file too large: '' @ path @ '' ('' @ dec_digits n @ '' bytes > '' @ dec_digits cpu_max_model_bytes @ '')'')
              else read_chunks path reads []
          | None \<Rightarrow> read_chunks path reads []))"

definition is_sha256_hex :: "string \<Rightarrow> bool" where
  "is_sha256_hex s \<longleftrightarrow> length s = 64 \<and>
    list_all (\<lambda>ch. let k = (of_char ch :: nat) in (48 \<le> k \<and> k \<le> 57) \<or> (97 \<le> k \<and> k \<le> 102) \<or> (65 \<le> k \<and> k \<le> 70)) s"

definition lower_ascii :: "string \<Rightarrow> string" where
  "lower_ascii s = map (\<lambda>ch. let k = (of_char ch :: nat) in if 65 \<le> k \<and> k \<le> 90 then char_of (k + 32) else ch) s"

section \<open>Configuration\<close>

text \<open>The decoder and whether it is the raw one.\<close>

definition cpu_decoder :: "libs \<Rightarrow> json \<Rightarrow> (decoder option \<times> bool) outcome" where
  "cpu_decoder lb j =
    (case json_find ''decoder'' j of
       Some (JObj m) \<Rightarrow>
         and_then (lift_err (make_decoder lb (lb_dump lb (JObj m)))) (\<lambda>d.
         and_then (check (d \<noteq> None) []) (\<lambda>_.
         and_then (json_value get_string (JObj m) ''type'' []) (\<lambda>ty. Returned (d, ty = ''raw''))))
     | dj \<Rightarrow>
         let name = (case dj of Some (JStr s) \<Rightarrow> s | _ \<Rightarrow> ''yolox'')
         in and_then (check (name = ''yolox'') (''cpu backend: unsupported decoder '' @ [CHR 0x27] @ name @ [CHR 0x27])) (\<lambda>_. Returned (None, False)))"

definition input_color :: "json \<Rightarrow> input_spec \<Rightarrow> input_spec outcome" where
  "input_color ij spec =
    (case json_find ''color_order'' ij of
       None \<Rightarrow> Returned spec
     | Some v \<Rightarrow>
         and_then (get_string v) (\<lambda>co.
           if co = ''bgr'' then Returned (spec\<lparr>is_color_order := BGR\<rparr>)
           else if co = ''rgb'' then Returned (spec\<lparr>is_color_order := RGB\<rparr>)
           else Refused ''backend.input.color_order must be bgr or rgb''))"

definition input_divide :: "json \<Rightarrow> input_spec \<Rightarrow> input_spec outcome" where
  "input_divide ij spec =
    (case json_find ''divide'' ij of
       None \<Rightarrow> Returned spec
     | Some v \<Rightarrow>
         and_then (get_double v) (\<lambda>dv.
           if \<not> dv > 0 then Refused ''backend.input.divide must be > 0'' else Returned (spec\<lparr>is_divide := fconv dv\<rparr>)))"

definition cpu_input :: "json \<Rightarrow> input_spec outcome" where
  "cpu_input j =
    and_then (case json_find ''decoder'' j of Some (JObj m) \<Rightarrow> json_value get_string (JObj m) ''type'' ''yolox'' | _ \<Rightarrow> Returned ''yolox'') (\<lambda>ty.
      case json_find ''input'' j of
        Some (JObj m) \<Rightarrow> and_then (input_color (JObj m) (default_for_decoder ty)) (input_divide (JObj m))
      | _ \<Rightarrow> Returned (default_for_decoder ty))"

record cpu_config =
  cc_model_path :: string
  cc_sha256 :: string
  cc_bytes :: "u8 list"
  cc_threads :: int
  cc_decoder :: "decoder option"
  cc_raw :: bool
  cc_input :: input_spec

text \<open>The constructor up to the verified bytes.\<close>

definition cpu_config_of :: "libs \<Rightarrow> (string \<Rightarrow> (nat option \<times> u8 list list) option) \<Rightarrow> string \<Rightarrow> cpu_config outcome" where
  "cpu_config_of lb files txt =
    and_then (if txt = [] then Returned (json_obj [])
              else case lb_parse lb txt of Inl e \<Rightarrow> Refused (''cpu backend json: '' @ e) | Inr j \<Rightarrow> Returned j) (\<lambda>j.
    case json_find ''model_path'' j of
      None \<Rightarrow> Refused ''cpu backend requires backend.model_path''
    | Some mp \<Rightarrow>
        and_then (cpu_decoder lb j) (\<lambda>(d, raw).
        and_then (cpu_input j) (\<lambda>inp.
        and_then (get_string mp) (\<lambda>path.
        and_then (json_value get_int j ''intra_threads'' 2) (\<lambda>threads.
        and_then (json_value get_string j ''model_sha256'' []) (\<lambda>want.
        and_then (check (want = [] \<or> is_sha256_hex want) ''backend.model_sha256 must be 64 hex characters'') (\<lambda>_.
        and_then (lift_err (read_model_file path (files path))) (\<lambda>bytes.
        let sha = sha256_hex bytes in
        and_then (check (want = [] \<or> lower_ascii want = sha)
          (''model sha256 mismatch: expected '' @ lower_ascii want @ '', got '' @ sha)) (\<lambda>_.
        Returned \<lparr>cc_model_path = path, cc_sha256 = sha, cc_bytes = bytes, cc_threads = max 1 threads,
          cc_decoder = d, cc_raw = raw, cc_input = inp\<rparr>)))))))))"

text \<open>What ONNX Runtime says of the model.\<close>

record ort_model =
  ot_n_in :: nat
  ot_out_names :: "string list"
  ot_in_dims :: "int list"

record cpu_backend =
  cb_decoder :: "decoder option"
  cb_raw :: bool
  cb_input :: input_spec
  cb_out_names :: "string list"
  cb_w :: int
  cb_h :: int
  cb_transposed :: bool
  cb_last_raw :: "dev_tensor list"

definition open_model :: "(u8 list \<Rightarrow> int \<Rightarrow> string + ort_model) \<Rightarrow> cpu_config \<Rightarrow> string + cpu_backend" where
  "open_model ort cc =
    bind_err (ort (cc_bytes cc) (cc_threads cc)) (\<lambda>om.
      let dims = ot_in_dims om; n_out = length (ot_out_names om); mh = dims ! 2; mw = dims ! 3 in
        if ot_n_in om \<noteq> 1 \<or> n_out < 1 \<or> (cc_decoder cc = None \<and> n_out \<noteq> 1) then
          Inl ''cpu backend expects a single-input model with one output (multi-output only with backend.decoder)''
        else if length dims \<noteq> 4 \<or> dims ! 1 \<noteq> 3 then Inl ''cpu backend expects an NCHW RGB input''
        else if mh \<le> 0 \<or> mw \<le> 0 then Inl ''model input must have static H/W''
        else if mh > cpu_max_model_dim \<or> mw > cpu_max_model_dim then
          Inl (''model input too large: '' @ show_int mw @ ''x'' @ show_int mh @ '' (max '' @ show_int cpu_max_model_dim @ '' per side)'')
        else if 3 * mh * mw * 4 > cpu_max_input_bytes then
          Inl (''model input tensor too large: '' @ show_int (3 * mh * mw * 4) @ '' bytes'')
        else Inr \<lparr>cb_decoder = cc_decoder cc, cb_raw = cc_raw cc, cb_input = cc_input cc, cb_out_names = ot_out_names om,
          cb_w = mw, cb_h = mh, cb_transposed = False, cb_last_raw = []\<rparr>)"

section \<open>The input tensor\<close>

text \<open>Two neighbouring rows or columns of the source and the weight of the second.\<close>

definition source_pos :: "int \<Rightarrow> int \<Rightarrow> f32 \<Rightarrow> int \<Rightarrow> int \<times> int \<times> f32" where
  "source_pos y origin scale n =
    (let sy = (fl_of_int (y - origin) + lit (1/2)) / scale - lit (1/2); y0 = fl_to_int (ffloor sy); fy = sy - fl_of_int y0;
         (y0, fy) = (if y0 < 0 then (0, 0) else (y0, fy)); (y0, fy) = (if y0 > n - 1 then (n - 1, 0) else (y0, fy))
     in (y0, min (y0 + 1) (n - 1), fy))"

definition byte_at :: "u8 list \<Rightarrow> int \<Rightarrow> f32 option" where
  "byte_at src off = (if 0 \<le> off then map_option (\<lambda>b. fl_of_int (uint b)) (rd src (nat off)) else None)"

definition channel_at :: "u8 list \<Rightarrow> int \<Rightarrow> f32 \<Rightarrow> int \<times> int \<times> f32 \<Rightarrow> int \<times> int \<times> f32 \<Rightarrow> int \<Rightarrow> f32 option" where
  "channel_at src stride dv py px k =
    (case py of (y0, y1, fy) \<Rightarrow> case px of (x0, x1, fx) \<Rightarrow>
       do {
         p00 \<leftarrow> byte_at src (y0 * stride + x0 * 3 + k); p01 \<leftarrow> byte_at src (y0 * stride + x1 * 3 + k);
         p10 \<leftarrow> byte_at src (y1 * stride + x0 * 3 + k); p11 \<leftarrow> byte_at src (y1 * stride + x1 * 3 + k);
         Some (((p00 * (1 - fx) + p01 * fx) * (1 - fy) + (p10 * (1 - fx) + p11 * fx) * fy) / dv)
       })"

definition plane_at :: "u8 list \<Rightarrow> frame_buf \<Rightarrow> letterbox_geom \<Rightarrow> f32 \<Rightarrow> int \<Rightarrow> f32 list option" where
  "plane_at src f g dv k =
    map_option concat (collect_some (\<lambda>y. collect_some (\<lambda>x.
        channel_at src (fb_stride f) dv (source_pos y (fl_to_int (lg_pad_y g)) (lg_scale g) (fb_h f))
          (source_pos x (fl_to_int (lg_pad_x g)) (lg_scale g) (fb_w f)) k)
      [0..lg_model_w g - 1]) [0..lg_model_h g - 1])"

definition preprocess :: "u8 list \<Rightarrow> frame_buf \<Rightarrow> letterbox_geom \<Rightarrow> input_spec \<Rightarrow> f32 list option" where
  "preprocess src f g spec =
    do {
      r \<leftarrow> plane_at src f g (is_divide spec) 0; gr \<leftarrow> plane_at src f g (is_divide spec) 1; b \<leftarrow> plane_at src f g (is_divide spec) 2;
      Some (if is_color_order spec = BGR then b @ gr @ r else r @ gr @ b)
    }"

section \<open>The outputs\<close>

text \<open>A tensor that a run gives: its shape and its elements, floats or the bytes of another element type.\<close>

datatype ort_data = Floats "f32 list" | Typed int "u8 list"

record ort_out =
  oo_dims :: "int list"
  oo_data :: ort_data

definition elem_count :: "int list \<Rightarrow> nat" where
  "elem_count dims = unat (foldl (\<lambda>e d. e * word_of_int d) (1 :: u64) dims)"

definition drop_batch :: "int list \<Rightarrow> int list" where
  "drop_batch dims = (if dims \<noteq> [] \<and> hd dims = 1 then tl dims else dims)"

text \<open>
  The elements, read as floats. The bytes of another element type are read as floats too, four for each element, whatever the type's
  width: with fewer bytes than that the read leaves the buffer.
\<close>

definition floats_of_bytes :: "nat \<Rightarrow> u8 list \<Rightarrow> f32 list" where
  "floats_of_bytes n bs = map (\<lambda>i. bits_f32 (of_nat (get_le (take 4 (drop (4 * i) bs))))) [0..<n]"

definition float_elements :: "ort_out \<Rightarrow> f32 list option" where
  "float_elements v =
    (case oo_data v of
       Floats xs \<Rightarrow> if elem_count (oo_dims v) \<le> length xs then Some (take (elem_count (oo_dims v)) xs) else None
     | Typed _ bs \<Rightarrow>
         if 4 * elem_count (oo_dims v) \<le> length bs then Some (floats_of_bytes (elem_count (oo_dims v)) bs) else None)"

definition output_view :: "string \<times> ort_out \<Rightarrow> tensor_view option" where
  "output_view o1 =
    map_option (\<lambda>xs. \<lparr>tv_data = Some xs, tv_dims = drop_batch (oo_dims (snd o1)), tv_name = fst o1\<rparr>) (float_elements (snd o1))"

definition vbt1_dtype :: "ort_data \<Rightarrow> string + u8" where
  "vbt1_dtype d =
    (case d of
       Floats _ \<Rightarrow> Inr 0
     | Typed ty _ \<Rightarrow> Inl (''raw tensor element type '' @ show_int ty @ '' is not float32; VBT1 carries f32 only''))"

text \<open>The copies for the raw output; tensors of more than four dimensions are left out.\<close>

fun raw_copies :: "(string \<times> ort_out) list \<Rightarrow> (string + dev_tensor list) option" where
  "raw_copies [] = Some (Inr [])"
| "raw_copies ((name, v) # rest) =
    (if length (drop_batch (oo_dims v)) > 4 then raw_copies rest
     else
       case vbt1_dtype (oo_data v) of
         Inl e \<Rightarrow> Some (Inl e)
       | Inr ty \<Rightarrow>
           do {
             xs \<leftarrow> float_elements v;
             res \<leftarrow> raw_copies rest;
             Some (bind_err res (\<lambda>ts. Inr (\<lparr>dt_dtype = ty, dt_nhwc = False, dt_dims = map as_int32 (drop_batch (oo_dims v)), dt_scale = 1, dt_zero_point = 0,
               dt_name = ascii name, dt_data = concat (map put_f32 xs)\<rparr> # ts)))
           })"

text \<open>Anchors, classes and whether the tensor is transposed, for the head without a decoder.\<close>

definition head_shape :: "int list \<Rightarrow> int \<times> int \<times> bool" where
  "head_shape dims =
    (case dims of
       [d0, d1, d2] \<Rightarrow>
         if d0 \<noteq> 1 then (0, 0, False)
         else if 6 \<le> d2 \<and> d2 \<le> 200 then (as_int32 d1, d2 - 5, False)
         else if 6 \<le> d1 \<and> d1 \<le> 200 then (as_int32 d2, d1 - 5, True)
         else (0, 0, False)
     | _ \<Rightarrow> (0, 0, False))"

definition decode_head :: "f32 \<Rightarrow> f32 \<Rightarrow> ort_out \<Rightarrow> cpu_backend \<Rightarrow> (cpu_backend \<times> (string + decoded)) option" where
  "decode_head score nms_th v cb =
    (case oo_data v of
       Typed ty _ \<Rightarrow>
         Some (cb, Inl (''cpu backend: output element type '' @ show_int ty @ '' is not float32 (quantised models need backend.decoder)''))
     | Floats _ \<Rightarrow>
         (case head_shape (oo_dims v) of
            (anchors, n_cls, t) \<Rightarrow>
              let cb' = cb\<lparr>cb_transposed := cb_transposed cb \<or> t\<rparr> in
                if anchors \<le> 0 \<or> n_cls \<le> 0 \<or> int (elem_count (oo_dims v)) < anchors * (n_cls + 5) then
                  Some (cb', Inl ''cpu backend: unexpected output shape'')
                else if cb_transposed cb' \<and> \<not> int_range (anchors * (n_cls + 5) - 1) then None
                else
                  do {
                    data \<leftarrow> float_elements v;
                    rows \<leftarrow> collect_some (\<lambda>i. rds data (feature_indices (cb_transposed cb') (nat (n_cls + 5)) (nat anchors) i)) [0..<nat anchors];
                    cands \<leftarrow> collect_some (yolox_candidate (cb_w cb) (cb_h cb) score) rows;
                    Some (cb', Inr (finish_decode [] nms_th cands))
                  }))"

definition decode_outputs :: "(f32 \<Rightarrow> f32) \<Rightarrow> f32 \<Rightarrow> f32 \<Rightarrow> ort_out list \<Rightarrow> cpu_backend \<Rightarrow> (cpu_backend \<times> (string + decoded)) option" where
  "decode_outputs ex score nms_th outs cb =
    (case cb_decoder cb of
       None \<Rightarrow> (case outs of v # _ \<Rightarrow> decode_head score nms_th v cb | [] \<Rightarrow> None)
     | Some d \<Rightarrow>
         let named = zip (cb_out_names cb) outs in
           if cb_raw cb then
             map_option (\<lambda>res. case res of
                 Inl e \<Rightarrow> (cb, Inl e)
               | Inr cap \<Rightarrow> (cb\<lparr>cb_last_raw := cap\<rparr>, Inr ([], [], [])))
               (raw_copies named)
           else do {
             views \<leftarrow> collect_some output_view named;
             res \<leftarrow> decode ex d views (cb_w cb) (cb_h cb) score nms_th;
             Some (cb, res)
           })"

text \<open>A run of one frame; \<open>ts\<close> are the four readings of the clock.\<close>

definition cpu_run :: "(f32 \<Rightarrow> f32) \<Rightarrow> (f32 list \<Rightarrow> string + ort_out list) \<Rightarrow> f64 \<times> f64 \<times> f64 \<times> f64 \<Rightarrow> frame_buf \<Rightarrow> f32 \<Rightarrow> f32 \<Rightarrow>
    cpu_backend \<Rightarrow> (cpu_backend \<times> detection_result outcome) option" where
  "cpu_run ex ort ts f score nms_th cb =
    (case letterbox_fit (fb_w f) (fb_h f) (cb_w cb) (cb_h cb) Align_Center of
       None \<Rightarrow> Some (cb, Thrown)
     | Some g \<Rightarrow>
         (case (fb_host f, fb_fmt f) of
            (None, _) \<Rightarrow> Some (cb, Refused ''cpu backend requires host RGB888/BGR888 frames'')
          | (Some _, NV12) \<Rightarrow> Some (cb, Refused ''cpu backend requires host RGB888/BGR888 frames'')
          | (Some src, _) \<Rightarrow>
              do {
                nchw \<leftarrow> preprocess src f g (cb_input cb);
                case ort nchw of
                  Inl e \<Rightarrow> Some (cb, Refused e)
                | Inr outs \<Rightarrow>
                    map_option (\<lambda>(cb', res). (cb', case res of
                        Inl e \<Rightarrow> Refused e
                      | Inr (ds, ks, _) \<Rightarrow>
                          (case ts of (t0, t1, t2, t3) \<Rightarrow>
                             Returned \<lparr>dr_dets = ds, dr_kpts = ks, dr_geom = g, dr_preprocess_ms = fconv (t1 - t0),
                               dr_inference_ms = fconv (t2 - t1), dr_postprocess_ms = fconv (t3 - t2)\<rparr>)))
                      (decode_outputs ex score nms_th outs cb)
              }))"

text \<open>The context takes one frame at a time and keeps a copy of the raw tensors.\<close>

definition cpu_infer :: "(f32 \<Rightarrow> f32) \<Rightarrow> (f32 list \<Rightarrow> string + ort_out list) \<Rightarrow> f64 \<times> f64 \<times> f64 \<times> f64 \<Rightarrow> frame_buf list \<Rightarrow> f32 \<Rightarrow> f32 \<Rightarrow>
    cpu_backend \<times> dev_tensor list \<Rightarrow> ((cpu_backend \<times> dev_tensor list) \<times> detection_result outcome) option" where
  "cpu_infer ex ort ts frames score nms_th s =
    (case frames of
       [f] \<Rightarrow>
         map_option (\<lambda>(cb, res). ((cb, case res of Returned _ \<Rightarrow> if cb_raw cb then cb_last_raw cb else snd s | _ \<Rightarrow> snd s), res))
           (cpu_run ex ort ts f score nms_th (fst s))
     | _ \<Rightarrow> Some (s, Refused ''cpu backend max_batch is 1''))"

definition cpu_caps :: "nat \<Rightarrow> cpu_backend \<Rightarrow> caps" where
  "cpu_caps cores cb =
    \<lparr>cp_max_contexts = int (min (if cores = 0 then 4 else cores) 8), cp_max_batch = 1,
     cp_keypoints = (case cb_decoder cb of None \<Rightarrow> 0 | Some d \<Rightarrow> decoder_keypoints d), cp_exclusive_device = False\<rparr>"

end
