(* ===== verification/Cpu_Properties.thy ===== *)
theory Cpu_Properties
  imports Cpu_Backend
begin

text \<open>
  What the CPU backend promises: a run never reads outside the frame or the tensors, whatever the frame's
  contents and the model are; an accepted model is within the bounds and has the digest that was asked for.
\<close>

section \<open>Configuration\<close>

lemma lift_err_Returned [simp]: "lift_err r = Returned x \<longleftrightarrow> r = Inr x"
  by (cases r) (simp_all add: lift_err_def)

lemma cpu_decoder_made:
  assumes "cpu_decoder lb j = Returned (Some d, raw)"
  shows "\<exists>m. json_find ''decoder'' j = Some (JObj m) \<and> make_decoder lb (lb_dump lb (JObj m)) = Inr (Some d)"
  using assms by (auto simp: cpu_decoder_def and_then_Returned Let_def split: option.splits json.splits)

lemma cpu_config_decoder:
  assumes "cpu_config_of lb files txt = Returned cc" "lb_parse lb txt = Inr j" "txt \<noteq> []"
  shows "cpu_decoder lb j = Returned (cc_decoder cc, cc_raw cc)"
  using assms by (auto simp: cpu_config_of_def and_then_Returned Let_def split: option.splits)

lemma read_chunks_bound:
  "read_chunks path cs bytes = Inr bs \<Longrightarrow> length bytes \<le> cpu_max_model_bytes \<Longrightarrow> bs \<noteq> [] \<and> length bs \<le> cpu_max_model_bytes"
  by (induction path cs bytes rule: read_chunks.induct) (auto split: if_splits)

text \<open>A backend that is made has a model of the digest that the configuration asks for, within the bounds on file and input.\<close>

lemma accepted_model_is_bounded:
  assumes "cpu_config_of lb files txt = Returned cc" "open_model model cc = Inr cb"
  shows "cc_sha256 cc = sha256_hex (cc_bytes cc)" "cc_bytes cc \<noteq> []" "length (cc_bytes cc) \<le> cpu_max_model_bytes"
    "1 \<le> cb_w cb" "cb_w cb \<le> 4096" "1 \<le> cb_h cb" "cb_h cb \<le> 4096" "12 * cb_h cb * cb_w cb \<le> 2 ^ 27"
proof -
  show "cc_sha256 cc = sha256_hex (cc_bytes cc)"
    using assms(1) by (auto simp: cpu_config_of_def and_then_Returned Let_def split: option.splits if_splits)
  obtain path opened where "read_model_file path opened = Inr (cc_bytes cc)"
    using assms(1) by (auto simp: cpu_config_of_def and_then_Returned Let_def split: option.splits if_splits)
  then show "cc_bytes cc \<noteq> []" "length (cc_bytes cc) \<le> cpu_max_model_bytes"
    by (auto simp: read_model_file_def dest!: read_chunks_bound split: option.splits if_splits)
  show "1 \<le> cb_w cb" "cb_w cb \<le> 4096" "1 \<le> cb_h cb" "cb_h cb \<le> 4096" "12 * cb_h cb * cb_w cb \<le> 2 ^ 27"
    using assms(2) by (auto simp: open_model_def bind_err_Inr Let_def cpu_max_model_dim_def cpu_max_input_bytes_def split: if_splits)
qed

section \<open>The input tensor\<close>

lemma source_pos_range: "1 \<le> n \<Longrightarrow> source_pos y o' s n = (a, b, w) \<Longrightarrow> 0 \<le> a \<and> a < n \<and> 0 \<le> b \<and> b < n"
  by (auto simp: source_pos_def Let_def split: if_splits)

definition frame_fills :: "frame_buf \<Rightarrow> u8 list \<Rightarrow> bool" where
  "frame_fills f src \<longleftrightarrow> 1 \<le> fb_w f \<and> 1 \<le> fb_h f \<and> fb_w f * 3 \<le> fb_stride f \<and> fb_h f * fb_stride f \<le> int (length src)"

lemma byte_inside:
  assumes "frame_fills f src" "0 \<le> y" "y < fb_h f" "0 \<le> x" "x < fb_w f" "0 \<le> k" "k < 3"
  shows "\<exists>b. byte_at src (y * fb_stride f + x * 3 + k) = Some b"
proof -
  have "(y + 1) * fb_stride f \<le> fb_h f * fb_stride f" using assms by (intro mult_right_mono) (auto simp: frame_fills_def)
  then have "y * fb_stride f + x * 3 + k < int (length src)" using assms by (auto simp: frame_fills_def distrib_right)
  moreover have "0 \<le> y * fb_stride f" using assms by (auto simp: frame_fills_def)
  ultimately show ?thesis using assms(4,6) by (simp add: byte_at_def rd_def)
qed

lemma channel_inside:
  assumes "frame_fills f src" "0 \<le> k" "k < 3"
  shows "\<exists>v. channel_at src (fb_stride f) dv (source_pos y oy s (fb_h f)) (source_pos x ox s (fb_w f)) k = Some v"
proof -
  obtain y0 y1 fy where y: "source_pos y oy s (fb_h f) = (y0, y1, fy)" by (metis prod_cases3)
  obtain x0 x1 fx where x: "source_pos x ox s (fb_w f) = (x0, x1, fx)" by (metis prod_cases3)
  have "1 \<le> fb_h f" "1 \<le> fb_w f" using assms(1) by (simp_all add: frame_fills_def)
  then have r: "0 \<le> y0" "y0 < fb_h f" "0 \<le> y1" "y1 < fb_h f" "0 \<le> x0" "x0 < fb_w f" "0 \<le> x1" "x1 < fb_w f"
    using source_pos_range [OF _ y] source_pos_range [OF _ x] by simp_all
  obtain a b c d where "byte_at src (y0 * fb_stride f + x0 * 3 + k) = Some a" "byte_at src (y0 * fb_stride f + x1 * 3 + k) = Some b"
    "byte_at src (y1 * fb_stride f + x0 * 3 + k) = Some c" "byte_at src (y1 * fb_stride f + x1 * 3 + k) = Some d"
    using byte_inside [OF assms(1) r(1,2) r(5,6) assms(2,3)] byte_inside [OF assms(1) r(1,2) r(7,8) assms(2,3)]
      byte_inside [OF assms(1) r(3,4) r(5,6) assms(2,3)] byte_inside [OF assms(1) r(3,4) r(7,8) assms(2,3)] by blast
  then show ?thesis by (simp add: channel_at_def x y)
qed

lemma length_collect_some: "collect_some f xs = Some ys \<Longrightarrow> length ys = length xs"
  by (induction xs arbitrary: ys) (auto simp: Option.bind_eq_Some_conv)

lemma collect_grid:
  assumes "\<And>y x. \<exists>v. f y x = Some v"
  shows "\<exists>rows. collect_some (\<lambda>y. collect_some (f y) xs) ys = Some rows \<and> length (concat rows) = length ys * length xs"
proof -
  have r: "\<exists>row. collect_some (f y) xs = Some row \<and> length row = length xs" for y
  proof -
    have "collect_some (f y) xs \<noteq> None" using assms by (intro collect_some_defined) simp
    then show ?thesis using length_collect_some by blast
  qed
  show ?thesis
  proof (induction ys)
    case (Cons y ys)
    then show ?case using r [of y] by auto
  qed simp
qed

lemma plane_inside:
  assumes "frame_fills f src" "0 \<le> k" "k < 3"
  shows "\<exists>p. plane_at src f g dv k = Some p \<and> length p = nat (lg_model_h g) * nat (lg_model_w g)"
  using collect_grid [of "\<lambda>y x. channel_at src (fb_stride f) dv (source_pos y (fl_to_int (lg_pad_y g)) (lg_scale g) (fb_h f))
      (source_pos x (fl_to_int (lg_pad_x g)) (lg_scale g) (fb_w f)) k" "[0..lg_model_w g - 1]" "[0..lg_model_h g - 1]"]
    channel_inside [OF assms] by (auto simp: plane_at_def)

lemma preprocess_inside:
  assumes "frame_fills f src"
  shows "\<exists>xs. preprocess src f g spec = Some xs \<and> length xs = 3 * (nat (lg_model_h g) * nat (lg_model_w g))"
proof -
  obtain r gr b where "plane_at src f g (is_divide spec) 0 = Some r" "plane_at src f g (is_divide spec) 1 = Some gr"
    "plane_at src f g (is_divide spec) 2 = Some b" "length r = nat (lg_model_h g) * nat (lg_model_w g)"
    "length gr = nat (lg_model_h g) * nat (lg_model_w g)" "length b = nat (lg_model_h g) * nat (lg_model_w g)"
    using plane_inside [OF assms, of 0 g] plane_inside [OF assms, of 1 g] plane_inside [OF assms, of 2 g] by fastforce
  then show ?thesis by (simp add: preprocess_def)
qed

section \<open>The outputs\<close>

text \<open>What the run-time promises of a tensor: the elements of a tensor of floats are as many as its shape says.\<close>

definition out_fills :: "ort_out \<Rightarrow> bool" where
  "out_fills v \<longleftrightarrow> (case oo_data v of Floats xs \<Rightarrow> length xs = elem_count (oo_dims v) | Typed _ _ \<Rightarrow> True)"

text \<open>What a tensor must have besides where it is decoded: at least four bytes for each element, and no more elements than \<open>int\<close> can index.\<close>

definition decodable :: "ort_out \<Rightarrow> bool" where
  "decodable v \<longleftrightarrow> elem_count (oo_dims v) \<le> 2 ^ 31 \<and>
     (case oo_data v of Floats _ \<Rightarrow> True | Typed _ bs \<Rightarrow> 4 * elem_count (oo_dims v) \<le> length bs)"

lemma float_elements_fit: "out_fills v \<Longrightarrow> oo_data v = Floats ys \<or> decodable v \<Longrightarrow>
    \<exists>xs. float_elements v = Some xs \<and> length xs = elem_count (oo_dims v)"
  by (auto simp: out_fills_def decodable_def float_elements_def floats_of_bytes_def split: ort_data.splits)

lemma raw_copies_defined: "\<forall>(n, v) \<in> set named. out_fills v \<Longrightarrow> raw_copies named \<noteq> None"
proof (induction named)
  case (Cons nv rest)
  obtain name v where nv: "nv = (name, v)" by fastforce
  then have v: "out_fills v" using Cons.prems by simp
  obtain res where res: "raw_copies rest = Some res" using Cons by auto
  show ?case
  proof (cases "oo_data v")
    case (Floats ys)
    with float_elements_fit [OF v] obtain xs where "float_elements v = Some xs" by blast
    with res show ?thesis by (auto simp: nv split: sum.splits)
  qed (use res in \<open>simp add: nv vbt1_dtype_def\<close>)
qed simp

lemma decode_head_defined:
  assumes "out_fills v" "elem_count (oo_dims v) \<le> 2 ^ 31" shows "decode_head score th v cb \<noteq> None"
proof (cases "oo_data v")
  case (Typed ty bs)
  then show ?thesis by (simp add: decode_head_def)
next
  case (Floats data)
  note d = this
  obtain anchors n_cls t where h: "head_shape (oo_dims v) = (anchors, n_cls, t)" by (metis prod_cases3)
  obtain xs where x: "float_elements v = Some xs" "length xs = elem_count (oo_dims v)" using float_elements_fit [OF assms(1)] d by blast
  have "collect_some (\<lambda>i. rds xs (feature_indices fm (nat (n_cls + 5)) (nat anchors) i)) [0..<nat anchors] \<bind>
      (\<lambda>rows. collect_some (yolox_candidate (cb_w cb) (cb_h cb) score) rows \<bind> (\<lambda>cands. Some (g cands))) \<noteq> None"
    if "0 < anchors" "0 < n_cls" "anchors * (n_cls + 5) \<le> int (elem_count (oo_dims v))"
    for fm and g :: "candidate list \<Rightarrow> cpu_backend \<times> (string + decoded)"
  proof -
    have "int (nat (n_cls + 5) * nat anchors) \<le> int (length xs)" using that x(2) by (simp add: mult.commute)
    then have "nat (n_cls + 5) * nat anchors \<le> length xs" by linarith
    moreover have f: "5 < nat (n_cls + 5)" using that(2) by simp
    ultimately obtain rows where r: "collect_some (\<lambda>i. rds xs (feature_indices fm (nat (n_cls + 5)) (nat anchors) i)) [0..<nat anchors] = Some rows"
      "\<forall>p \<in> set rows. length p = nat (n_cls + 5)" by (rule yolox_rows_defined)
    have "collect_some (yolox_candidate (cb_w cb) (cb_h cb) score) rows \<noteq> None"
      using r(2) f by (intro collect_some_defined yolox_candidate_defined) simp
    then show ?thesis using r(1) by auto
  qed
  note d1 = this
  show ?thesis
  proof (cases "anchors \<le> 0 \<or> n_cls \<le> 0 \<or> int (elem_count (oo_dims v)) < anchors * (n_cls + 5)")
    case False
    then have "0 < anchors * (n_cls + 5)" "anchors * (n_cls + 5) \<le> int (2 ^ 31)" using assms(2) by (simp, linarith)
    then have "int_range (anchors * (n_cls + 5) - 1)" by (simp add: int_range_def)
    with False show ?thesis using d1 [of "cb_transposed cb \<or> t"] by (simp add: decode_head_def h d x(1) Let_def)
  qed (simp add: decode_head_def h d Let_def)
qed

lemma decode_outputs_defined:
  assumes "list_all out_fills outs" "outs \<noteq> []"
    and small: "cb_decoder cb = None \<Longrightarrow> list_all (\<lambda>v. elem_count (oo_dims v) \<le> 2 ^ 31) outs"
    and wide: "cb_decoder cb \<noteq> None \<Longrightarrow> \<not> cb_raw cb \<Longrightarrow> list_all decodable outs"
    and all: "\<And>d vs. cb_decoder cb = Some d \<Longrightarrow> views_small vs \<Longrightarrow> decode ex d vs (cb_w cb) (cb_h cb) score th \<noteq> None"
  shows "decode_outputs ex score th outs cb \<noteq> None"
proof (cases "cb_decoder cb")
  case None
  then show ?thesis using assms(1,2) small decode_head_defined by (cases outs) (auto simp: decode_outputs_def)
next
  case (Some d)
  have z: "\<forall>(n, v) \<in> set (zip (cb_out_names cb) outs). out_fills v" using assms(1) by (auto simp: list_all_iff dest: set_zip_rightD)
  show ?thesis
  proof (cases "cb_raw cb")
    case True
    then show ?thesis using raw_copies_defined [OF z] Some by (simp add: decode_outputs_def Let_def)
  next
    case False
    have w: "\<forall>(n, v) \<in> set (zip (cb_out_names cb) outs). decodable v"
      using wide Some False by (auto simp: list_all_iff dest: set_zip_rightD)
    have ov: "\<exists>t xs. output_view nv = Some t \<and> tv_data t = Some xs \<and> length xs \<le> 2 ^ 31"
      if "nv \<in> set (zip (cb_out_names cb) outs)" for nv
    proof -
      have v: "out_fills (snd nv)" "decodable (snd nv)" using that z w by auto
      then obtain xs where "float_elements (snd nv) = Some xs" "length xs = elem_count (oo_dims (snd nv))"
        using float_elements_fit by blast
      then show ?thesis using v(2) by (simp add: output_view_def decodable_def)
    qed
    have "collect_some output_view (zip (cb_out_names cb) outs) \<noteq> None"
      using ov by (intro collect_some_defined) fastforce
    then obtain views where v: "collect_some output_view (zip (cb_out_names cb) outs) = Some views" by blast
    have "views_small views" unfolding views_small_def using collect_some_set [OF v] ov by fastforce
    then obtain res where "decode ex d views (cb_w cb) (cb_h cb) score th = Some res" using all [OF Some] by blast
    then show ?thesis using v False Some by (simp add: decode_outputs_def Let_def)
  qed
qed

lemma made_decoder_ok:
  assumes "make_decoder lb txt = Inr (Some d)" "lb_parse lb txt = Inr j" "ints_fit j"
  shows "case d of Yolox s \<Rightarrow> spec_ok s | Yolov8 s \<Rightarrow> spec_ok s | Yolov8_Dfl s \<Rightarrow> spec_ok s | Yolo_Pose s \<Rightarrow> spec_ok s | _ \<Rightarrow> True"
proof -
  from assms(1,2) obtain ty spec where s: "parse_spec j ty = Inr spec" "select_decoder spec = Inr (Some d)"
    by (auto simp: make_decoder_def bind_err_Inr split: if_splits option.splits json.splits)
  have "spec_ok spec" using parse_spec_ok [OF s(1) assms(3)] .
  with s(2) show ?thesis by (auto simp: select_decoder_def Let_def split: if_splits)
qed

section \<open>Property\<close>

text \<open>C39: a backend made from a configuration never reads outside a frame or a tensor, for every frame whose rows the host buffer holds,
  every content, thresholds and state that earlier runs left: a run ends with detections or an error text. ONNX Runtime is taken to give,
  as documented, one tensor for each output name and for a float tensor as many elements as its shape says; elements of another type
  are refused where no decoder is configured or it is raw. There are two conditions on the model. Without a decoder its output has at
  most $2^{31}$ elements. With a decoder other than raw each output has besides at least four bytes for each element, for the code does
  not look at the element type there, and the decoder's section parses back from its text with integers that fit.\<close>

theorem cpu_run_reads_inside:
  assumes "cpu_config_of lb files txt = Returned cc" "open_model model cc = Inr cb0"
    and "txt \<noteq> []" "lb_parse lb txt = Inr j" "\<forall>dj. json_find ''decoder'' j = Some dj \<longrightarrow> lb_parse lb (lb_dump lb dj) = Inr dj \<and> ints_fit dj"
    and "fb_host f = Some src" "frame_fills f src"
    and "\<forall>xs outs. ort xs = Inr outs \<longrightarrow> length outs = length (cb_out_names cb0) \<and> list_all out_fills outs"
    and "\<forall>xs outs. ort xs = Inr outs \<longrightarrow> (cb_decoder cb0 = None \<longrightarrow> list_all (\<lambda>v. elem_count (oo_dims v) \<le> 2 ^ 31) outs) \<and>
      (cb_decoder cb0 \<noteq> None \<and> \<not> cb_raw cb0 \<longrightarrow> list_all decodable outs)"
  shows "\<exists>cb res. cpu_run ex ort ts f score th (cb0\<lparr>cb_transposed := tr, cb_last_raw := raw\<rparr>) = Some (cb, res) \<and> res \<noteq> Thrown"
proof -
  let ?cb = "cb0\<lparr>cb_transposed := tr, cb_last_raw := raw\<rparr>"
  have "decode ex d vs mw mh score th \<noteq> None" if d: "cb_decoder cb0 = Some d" and vs: "views_small vs" for d vs mw mh
  proof -
    have "cc_decoder cc = Some d" using assms(2) d by (auto simp: open_model_def bind_err_Inr Let_def split: if_splits)
    then obtain m where m: "json_find ''decoder'' j = Some (JObj m)" "make_decoder lb (lb_dump lb (JObj m)) = Inr (Some d)"
      using cpu_decoder_made cpu_config_decoder [OF assms(1,4,3)] by metis
    then have "case d of Yolox s \<Rightarrow> spec_ok s | Yolov8 s \<Rightarrow> spec_ok s | Yolov8_Dfl s \<Rightarrow> spec_ok s | Yolo_Pose s \<Rightarrow> spec_ok s | _ \<Rightarrow> True"
      using made_decoder_ok [OF m(2)] assms(5) m(1) by simp
    then show ?thesis using vs by (rule decode_defined)
  qed
  moreover have "cb_out_names cb0 \<noteq> []" using assms(2) by (auto simp: open_model_def bind_err_Inr Let_def split: if_splits)
  then have "outs \<noteq> []" if "ort xs = Inr outs" for xs outs using assms(8) that by fastforce
  ultimately have dec: "decode_outputs ex score th outs ?cb \<noteq> None" if "ort xs = Inr outs" for xs outs
    using that assms(8,9) by (intro decode_outputs_defined) (simp_all del: not_None_eq)
  have wh: "1 \<le> cb_w cb0" "1 \<le> cb_h cb0" "1 \<le> fb_w f" "1 \<le> fb_h f"
    using accepted_model_is_bounded [OF assms(1,2)] assms(7) by (simp_all add: frame_fills_def)
  then obtain g where g: "letterbox_fit (fb_w f) (fb_h f) (cb_w cb0) (cb_h cb0) Align_Center = Some g"
    by (auto simp: letterbox_fit_def Let_def)
  obtain nchw where n: "preprocess src f g (cb_input cb0) = Some nchw" using preprocess_inside [OF assms(7)] by blast
  show ?thesis
  proof (cases "ort nchw")
    case (Inr outs)
    then obtain cb' r where "decode_outputs ex score th outs ?cb = Some (cb', r)" using dec [of nchw outs] by auto
    then show ?thesis using Inr g n assms(6) by (cases "fb_fmt f"; cases ts) (auto simp: cpu_run_def split: sum.splits)
  qed (use g n assms(6) in \<open>cases "fb_fmt f"; simp add: cpu_run_def\<close>)
qed

text \<open>The condition on the width is needed: a narrow output, of 8-bit integers say, is read beyond its buffer under a decoder.\<close>

lemma narrow_output_is_read_beyond:
  assumes "length bs < 4 * elem_count dims"
  shows "decode_outputs ex score th [\<lparr>oo_dims = dims, oo_data = Typed ty bs\<rparr>]
    (cb\<lparr>cb_decoder := Some d, cb_raw := False, cb_out_names := [n]\<rparr>) = None"
  using assms by (simp add: decode_outputs_def output_view_def float_elements_def)

section \<open>Instance\<close>

definition yolox_section :: json where "yolox_section = json_obj [(''type'', JStr ''yolox'')]"

definition cpu_json :: json where "cpu_json = json_obj [(''model_path'', JStr ''m''), (''decoder'', yolox_section)]"

definition cpu_libs :: libs where
  "cpu_libs = \<lparr>lb_parse = (\<lambda>s. Inr (if s = ''d'' then yolox_section else cpu_json)), lb_dump = (\<lambda>j. ''d''),
     lb_math = \<lparr>lm_atan2 = (\<lambda>y x. 0), lm_acos = (\<lambda>x. 0)\<rparr>\<rparr>"

definition tiny_frame :: frame_buf where
  "tiny_frame = \<lparr>fb_stream_index = 0, fb_seq = 1, fb_wall_ms = 0, fb_t_mono_s = 0, fb_w = 1, fb_h = 1, fb_stride = 3, fb_fmt = RGB888,
     fb_host = Some [10, 20, 30]\<rparr>"

definition one_output :: "f32 list \<Rightarrow> string + ort_out list" where
  "one_output xs = Inr [\<lparr>oo_dims = [1, 1, 1], oo_data = Floats [0]\<rparr>]"

lemma tiny_decoder: "\<exists>d. make_decoder cpu_libs ''d'' = Inr (Some d)"
proof -
  have "(case make_decoder cpu_libs ''d'' of Inr (Some _) \<Rightarrow> True | _ \<Rightarrow> False)" by code_simp
  then show ?thesis by (auto split: sum.splits option.splits)
qed

lemma tiny_backend:
  "\<exists>cc cb. cpu_config_of cpu_libs (\<lambda>p. Some (Some 1, [[7]])) ''c'' = Returned cc \<and>
    open_model (\<lambda>bytes threads. Inr \<lparr>ot_n_in = 1, ot_out_names = [''o''], ot_in_dims = [1, 3, 2, 2]\<rparr>) cc = Inr cb"
proof -
  obtain d where d: "make_decoder cpu_libs ''d'' = Inr (Some d)" using tiny_decoder by blast
  have s: "yolox_section = JObj [(''type'', JStr ''yolox'')]" by (simp add: yolox_section_def json_obj_def)
  have f: "json_find ''model_path'' cpu_json = Some (JStr ''m'')" "json_find ''decoder'' cpu_json = Some yolox_section"
    "json_find ''input'' cpu_json = None" "json_find ''intra_threads'' cpu_json = None" "json_find ''model_sha256'' cpu_json = None"
    "is_object cpu_json" by (simp_all add: cpu_json_def, simp_all add: json_obj_def)
  have 1: "cpu_decoder cpu_libs cpu_json = Returned (Some d, False)"
    using d f(2) by (simp add: cpu_decoder_def s cpu_libs_def lift_err_def check_def json_value_def)
  have 2: "cpu_input cpu_json = Returned (default_for_decoder ''yolox'')" using f(2,3) by (simp add: cpu_input_def s json_value_def)
  have p: "lb_parse cpu_libs ''c'' = Inr cpu_json" by (simp add: cpu_libs_def)
  have 3: "read_model_file ''m'' (Some (Some (Suc 0), [[7]])) = Inr [7]" by (simp add: read_model_file_def cpu_max_model_bytes_def)
  show ?thesis
    by (simp add: cpu_config_of_def p f 1 2 3 json_value_def lift_err_def check_def Let_def open_model_def cpu_max_model_dim_def cpu_max_input_bytes_def)
qed

theorem cpu_run_reads_inside_witness:
  "\<exists>cb cb' res. cpu_run (\<lambda>x. x) one_output (0, 0, 1, 1) tiny_frame 0 0 cb = Some (cb', res) \<and> res \<noteq> Thrown"
proof -
  obtain cc cb where c: "cpu_config_of cpu_libs (\<lambda>p. Some (Some 1, [[7]])) ''c'' = Returned cc"
    "open_model (\<lambda>bytes threads. Inr \<lparr>ot_n_in = 1, ot_out_names = [''o''], ot_in_dims = [1, 3, 2, 2]\<rparr>) cc = Inr cb"
    using tiny_backend by blast
  have o: "cb_out_names cb = [''o'']" using c(2) by (auto simp: open_model_def bind_err_Inr Let_def split: if_splits)
  have "\<exists>cb' res. cpu_run (\<lambda>x. x) one_output (0, 0, 1, 1) tiny_frame 0 0 (cb\<lparr>cb_transposed := False, cb_last_raw := []\<rparr>) = Some (cb', res) \<and> res \<noteq> Thrown"
    by (rule cpu_run_reads_inside [OF c, of cpu_json tiny_frame "[10, 20, 30]"])
      (simp_all add: o cpu_libs_def cpu_json_def ints_fit_def yolox_section_def tiny_frame_def frame_fills_def one_output_def out_fills_def decodable_def elem_count_def)
  then show ?thesis by blast
qed

end
