(* ===== verification/Hailo_Backend.thy ===== *)
theory Hailo_Backend
  imports Batching Cpu_Properties
begin

text \<open>
  The Hailo backend around the accelerator: the check of a model's outputs (\<open>batched_hailo_runner.cpp\<close>), the conversion of the
  quantised outputs and the inference of a batch (\<open>hailo_backend.cpp\<close>), the settings of the frame source
  (\<open>runtime_config.h\<close>, \<open>hailo_source.cpp\<close>). HailoRT is a parameter: what it says of a model and what a run gives.
\<close>

section \<open>Outputs of the model\<close>

record vstream_info =
  hv_features :: int
  hv_height :: int
  hv_width :: int
  hv_format :: u8
  hv_scale :: f32
  hv_zp :: int

definition hailo_uint8 :: u8 where "hailo_uint8 = 1"
definition hailo_uint16 :: u8 where "hailo_uint16 = 2"

text \<open>The nine outputs of the pose model, by height and features, with the element type.\<close>

definition pose_outputs :: "((int \<times> int) \<times> u8) list" where
  "pose_outputs = concat (map (\<lambda>side. [((side, 64), hailo_uint8), ((side, 1), hailo_uint8), ((side, 51), hailo_uint16)]) [20, 40, 80])"

definition element_bytes :: "u8 \<Rightarrow> nat" where
  "element_bytes fmt = (if fmt = hailo_uint16 then 2 else 1)"

definition output_bytes :: "vstream_info \<Rightarrow> nat" where
  "output_bytes v = nat (hv_height v) * nat (hv_width v) * nat (hv_features v) * element_bytes (hv_format v)"

record output_spec =
  os_name :: string
  os_bytes :: nat
  os_info :: vstream_info

text \<open>\<open>by_name\<close> maps the names to the descriptions, \<open>outs\<close> are the names and sizes of the outputs, \<open>expected\<close> what is still missing.\<close>

fun validate_each :: "(string \<Rightarrow> vstream_info option) \<Rightarrow> (string \<times> nat) list \<Rightarrow> ((int \<times> int) \<times> u8) list \<Rightarrow> string + output_spec list" where
  "validate_each by_name [] expected = (if expected = [] then Inr [] else Inl ''pose HEF output set is incomplete'')"
| "validate_each by_name ((name, bytes) # outs) expected =
    (case by_name name of
       None \<Rightarrow> Inl (''missing vstream info for output '' @ name)
     | Some v \<Rightarrow>
         if hv_width v \<noteq> hv_height v \<or> map_of expected (hv_height v, hv_features v) \<noteq> Some (hv_format v) then
           Inl (''unexpected pose output shape or type: '' @ name)
         else if bytes \<noteq> output_bytes v then Inl (''unexpected pose output byte size: '' @ name)
         else bind_err (validate_each by_name outs (filter (\<lambda>(k, _). k \<noteq> (hv_height v, hv_features v)) expected))
           (\<lambda>specs. Inr (\<lparr>os_name = name, os_bytes = bytes, os_info = v\<rparr> # specs)))"

definition validate_outputs :: "(string \<times> vstream_info) list \<Rightarrow> (string \<times> nat) list \<Rightarrow> string + output_spec list" where
  "validate_outputs infos outs =
    (if length infos \<noteq> 9 \<or> length outs \<noteq> 9 then Inl ''pose HEF must expose exactly 9 outputs''
     else validate_each (map_of infos) outs pose_outputs)"

section \<open>Dequantisation\<close>

record raw_tensor =
  hx_data :: "u8 list"
  hx_info :: vstream_info

definition raw_value :: "raw_tensor \<Rightarrow> nat \<Rightarrow> int option" where
  "raw_value t k =
    (if hv_format (hx_info t) = hailo_uint16 then
       do { lo \<leftarrow> rd (hx_data t) (2 * k); hi \<leftarrow> rd (hx_data t) (2 * k + 1); Some (uint lo + 256 * uint hi) }
     else map_option uint (rd (hx_data t) k))"

text \<open>From cell-major to one plane per feature.\<close>

definition dequantize_one :: "raw_tensor \<Rightarrow> tensor_view option" where
  "dequantize_one t =
    (let v = hx_info t; feats = nat (hv_features v); cells = nat (hv_height v) * nat (hv_width v) in
     map_option (\<lambda>planes. \<lparr>tv_data = Some (concat planes), tv_dims = [hv_features v, hv_height v, hv_width v], tv_name = []\<rparr>)
       (collect_some (\<lambda>k. collect_some (\<lambda>cell.
            map_option (\<lambda>r. (fl_of_int r - fl_of_int (hv_zp v)) * hv_scale v) (raw_value t (cell * feats + k)))
          [0..<cells]) [0..<feats]))"

definition dequantize :: "raw_tensor list \<Rightarrow> tensor_view list option" where
  "dequantize ts = collect_some dequantize_one ts"

section \<open>A batch\<close>

text \<open>\<open>mem\<close> tells the kind of memory a frame is in, 0 for the host.\<close>

definition fmt_code :: "pix_fmt \<Rightarrow> int" where
  "fmt_code f = (case f of RGB888 \<Rightarrow> 0 | BGR888 \<Rightarrow> 1 | NV12 \<Rightarrow> 2)"

definition hailo_input :: "(frame_buf \<Rightarrow> int) \<Rightarrow> int \<Rightarrow> int \<Rightarrow> frame_buf \<Rightarrow> (string + u8 list) option" where
  "hailo_input mem mw mh f =
    (let canvas = ''hailo backend requires RGB888 host frames on the model canvas (got mem='' @ show_int (mem f) @ '' fmt='' @
           show_int (fmt_code (fb_fmt f)) @ '' '' @ show_int (fb_w f) @ ''x'' @ show_int (fb_h f) @ '')'' in
     case fb_host f of
       None \<Rightarrow> Some (Inl canvas)
     | Some src \<Rightarrow>
         if mem f \<noteq> 0 \<or> fb_fmt f \<noteq> RGB888 \<or> fb_w f \<noteq> mw \<or> fb_h f \<noteq> mh then Some (Inl canvas)
         else if fb_stride f \<noteq> fb_w f * 3 then Some (Inl ''hailo backend requires tightly packed RGB rows'')
         else if nat (mw * mh * 3) \<le> length src then Some (Inr (take (nat (mw * mh * 3)) src)) else None)"

fun hailo_inputs :: "(frame_buf \<Rightarrow> int) \<Rightarrow> int \<Rightarrow> int \<Rightarrow> frame_buf list \<Rightarrow> (string + u8 list list) option" where
  "hailo_inputs mem mw mh [] = Some (Inr [])"
| "hailo_inputs mem mw mh (f # fs) =
    do { x \<leftarrow> hailo_input mem mw mh f;
         case x of Inl e \<Rightarrow> Some (Inl e)
         | Inr px \<Rightarrow> map_option (\<lambda>r. bind_err r (\<lambda>pxs. Inr (px # pxs))) (hailo_inputs mem mw mh fs) }"

text \<open>The partial batch is filled up with black frames.\<close>

definition padded_batch :: "nat \<Rightarrow> nat \<Rightarrow> u8 list list \<Rightarrow> u8 list list" where
  "padded_batch room input_size frames = frames @ replicate (room - length frames) (replicate input_size 0)"

fun hailo_outputs :: "(f32 \<Rightarrow> f32) \<Rightarrow> decoder \<Rightarrow> int \<Rightarrow> int \<Rightarrow> f32 \<Rightarrow> f32 \<Rightarrow> raw_tensor list list \<Rightarrow> (string + decoded list) option" where
  "hailo_outputs ex d mw mh score nms_th [] = Some (Inr [])"
| "hailo_outputs ex d mw mh score nms_th (ts # rest) =
    do { views \<leftarrow> dequantize ts;
         res \<leftarrow> decode ex d views mw mh score nms_th;
         case res of Inl e \<Rightarrow> Some (Inl e)
         | Inr r \<Rightarrow> map_option (\<lambda>rs. bind_err rs (\<lambda>rs. Inr (r # rs))) (hailo_outputs ex d mw mh score nms_th rest) }"

text \<open>\<open>run\<close> is the accelerator on a full batch; the tensors of the slots in use are decoded. The constructor always sets a decoder. The
  letterbox of a result, which is that of a frame of the model's size, and the times are left out.\<close>

definition hailo_infer :: "(f32 \<Rightarrow> f32) \<Rightarrow> (frame_buf \<Rightarrow> int) \<Rightarrow> (u8 list list \<Rightarrow> string + raw_tensor list list) \<Rightarrow> nat \<Rightarrow> decoder \<Rightarrow>
    int \<Rightarrow> int \<Rightarrow> frame_buf list \<Rightarrow> f32 \<Rightarrow> f32 \<Rightarrow> (string + decoded list) option" where
  "hailo_infer ex mem run room d mw mh frames score nms_th =
    (let n = length frames in
     if n = 0 \<or> n > room then
       Some (Inl (''hailo backend: batch size '' @ dec_digits n @ '' outside 1..'' @ dec_digits room))
     else do {
       ins \<leftarrow> hailo_inputs mem mw mh frames;
       case bind_err ins (\<lambda>pxs. run (padded_batch room (nat (mw * mh * 3)) pxs)) of
         Inl e \<Rightarrow> Some (Inl e)
       | Inr slots \<Rightarrow> hailo_outputs ex d mw mh score nms_th (take n slots)
     })"

section \<open>Settings of the source\<close>

definition parse_non_negative_int :: "string \<Rightarrow> string \<Rightarrow> int \<Rightarrow> string + int" where
  "parse_non_negative_int name val max_value =
    (if val = [] then Inl (name @ '' must be a non-negative integer'')
     else case from_chars val of
       Some n \<Rightarrow> if n < 0 \<or> (max_value \<ge> 0 \<and> n > max_value)
                 then Inl (name @ '' must be a non-negative integer'' @ (if max_value \<ge> 0 then '' within range'' else [])) else Inr n
     | None \<Rightarrow> Inl (name @ '' must be a non-negative integer'' @ (if max_value \<ge> 0 then '' within range'' else [])))"

definition parse_queue_depth :: "string \<Rightarrow> string + int" where
  "parse_queue_depth val =
    bind_err (parse_non_negative_int ''INFERENCE_QUEUE_DEPTH'' val 8) (\<lambda>n.
      if n < 1 then Inl ''INFERENCE_QUEUE_DEPTH must be in range 1..8'' else Inr n)"

definition parse_drop_on_latency :: "string \<Rightarrow> string + bool" where
  "parse_drop_on_latency val =
    (if val = ''true'' \<or> val = ''1'' then Inr True
     else if val = ''false'' \<or> val = ''0'' then Inr False
     else Inl ''RTSP_DROP_ON_LATENCY must be true, false, 1, or 0'')"

definition rtsp_depay_chain :: "string \<Rightarrow> string + string" where
  "rtsp_depay_chain codec =
    (if codec = ''h264'' then Inr ''rtph264depay ! h264parse ! decodebin''
     else if codec = ''h265'' then
       Inr (''rtph265depay ! h265parse ! v4l2slh265dec ! glupload ! glcolorconvert ! glcolorscale ! '' @
            ''video/x-raw(memory:GLMemory),format=RGBA,width=640,height=640 ! gldownload'')
     else Inl ''RTSP_CODEC must be h264 or h265'')"

record rtsp_settings =
  rs_latency_ms :: int
  rs_drop_on_latency :: bool
  rs_codec :: string

definition validate_rtsp :: "rtsp_settings \<Rightarrow> string + unit" where
  "validate_rtsp r =
    bind_err (rtsp_depay_chain (rs_codec r)) (\<lambda>_. if rs_latency_ms r < 0 then Inl ''rtsp.latency_ms must be >= 0'' else Inr ())"

definition starts_with :: "string \<Rightarrow> string \<Rightarrow> bool" where
  "starts_with p s \<longleftrightarrow> take (length p) s = p"

definition launch_syntax :: "char set" where
  "launch_syntax = {CHR ''!'', CHR 0x22, CHR 0x27, CHR 0x60, CHR '';'', CHR 0x5C, CHR 0x0A, CHR 0x0D, CHR '' '', CHR 0x09}"

definition validate_source_url :: "string \<Rightarrow> bool" where
  "validate_source_url url \<longleftrightarrow>
    starts_with ''test://'' url \<or>
    (list_ex (\<lambda>p. starts_with p url) [''rtsp://'', ''rtsps://'', ''file://'', ''http://'', ''https://''] \<and>
     list_all (\<lambda>ch. ch \<notin> launch_syntax) url)"

definition in_quotes :: "string \<Rightarrow> string" where
  "in_quotes s = [CHR 0x22] @ s @ [CHR 0x22]"

definition pipeline_prefix :: "string \<Rightarrow> rtsp_settings \<Rightarrow> string + string" where
  "pipeline_prefix url r =
    bind_err
      (if starts_with ''test://'' url then Inr ''videotestsrc is-live=true pattern=ball ! video/x-raw,framerate=30/1 ''
       else if starts_with ''file://'' url then
         Inr (''uridecodebin uri='' @ in_quotes url @ '' ! videorate ! video/x-raw,framerate=15/1 '')
       else bind_err (rtsp_depay_chain (rs_codec r)) (\<lambda>chain.
         Inr (''rtspsrc location='' @ in_quotes url @ '' latency='' @ show_int (rs_latency_ms r) @ '' protocols=tcp'' @
           (if rs_drop_on_latency r then '' drop-on-latency=true'' else []) @ '' ! '' @ chain @ '' '')))
      (\<lambda>q. Inr (q @ ''! videoconvert ! videoscale ! video/x-raw,format=RGB,width=640,height=640 ''))"

section \<open>Reads stay inside\<close>

lemma pose_outputs_eq: "pose_outputs =
  [((20, 64), 1), ((20, 1), 1), ((20, 51), 2), ((40, 64), 1), ((40, 1), 1), ((40, 51), 2), ((80, 64), 1), ((80, 1), 1), ((80, 51), 2)]"
  by (simp add: pose_outputs_def hailo_uint8_def hailo_uint16_def)

text \<open>An accepted output is one of those that are still missing and has the size of its elements.\<close>

lemma validate_each_ok:
  "validate_each by_name outs expected = Inr specs \<Longrightarrow> s \<in> set specs \<Longrightarrow>
    ((hv_height (os_info s), hv_features (os_info s)), hv_format (os_info s)) \<in> set expected \<and>
    hv_width (os_info s) = hv_height (os_info s) \<and> os_bytes s = output_bytes (os_info s)"
proof (induction by_name outs expected arbitrary: specs rule: validate_each.induct)
  case (2 by_name name bytes outs expected)
  obtain v where v: "by_name name = Some v" "hv_width v = hv_height v" "map_of expected (hv_height v, hv_features v) = Some (hv_format v)"
    "bytes = output_bytes v" using "2.prems"(1) by (auto split: option.splits if_splits)
  let ?rest = "filter (\<lambda>(k, _). k \<noteq> (hv_height v, hv_features v)) expected"
  obtain specs' where s: "validate_each by_name outs ?rest = Inr specs'" "specs = \<lparr>os_name = name, os_bytes = bytes, os_info = v\<rparr> # specs'"
    using "2.prems"(1) v by (auto simp: bind_err_Inr)
  show ?case
  proof (cases "s \<in> set specs'")
    case True
    have "\<not> (hv_width v \<noteq> hv_height v \<or> map_of expected (hv_height v, hv_features v) \<noteq> Some (hv_format v))" "\<not> bytes \<noteq> output_bytes v"
      using v by simp_all
    from "2.IH" [OF v(1) this s(1) True] show ?thesis by auto
  next
    case False
    then show ?thesis using "2.prems"(2) s(2) v map_of_SomeD [OF v(3)] by simp
  qed
qed (simp split: if_splits)

lemma raw_value_inside:
  assumes "length (hx_data t) = output_bytes (hx_info t)" "k < nat (hv_height (hx_info t)) * nat (hv_width (hx_info t)) * nat (hv_features (hx_info t))"
  shows "\<exists>r. raw_value t k = Some r"
  using assms by (auto simp: raw_value_def rd_def output_bytes_def element_bytes_def)

lemma dequantize_one_inside:
  assumes "length (hx_data t) = output_bytes (hx_info t)"
  shows "\<exists>view xs. dequantize_one t = Some view \<and> tv_data view = Some xs \<and>
    tv_dims view = [hv_features (hx_info t), hv_height (hx_info t), hv_width (hx_info t)] \<and>
    length xs = nat (hv_features (hx_info t)) * (nat (hv_height (hx_info t)) * nat (hv_width (hx_info t)))"
proof -
  define v feats cells where "v = hx_info t" and "feats = nat (hv_features v)" and "cells = nat (hv_height v) * nat (hv_width v)"
  have f: "\<exists>r. raw_value t (cell * feats + k) = Some r" if "k < feats" "cell < cells" for k cell
  proof (rule raw_value_inside [OF assms])
    have "cell * feats + k < (cell + 1) * feats" using that(1) by simp
    also have "\<dots> \<le> cells * feats" using that(2) by (intro mult_right_mono) simp_all
    finally show "cell * feats + k < nat (hv_height (hx_info t)) * nat (hv_width (hx_info t)) * nat (hv_features (hx_info t))"
      by (simp add: cells_def feats_def v_def)
  qed
  let ?g = "\<lambda>k. collect_some (\<lambda>cell. map_option (\<lambda>r. (fl_of_int r - fl_of_int (hv_zp v)) * hv_scale v) (raw_value t (cell * feats + k))) [0..<cells]"
  have row: "\<exists>r. ?g k = Some r \<and> int (length r) = int cells" if "k \<in> set [0..<feats]" for k
  proof -
    have "?g k \<noteq> None" using f [of k] that by (intro collect_some_defined) fastforce
    then obtain r where "?g k = Some r" by blast
    with length_collect_some [OF this] show ?thesis by simp
  qed
  have "\<exists>planes. collect_some ?g [0..<feats] = Some planes \<and> length (concat planes) = feats * cells"
  proof -
    have "collect_some ?g [0..<feats] \<noteq> None" using row by (rule_tac collect_some_defined) fastforce
    then obtain planes where p: "collect_some ?g [0..<feats] = Some planes" by blast
    have "\<forall>q \<in> set planes. length q = cells" using collect_some_set [OF p] row by fastforce
    then have "length (concat planes) = length planes * cells" by (induction planes) simp_all
    then show ?thesis using p length_collect_some [OF p] by simp
  qed
  then show ?thesis by (auto simp: dequantize_one_def Let_def v_def feats_def cells_def)
qed

lemma hailo_outputs_defined:
  assumes "\<And>views. views_small views \<Longrightarrow> decode ex d views mw mh score th \<noteq> None"
    "\<forall>ts \<in> set slots. \<forall>t \<in> set ts. length (hx_data t) = output_bytes (hx_info t) \<and> output_bytes (hx_info t) \<le> 2 ^ 31"
  shows "hailo_outputs ex d mw mh score th slots \<noteq> None"
  using assms(2)
proof (induction slots)
  case (Cons ts rest)
  have dq: "\<exists>view xs. dequantize_one t = Some view \<and> tv_data view = Some xs \<and> length xs \<le> 2 ^ 31" if "t \<in> set ts" for t
  proof -
    have t: "length (hx_data t) = output_bytes (hx_info t)" "output_bytes (hx_info t) \<le> 2 ^ 31" using Cons.prems that by auto
    have "nat (hv_features (hx_info t)) * (nat (hv_height (hx_info t)) * nat (hv_width (hx_info t))) \<le> output_bytes (hx_info t)"
      by (simp add: output_bytes_def element_bytes_def mult.commute mult.left_commute)
    with dequantize_one_inside [OF t(1)] t(2) show ?thesis by fastforce
  qed
  have "dequantize ts \<noteq> None" unfolding dequantize_def using dq by (intro collect_some_defined) fastforce
  then obtain views where views: "dequantize ts = Some views" by blast
  have "views_small views" unfolding views_small_def using collect_some_set [OF views [unfolded dequantize_def]] dq by fastforce
  note views
  moreover obtain res where "decode ex d views mw mh score th = Some res" using assms(1) [OF \<open>views_small views\<close>] by blast
  moreover obtain rs where "hailo_outputs ex d mw mh score th rest = Some rs" using Cons by auto
  ultimately show ?case by (auto split: sum.splits)
qed simp

lemma hailo_inputs_defined:
  assumes "\<forall>f \<in> set fs. \<forall>src. fb_host f = Some src \<longrightarrow> fb_w f * fb_h f * 3 \<le> int (length src)"
  shows "hailo_inputs mem mw mh fs \<noteq> None"
  using assms
proof (induction fs)
  case (Cons f fs)
  have "hailo_input mem mw mh f \<noteq> None" using Cons.prems by (auto simp: hailo_input_def Let_def nat_le_iff split: option.splits)
  then obtain x where "hailo_input mem mw mh f = Some x" by blast
  moreover obtain r where "hailo_inputs mem mw mh fs = Some r" using Cons by auto
  ultimately show ?case by (auto split: sum.splits)
qed simp

text \<open>A batch is inferred without a read outside a frame or an output buffer, when every frame's host buffer holds its rows and every output
  has the size that \<open>validate_outputs\<close> checked, at most $2^{31}$ bytes.\<close>

theorem hailo_infer_reads_inside:
  assumes "make_decoder lb txt = Inr (Some d)" "lb_parse lb txt = Inr j" "ints_fit j"
    and "\<forall>f \<in> set frames. \<forall>src. fb_host f = Some src \<longrightarrow> fb_w f * fb_h f * 3 \<le> int (length src)"
    and "\<forall>ins slots. run ins = Inr slots \<longrightarrow>
      (\<forall>ts \<in> set slots. \<forall>t \<in> set ts. length (hx_data t) = output_bytes (hx_info t) \<and> output_bytes (hx_info t) \<le> 2 ^ 31)"
  shows "hailo_infer ex mem run room d mw mh frames score th \<noteq> None"
proof -
  have dec: "decode ex d views mw mh score th \<noteq> None" if "views_small views" for views
    using decode_defined [OF made_decoder_ok [OF assms(1-3)] that] .
  obtain ins where i: "hailo_inputs mem mw mh frames = Some ins" using hailo_inputs_defined [OF assms(4)] by blast
  have "hailo_outputs ex d mw mh score th (take n slots) \<noteq> None"
    if slots: "bind_err ins (\<lambda>pxs. run (padded_batch room (nat (mw * mh * 3)) pxs)) = Inr slots" for n slots
  proof (rule hailo_outputs_defined [OF dec])
    obtain pxs where "run pxs = Inr slots" using slots by (auto simp: bind_err_Inr)
    then show "\<forall>ts \<in> set (take n slots). \<forall>t \<in> set ts. length (hx_data t) = output_bytes (hx_info t) \<and> output_bytes (hx_info t) \<le> 2 ^ 31"
      using assms(5) by (auto dest: in_set_takeD)
  qed
  then show ?thesis by (auto simp: hailo_infer_def Let_def i simp del: not_None_eq split: sum.splits)
qed

text \<open>A URL that is accepted and is not a test one cannot leave its quotes in the launch string.\<close>

lemma accepted_url_stays_quoted:
  assumes "validate_source_url url" "\<not> starts_with ''test://'' url"
  shows "CHR 0x22 \<notin> set url" "CHR ''!'' \<notin> set url"
  using assms by (auto simp: validate_source_url_def launch_syntax_def list_all_iff)

end
