(* ===== verification/Hailo_Config.thy ===== *)
theory Hailo_Config
  imports Hailo_Backend Batching_Facts
begin

text \<open>
  The configuration of the Hailo backend (the constructor of \<open>HailoBackend\<close> in \<open>hailo_backend.cpp\<close>) up to the device,
  with the batch that a model and a number of streams lead to.
\<close>

fun get_i64 :: "json \<Rightarrow> int outcome" where
  "get_i64 (JInt i) = Returned (int64_of (JInt i))"
| "get_i64 (JNum x) = Returned (fl_to_int x)"
| "get_i64 _ = Thrown"

definition ranged :: "json \<Rightarrow> string \<Rightarrow> int \<Rightarrow> int \<Rightarrow> int \<Rightarrow> string \<Rightarrow> int outcome" where
  "ranged j key dflt lo hi err =
    (case json_find key j of
       None \<Rightarrow> Returned dflt
     | Some v \<Rightarrow> and_then (get_i64 v) (\<lambda>n. and_then (check (lo \<le> n \<and> n \<le> hi) err) (\<lambda>_. Returned n)))"

text \<open>Without a decoder of its own a configuration gets the one for the pose model.\<close>

definition pose_decoder_txt :: string where
  "pose_decoder_txt = ''{\"type\":\"yolo_pose\",\"keypoints\":17}''"

definition hailo_decoder :: "libs \<Rightarrow> json \<Rightarrow> decoder outcome" where
  "hailo_decoder lb j =
    and_then (lift_err (make_decoder lb (case json_find ''decoder'' j of Some (JObj m) \<Rightarrow> if m = [] then pose_decoder_txt else lb_dump lb (JObj m)
      | _ \<Rightarrow> pose_decoder_txt))) (\<lambda>d. case d of None \<Rightarrow> Refused [] | Some d \<Rightarrow> Returned d)"

text \<open>Mode, number of streams and wait of the batch.\<close>

definition hailo_batch :: "json \<Rightarrow> (batch_config \<times> int \<times> int) outcome" where
  "hailo_batch j =
    (case json_find ''batch'' j of
       Some (JObj m) \<Rightarrow>
         and_then (json_value get_string (JObj m) ''mode'' ''auto'') (\<lambda>mode.
         and_then (case parse_batch_mode mode of Inl e \<Rightarrow> Refused (''backend.batch.mode: '' @ e) | Inr c \<Rightarrow> Returned c) (\<lambda>batch.
         and_then (ranged (JObj m) ''streams'' 1 1 64 ''backend.batch.streams must be in 1..64'') (\<lambda>streams.
         and_then (ranged (JObj m) ''wait_ms'' 20 0 1000 ''backend.batch.wait_ms must be in 0..1000'') (\<lambda>wait.
         Returned (batch, streams, wait)))))
     | _ \<Rightarrow> Returned (\<lparr>bc_mode = Auto, bc_fixed_size = 1\<rparr>, 1, 20))"

definition hailo_rtsp :: "json \<Rightarrow> rtsp_settings outcome" where
  "hailo_rtsp j =
    and_then (case json_find ''rtsp'' j of
       Some (JObj m) \<Rightarrow>
         and_then (case json_find ''latency_ms'' (JObj m) of
             None \<Rightarrow> Returned 100
           | Some v \<Rightarrow> and_then (get_i64 v) (\<lambda>n. and_then (check (n \<ge> 0) ''backend.rtsp.latency_ms must be >= 0'') (\<lambda>_. Returned (int32_of (JInt n))))) (\<lambda>latency.
         and_then (case json_find ''drop_on_latency'' (JObj m) of None \<Rightarrow> Returned False
           | Some v \<Rightarrow> (case v of JBool b \<Rightarrow> Returned b | _ \<Rightarrow> Thrown)) (\<lambda>drp.
         and_then (case json_find ''codec'' (JObj m) of None \<Rightarrow> Returned ''h264'' | Some v \<Rightarrow> get_string v) (\<lambda>codec.
         Returned \<lparr>rs_latency_ms = latency, rs_drop_on_latency = drp, rs_codec = codec\<rparr>)))
     | _ \<Rightarrow> Returned \<lparr>rs_latency_ms = 100, rs_drop_on_latency = False, rs_codec = ''h264''\<rparr>) (\<lambda>r.
    and_then (case validate_rtsp r of Inl e \<Rightarrow> Refused (''backend.rtsp: '' @ e) | Inr _ \<Rightarrow> Returned ()) (\<lambda>_. Returned r))"

text \<open>Without an expected digest a model that cannot be read is no error.\<close>

definition hailo_digest :: "string \<Rightarrow> u8 list option \<Rightarrow> string \<Rightarrow> string outcome" where
  "hailo_digest path content want =
    (case (case content of None \<Rightarrow> Inl (''hailo backend: cannot open model: '' @ path)
           | Some bs \<Rightarrow> if bs = [] then Inl (''hailo backend: empty model file: '' @ path) else Inr bs) of
       Inr bytes \<Rightarrow>
         let sha = sha256_hex bytes in
         and_then (check (want = [] \<or> lower_ascii want = sha) (''model sha256 mismatch: expected '' @ lower_ascii want @ '', got '' @ sha))
           (\<lambda>_. Returned sha)
     | Inl e \<Rightarrow> if want \<noteq> [] then Refused e else Returned [])"

record hailo_config =
  hc_model_path :: string
  hc_sha256 :: string
  hc_decoder :: decoder
  hc_batch :: batch_config
  hc_streams :: int
  hc_wait_ms :: int
  hc_rtsp :: rtsp_settings
  hc_max_contexts :: int

definition hailo_config_of :: "libs \<Rightarrow> (string \<Rightarrow> u8 list option) \<Rightarrow> string \<Rightarrow> hailo_config outcome" where
  "hailo_config_of lb files txt =
    and_then (if txt = [] then Returned (json_obj [])
              else case lb_parse lb txt of Inl e \<Rightarrow> Refused (''hailo backend json: '' @ e) | Inr j \<Rightarrow> Returned j) (\<lambda>j.
    case json_find ''model_path'' j of
      None \<Rightarrow> Refused ''hailo backend requires backend.model_path''
    | Some mp \<Rightarrow>
        and_then (get_string mp) (\<lambda>path.
        and_then (json_value get_string j ''model_sha256'' []) (\<lambda>want.
        and_then (check (want = [] \<or> is_sha256_hex want) ''backend.model_sha256 must be 64 hex characters'') (\<lambda>_.
        and_then (hailo_decoder lb j) (\<lambda>d.
        and_then (hailo_batch j) (\<lambda>(batch, streams, wait).
        and_then (hailo_rtsp j) (\<lambda>rtsp.
        and_then (ranged j ''max_contexts'' 1 1 64 ''backend.max_contexts must be in 1..64'') (\<lambda>contexts.
        and_then (hailo_digest path (files path) want) (\<lambda>sha.
        Returned \<lparr>hc_model_path = path, hc_sha256 = sha, hc_decoder = d, hc_batch = batch, hc_streams = streams, hc_wait_ms = wait,
          hc_rtsp = rtsp, hc_max_contexts = contexts\<rparr>)))))))))"

text \<open>The batcher and the batch size for what the HEF says of itself.\<close>

definition hailo_session :: "int \<Rightarrow> bool \<Rightarrow> hailo_config \<Rightarrow> string + int \<times> frame_batcher" where
  "hailo_session groups multi hc =
    bind_err (choose_batch (hc_batch hc) groups multi (hc_streams hc)) (\<lambda>dec.
      case new_batcher 1 (bd_batch_size dec) (hc_wait_ms hc) 2 of
        None \<Rightarrow> Inl ''invalid batcher configuration''
      | Some b \<Rightarrow> Inr (bd_batch_size dec, b))"

section \<open>What is accepted\<close>

lemma ranged_Returned: "ranged j key dflt lo hi err = Returned n \<Longrightarrow> lo \<le> dflt \<Longrightarrow> dflt \<le> hi \<Longrightarrow> lo \<le> n \<and> n \<le> hi"
  by (auto simp: ranged_def and_then_Returned split: option.splits)

lemma streams_Returned: "ranged j ''streams'' 1 1 64 err = Returned n \<Longrightarrow> 1 \<le> n \<and> n \<le> 64"
  by (rule ranged_Returned) auto

lemma wait_Returned: "ranged j ''wait_ms'' 20 0 1000 err = Returned n \<Longrightarrow> 0 \<le> n \<and> n \<le> 1000"
  by (rule ranged_Returned) auto

lemma refused_or_Returned: "(case x of Inl e \<Rightarrow> Refused (f e) | Inr c \<Rightarrow> Returned c) = Returned b \<longleftrightarrow> x = Inr b"
  by (cases x) simp_all

lemma hailo_batch_Returned:
  "hailo_batch j = Returned (b, s, w) \<Longrightarrow> bc_fixed_size b \<in> {1, 4, 8} \<and> 1 \<le> s \<and> s \<le> 64 \<and> 0 \<le> w \<and> w \<le> 1000"
  by (auto simp: hailo_batch_def and_then_Returned refused_or_Returned dest!: batch_mode_sizes streams_Returned wait_Returned
      split: option.splits json.splits)

lemma one_group_has_a_batch:
  "bc_fixed_size c \<in> {1, 4, 8} \<Longrightarrow> 1 \<le> s \<Longrightarrow> \<exists>dec. choose_batch c 1 m s = Inr dec \<and> bd_batch_size dec \<in> {1, 4, 8}"
  by (cases "bc_mode c"; cases m) (simp_all add: choose_batch_def)

lemma hailo_digest_Returned: "hailo_digest path content want = Returned sha \<Longrightarrow> sha = [] \<or> (\<exists>bytes. sha = sha256_hex bytes)"
  by (cases content) (auto simp: hailo_digest_def and_then_Returned Let_def split: if_splits)

lemma hailo_rtsp_Returned: "hailo_rtsp j = Returned r \<Longrightarrow> 0 \<le> rs_latency_ms r \<and> rs_codec r \<in> {''h264'', ''h265''}"
  by (auto simp: hailo_rtsp_def and_then_Returned validate_rtsp_def bind_err_Inr rtsp_depay_chain_def split: sum.splits if_splits)

text \<open>A configuration that is accepted gives a session with a batch of 1, 4 or 8 for every model with one network group, and its
  settings are within their bounds.\<close>

theorem accepted_hailo_config_is_bounded:
  assumes "hailo_config_of lb files txt = Returned hc"
  shows "(hc_sha256 hc = [] \<or> (\<exists>bytes. hc_sha256 hc = sha256_hex bytes)) \<and> 1 \<le> hc_max_contexts hc \<and> hc_max_contexts hc \<le> 64 \<and>
    0 \<le> rs_latency_ms (hc_rtsp hc) \<and> rs_codec (hc_rtsp hc) \<in> {''h264'', ''h265''} \<and>
    (\<exists>n b. hailo_session 1 multi hc = Inr (n, b) \<and> n \<in> {1, 4, 8} \<and> batcher_ok b)"
proof -
  obtain j where j: "hailo_batch j = Returned (hc_batch hc, hc_streams hc, hc_wait_ms hc)" "hailo_rtsp j = Returned (hc_rtsp hc)"
    "ranged j ''max_contexts'' 1 1 64 ''backend.max_contexts must be in 1..64'' = Returned (hc_max_contexts hc)"
    "\<exists>path content want. hailo_digest path content want = Returned (hc_sha256 hc)"
    using assms by (auto simp: hailo_config_of_def and_then_Returned split: option.splits) blast+
  note b = hailo_batch_Returned [OF j(1)]
  obtain dec where d: "choose_batch (hc_batch hc) 1 multi (hc_streams hc) = Inr dec" "bd_batch_size dec \<in> {1, 4, 8}"
    using b one_group_has_a_batch by blast
  then obtain ba where ba: "new_batcher 1 (bd_batch_size dec) (hc_wait_ms hc) 2 = Some ba" using b by (auto simp: new_batcher_def)
  have "hailo_session 1 multi hc = Inr (bd_batch_size dec, ba)" using d(1) ba by (simp add: hailo_session_def bind_err_Inr)
  moreover have "hc_sha256 hc = [] \<or> (\<exists>bytes. hc_sha256 hc = sha256_hex bytes)"
    using j(4) hailo_digest_Returned by blast
  ultimately show ?thesis using ranged_Returned [OF j(3)] hailo_rtsp_Returned [OF j(2)] new_batcher_ok [OF ba] d(2) by (intro conjI) simp_all
qed

end
