(* ===== verification/Spec2Isabelle.thy ===== *)
theory Spec2Isabelle
  imports Person_Tracker_Facts Zone_Metrics Vision_Payload Vb_Tracker_Facts Nms Wire Json_Value Analyzer_Interface Motion_Util Motion_Facts Zone_Analyzer Zone_Facts Dwell_Analyzer Direction_Analyzer Speed_Analyzer Count_Threshold Pose_Angle Line_Cross Float_Bits Stream_State Analyzer_Chain Dev_Tensor Writer Plugins Pool Pool_Facts Scheduling Runtime_Config Runtime_Control Runtime_Facts Runtime_Runs Runtime_Properties Control_Lines Tensor_View Yolo_Decode Pose_Decode Decoders Decoder_Properties Mqtt_Frame Mqtt_Client Mqtt_Runs Mqtt_Facts Mqtt_Properties Mqtt_Packets Event_Json Event_Properties Standalone Standalone_Properties Sha256 Batching Batching_Facts Snapshot Cpu_Backend Cpu_Properties Hailo_Backend Hailo_Config
begin

text \<open>
  Verification development for the native code of retail-vision.

  The program counts and follows people in camera streams. It has two native parts. The retail library
  (\<open>core-cpp/*.cpp\<close>) tracks persons, keeps zone statistics and prints a JSON payload. The vision runtime
  (\<open>core-cpp/vb\<close>) is a process that reads frames of several streams, runs a detector, tracks the
  detections, feeds a chain of analyzers per stream and writes binary and JSON records; it is driven by control
  lines.

  How the parts call each other: a source thread puts frames into the mailbox of its stream
  (\<open>LatestFrame\<close>); a worker of the context pool claims streams, takes a frame of each, applies pending control
  requests, runs the inference, suppresses overlapping detections, updates the tracker, runs the analyzers and
  pushes records to the writer, whose own thread sends them. The control server cuts a socket's bytes into lines and
  hands each to the runtime, which adds, removes and configures streams.

  Shared theories.
   \<^item> \<open>Prelude\<close>: type names, \<open>steps\<close> (folding an operation that emits a list), generic lemmas.
   \<^item> \<open>Ieee_Float\<close>, \<open>Rounding\<close>, \<open>Float_Bits\<close>, \<open>Text_Format\<close>: binary32 and binary64 with round to nearest even, NaN and
     infinities, comparisons as C++ has them; bit patterns; decimal output. Fused operations are not assumed.
   \<^item> \<open>Std_Containers\<close>: \<open>std::map\<close> as an ordered association list behind the locale \<open>std_map\<close>, \<open>std::sort\<close> as any function that
     meets \<open>sort_spec\<close>, the greedy matching loop behind the locale \<open>picker\<close>.
   \<^item> \<open>Json_Value\<close>: JSON values, field access and conversions of nlohmann/json; an exception is \<open>Thrown\<close> in \<open>outcome\<close>.

  The retail library.
   \<^item> \<open>Geometry\<close>: \<open>geometry.h\<close> and \<open>vb/src/geom2d.cpp\<close>, point in polygon and directed crossings.
   \<^item> \<open>Person_Tracker\<close>, \<open>Person_Tracker_Facts\<close>: \<open>person_tracker.h/.cpp\<close>, the record \<open>person_tracker\<close> and \<open>pt_update\<close> for
     \<open>PersonTracker::update\<close> with its helpers; conservation of tracks, table invariant, dwell states.
   \<^item> \<open>Zone_Metrics\<close>: \<open>zone_metrics.h/.cpp\<close>; the sliding window as a filter of all removals, averages and their drift.
   \<^item> \<open>Vision_Payload\<close>: \<open>mqtt_payload.cpp\<close>, the JSON text with its fixed decimals and the letterbox correction.

  The vision runtime, per frame.
   \<^item> \<open>Vb_Types\<close>: \<open>vb/types.h\<close>, \<open>letterbox.cpp\<close>. \<open>Nms\<close>: \<open>post/nms.cpp\<close>.
   \<^item> \<open>Vb_Tracker\<close>, \<open>Vb_Tracker_Facts\<close>: \<open>tracker.cpp\<close>; matching, identities, classes.
   \<^item> \<open>Analyzer_Interface\<close>, \<open>Motion_Util\<close>, \<open>Motion_Facts\<close>: \<open>vb/analyzer.h\<close> as the locale \<open>analyzer\<close> and \<open>motion_util.cpp\<close> (speed
     estimation, debouncing).
   \<^item> \<open>Zone_Analyzer\<close>, \<open>Zone_Facts\<close>, \<open>Dwell_Analyzer\<close>, \<open>Direction_Analyzer\<close>, \<open>Speed_Analyzer\<close>, \<open>Count_Threshold\<close>, \<open>Pose_Angle\<close>,
     \<open>Line_Cross\<close>: one analyzer each (\<open>analyzers/*.cpp\<close>), with its configuration, frames and removals, refined to what its
     events promise.
   \<^item> \<open>Analyzer_Chain\<close>, \<open>Plugins\<close>: the factory, the sum of the analyzers, the wrapper of a plugin's callback table
     (\<open>plugin_loader.cpp\<close>).
   \<^item> \<open>Stream_State\<close>: mailbox (\<open>latest_frame.cpp\<close>), metrics (\<open>stats.cpp\<close>) and the stream record of \<open>runtime.h\<close>.
   \<^item> \<open>Tensor_View\<close>, \<open>Yolo_Decode\<close>, \<open>Pose_Decode\<close>, \<open>Decoders\<close>: the checks of \<open>post/tensor_check.h\<close>, the decoders of \<open>post/*.cpp\<close>
     (\<open>std::exp\<close> is an argument) and their selection; a read outside a tensor and an \<open>int\<close> index out of range
     (\<open>int_range\<close>) are \<open>None\<close>. \<open>Decoder_Properties\<close>: reads stay
     inside, what a detection satisfies, layouts, classification.
   \<^item> \<open>Wire\<close>, \<open>Dev_Tensor\<close>: \<open>wire.cpp\<close>, \<open>dev_tensor.cpp\<close>, encoders with reference readers and round trips; \<open>bind_err\<close>
     chains operations that fail with a text.
   \<^item> \<open>Pool\<close>, \<open>Pool_Facts\<close>: \<open>pool.cpp\<close>, one frame from the pending requests to the records.

  The vision runtime, around the frames.
   \<^item> \<open>Writer\<close>: \<open>writer.cpp\<close>, each critical section a function, their interleavings a step relation.
   \<^item> \<open>Scheduling\<close>: the polling round of a worker and the handshake of workers, removal and source thread on one stream as the
     inductive relation \<open>life_step\<close>, in which taking the lock and looking at a flag are moves of their own, with its invariant
     by rule induction.
   \<^item> \<open>Runtime_Config\<close>, \<open>Runtime_Control\<close>, \<open>Control_Lines\<close>: \<open>runtime.cpp\<close>, the configuration, the operations of a control
     line (\<open>handle_line\<close>), the records they send, the line server and the socket writer. A remove that gives up waiting says
     whether the source thread has ended meanwhile (\<open>remove_wait\<close>). A reply that echoes bytes that are not UTF-8 ends the program
     (\<open>utf8_ok\<close>).
   \<^item> \<open>Runtime_Facts\<close>, \<open>Runtime_Runs\<close>, \<open>Runtime_Properties\<close>: one answer per line, what a refusal changes, the invariant of the
     stream map over runs of lines, frames and reads, removal as the inverse of adding.

  The output of a process without a control socket, and the model's surroundings.
   \<^item> \<open>Event_Json\<close>, \<open>Event_Properties\<close>: \<open>out/event_json.cpp\<close> and the reader of frame records in \<open>out/standalone.cpp\<close>; reads stay inside
     the record, coordinates lie in the picture.
   \<^item> \<open>Standalone\<close>, \<open>Standalone_Properties\<close>: \<open>out/standalone.cpp\<close>, configuration, adding of streams through \<open>handle_line\<close>, records to
     documents, the status; which frames are printed, what goes out last.
   \<^item> \<open>Mqtt_Frame\<close>, \<open>Mqtt_Packets\<close>: \<open>out/mqtt_frame.h\<close> and the encoders of \<open>out/mqtt_lite.cpp\<close>, with a broker's readers and round trips.
   \<^item> \<open>Mqtt_Client\<close>, \<open>Mqtt_Runs\<close>, \<open>Mqtt_Facts\<close>, \<open>Mqtt_Properties\<close>: the publisher of \<open>out/mqtt_lite.cpp\<close>, its operations, the worker's
     loop with its callers as the step relation \<open>mqtt_step\<close>, from the first connection to the end of the shutdown, and the shutdown as a function that is a
     run of these steps (\<open>shut_down_run\<close>); limits, deliveries per message, accounting of the queue.
   \<^item> \<open>Sha256\<close>: \<open>backends/cpu/sha256.cpp\<close> (the RKNN backend has a copy), the digest of a model file, with the standard's padding as reference.
   \<^item> \<open>Cpu_Backend\<close>, \<open>Cpu_Properties\<close>: \<open>backends/cpu/cpu_backend.cpp\<close>, configuration, letterboxed input tensor, outputs with their element types;
     ONNX Runtime is an argument. Reads stay inside frames and tensors.
   \<^item> \<open>Snapshot\<close>: \<open>snapshot.cpp\<close>, the picture of a track, cropped and scaled; reads stay inside the frame.
   \<^item> \<open>Batching\<close>, \<open>Batching_Facts\<close>: \<open>backends/hailo/batch_policy.cpp\<close>, \<open>frame_batcher.cpp\<close>, batch sizes and the frame queues with their
     waiting workers as the step relation \<open>batch_step\<close>; order, accounting and fairness.
   \<^item> \<open>Hailo_Backend\<close>, \<open>Hailo_Config\<close>: \<open>hailo_backend.cpp\<close>, \<open>batched_hailo_runner.cpp\<close>, \<open>runtime_config.h\<close>, \<open>hailo_source.cpp\<close>, the
     configuration, the check of the model's outputs, their dequantisation, a batch through the accelerator (an argument), the text of
     the pipeline; reads stay inside the buffers, an accepted configuration is within its bounds.

  Conventions. A C++ \<open>int\<close> counter is an \<open>int\<close> where the code cannot overflow it in practice, \<open>uint32_t\<close> and
  wider fields on the wire are words. Objects are records whose fields carry a prefix; a method is a function from the
  record to the record, callbacks and emitted records are returned as lists in order. A failing function returns
  \<open>string + 'a\<close>; one that may also throw returns \<open>outcome\<close>. What lies outside the sources is an argument: the JSON
  parser and printer and the math library (\<open>libs\<close>), clocks, the inference, the plugin's callbacks, the order
  \<open>std::sort\<close> gives to ties, the results of sockets. Waits are modelled by their outcome (in time or not). Texts of the
  backend, the sources and the plugins are taken to be UTF-8, so that a reply with them can be printed. Log lines are left out.

  Bounds and fuel. All loops are structural recursions, or \<open>function\<close> with a measure on the remaining input; no
  fuel is used. Waiting loops take the list of what the environment does at each turn.

  Not modelled: sockets, TLS and name lookup of the publisher, whose results are arguments; the JPEG encoder;
  argument parsing and process start (\<open>main.cpp\<close>); the frame sources, the inference sessions of the backends, the RKNN backend, the device calls of the Hailo backend, and
  the Hailo demonstration application, which are glue to ONNX Runtime, the Rockchip and Hailo drivers, GStreamer
  and OpenCV, none of which is part of the sources; thread creation and joins; vendored code.
\<close>

end
